(* ===== verification/Prelude.thy ===== *)
theory Prelude
  imports Main "HOL-Library.Word" "HOL-Library.Multiset"
begin

text \<open>
  Shared vocabulary of the development: the machine integers of the C++ sources as words,
  the overflow builtins of the compiler, the outcome of a call that may throw or spin, and
  the generic facts on words, lists and multisets that the component theories use.

  The collection \<open>word_range\<close> holds the facts that read a wrapped sum as an integer sum
  when the sum is in range, \<open>outcome_simps\<close> the ones that take a composed call apart.
\<close>

named_theorems word_range
named_theorems outcome_simps

unbundle bit_operations_syntax

section \<open>Machine integers\<close>

type_synonym byte = "8 word"
type_synonym uint16 = "16 word"
type_synonym uint32 = "32 word"
type_synonym uint64 = "64 word"
type_synonym int64 = "64 word"
type_synonym uint128 = "128 word"

abbreviation UINT64_MAX :: uint64 where "UINT64_MAX \<equiv> 18446744073709551615"
abbreviation INT64_MAX :: int64 where "INT64_MAX \<equiv> 9223372036854775807"

text \<open>
  The compiler builtins compute the sum (difference) in infinite precision and tell whether
  it fits the type of the third argument. An \<open>int64_t\<close> operand is read with \<^const>\<open>sint\<close>,
  a \<open>uint64_t\<close> operand with \<^const>\<open>uint\<close>.
\<close>

definition fits_int64 :: "int \<Rightarrow> bool" where
  "fits_int64 z \<longleftrightarrow> - (2 ^ 63) \<le> z \<and> z < 2 ^ 63"

definition fits_uint64 :: "int \<Rightarrow> bool" where
  "fits_uint64 z \<longleftrightarrow> 0 \<le> z \<and> z < 2 ^ 64"

definition add_overflow_ss :: "int64 \<Rightarrow> int64 \<Rightarrow> bool" where
  "add_overflow_ss a b \<longleftrightarrow> \<not> fits_int64 (sint a + sint b)"

definition add_overflow_su :: "int64 \<Rightarrow> uint64 \<Rightarrow> bool" where
  "add_overflow_su a b \<longleftrightarrow> \<not> fits_int64 (sint a + uint b)"

definition add_overflow_us :: "uint64 \<Rightarrow> int64 \<Rightarrow> bool" where
  "add_overflow_us a b \<longleftrightarrow> \<not> fits_uint64 (uint a + sint b)"

definition add_overflow_uu :: "uint64 \<Rightarrow> uint64 \<Rightarrow> bool" where
  "add_overflow_uu a b \<longleftrightarrow> \<not> fits_uint64 (uint a + uint b)"

definition sub_overflow_uu :: "uint64 \<Rightarrow> uint64 \<Rightarrow> bool" where
  "sub_overflow_uu a b \<longleftrightarrow> \<not> fits_uint64 (uint a - uint b)"

lemmas overflow_defs = add_overflow_ss_def add_overflow_su_def add_overflow_us_def
  add_overflow_uu_def sub_overflow_uu_def fits_int64_def fits_uint64_def

lemma uint64_bounds: "0 \<le> uint (x :: 64 word)" "uint (x :: 64 word) < 2 ^ 64"
  using uint_range_size[of x] by (simp_all add: word_size)

lemma sint64_bounds: "- (2 ^ 63) \<le> sint (x :: 64 word)" "sint (x :: 64 word) < 2 ^ 63"
  using sint_range_size[of x] by (simp_all add: word_size)

lemma sint_of_fits [word_range]:
  "fits_int64 z \<Longrightarrow> sint (word_of_int z :: 64 word) = z"
  by (simp add: fits_int64_def signed_take_bit_int_eq_self sint_sbintrunc')

lemma sint_add_in_range [word_range]:
  "\<not> add_overflow_ss a b \<Longrightarrow> sint (a + b) = sint a + sint b"
  by (simp add: overflow_defs sint_word_add signed_take_bit_int_eq_self)

lemma sint_diff_in_range [word_range]:
  "fits_int64 (sint a - sint b) \<Longrightarrow> sint (a - b :: 64 word) = sint a - sint b"
  by (simp add: fits_int64_def sint_word_diff signed_take_bit_int_eq_self)

lemma uint_eq_sint_mod: "uint (b :: 64 word) = sint b mod 2 ^ 64"
  using uint_sint[of b] by (simp add: take_bit_eq_mod)

lemma uint_add_signed_in_range [word_range]:
  "\<not> add_overflow_us a b \<Longrightarrow> uint (a + b) = uint a + sint b"
  by (simp add: overflow_defs uint_word_ariths uint_eq_sint_mod[of b] mod_add_right_eq)

lemma sint_add_unsigned_in_range [word_range]:
  "\<not> add_overflow_su a b \<Longrightarrow> sint (a + b) = sint a + uint b"
  using sint_of_fits[of "sint a + uint b"] by (simp add: add_overflow_su_def)

lemma sint_eq_uint_nonneg: "0 \<le> sint (b :: 64 word) \<Longrightarrow> uint b = sint b"
  using sint64_bounds[of b] by (simp add: uint_eq_sint_mod)

lemma two63: "(2 :: int) ^ 63 = 9223372036854775808" and two64: "(2 :: int) ^ 64 = 18446744073709551616"
  by simp_all

lemma sint_eq_uint_small [word_range]: "uint (b :: 64 word) < 2 ^ 63 \<Longrightarrow> sint b = uint b"
proof -
  assume "uint b < 2 ^ 63"
  then have "signed_take_bit 63 (uint b) = uint b"
    by (intro signed_take_bit_int_eq_self order_trans[OF _ uint64_bounds(1)]) simp_all
  then show ?thesis by (simp add: sint_uint)
qed

section \<open>Outcomes of a call\<close>

text \<open>
  A call returns a value, throws, or never returns (a retry loop whose exit condition no
  other thread will ever make true). \<open>Terminate\<close> is the end of the process: an exception that
  leaves a destructor, or an explicit \<open>std::abort\<close>.
\<close>

datatype exn = RuntimeError string | HostError string | Terminate string

datatype 'a outcome = Ret 'a | Throw exn | Diverge

fun obind :: "'a outcome \<Rightarrow> ('a \<Rightarrow> 'b outcome) \<Rightarrow> 'b outcome" where
  "obind (Ret x) f = f x"
| "obind (Throw e) f = Throw e"
| "obind Diverge f = Diverge"

lemma obind_Ret_iff [outcome_simps]:
  "obind m f = Ret y \<longleftrightarrow> (\<exists>x. m = Ret x \<and> f x = Ret y)"
  by (cases m) auto

lemma obind_assoc: "obind (obind m f) g = obind m (\<lambda>x. obind (f x) g)"
  by (cases m) auto

section \<open>Ordered maps\<close>

text \<open>
  \<open>std::map\<close> is iterated in key order, so it is an association list whose keys ascend
  strictly. \<open>omap_set\<close> is \<open>operator[]\<close> assignment, \<open>omap_emplace\<close> leaves an
  existing entry alone, \<open>omap_erase\<close> removes a key.
\<close>

type_synonym ('k, 'v) omap = "('k \<times> 'v) list"

definition omap_ok :: "('k :: linorder, 'v) omap \<Rightarrow> bool" where
  "omap_ok m \<longleftrightarrow> sorted_wrt (<) (map fst m)"

fun omap_set :: "'k :: linorder \<Rightarrow> 'v \<Rightarrow> ('k, 'v) omap \<Rightarrow> ('k, 'v) omap" where
  "omap_set k v [] = [(k, v)]"
| "omap_set k v ((k', v') # m) =
     (if k < k' then (k, v) # (k', v') # m
      else if k = k' then (k, v) # m
      else (k', v') # omap_set k v m)"

definition omap_emplace :: "'k :: linorder \<Rightarrow> 'v \<Rightarrow> ('k, 'v) omap \<Rightarrow> ('k, 'v) omap" where
  "omap_emplace k v m = (case map_of m k of None \<Rightarrow> omap_set k v m | Some _ \<Rightarrow> m)"

definition omap_erase :: "'k \<Rightarrow> ('k, 'v) omap \<Rightarrow> ('k, 'v) omap" where
  "omap_erase k m = filter (\<lambda>(k', v). k' \<noteq> k) m"

lemma map_of_omap_set [simp]: "map_of (omap_set k v m) = (map_of m)(k \<mapsto> v)"
  by (induction k v m rule: omap_set.induct) (auto simp: fun_eq_iff)

lemma set_fst_omap_set [simp]: "fst ` set (omap_set k v m) = insert k (fst ` set m)"
  by (metis dom_fun_upd dom_map_of_conv_image_fst map_of_omap_set option.simps(3))

lemma omap_ok_Nil [simp]: "omap_ok []"
  by (simp add: omap_ok_def)

lemma omap_ok_set [simp]: "omap_ok m \<Longrightarrow> omap_ok (omap_set k v m)"
proof (induction k v m rule: omap_set.induct)
  case (2 k v k' v' m)
  have mem: "x \<in> set (map fst (omap_set k v m)) \<Longrightarrow> x = k \<or> x \<in> set (map fst m)" for x
    using set_fst_omap_set[of k v m] by auto
  show ?case using 2 mem by (auto simp: omap_ok_def)
qed (simp add: omap_ok_def)

lemma omap_ok_distinct: "omap_ok m \<Longrightarrow> distinct (map fst m)"
  by (simp add: omap_ok_def strict_sorted_iff)

lemma omap_ok_emplace [simp]: "omap_ok m \<Longrightarrow> omap_ok (omap_emplace k v m)"
  by (simp add: omap_emplace_def split: option.split)

lemma map_of_omap_emplace:
  "map_of (omap_emplace k v m) =
     (case map_of m k of None \<Rightarrow> (map_of m)(k \<mapsto> v) | Some _ \<Rightarrow> map_of m)"
  by (simp add: omap_emplace_def split: option.split)

lemma map_of_omap_erase [simp]: "map_of (omap_erase k m) = (map_of m)(k := None)"
  by (induction m) (auto simp: omap_erase_def fun_eq_iff)

lemma omap_ok_erase [simp]: "omap_ok m \<Longrightarrow> omap_ok (omap_erase k m)"
  by (induction m) (auto simp: omap_ok_def omap_erase_def)

end
