(* ===== verification/Storage.thy ===== *)
theory Storage
  imports Prelude
begin

text \<open>
  The data of the ledger: storage objects, the deltas transactions apply to them and the
  delta classes that decide whether two deltas may share a block (\<open>xdr/storage.x\<close>,
  \<open>xdr/storage_delta.x\<close>), the constructors of deltas (\<open>object/make_delta.cc\<close>), the
  order on hash set entries (\<open>object/comparators.cc\<close>) and the object a delta class
  starts from (\<open>object/object_defaults.cc\<close>).

  A 32-byte opaque value (hash, address, key) is a 256-bit word, its bytes read big-endian,
  so that the lexicographic order of \<open>std::array\<close> is the order of the words.
\<close>

section \<open>Objects, deltas and delta classes\<close>

type_synonym Hash = "256 word"
type_synonym Address = "256 word"
type_synonym InvariantKey = "256 word"
type_synonym AddressAndKey = "512 word"

datatype ObjectType =
    RAW_MEMORY | NONNEGATIVE_INT64 | HASH_SET | UNCONSTRAINED_INT64 | KNOWN_SUPPLY_ASSET

datatype DeltaType =
    DT_DELETE_LAST | DT_RAW_MEMORY_WRITE | DT_NONNEGATIVE_INT64_SET_ADD
  | DT_HASH_SET_INSERT | DT_HASH_SET_INCREASE_LIMIT | DT_HASH_SET_CLEAR
  | DT_UNCONSTRAINED_INT64_SET_ADD | DT_UNCONSTRAINED_INT64_SET_MAX
  | DT_UNCONSTRAINED_INT64_SET_XOR | DT_ASSET_OBJECT_ADD

datatype HashSetEntry = HashSetEntry (hash: Hash) (index: uint64)

record HashSet =
  hashes :: "HashSetEntry list"
  max_size :: uint32

datatype ObjectBody =
    raw_memory_storage "byte list"
  | nonnegative_int64 int64
  | hash_set HashSet
  | unconstrained_int64 int64
  | asset uint64

record StorageObject =
  body :: ObjectBody
  escrowed_fee :: uint64

datatype StorageDelta =
    DELETE_LAST
  | RAW_MEMORY_WRITE "byte list"
  | NONNEGATIVE_INT64_SET_ADD int64 int64
  | HASH_SET_INSERT HashSetEntry
  | HASH_SET_INCREASE_LIMIT uint32
  | HASH_SET_CLEAR uint64
  | UNCONSTRAINED_INT64_SET_ADD int64 int64
  | UNCONSTRAINED_INT64_SET_MAX int64 int64
  | UNCONSTRAINED_INT64_SET_XOR int64 uint64
  | ASSET_OBJECT_ADD int64

datatype StorageDeltaClass =
    DC_RAW_MEMORY "byte list"
  | DC_NONNEGATIVE_INT64 int64
  | DC_HASH_SET
  | DC_UNCONSTRAINED_INT64 int64 DeltaType
  | DC_KNOWN_SUPPLY_ASSET

definition RAW_MEMORY_MAX_LEN :: nat where "RAW_MEMORY_MAX_LEN = 4096"
definition MAX_HASH_SET_SIZE :: nat where "MAX_HASH_SET_SIZE = 65535"
definition START_HASH_SET_SIZE :: nat where "START_HASH_SET_SIZE = 64"

fun body_type :: "ObjectBody \<Rightarrow> ObjectType" where
  "body_type (raw_memory_storage _) = RAW_MEMORY"
| "body_type (nonnegative_int64 _) = NONNEGATIVE_INT64"
| "body_type (hash_set _) = HASH_SET"
| "body_type (unconstrained_int64 _) = UNCONSTRAINED_INT64"
| "body_type (asset _) = KNOWN_SUPPLY_ASSET"

fun dc_type :: "StorageDeltaClass \<Rightarrow> ObjectType" where
  "dc_type (DC_RAW_MEMORY _) = RAW_MEMORY"
| "dc_type (DC_NONNEGATIVE_INT64 _) = NONNEGATIVE_INT64"
| "dc_type DC_HASH_SET = HASH_SET"
| "dc_type (DC_UNCONSTRAINED_INT64 _ _) = UNCONSTRAINED_INT64"
| "dc_type DC_KNOWN_SUPPLY_ASSET = KNOWN_SUPPLY_ASSET"

text \<open>The deltas the database implements; the unconstrained integers are declared but never handled.\<close>

fun supported :: "StorageDelta \<Rightarrow> bool" where
  "supported (UNCONSTRAINED_INT64_SET_ADD _ _) = False"
| "supported (UNCONSTRAINED_INT64_SET_MAX _ _) = False"
| "supported (UNCONSTRAINED_INT64_SET_XOR _ _) = False"
| "supported _ = True"

section \<open>The order on hash set entries\<close>

text \<open>The three-way comparison of entries (\<open>object/comparators.cc\<close>), and the linear order it gives.\<close>

datatype strong_ordering = less_than | equivalent | greater_than

definition spaceship :: "'a :: linorder \<Rightarrow> 'a \<Rightarrow> strong_ordering" where
  "spaceship x y = (if x < y then less_than else if x = y then equivalent else greater_than)"

definition compare_entries :: "HashSetEntry \<Rightarrow> HashSetEntry \<Rightarrow> strong_ordering" where
  "compare_entries d1 d2 =
     (let res = spaceship (index d1) (index d2)
      in if res \<noteq> equivalent then res else spaceship (hash d1) (hash d2))"

instantiation HashSetEntry :: linorder
begin

definition less_eq_HashSetEntry :: "HashSetEntry \<Rightarrow> HashSetEntry \<Rightarrow> bool" where
  "d1 \<le> d2 \<longleftrightarrow> compare_entries d1 d2 \<noteq> greater_than"

definition less_HashSetEntry :: "HashSetEntry \<Rightarrow> HashSetEntry \<Rightarrow> bool" where
  "d1 < d2 \<longleftrightarrow> compare_entries d1 d2 = less_than"

instance
  by intro_classes
    (auto simp: less_eq_HashSetEntry_def less_HashSetEntry_def compare_entries_def spaceship_def Let_def
      intro: HashSetEntry.expand split: if_splits)

end

lemma entry_le_index: "(d1 :: HashSetEntry) \<le> d2 \<Longrightarrow> index d1 \<le> index d2"
  by (auto simp: less_eq_HashSetEntry_def compare_entries_def spaceship_def Let_def split: if_splits)

section \<open>Constructors of deltas\<close>

definition make_raw_memory_write :: "byte list \<Rightarrow> StorageDelta" where
  "make_raw_memory_write d = RAW_MEMORY_WRITE d"

definition make_delete_last :: StorageDelta where
  "make_delete_last = DELETE_LAST"

definition make_nonnegative_int64_set_add :: "int64 \<Rightarrow> int64 \<Rightarrow> StorageDelta" where
  "make_nonnegative_int64_set_add st add = NONNEGATIVE_INT64_SET_ADD st add"

definition make_hash_set_insert :: "Hash \<Rightarrow> uint64 \<Rightarrow> StorageDelta" where
  "make_hash_set_insert h threshold = HASH_SET_INSERT (HashSetEntry h threshold)"

definition make_hash_set_insert_entry :: "HashSetEntry \<Rightarrow> StorageDelta" where
  "make_hash_set_insert_entry entry = HASH_SET_INSERT entry"

definition make_hash_set_increase_limit :: "uint16 \<Rightarrow> StorageDelta" where
  "make_hash_set_increase_limit limit = HASH_SET_INCREASE_LIMIT (ucast limit)"

definition make_hash_set_clear :: "uint64 \<Rightarrow> StorageDelta" where
  "make_hash_set_clear threshold = HASH_SET_CLEAR threshold"

definition make_asset_add :: "int64 \<Rightarrow> StorageDelta" where
  "make_asset_add delta = ASSET_OBJECT_ADD delta"

lemmas make_delta_defs = make_raw_memory_write_def make_delete_last_def
  make_nonnegative_int64_set_add_def make_hash_set_insert_def make_hash_set_insert_entry_def
  make_hash_set_increase_limit_def make_hash_set_clear_def make_asset_add_def

section \<open>The object a delta class starts from\<close>

text \<open>
  The new object is value-initialised, so its \<open>escrowed_fee\<close> is 0 whatever the previous
  object held.
\<close>

definition prev_hash_set :: "StorageObject option \<Rightarrow> HashSet" where
  "prev_hash_set prev = (case prev of
       Some o1 \<Rightarrow> (case body o1 of hash_set hs \<Rightarrow> hs
                  | _ \<Rightarrow> \<lparr>hashes = [], max_size = of_nat START_HASH_SET_SIZE\<rparr>)
     | None \<Rightarrow> \<lparr>hashes = [], max_size = of_nat START_HASH_SET_SIZE\<rparr>)"

definition prev_asset :: "StorageObject option \<Rightarrow> uint64" where
  "prev_asset prev = (case prev of
       Some o1 \<Rightarrow> (case body o1 of asset a \<Rightarrow> a | _ \<Rightarrow> 0)
     | None \<Rightarrow> 0)"

definition object_from_delta_class ::
    "StorageDeltaClass \<Rightarrow> StorageObject option \<Rightarrow> StorageObject outcome" where
  "object_from_delta_class dc prev =
     (if (case prev of Some o1 \<Rightarrow> body_type (body o1) \<noteq> dc_type dc | None \<Rightarrow> False)
      then Throw (RuntimeError ''type mismatch in object_from_delta_class'')
      else (case dc of
          DC_RAW_MEMORY d \<Rightarrow> Ret \<lparr>body = raw_memory_storage d, escrowed_fee = 0\<rparr>
        | DC_NONNEGATIVE_INT64 v \<Rightarrow> Ret \<lparr>body = nonnegative_int64 v, escrowed_fee = 0\<rparr>
        | DC_HASH_SET \<Rightarrow> Ret \<lparr>body = hash_set (prev_hash_set prev), escrowed_fee = 0\<rparr>
        | DC_KNOWN_SUPPLY_ASSET \<Rightarrow> Ret \<lparr>body = asset (prev_asset prev), escrowed_fee = 0\<rparr>
        | DC_UNCONSTRAINED_INT64 _ _ \<Rightarrow>
            Throw (RuntimeError ''unimpl sdc object_defaults.cc'')))"

text \<open>Within a matching type the hash set and the asset are those of the previous object.\<close>

lemma object_from_delta_class_type:
  "object_from_delta_class dc prev = Ret ob \<Longrightarrow> body_type (body ob) = dc_type dc"
  by (auto simp: object_from_delta_class_def split: if_splits StorageDeltaClass.splits)

lemma object_from_delta_class_prev:
  "object_from_delta_class dc (Some o1) = Ret ob \<Longrightarrow> body_type (body o1) = dc_type dc"
  by (auto simp: object_from_delta_class_def split: if_splits)

end
