(* ===== verification/ThreadLocal.thy ===== *)
theory ThreadLocal
  imports Storage
begin

text \<open>
  Per-thread services and counters below the objects: unique tags (\<open>threadlocal/uid.h\<close>),
  the block allocator of hash set entries (\<open>threadlocal/allocator.h\<close>) and the two-word
  counter (\<open>utils/atomic_uint128.h\<close>). The identifier of a thread is the parameter \<open>tid\<close>;
  there are at most \<open>TLCACHE_SIZE\<close> of them.
\<close>

section \<open>Unique identifiers\<close>

definition TLCACHE_SIZE :: nat where "TLCACHE_SIZE = 512"
definition TLCACHE_BITS_REQUIRED :: nat where "TLCACHE_BITS_REQUIRED = 9"

type_synonym uid = uint64

definition uid_new :: "nat \<Rightarrow> uid" where
  "uid_new tid = push_bit 55 (of_nat tid)"

definition uid_get :: "uid \<Rightarrow> uint64 \<times> uid" where
  "uid_get u = (let id = u + push_bit 16 1 in (id, id))"

fun uid_after :: "nat \<Rightarrow> nat \<Rightarrow> uid" where
  "uid_after tid 0 = uid_new tid"
| "uid_after tid (Suc n) = snd (uid_get (uid_after tid n))"

definition uid_ok :: "uid \<Rightarrow> bool" where
  "uid_ok u \<longleftrightarrow> u AND 0xFFFF = 0"

lemma and_mask16: "(x :: 64 word) AND 0xFFFF = take_bit 16 x"
  by (simp add: take_bit_eq_mask mask_eq_exp_minus_1)

lemma unat_and_mask16: "unat ((x :: 64 word) AND 0xFFFF) = unat x mod 65536"
  by (simp add: and_mask16 unsigned_take_bit_eq take_bit_nat_def)

lemma uid_ok_iff: "uid_ok u \<longleftrightarrow> unat u mod 65536 = 0"
  unfolding uid_ok_def using unat_and_mask16[of u] by (metis unat_eq_zero)

lemma unat_add_mod16: "unat ((x :: 64 word) + y) mod 65536 = (unat x + unat y) mod 65536"
proof -
  have "(65536::nat) dvd 2 ^ 64" by simp
  then show ?thesis by (simp add: unat_word_ariths mod_mod_cancel)
qed

lemma uid_ok_get [simp]: "uid_ok u \<Longrightarrow> uid_ok (snd (uid_get u))"
  using unat_add_mod16[of u "push_bit 16 1"]
  by (simp add: uid_ok_iff uid_get_def Let_def push_bit_eq_mult)

lemma fst_uid_get: "fst (uid_get u) = snd (uid_get u)"
  by (simp add: uid_get_def Let_def)

lemma unat_uid_after:
  assumes "tid < TLCACHE_SIZE" "n < 2 ^ 39"
  shows "unat (uid_after tid n) = tid * 2 ^ 55 + n * 2 ^ 16"
  using assms(2)
proof (induction n)
  case 0
  have "unat (of_nat tid :: 64 word) = tid"
    using assms(1) by (simp add: unat_of_nat TLCACHE_SIZE_def)
  then show ?case using assms(1)
    by (simp add: uid_new_def unsigned_push_bit_eq TLCACHE_SIZE_def take_bit_nat_def push_bit_nat_def)
next
  case (Suc n)
  then have u: "unat (uid_after tid n) = tid * 2 ^ 55 + n * 2 ^ 16" by simp
  have "tid * 2 ^ 55 + n * 2 ^ 16 + 2 ^ 16 < 2 ^ 64"
    using assms(1) Suc.prems by (simp add: TLCACHE_SIZE_def)
  then show ?case using u
    by (simp add: uid_get_def Let_def push_bit_eq_mult unat_word_ariths)
qed

lemma uid_ok_after: "tid < TLCACHE_SIZE \<Longrightarrow> uid_ok (uid_after tid n)"
proof (induction n)
  case 0
  then show ?case using unat_uid_after[of tid 0] by (simp add: uid_ok_iff mod_mult_self1_is_0 mod_eq_0_iff_dvd)
qed simp

section \<open>The two-word counter\<close>

record AtomicUint128 =
  lowbits :: uint64
  highbits :: uint64

definition u128_new :: AtomicUint128 where
  "u128_new = \<lparr>lowbits = 0, highbits = 0\<rparr>"

definition u128_add :: "uint64 \<Rightarrow> AtomicUint128 \<Rightarrow> AtomicUint128" where
  "u128_add v a =
     (let prev_lowbits = lowbits a; a1 = a\<lparr>lowbits := lowbits a + v\<rparr>
      in if add_overflow_uu prev_lowbits v then a1\<lparr>highbits := highbits a1 + 1\<rparr> else a1)"

definition u128_sub :: "uint64 \<Rightarrow> AtomicUint128 \<Rightarrow> AtomicUint128" where
  "u128_sub v a =
     (let prev_lowbits = lowbits a; a1 = a\<lparr>lowbits := lowbits a - v\<rparr>
      in if sub_overflow_uu prev_lowbits v then a1\<lparr>highbits := highbits a1 - 1\<rparr> else a1)"

definition u128_fetch_cap :: "AtomicUint128 \<Rightarrow> uint64" where
  "u128_fetch_cap a = (if highbits a > 0 then UINT64_MAX else lowbits a)"

definition u128_clear :: "AtomicUint128 \<Rightarrow> AtomicUint128" where
  "u128_clear a = a\<lparr>highbits := 0, lowbits := 0\<rparr>"

definition u128_value :: "AtomicUint128 \<Rightarrow> uint128" where
  "u128_value a = word_of_int (uint (highbits a) * 2 ^ 64 + uint (lowbits a))"

lemma high_mod: "(x mod 2 ^ 64) * 2 ^ 64 = (x * 2 ^ 64) mod (2 :: int) ^ 128"
  using mult_mod_right[of "2 ^ 64" x "2 ^ 64 :: int"] by (simp add: mult.commute)

lemma word128_eqI: "x mod 2 ^ 128 = y mod 2 ^ 128 \<Longrightarrow> (word_of_int x :: 128 word) = word_of_int y"
  by (simp add: word_of_int_eq_iff take_bit_eq_mod)

lemma word128_high:
  "(word_of_int (uint (word_of_int x :: 64 word) * 2 ^ 64 + y) :: 128 word) =
     word_of_int (x * 2 ^ 64 + y)"
  by (rule word128_eqI) (simp only: uint_word_of_int_eq take_bit_eq_mod len_bit0 len_num1
      high_mod mod_add_left_eq mult_1_right numeral_times_numeral semiring_norm num_double mult_2)

lemma u128_value_add [simp]: "u128_value (u128_add v a) = u128_value a + ucast v"
proof -
  have lo: "uint (lowbits a + v) = (if add_overflow_uu (lowbits a) v
      then uint (lowbits a) + uint v - 2 ^ 64 else uint (lowbits a) + uint v)"
    using uint64_bounds[of "lowbits a"] uint64_bounds[of v]
    by (auto simp: overflow_defs uint_plus_if')
  have hi: "highbits a + 1 = word_of_int (uint (highbits a) + 1)" by simp
  have "u128_value (u128_add v a) = word_of_int (uint (highbits a) * 2 ^ 64 + (uint (lowbits a) + uint v))"
  proof (cases "add_overflow_uu (lowbits a) v")
    case True
    then have "u128_value (u128_add v a) =
        word_of_int (uint (highbits a + 1) * 2 ^ 64 + (uint (lowbits a) + uint v - 2 ^ 64))"
      unfolding u128_value_def u128_add_def using lo by (simp add: Let_def)
    also have "\<dots> = word_of_int ((uint (highbits a) + 1) * 2 ^ 64 + (uint (lowbits a) + uint v - 2 ^ 64))"
      unfolding hi by (rule word128_high)
    also have "(uint (highbits a) + 1) * 2 ^ 64 + (uint (lowbits a) + uint v - 2 ^ 64) =
        uint (highbits a) * 2 ^ 64 + (uint (lowbits a) + uint v)" by simp
    finally show ?thesis .
  next
    case False
    with lo show ?thesis by (simp add: u128_value_def u128_add_def Let_def)
  qed
  then show ?thesis by (simp add: u128_value_def)
qed

lemma u128_value_sub [simp]: "u128_value (u128_sub v a) = u128_value a - ucast v"
proof -
  have lo: "uint (lowbits a - v) = (if sub_overflow_uu (lowbits a) v
      then uint (lowbits a) - uint v + 2 ^ 64 else uint (lowbits a) - uint v)"
  proof -
    have "uint (lowbits a) - uint v < 2 ^ 64"
      using uint64_bounds(1)[of v] uint64_bounds(2)[of "lowbits a"] by linarith
    then show ?thesis by (simp add: overflow_defs uint_sub_if')
  qed
  have hi: "highbits a - 1 = word_of_int (uint (highbits a) - 1)" by simp
  have "u128_value (u128_sub v a) = word_of_int (uint (highbits a) * 2 ^ 64 + (uint (lowbits a) - uint v))"
  proof (cases "sub_overflow_uu (lowbits a) v")
    case True
    then have "u128_value (u128_sub v a) =
        word_of_int (uint (highbits a - 1) * 2 ^ 64 + (uint (lowbits a) - uint v + 2 ^ 64))"
      unfolding u128_value_def u128_sub_def using lo by (simp add: Let_def)
    also have "\<dots> = word_of_int ((uint (highbits a) - 1) * 2 ^ 64 + (uint (lowbits a) - uint v + 2 ^ 64))"
      unfolding hi by (rule word128_high)
    also have "(uint (highbits a) - 1) * 2 ^ 64 + (uint (lowbits a) - uint v + 2 ^ 64) =
        uint (highbits a) * 2 ^ 64 + (uint (lowbits a) - uint v)" by simp
    finally show ?thesis .
  next
    case False
    with lo show ?thesis by (simp add: u128_value_def u128_sub_def Let_def)
  qed
  then show ?thesis by (simp add: u128_value_def)
qed

lemma u128_value_new [simp]: "u128_value u128_new = 0"
  by (simp add: u128_value_def u128_new_def)

lemma u128_value_clear [simp]: "u128_value (u128_clear a) = 0"
  by (simp add: u128_value_def u128_clear_def)

text \<open>The counter is determined by its value, and reading it saturates at \<open>UINT64_MAX\<close>.\<close>

lemma uint_u128_value: "uint (u128_value a) = uint (highbits a) * 2 ^ 64 + uint (lowbits a)"
proof -
  have "0 \<le> uint (highbits a) * 2 ^ 64 + uint (lowbits a)"
    "uint (highbits a) * 2 ^ 64 + uint (lowbits a) < 2 ^ 128"
    using uint64_bounds[of "highbits a"] uint64_bounds[of "lowbits a"] by auto
  then show ?thesis unfolding u128_value_def uint_word_of_int_eq
    by (simp add: take_bit_int_eq_self)
qed

lemma u128_fetch_cap_value:
  "uint (u128_fetch_cap a) = min (uint (u128_value a)) (2 ^ 64 - 1)"
proof (cases "highbits a = 0")
  case True
  then show ?thesis using uint64_bounds[of "lowbits a"]
    by (simp add: u128_fetch_cap_def uint_u128_value min_def)
next
  case False
  then have "1 \<le> uint (highbits a)"
    using uint64_bounds[of "highbits a"] by (metis int_one_le_iff_zero_less order_le_less uint_0_iff)
  then have "1 * 2 ^ 64 \<le> uint (highbits a) * 2 ^ 64" by (rule mult_right_mono) simp
  moreover have "0 \<le> uint (lowbits a)" by simp
  ultimately have "2 ^ 64 - 1 \<le> uint (u128_value a)" unfolding uint_u128_value by linarith
  then show ?thesis using False
    by (simp add: u128_fetch_cap_def word_neq_0_conv[symmetric] min_def)
qed

section \<open>The allocator of hash set entries\<close>

text \<open>
  Each thread owns a buffer of one million entries; a handle is the position in the buffer
  plus the thread's identifier in the top nine bits. The buffers of the threads are the map
  \<open>cache\<close>, filled on a thread's first call; \<open>d\<close> is the value a fresh buffer holds.
\<close>

definition alloc_size :: nat where "alloc_size = 1000000"

definition BUFFER_BITS :: nat where "BUFFER_BITS = 32 - TLCACHE_BITS_REQUIRED"

definition buffer_mask :: uint32 where "buffer_mask = drop_bit TLCACHE_BITS_REQUIRED 0xFFFFFFFF"

record 'a ThreadlocalBlockAllocator =
  offset :: uint32
  buffer :: "nat \<Rightarrow> 'a"
  buffer_idx :: uint32

type_synonym 'a BlockAllocator = "nat \<Rightarrow> 'a ThreadlocalBlockAllocator option"

definition tl_allocator_new :: "'a \<Rightarrow> nat \<Rightarrow> 'a ThreadlocalBlockAllocator" where
  "tl_allocator_new d tid =
     \<lparr>offset = 0, buffer = (\<lambda>_. d), buffer_idx = push_bit (32 - TLCACHE_BITS_REQUIRED) (of_nat tid)\<rparr>"

definition tl_allocate :: "'a \<Rightarrow> 'a ThreadlocalBlockAllocator \<Rightarrow>
    (uint32 \<times> 'a ThreadlocalBlockAllocator) outcome" where
  "tl_allocate h a =
     (if unat (offset a) \<ge> alloc_size then Throw (RuntimeError ''alloc max reached'')
      else
        let a1 = a\<lparr>offset := offset a + 1\<rparr>;
            a2 = a1\<lparr>buffer := (buffer a1)(unat (offset a1 - 1) := h)\<rparr>;
            out = offset a2
        in Ret (out + buffer_idx a2, a2))"

definition tl_get :: "uint32 \<Rightarrow> 'a ThreadlocalBlockAllocator \<Rightarrow> 'a" where
  "tl_get idx a = buffer a (unat (idx - 1))"

definition allocate :: "'a \<Rightarrow> nat \<Rightarrow> 'a \<Rightarrow> 'a BlockAllocator \<Rightarrow> (uint32 \<times> 'a BlockAllocator) outcome" where
  "allocate d tid h cache =
     (let a = (case cache tid of None \<Rightarrow> tl_allocator_new d tid | Some a \<Rightarrow> a)
      in obind (tl_allocate h a) (\<lambda>(i, a'). Ret (i, cache(tid \<mapsto> a'))))"

definition get_hash :: "uint32 \<Rightarrow> 'a BlockAllocator \<Rightarrow> 'a outcome" where
  "get_hash idx cache =
     (case cache (unat (drop_bit BUFFER_BITS idx)) of
        None \<Rightarrow> Throw (RuntimeError ''invalid HashAllocator access'')
      | Some a \<Rightarrow> Ret (tl_get (idx AND buffer_mask) a))"

definition allocator_reset :: "'a BlockAllocator \<Rightarrow> 'a BlockAllocator" where
  "allocator_reset cache = (\<lambda>tid. map_option (\<lambda>a. a\<lparr>offset := 0\<rparr>) (cache tid))"

definition handle :: "nat \<Rightarrow> nat \<Rightarrow> uint32" where
  "handle tid k = of_nat k + push_bit 23 (of_nat tid)"

definition handles :: "'a BlockAllocator \<Rightarrow> uint32 set" where
  "handles cache = {handle tid k | tid k a. cache tid = Some a \<and> 1 \<le> k \<and> k \<le> unat (offset a)}"

definition allocator_ok :: "'a BlockAllocator \<Rightarrow> bool" where
  "allocator_ok cache \<longleftrightarrow> (\<forall>tid a. cache tid = Some a \<longrightarrow> tid < TLCACHE_SIZE \<and>
     unat (offset a) \<le> alloc_size \<and> buffer_idx a = push_bit 23 (of_nat tid))"

lemma unat_handle: "tid < TLCACHE_SIZE \<Longrightarrow> k \<le> alloc_size \<Longrightarrow> unat (handle tid k) = k + tid * 8388608"
  by (simp add: handle_def TLCACHE_SIZE_def alloc_size_def unat_word_ariths unat_of_nat
      push_bit_eq_mult)

lemma handle_thread:
  assumes "tid < TLCACHE_SIZE" "k \<le> alloc_size"
  shows "unat (drop_bit BUFFER_BITS (handle tid k)) = tid"
proof -
  have "unat (drop_bit BUFFER_BITS (handle tid k)) = unat (handle tid k) div 2 ^ 23"
    by (simp only: unat_drop_bit_eq drop_bit_nat_def BUFFER_BITS_def TLCACHE_BITS_REQUIRED_def) simp
  then show ?thesis using assms by (simp add: unat_handle alloc_size_def)
qed

lemma buffer_mask_eq: "(x :: uint32) AND buffer_mask = take_bit 23 x"
  by (simp add: buffer_mask_def TLCACHE_BITS_REQUIRED_def take_bit_eq_mask mask_eq_exp_minus_1)

lemma handle_position:
  assumes "tid < TLCACHE_SIZE" "k \<le> alloc_size"
  shows "unat (handle tid k AND buffer_mask) = k"
proof -
  have "unat (handle tid k AND buffer_mask) = unat (handle tid k) mod 2 ^ 23"
    by (simp add: buffer_mask_eq unsigned_take_bit_eq take_bit_nat_def)
  also have "\<dots> = (k + tid * 8388608) mod 8388608" using unat_handle[OF assms] by simp
  finally show ?thesis using assms by (simp add: alloc_size_def)
qed

lemma handle_inj:
  assumes "tid < TLCACHE_SIZE" "k \<le> alloc_size" "tid' < TLCACHE_SIZE" "k' \<le> alloc_size"
  shows "handle tid k = handle tid' k' \<longleftrightarrow> tid = tid' \<and> k = k'"
  using assms by (metis handle_position handle_thread)

lemma handle_not_reserved:
  assumes "tid < TLCACHE_SIZE" "1 \<le> k" "k \<le> alloc_size"
  shows "handle tid k \<noteq> 0" "handle tid k \<noteq> 0xFFFFFFFF"
proof -
  show "handle tid k \<noteq> 0" using assms unat_handle[of tid k] by (metis add_is_0 not_one_le_zero unsigned_0)
  have "unat (0xFFFFFFFF AND buffer_mask) = 8388607"
    by (simp add: buffer_mask_def TLCACHE_BITS_REQUIRED_def)
  then show "handle tid k \<noteq> 0xFFFFFFFF" using handle_position[OF assms(1,3)] assms(3)
    by (auto simp: alloc_size_def)
qed

lemma get_hash_handle:
  assumes "cache tid = Some a" "tid < TLCACHE_SIZE" "1 \<le> k" "k \<le> alloc_size"
  shows "get_hash (handle tid k) cache = Ret (buffer a (k - 1))"
proof -
  have "unat ((handle tid k AND buffer_mask) - 1) = k - 1"
    using handle_position[OF assms(2,4)] assms(3) by (metis unat_minus_one not_one_le_zero unat_0)
  then show ?thesis using assms handle_thread[OF assms(2,4)] by (simp add: get_hash_def tl_get_def)
qed

section \<open>Properties\<close>

text \<open>
  An allocation either reports exhaustion of the calling thread's million entries or
  returns a fresh handle, different from every live one and from the two values the set
  reserves (0 and the tombstone), that reads back the stored entry; every handle handed out
  before, by any thread, still reads the entry it did.
\<close>

theorem allocate_fresh:
  assumes ok: "allocator_ok cache" and tid: "tid < TLCACHE_SIZE"
  shows "(case allocate d tid h cache of
      Ret (i, cache') \<Rightarrow> allocator_ok cache' \<and> get_hash i cache' = Ret h \<and> i \<notin> handles cache \<and>
        handles cache' = insert i (handles cache) \<and> i \<noteq> 0 \<and> i \<noteq> 0xFFFFFFFF \<and>
        (\<forall>j \<in> handles cache. get_hash j cache' = get_hash j cache)
    | Throw e \<Rightarrow> \<exists>a. cache tid = Some a \<and> unat (offset a) = alloc_size
    | Diverge \<Rightarrow> False)"
proof -
  define a where "a = (case cache tid of None \<Rightarrow> tl_allocator_new d tid | Some a \<Rightarrow> a)"
  have a: "unat (offset a) \<le> alloc_size" "buffer_idx a = push_bit 23 (of_nat tid)"
    using ok by (auto simp: a_def allocator_ok_def tl_allocator_new_def TLCACHE_BITS_REQUIRED_def
        split: option.splits)
  show ?thesis
  proof (cases "unat (offset a) = alloc_size")
    case True
    then have "cache tid = Some a"
      by (auto simp: a_def tl_allocator_new_def alloc_size_def split: option.splits)
    with True show ?thesis by (simp add: allocate_def tl_allocate_def a_def[symmetric])
  next
    case False
    define n where "n = unat (offset a)"
    define a' where "a' = a\<lparr>offset := offset a + 1, buffer := (buffer a)(n := h)\<rparr>"
    have n: "n < alloc_size" using False a(1) n_def by simp
    have n1: "unat (offset a + 1) = Suc n"
      using n by (simp add: n_def alloc_size_def unat_word_ariths)
    have off: "handle tid (Suc n) = offset a + 1 + buffer_idx a"
      unfolding handle_def a(2) n1[symmetric] by (simp only: of_nat_unat ucast_id)
    have run: "allocate d tid h cache = Ret (handle tid (Suc n), cache(tid \<mapsto> a'))"
      using n by (simp add: allocate_def tl_allocate_def a_def[symmetric] n_def[symmetric]
          a'_def off)
    have live: "handles (cache(tid \<mapsto> a')) = insert (handle tid (Suc n)) (handles cache)"
    proof -
      have "cache tid = Some b \<Longrightarrow> n = unat (offset b)" for b by (simp add: n_def a_def)
      moreover have "cache tid = None \<Longrightarrow> n = 0"
        by (simp add: n_def a_def tl_allocator_new_def)
      ultimately show ?thesis unfolding handles_def using n1
        by (auto simp: a'_def le_Suc_eq split: if_splits) (metis le_zero_eq not_Some_eq not_one_le_zero)+
    qed
    have old: "get_hash j (cache(tid \<mapsto> a')) = get_hash j cache \<and> j \<noteq> handle tid (Suc n)"
      if j: "j \<in> handles cache" for j
    proof -
      obtain t k b where b: "j = handle t k" "cache t = Some b" "1 \<le> k" "k \<le> unat (offset b)"
        using j by (auto simp: handles_def)
      have t: "t < TLCACHE_SIZE" "k \<le> alloc_size" using ok b unfolding allocator_ok_def by (blast intro: le_trans)+
      have same: "t = tid \<Longrightarrow> b = a \<and> k \<le> n" using b by (auto simp: a_def n_def)
      have "buffer a' (k - 1) = buffer a (k - 1)" if "k \<le> n" using b(3) that by (auto simp: a'_def)
      then show ?thesis
        using get_hash_handle[of cache t b k] get_hash_handle[of "cache(tid \<mapsto> a')" t _ k] b t same
          handle_inj[OF t tid, of "Suc n"] n by (cases "t = tid") auto
    qed
    have "get_hash (handle tid (Suc n)) (cache(tid \<mapsto> a')) = Ret h"
      using get_hash_handle[of "cache(tid \<mapsto> a')" tid a' "Suc n"] tid n by (simp add: a'_def)
    moreover have "allocator_ok (cache(tid \<mapsto> a'))"
      using ok n a tid n1 by (auto simp: allocator_ok_def a'_def)
    ultimately show ?thesis using run live old handle_not_reserved[of tid "Suc n"] tid n by auto
  qed
qed

theorem allocate_fresh_witness:
  "\<exists>i cache'. allocate (0::nat) 3 7 (\<lambda>_. None) = Ret (i, cache') \<and> get_hash i cache' = Ret 7"
  using allocate_fresh[where cache = "\<lambda>_. None" and tid = 3 and d = "0::nat" and h = 7]
  by (auto simp: allocator_ok_def TLCACHE_SIZE_def split: outcome.splits)

text \<open>
  C37: the identifiers two threads draw are never 0 and never collide, as long as no thread
  draws \<open>2 ^ 39\<close> of them, and each leaves the low 16 bits of the tag free.
\<close>

theorem uid_unique:
  assumes "tid < TLCACHE_SIZE" "tid' < TLCACHE_SIZE" "n < 2 ^ 39" "n' < 2 ^ 39"
  shows "(uid_after tid n = uid_after tid' n' \<longleftrightarrow> tid = tid' \<and> n = n') \<and>
     (0 < n \<longrightarrow> uid_after tid n \<noteq> 0) \<and> uid_ok (uid_after tid n)"
proof -
  have u: "unat (uid_after tid n) = (tid * 2 ^ 39 + n) * 2 ^ 16"
    "unat (uid_after tid' n') = (tid' * 2 ^ 39 + n') * 2 ^ 16"
    using unat_uid_after assms by (simp_all add: algebra_simps)
  have "tid = tid'" if "tid * 2 ^ 39 + n = tid' * 2 ^ 39 + n'"
  proof -
    have "(tid * 2 ^ 39 + n) div 2 ^ 39 = tid" "(tid' * 2 ^ 39 + n') div 2 ^ 39 = tid'"
      using assms by simp_all
    with that show ?thesis by metis
  qed
  then have inj: "uid_after tid n = uid_after tid' n' \<longleftrightarrow> tid = tid' \<and> n = n'"
    using u by (metis add_left_cancel mult_cancel2 power_not_zero zero_neq_numeral)
  have "0 < n \<Longrightarrow> unat (uid_after tid n) \<noteq> 0" using u(1) by simp
  then show ?thesis using inj uid_ok_after[OF assms(1)] by (metis unsigned_0)
qed

theorem uid_unique_witness: "uid_after 1 5 \<noteq> uid_after 2 5"
  using uid_unique[of 1 2 5 5] by (simp add: TLCACHE_SIZE_def)

end
