(* ===== verification/RevertableBase.thy ===== *)
theory RevertableBase
  imports ThreadLocal
begin

text \<open>
  \<open>RevertableBaseObject\<close> (\<open>object/revertable_object.cc\<close>): the delta class all writers of a
  key agree on in one block, with the packed tag that counts the writers in flight
  (\<open>unique id, 48 bits | active count, 8 bits | 7 empty bits, finalised flag\<close>).

  A call is one step of the model. The two words (tag, pointer) are then never caught between
  the two stores of another thread, so a read the code takes for a shorn one is repeated
  forever: that outcome is \<open>Diverge\<close>. The \<open>uid\<close> argument is the state of the calling thread's
  tag generator; the pointer is the delta class it points to.
\<close>

section \<open>Definitions\<close>

definition swap_id :: "uint64 \<Rightarrow> uint64 \<Rightarrow> uint64" where
  "swap_id old_tag new_id = new_id + (old_tag AND 0xFFFF)"

definition add_inflight :: "uint64 \<Rightarrow> uint64" where
  "add_inflight input = input + push_bit 8 1"

definition remove_inflight :: "uint64 \<Rightarrow> uint64" where
  "remove_inflight input = input - push_bit 8 1"

definition has_inflight :: "uint64 \<Rightarrow> bool" where
  "has_inflight input \<longleftrightarrow> input AND 0xFF00 \<noteq> 0"

definition is_finalized :: "uint64 \<Rightarrow> bool" where
  "is_finalized input \<longleftrightarrow> input AND 1 \<noteq> 0"

definition expect_nonnull :: "uint64 \<Rightarrow> bool" where
  "expect_nonnull input \<longleftrightarrow> input AND 0xFFFF \<noteq> 0"

record RevertableBaseObject =
  tag :: uint64
  obj :: "StorageDeltaClass option"
  required_type :: "ObjectType option"

text \<open>A \<open>Rewind\<close> of the base object is its \<open>do_revert\<close> flag.\<close>

type_synonym BaseRewind = bool

definition base_new :: RevertableBaseObject where
  "base_new = \<lparr>tag = 0, obj = None, required_type = None\<rparr>"

definition base_from_object :: "StorageObject \<Rightarrow> RevertableBaseObject" where
  "base_from_object ob = \<lparr>tag = 0, obj = None, required_type = Some (body_type (body ob))\<rparr>"

definition shorn_read :: "uint64 \<Rightarrow> StorageDeltaClass option \<Rightarrow> bool" where
  "shorn_read t current \<longleftrightarrow>
     (expect_nonnull t \<and> current = None) \<or> (\<not> expect_nonnull t \<and> current \<noteq> None)"

definition try_set :: "uid \<Rightarrow> StorageDeltaClass \<Rightarrow> RevertableBaseObject \<Rightarrow>
    (BaseRewind option \<times> RevertableBaseObject \<times> uid) outcome" where
  "try_set u new_obj b =
     (if required_type b \<noteq> None \<and> required_type b \<noteq> Some (dc_type new_obj) then Ret (None, b, u)
      else
        let (new_id, u') = uid_get u;
            t = tag b;
            current = obj b;
            new_tag = add_inflight (swap_id t new_id)
        in if shorn_read t current then Diverge
           else (case current of
               None \<Rightarrow> Ret (Some True, b\<lparr>tag := new_tag, obj := Some new_obj\<rparr>, u')
             | Some cur \<Rightarrow>
                 if cur \<noteq> new_obj then Ret (None, b, u')
                 else if is_finalized t then Ret (Some False, b, u')
                 else Ret (Some True, b\<lparr>tag := new_tag\<rparr>, u')))"

definition base_commit :: "RevertableBaseObject \<Rightarrow> RevertableBaseObject" where
  "base_commit b = b\<lparr>tag := tag b OR 1\<rparr>"

definition base_revert :: "uid \<Rightarrow> RevertableBaseObject \<Rightarrow> (RevertableBaseObject \<times> uid) outcome" where
  "base_revert u b =
     (let (new_id, u') = uid_get u;
          t = tag b;
          current = obj b;
          new_tag = remove_inflight (swap_id t new_id)
      in if shorn_read t current then Diverge
         else if is_finalized t then Ret (b, u')
         else if \<not> has_inflight new_tag then Ret (b\<lparr>tag := new_tag, obj := None\<rparr>, u')
         else Ret (b\<lparr>tag := new_tag\<rparr>, u'))"

definition rewind_commit :: "BaseRewind \<Rightarrow> RevertableBaseObject \<Rightarrow> RevertableBaseObject" where
  "rewind_commit do_revert b = (if do_revert then base_commit b else b)"

definition rewind_destroy :: "uid \<Rightarrow> BaseRewind \<Rightarrow> RevertableBaseObject \<Rightarrow>
    (RevertableBaseObject \<times> uid) outcome" where
  "rewind_destroy u do_revert b = (if do_revert then base_revert u b else Ret (b, u))"

definition clear_required_type :: "RevertableBaseObject \<Rightarrow> RevertableBaseObject" where
  "clear_required_type b = b\<lparr>required_type := None\<rparr>"

definition commit_round_and_reset ::
    "RevertableBaseObject \<Rightarrow> StorageDeltaClass option \<times> RevertableBaseObject" where
  "commit_round_and_reset b =
     (case obj b of
        None \<Rightarrow> (None, b\<lparr>tag := 0\<rparr>)
      | Some dc \<Rightarrow> (Some dc, b\<lparr>tag := 0, obj := None, required_type := Some (dc_type dc)\<rparr>))"

definition base_rewind_round :: "RevertableBaseObject \<Rightarrow> RevertableBaseObject" where
  "base_rewind_round b = b\<lparr>tag := 0, obj := None\<rparr>"

section \<open>The fields of the tag\<close>

definition inflight :: "uint64 \<Rightarrow> nat" where
  "inflight t = (unat t div 256) mod 256"

definition low_byte :: "uint64 \<Rightarrow> nat" where
  "low_byte t = unat t mod 256"

lemma low16_split: "unat (t :: uint64) mod 65536 = inflight t * 256 + low_byte t"
proof -
  have "unat t mod (256 * 256) = 256 * (unat t div 256 mod 256) + unat t mod 256"
    by (rule mod_mult2_eq)
  then show ?thesis by (simp add: inflight_def low_byte_def)
qed

lemma low_byte_less [simp]: "low_byte t < 256" and inflight_less [simp]: "inflight t < 256"
  by (simp_all add: low_byte_def inflight_def)

lemma inflight_low_byteI:
  assumes "unat t mod 65536 = n * 256 + b" "n < 256" "b < 256"
  shows "inflight t = n" "low_byte t = b"
proof -
  have "low_byte t = (unat t mod 65536) mod 256"
    by (simp add: low_byte_def mod_mod_cancel)
  then show "low_byte t = b" using assms by simp
  with low16_split[of t] assms show "inflight t = n" by simp
qed

lemma expect_nonnull_iff: "expect_nonnull t \<longleftrightarrow> inflight t \<noteq> 0 \<or> low_byte t \<noteq> 0"
proof -
  have "expect_nonnull t \<longleftrightarrow> unat t mod 65536 \<noteq> 0"
    unfolding expect_nonnull_def using unat_and_mask16[of t] by (metis unat_eq_zero)
  then show ?thesis using low16_split[of t] by auto
qed

lemma unat_and_one: "unat ((t :: uint64) AND 1) = unat t mod 2"
proof -
  have "t AND 1 = take_bit 1 t" by (simp add: take_bit_eq_mask)
  then show ?thesis by (simp add: unsigned_take_bit_eq take_bit_nat_def del: take_bit_Suc_0)
qed

lemma even_unat: "even (t :: uint64) \<longleftrightarrow> even (unat t)"
  using unat_and_one[of t] by (metis and_one_eq even_iff_mod_2_eq_zero unat_eq_zero)

lemma is_finalized_iff: "is_finalized t \<longleftrightarrow> odd (low_byte t)"
proof -
  have "is_finalized t \<longleftrightarrow> odd (unat t)"
    unfolding is_finalized_def using unat_and_one[of t]
    by (metis even_iff_mod_2_eq_zero unat_eq_zero)
  moreover have "odd (unat t mod 256) = odd (unat t)" using dvd_mod_iff[of 2 256 "unat t"] by simp
  ultimately show ?thesis by (simp add: low_byte_def)
qed

lemma and_ff00: "(t :: uint64) AND 0xFF00 = push_bit 8 (take_bit 8 (drop_bit 8 t))"
proof -
  have "(0xFF00 :: uint64) = push_bit 8 (mask 8)"
    by (simp add: mask_eq_exp_minus_1 push_bit_eq_mult)
  then show ?thesis by (auto simp add: bit_eq_iff bit_simps)
qed

lemma has_inflight_iff: "has_inflight t \<longleftrightarrow> inflight t \<noteq> 0"
proof -
  have "unat (t AND 0xFF00) = take_bit 64 (push_bit 8 (take_bit 8 (drop_bit 8 (unat t))))"
    unfolding and_ff00
    by (simp only: unsigned_push_bit_eq unsigned_take_bit_eq unat_drop_bit_eq) simp
  also have "\<dots> = ((unat t div 256) mod 256 * 256) mod 2 ^ 64"
    by (simp only: take_bit_nat_def push_bit_nat_def drop_bit_nat_def) simp
  also have "\<dots> = inflight t * 256"
    using inflight_less[of t] unfolding inflight_def by (intro mod_less) simp
  finally show ?thesis unfolding has_inflight_def by (metis mult_is_0 unat_eq_zero zero_neq_numeral)
qed

lemma unat_or_one: "unat ((t :: uint64) OR 1) = (if odd (unat t) then unat t else unat t + 1)"
proof (cases "odd (unat t)")
  case True
  then show ?thesis by (simp add: or_one_eq even_unat)
next
  case False
  have "unat t < 2 ^ 64" using unsigned_less[of t] by simp
  moreover have "unat t \<noteq> 2 ^ 64 - 1" using False by (auto dest: sym)
  ultimately have "unat t + 1 < 2 ^ 64" by linarith
  with False show ?thesis by (simp add: or_one_eq even_unat unat_word_ariths)
qed

text \<open>The tag operations on the low 16 bits.\<close>

lemma low16_swap_id: "uid_ok i \<Longrightarrow> unat (swap_id t i) mod 65536 = unat t mod 65536"
  using unat_add_mod16[of i "t AND 0xFFFF"] unat_and_mask16[of t]
  by (simp add: swap_id_def uid_ok_iff mod_add_left_eq[symmetric, of "unat i"])

lemma low16_add_inflight:
  "unat (add_inflight t) mod 65536 = (unat t mod 65536 + 256) mod 65536"
  using unat_add_mod16[of t "push_bit 8 1"]
  by (simp add: add_inflight_def push_bit_eq_mult mod_add_left_eq)

lemma low16_remove_inflight:
  "unat (remove_inflight t) mod 65536 = (unat t mod 65536 + 65280) mod 65536"
proof -
  have m: "unat (- 256 :: uint64) = 2 ^ 64 - 256" by simp
  have "remove_inflight t = t + (- 256)" by (simp add: remove_inflight_def push_bit_eq_mult)
  then have "unat (remove_inflight t) mod 65536 = (unat t + (2 ^ 64 - 256)) mod 65536"
    using unat_add_mod16[of t "- 256"] m by (simp only:)
  also have "\<dots> = (unat t mod 65536 + (2 ^ 64 - 256) mod 65536) mod 65536"
    by (rule mod_add_eq[symmetric])
  finally show ?thesis by simp
qed

lemma tag_bound: "n < 256 \<Longrightarrow> b < 256 \<Longrightarrow> (n * 256 + b) mod 65536 = n * 256 + (b :: nat)"
  by (rule mod_less) linarith

lemma tag_add:
  assumes "uid_ok i" "inflight t < 255"
  shows "inflight (add_inflight (swap_id t i)) = inflight t + 1"
    and "low_byte (add_inflight (swap_id t i)) = low_byte t"
proof -
  have "unat (add_inflight (swap_id t i)) mod 65536 = (inflight t * 256 + low_byte t + 256) mod 65536"
    by (simp only: low16_add_inflight low16_swap_id[OF assms(1)] low16_split[of t])
  also have "inflight t * 256 + low_byte t + 256 = (inflight t + 1) * 256 + low_byte t" by simp
  also have "\<dots> mod 65536 = (inflight t + 1) * 256 + low_byte t"
    by (rule tag_bound) (use assms(2) in auto)
  finally have low: "unat (add_inflight (swap_id t i)) mod 65536 = (inflight t + 1) * 256 + low_byte t" .
  have "inflight t + 1 < 256" using assms(2) by simp
  from inflight_low_byteI[OF low this low_byte_less]
  show "inflight (add_inflight (swap_id t i)) = inflight t + 1"
    "low_byte (add_inflight (swap_id t i)) = low_byte t" .
qed

text \<open>At 255 writers in flight one more makes the low 16 bits of an unfinalised tag zero.\<close>

lemma tag_add_overflow:
  assumes "uid_ok i" "inflight t = 255"
  shows "inflight (add_inflight (swap_id t i)) = 0"
    and "low_byte (add_inflight (swap_id t i)) = low_byte t"
proof -
  have "unat (add_inflight (swap_id t i)) mod 65536 = (inflight t * 256 + low_byte t + 256) mod 65536"
    by (simp only: low16_add_inflight low16_swap_id[OF assms(1)] low16_split[of t])
  also have "inflight t * 256 + low_byte t + 256 = low_byte t + 65536" using assms(2) by simp
  also have "\<dots> mod 65536 = 0 * 256 + low_byte t" using tag_bound[of 0 "low_byte t"] by simp
  finally show "inflight (add_inflight (swap_id t i)) = 0"
    "low_byte (add_inflight (swap_id t i)) = low_byte t"
    using inflight_low_byteI[of _ 0 "low_byte t"] by auto
qed

lemma tag_remove:
  assumes "uid_ok i" "0 < inflight t"
  shows "inflight (remove_inflight (swap_id t i)) = inflight t - 1"
    and "low_byte (remove_inflight (swap_id t i)) = low_byte t"
proof -
  obtain n where n: "inflight t = Suc n" using assms(2) by (cases "inflight t") auto
  have "unat (remove_inflight (swap_id t i)) mod 65536 =
      (inflight t * 256 + low_byte t + 65280) mod 65536"
    by (simp only: low16_remove_inflight low16_swap_id[OF assms(1)] low16_split[of t])
  also have "inflight t * 256 + low_byte t + 65280 = n * 256 + low_byte t + 65536"
    using n by simp
  also have "\<dots> mod 65536 = n * 256 + low_byte t"
    using tag_bound[of n "low_byte t"] n inflight_less[of t] by simp
  finally show "inflight (remove_inflight (swap_id t i)) = inflight t - 1"
    "low_byte (remove_inflight (swap_id t i)) = low_byte t"
    using inflight_low_byteI[of _ n "low_byte t"] n inflight_less[of t] by auto
qed

lemma tag_finalize:
  "inflight (t OR 1) = inflight t"
  "low_byte (t OR 1) = (if odd (low_byte t) then low_byte t else low_byte t + 1)"
proof -
  have odd: "odd (low_byte t) = odd (unat t)"
    unfolding low_byte_def using dvd_mod_iff[of 2 256 "unat t"] by simp
  have s: "Suc (unat t mod 256) \<noteq> 256" if "even (unat t)"
    using that odd unfolding low_byte_def by (metis even_Suc even_numeral)
  have "even (unat t) \<Longrightarrow> Suc (unat t) div 256 = unat t div 256"
    "even (unat t) \<Longrightarrow> Suc (unat t) mod 256 = Suc (unat t mod 256)"
    using s by (auto simp: div_Suc mod_Suc)
  then show "inflight (t OR 1) = inflight t"
    "low_byte (t OR 1) = (if odd (low_byte t) then low_byte t else low_byte t + 1)"
    unfolding odd by (simp_all add: inflight_def low_byte_def unat_or_one)
qed

section \<open>Invariant and behaviour\<close>

text \<open>
  Between calls the pointer is non-null exactly when the tag says so, the seven unused bits
  are zero and the pointed class has the required type.
\<close>

definition base_ok :: "RevertableBaseObject \<Rightarrow> bool" where
  "base_ok b \<longleftrightarrow>
     low_byte (tag b) \<le> 1 \<and> (obj b \<noteq> None \<longleftrightarrow> expect_nonnull (tag b)) \<and>
     (\<forall>dc. obj b = Some dc \<longrightarrow> required_type b = None \<or> required_type b = Some (dc_type dc))"

abbreviation base_finalized :: "RevertableBaseObject \<Rightarrow> bool" where
  "base_finalized b \<equiv> is_finalized (tag b)"

abbreviation base_inflight :: "RevertableBaseObject \<Rightarrow> nat" where
  "base_inflight b \<equiv> inflight (tag b)"

definition type_allowed :: "RevertableBaseObject \<Rightarrow> StorageDeltaClass \<Rightarrow> bool" where
  "type_allowed b dc \<longleftrightarrow> required_type b = None \<or> required_type b = Some (dc_type dc)"

definition class_agrees :: "RevertableBaseObject \<Rightarrow> StorageDeltaClass \<Rightarrow> bool" where
  "class_agrees b dc \<longleftrightarrow> type_allowed b dc \<and> (obj b = None \<or> obj b = Some dc)"

lemma base_ok_not_shorn: "base_ok b \<Longrightarrow> \<not> shorn_read (tag b) (obj b)"
  by (auto simp: base_ok_def shorn_read_def)

lemma base_ok_new [simp]: "base_ok base_new" "base_ok (base_from_object ob)"
  by (auto simp: base_ok_def base_new_def base_from_object_def expect_nonnull_def low_byte_def)

lemma base_ok_obj_None:
  assumes "base_ok b" "obj b = None"
  shows "base_inflight b = 0" "\<not> base_finalized b" "low_byte (tag b) = 0"
  using assms by (auto simp: base_ok_def expect_nonnull_iff is_finalized_iff)

lemma try_set_rejects:
  assumes "base_ok b" "\<not> class_agrees b dc" "uid_ok u"
  shows "\<exists>u'. try_set u dc b = Ret (None, b, u') \<and> uid_ok u'"
  using assms base_ok_not_shorn[OF assms(1)] uid_ok_get[OF assms(3)]
  by (cases "uid_get u")
    (auto simp: try_set_def class_agrees_def type_allowed_def split: option.splits)

lemma try_set_accepts:
  assumes ok: "base_ok b" and ag: "class_agrees b dc" and u: "uid_ok u"
    and room: "base_finalized b \<or> base_inflight b < 255"
  shows "\<exists>b' u'. try_set u dc b = Ret (Some (\<not> base_finalized b), b', u') \<and> uid_ok u' \<and> base_ok b' \<and>
           obj b' = Some dc \<and> required_type b' = required_type b \<and>
           base_finalized b' = base_finalized b \<and>
           (\<not> base_finalized b \<longrightarrow> base_inflight b' = base_inflight b + 1)"
proof -
  obtain i u' where g: "uid_get u = (i, u')" by force
  have iu: "uid_ok i" "uid_ok u'" using uid_ok_get[OF u] fst_uid_get[of u] g by auto
  define nt where "nt = add_inflight (swap_id (tag b) i)"
  have ns: "\<not> shorn_read (tag b) (obj b)" by (rule base_ok_not_shorn[OF ok])
  show ?thesis
  proof (cases "base_finalized b")
    case True
    then have "obj b = Some dc" using ag base_ok_obj_None[OF ok] by (auto simp: class_agrees_def)
    then show ?thesis using ns True g iu ok ag
      by (auto simp: try_set_def class_agrees_def type_allowed_def)
  next
    case False
    then have nt: "inflight nt = base_inflight b + 1" "low_byte nt = low_byte (tag b)"
      using tag_add[OF iu(1), of "tag b"] room by (auto simp: nt_def)
    have nf: "\<not> is_finalized nt" using False nt by (simp add: is_finalized_iff)
    have okn: "base_ok (b\<lparr>tag := nt, obj := Some dc\<rparr>)"
      using ok ag nt by (auto simp: base_ok_def expect_nonnull_iff class_agrees_def type_allowed_def)
    show ?thesis using ns False g iu ag nf nt okn
      by (cases "obj b") (auto simp: try_set_def nt_def[symmetric] class_agrees_def type_allowed_def base_ok_def)
  qed
qed

lemma base_commit_ok:
  assumes "base_ok b" "obj b \<noteq> None"
  shows "base_ok (base_commit b)" "base_finalized (base_commit b)" "obj (base_commit b) = obj b"
    "required_type (base_commit b) = required_type b"
proof -
  have "low_byte (tag b) \<le> 1" using assms(1) by (simp add: base_ok_def)
  then have lb: "low_byte (tag b OR 1) = 1"
    using tag_finalize(2)[of "tag b"] by (cases "low_byte (tag b) = 0") auto
  then show "base_finalized (base_commit b)" by (simp add: base_commit_def is_finalized_iff)
  show "base_ok (base_commit b)" using assms lb
    by (auto simp: base_ok_def base_commit_def expect_nonnull_iff)
qed (simp_all add: base_commit_def)

lemma base_revert_ok:
  assumes ok: "base_ok b" and u: "uid_ok u" and pos: "base_finalized b \<or> 0 < base_inflight b"
  shows "\<exists>b' u'. base_revert u b = Ret (b', u') \<and> uid_ok u' \<and> base_ok b' \<and>
           required_type b' = required_type b \<and> base_finalized b' = base_finalized b \<and>
           (base_finalized b \<longrightarrow> b' = b) \<and>
           (\<not> base_finalized b \<longrightarrow> base_inflight b' = base_inflight b - 1 \<and>
              obj b' = (if base_inflight b = 1 then None else obj b))"
proof -
  obtain i u' where g: "uid_get u = (i, u')" by force
  have iu: "uid_ok i" "uid_ok u'" using uid_ok_get[OF u] fst_uid_get[of u] g by auto
  define nt where "nt = remove_inflight (swap_id (tag b) i)"
  have ns: "\<not> shorn_read (tag b) (obj b)" by (rule base_ok_not_shorn[OF ok])
  show ?thesis
  proof (cases "base_finalized b")
    case True
    then show ?thesis using ns g iu ok by (simp add: base_revert_def)
  next
    case False
    then have p: "0 < base_inflight b" using pos by simp
    note nt = tag_remove[OF iu(1) p, folded nt_def]
    have lb: "low_byte (tag b) = 0" using False ok
      by (cases "low_byte (tag b) = 0") (auto simp: base_ok_def is_finalized_iff le_Suc_eq)
    have nf: "\<not> is_finalized nt" using False nt by (simp add: is_finalized_iff)
    have has: "has_inflight nt \<longleftrightarrow> base_inflight b \<noteq> 1" using nt p by (auto simp: has_inflight_iff)
    have "obj b \<noteq> None" using ok p by (auto simp: base_ok_def expect_nonnull_iff)
    then show ?thesis using ns False g iu nt nf has lb ok p
      by (auto simp: base_revert_def nt_def[symmetric] base_ok_def expect_nonnull_iff)
  qed
qed

section \<open>The range of the writer count\<close>

text \<open>\<open>n\<close> writers of the same class, none of which has committed or reverted yet.\<close>

fun set_times :: "nat \<Rightarrow> StorageDeltaClass \<Rightarrow> uid \<Rightarrow> RevertableBaseObject \<Rightarrow>
    (RevertableBaseObject \<times> uid) outcome" where
  "set_times 0 dc u b = Ret (b, u)"
| "set_times (Suc n) dc u b = obind (set_times n dc u b) (\<lambda>(b', u').
     obind (try_set u' dc b') (\<lambda>(_, b'', u''). Ret (b'', u'')))"

lemma set_times_ok:
  assumes "n \<le> 255" "uid_ok u"
  shows "\<exists>b' u'. set_times n dc u base_new = Ret (b', u') \<and> base_ok b' \<and> \<not> base_finalized b' \<and> uid_ok u' \<and>
     base_inflight b' = n \<and> class_agrees b' dc"
  using assms(1)
proof (induction n)
  case 0
  then show ?case using assms(2)
    by (simp add: base_new_def class_agrees_def type_allowed_def is_finalized_def inflight_def)
      (simp flip: base_new_def)
next
  case (Suc n)
  then obtain b u1 where b: "set_times n dc u base_new = Ret (b, u1)" "base_ok b" "\<not> base_finalized b"
    "uid_ok u1" "base_inflight b = n" "class_agrees b dc" by auto
  from try_set_accepts[OF b(2,6,4)] b(3,5) Suc.prems obtain b' u' where
    "try_set u1 dc b = Ret (Some True, b', u')" "uid_ok u'" "base_ok b'" "obj b' = Some dc"
    "required_type b' = required_type b" "\<not> base_finalized b'" "base_inflight b' = Suc n" by auto
  then show ?case using b by (auto simp: class_agrees_def type_allowed_def)
qed

text \<open>
  The eight-bit writer count overflows. After 256 writers of one class have entered a fresh
  object and none has committed, the tag reads as if the object had no writer while the
  pointer is set: the next writer, and the rollback of any of the 256, retry forever.
\<close>

theorem writer_count_overflow:
  "\<exists>b u. set_times 256 dc 0 base_new = Ret (b, u) \<and> try_set u dc b = Diverge \<and> base_revert u b = Diverge"
proof -
  have "uid_ok 0" by (simp add: uid_ok_def)
  from set_times_ok[OF _ this, of 255 dc] obtain b u where b:
    "set_times 255 dc 0 base_new = Ret (b, u)" "base_ok b" "\<not> base_finalized b" "uid_ok u"
    "base_inflight b = 255" "class_agrees b dc" by auto
  obtain i u' where g: "uid_get u = (i, u')" by force
  have i: "uid_ok i" using uid_ok_get[OF b(4)] fst_uid_get[of u] g by simp
  define nt where "nt = add_inflight (swap_id (tag b) i)"
  have "low_byte (tag b) = 0" using b(2,3)
    by (cases "low_byte (tag b) = 0") (auto simp: base_ok_def is_finalized_iff le_Suc_eq)
  then have nt: "\<not> expect_nonnull nt"
    using tag_add_overflow[OF i b(5)] by (simp add: nt_def expect_nonnull_iff)
  have o: "obj b = Some dc" "required_type b = None \<or> required_type b = Some (dc_type dc)"
    using b(2,5,6) by (auto simp: base_ok_def expect_nonnull_iff class_agrees_def type_allowed_def)
  have set: "try_set u dc b = Ret (Some True, b\<lparr>tag := nt\<rparr>, u')"
    using base_ok_not_shorn[OF b(2)] b(3) o g by (auto simp: try_set_def nt_def)
  have "set_times 256 dc 0 base_new = obind (set_times 255 dc 0 base_new) (\<lambda>(b', u').
     obind (try_set u' dc b') (\<lambda>(_, b'', u''). Ret (b'', u'')))"
    using set_times.simps(2)[of 255 dc 0 base_new] by simp
  then have "set_times 256 dc 0 base_new = Ret (b\<lparr>tag := nt\<rparr>, u')" using b(1) set by simp
  moreover have "shorn_read nt (Some dc)" using nt by (simp add: shorn_read_def)
  ultimately show ?thesis using o by (auto simp: try_set_def base_revert_def Let_def split_beta)
qed

end
