(* ===== verification/HashSetUtils.thy ===== *)
theory HashSetUtils
  imports Storage
begin

text \<open>
  The helpers on the entry list of a hash set object (\<open>hash_set/utils.h\<close>): the list is
  kept in descending order and entries up to a threshold are cut off at a position found by
  binary search. The commented-out linear loop of the source, which erases every entry whose
  index is at most the threshold, is the reference \<open>clear_reference\<close>.
\<close>

section \<open>Definitions\<close>

definition normalize_list :: "HashSetEntry list \<Rightarrow> HashSetEntry list" where
  "normalize_list xs = rev (sort xs)"

definition normalize_hashset :: "HashSet \<Rightarrow> HashSet" where
  "normalize_hashset hs = hs\<lparr>hashes := normalize_list (hashes hs)\<rparr>"

text \<open>
  The loop variables are \<open>uint32_t\<close>; \<open>max + min\<close> does not wrap below \<open>2 ^ 31\<close> entries.
  The source leaves the loop on \<open>max == min\<close>; \<open>min\<close> never exceeds \<open>max\<close>.
\<close>

function clear_search :: "HashSetEntry list \<Rightarrow> uint64 \<Rightarrow> nat \<Rightarrow> nat \<Rightarrow> nat" where
  "clear_search h_list threshold mn mx =
     (let med = (mx + mn) div 2
      in if mx \<le> mn then med
         else if index (h_list ! med) > threshold
              then clear_search h_list threshold (med + 1) mx
              else clear_search h_list threshold mn med)"
  by pat_completeness auto
termination
  by (relation "measure (\<lambda>(xs, t, mn, mx). mx - mn)") auto

declare clear_search.simps [simp del]

definition clear_list :: "HashSetEntry list \<Rightarrow> uint64 \<Rightarrow> HashSetEntry list" where
  "clear_list xs threshold = take (clear_search xs threshold 0 (length xs)) xs"

definition clear_hashset :: "HashSet \<Rightarrow> uint64 \<Rightarrow> HashSet" where
  "clear_hashset hs threshold = hs\<lparr>hashes := clear_list (hashes hs) threshold\<rparr>"

fun clear_reference :: "HashSetEntry list \<Rightarrow> uint64 \<Rightarrow> HashSetEntry list" where
  "clear_reference [] threshold = []"
| "clear_reference (h # hs) threshold =
     (if index h \<le> threshold then clear_reference hs threshold
      else h # clear_reference hs threshold)"

definition normalized :: "HashSetEntry list \<Rightarrow> bool" where
  "normalized xs \<longleftrightarrow> sorted_wrt (\<ge>) xs"

section \<open>Normalisation\<close>

lemma mset_normalize_list [simp]: "mset (normalize_list xs) = mset xs"
  by (simp add: normalize_list_def)

lemma set_normalize_list [simp]: "set (normalize_list xs) = set xs"
  by (simp add: normalize_list_def)

lemma length_normalize_list [simp]: "length (normalize_list xs) = length xs"
  by (simp add: normalize_list_def)

lemma distinct_normalize_list [simp]: "distinct (normalize_list xs) = distinct xs"
  by (simp add: normalize_list_def)

lemma normalized_normalize_list [simp]: "normalized (normalize_list xs)"
  by (simp add: normalize_list_def normalized_def sorted_wrt_rev)

lemma normalize_list_cong: "mset xs = mset ys \<Longrightarrow> normalize_list xs = normalize_list ys"
  unfolding normalize_list_def by (metis mset_sort properties_for_sort sorted_sort)

lemma normalized_unique:
  "normalized xs \<Longrightarrow> normalized ys \<Longrightarrow> mset xs = mset ys \<Longrightarrow> xs = ys"
  by (metis mset_rev normalized_def properties_for_sort rev_rev_ident sorted_wrt_rev)

lemma normalize_list_normalized: "normalized xs \<Longrightarrow> normalize_list xs = xs"
  by (rule normalized_unique) auto

section \<open>The binary search agrees with the reference loop\<close>

lemma clear_reference_filter: "clear_reference xs t = filter (\<lambda>e. index e > t) xs"
  by (induction xs) auto

lemma normalized_prefix_cut:
  assumes "normalized xs" "i \<le> length xs"
    and hi: "\<And>j. j < i \<Longrightarrow> index (xs ! j) > t"
    and lo: "\<And>j. i \<le> j \<Longrightarrow> j < length xs \<Longrightarrow> index (xs ! j) \<le> t"
  shows "take i xs = filter (\<lambda>e. index e > t) xs"
proof -
  have "filter (\<lambda>e. index e > t) xs
      = filter (\<lambda>e. index e > t) (take i xs) @ filter (\<lambda>e. index e > t) (drop i xs)"
    by (metis append_take_drop_id filter_append)
  moreover have "filter (\<lambda>e. index e > t) (take i xs) = take i xs"
    using assms(2) hi by (auto simp: filter_id_conv in_set_conv_nth)
  moreover have "filter (\<lambda>e. index e > t) (drop i xs) = []"
    using lo by (auto simp: filter_empty_conv in_set_conv_nth) (metis add.commute le_add2 less_diff_conv not_le)
  ultimately show ?thesis by simp
qed

lemma normalized_index_mono:
  assumes "normalized xs" "i \<le> j" "j < length xs"
  shows "index (xs ! j) \<le> index (xs ! i)"
proof (cases "i = j")
  case False
  with assms have "xs ! j \<le> xs ! i"
    unfolding normalized_def using sorted_wrt_nth_less[of "(\<ge>)" xs i j] by simp
  then show ?thesis by (rule entry_le_index)
qed simp

lemma clear_search_cut:
  assumes "normalized xs" "mn \<le> mx" "mx \<le> length xs"
    and "\<And>j. j < mn \<Longrightarrow> index (xs ! j) > t"
    and "\<And>j. mx \<le> j \<Longrightarrow> j < length xs \<Longrightarrow> index (xs ! j) \<le> t"
  shows "take (clear_search xs t mn mx) xs = filter (\<lambda>e. index e > t) xs"
  using assms
proof (induction xs t mn mx rule: clear_search.induct)
  case (1 xs t mn mx)
  define med where "med = (mx + mn) div 2"
  show ?case
  proof (cases "mx \<le> mn")
    case True
    then have "clear_search xs t mn mx = mn"
      using "1.prems"(2) by (subst clear_search.simps) simp
    with True 1 show ?thesis by (simp add: normalized_prefix_cut)
  next
    case False
    then have med: "mn \<le> med" "med < mx" by (auto simp: med_def)
    show ?thesis
    proof (cases "index (xs ! med) > t")
      case True
      have "index (xs ! j) > t" if "j < med + 1" for j
        using normalized_index_mono[of xs j med] True that med "1.prems" by fastforce
      with False True med "1.prems" show ?thesis
        using "1.IH"(1)[OF med_def False True]
        by (subst clear_search.simps) (simp add: Let_def med_def[symmetric])
    next
      case low: False
      have "index (xs ! j) \<le> t" if "med \<le> j" "j < length xs" for j
        using normalized_index_mono[of xs med j] low that "1.prems" by fastforce
      with False low med "1.prems" show ?thesis
        using "1.IH"(2)[OF med_def False low]
        by (subst clear_search.simps) (simp add: Let_def med_def[symmetric])
    qed
  qed
qed

lemma clear_list_filter:
  "normalized xs \<Longrightarrow> clear_list xs t = filter (\<lambda>e. index e > t) xs"
  unfolding clear_list_def by (rule clear_search_cut) auto

lemma normalized_filter [simp]: "normalized xs \<Longrightarrow> normalized (filter P xs)"
  unfolding normalized_def by (rule sorted_wrt_filter)

lemma normalized_clear_list: "normalized xs \<Longrightarrow> normalized (clear_list xs t)"
  by (simp add: clear_list_filter)

lemma set_clear_list:
  "normalized xs \<Longrightarrow> set (clear_list xs t) = {e \<in> set xs. index e > t}"
  by (simp add: clear_list_filter)

lemma clear_list_distinct:
  "normalized xs \<Longrightarrow> distinct xs \<Longrightarrow> distinct (clear_list xs t)"
  by (simp add: clear_list_filter)

section \<open>Properties\<close>

text \<open>
  Clearing a normalised hash set by binary search gives what the linear loop of the
  source would give: exactly the entries whose index exceeds the threshold stay, in order.
\<close>

theorem clear_hashset_eq_linear:
  "hashes (clear_hashset (normalize_hashset hs) t) = clear_reference (hashes (normalize_hashset hs)) t
   \<and> max_size (clear_hashset (normalize_hashset hs) t) = max_size hs
   \<and> mset (hashes (clear_hashset (normalize_hashset hs) t)) = filter_mset (\<lambda>e. t < index e) (mset (hashes hs))"
proof -
  have "mset (filter (\<lambda>e. t < index e) (normalize_list xs)) = filter_mset (\<lambda>e. t < index e) (mset xs)" for xs
    by (simp only: mset_filter mset_normalize_list)
  then show ?thesis
    by (simp add: clear_hashset_def normalize_hashset_def clear_list_filter clear_reference_filter)
qed

end
