(* ===== verification/AtomicSet.thy ===== *)
theory AtomicSet
  imports HashSetUtils
begin

text \<open>
  The open-addressing set of the hash set entries inserted in the current block
  (\<open>hash_set/atomic_set.h\<close>, \<open>hash_set/atomic_set.cc\<close>) and the keyed short hash that
  picks the first slot (\<open>crypto/crypto_utils.cc\<close>).

  A slot of the array holds 0 (\<open>Free\<close>), the tombstone \<open>0xFFFF'FFFF\<close> (\<open>Tombstone\<close>) or
  the index of an entry in the thread-local allocator; the last is modelled by the entry
  itself (\<open>Slot\<close>), which is what \<open>get_hash\<close> returns for the index. A call is one step: the
  compare-exchange on a slot is the point where it takes effect. The keyed hash of libsodium
  is the parameter \<open>sh\<close>.
\<close>

section \<open>Definitions\<close>

datatype slot = Free | Tombstone | Slot HashSetEntry

record atomic_set =
  capacity :: nat
  array :: "slot list"
  num_filled_slots :: uint32

definition shorthash :: "('k \<Rightarrow> uint64) \<Rightarrow> 'k \<Rightarrow> nat \<Rightarrow> nat" where
  "shorthash sh h modulus =
     unat (drop_bit 32 ((sh h AND 0xFFFFFFFF) * of_nat modulus :: 64 word))"

text \<open>
  \<open>max_capacity * extra_buffer\<close> is a product in single precision (\<open>1.2f\<close> is
  \<open>10066330 / 2 ^ 23\<close>): both the conversion of the integer and the product round to 24
  significant bits, ties to even, and the result is truncated.
\<close>

fun f32_exp :: "nat \<Rightarrow> nat" where
  "f32_exp n = (if n < 2 ^ 24 then 0 else Suc (f32_exp (n div 2)))"

declare f32_exp.simps [simp del]

definition f32_round :: "nat \<Rightarrow> nat" where
  "f32_round n =
     (let e = f32_exp n; q = n div 2 ^ e; r = n mod 2 ^ e
      in if 2 * r > 2 ^ e \<or> (2 * r = 2 ^ e \<and> odd q) then (q + 1) * 2 ^ e else q * 2 ^ e)"

definition with_extra_buffer :: "nat \<Rightarrow> nat" where
  "with_extra_buffer n = (f32_round (f32_round n * 10066330) div 2 ^ 23) mod 2 ^ 32"

definition atomic_set_new :: "nat \<Rightarrow> atomic_set" where
  "atomic_set_new max_capacity =
     (let cap = with_extra_buffer max_capacity
      in \<lparr>capacity = cap, array = replicate cap Free, num_filled_slots = 0\<rparr>)"

definition set_resize :: "nat \<Rightarrow> atomic_set \<Rightarrow> atomic_set" where
  "set_resize new_capacity s =
     (let new_alloc_size = with_extra_buffer new_capacity
      in if new_alloc_size < capacity s then s
         else \<lparr>capacity = new_alloc_size, array = replicate new_alloc_size Free,
               num_filled_slots = 0\<rparr>)"

definition set_clear :: "atomic_set \<Rightarrow> atomic_set" where
  "set_clear s = s\<lparr>array := replicate (capacity s) Free, num_filled_slots := 0\<rparr>"

text \<open>
  The probe loops. \<open>next_idx\<close> is the increment with its wrap; the loop ends when it comes
  back to the start. Outside the array the source reads out of bounds; the callers never do.
\<close>

definition next_idx :: "nat \<Rightarrow> nat \<Rightarrow> nat" where
  "next_idx n idx = (if idx + 1 = n then 0 else idx + 1)"

function insert_scan :: "slot list \<Rightarrow> HashSetEntry \<Rightarrow> nat \<Rightarrow> nat \<Rightarrow> nat option" where
  "insert_scan arr h start idx =
     (if idx < length arr \<and> start < length arr then
        (if arr ! idx = Free then Some idx
         else if arr ! idx = Slot h then None
         else let idx' = next_idx (length arr) idx
              in if idx' = start then None else insert_scan arr h start idx')
      else None)"
  by pat_completeness auto
termination
  by (relation "measure (\<lambda>(arr, h, start, idx).
        if idx < start then start - idx else start + length arr - idx)")
    (auto simp: next_idx_def split: if_splits)

definition try_insert :: "(Hash \<Rightarrow> uint64) \<Rightarrow> HashSetEntry \<Rightarrow> atomic_set \<Rightarrow> bool \<times> atomic_set" where
  "try_insert sh h s =
     (let start_idx = shorthash sh (hash h) (capacity s)
      in if unat (num_filled_slots s) \<ge> capacity s then (False, s)
         else case insert_scan (array s) h start_idx start_idx of
                None \<Rightarrow> (False, s)
              | Some i \<Rightarrow> (True, s\<lparr>array := (array s)[i := Slot h],
                                   num_filled_slots := num_filled_slots s + 1\<rparr>))"

function erase_scan :: "slot list \<Rightarrow> HashSetEntry \<Rightarrow> nat \<Rightarrow> nat \<Rightarrow> nat outcome" where
  "erase_scan arr h start idx =
     (if idx < length arr \<and> start < length arr then
        (if arr ! idx = Slot h then Ret idx
         else if arr ! idx = Free then Throw (RuntimeError ''deletion failed to find elt'')
         else let idx' = next_idx (length arr) idx
              in if idx' = start
                 then Throw (RuntimeError ''deletion failed after complete scan'')
                 else erase_scan arr h start idx')
      else Throw (RuntimeError ''out of bounds''))"
  by pat_completeness auto
termination
  by (relation "measure (\<lambda>(arr, h, start, idx).
        if idx < start then start - idx else start + length arr - idx)")
    (auto simp: next_idx_def split: if_splits)

definition set_erase :: "(Hash \<Rightarrow> uint64) \<Rightarrow> HashSetEntry \<Rightarrow> atomic_set \<Rightarrow> atomic_set outcome" where
  "set_erase sh h s =
     (let start_idx = shorthash sh (hash h) (capacity s)
      in obind (erase_scan (array s) h start_idx start_idx)
           (\<lambda>i. Ret (s\<lparr>array := (array s)[i := Tombstone],
                       num_filled_slots := num_filled_slots s - 1\<rparr>)))"

fun slot_entries :: "slot list \<Rightarrow> HashSetEntry list" where
  "slot_entries [] = []"
| "slot_entries (Slot h # arr) = h # slot_entries arr"
| "slot_entries (_ # arr) = slot_entries arr"

definition get_hashes :: "atomic_set \<Rightarrow> HashSetEntry list" where
  "get_hashes s = slot_entries (array s)"

declare insert_scan.simps [simp del] erase_scan.simps [simp del]

section \<open>The probe sequence\<close>

text \<open>The slots the loop at \<open>idx\<close> still visits, in order.\<close>

definition probe_from :: "nat \<Rightarrow> nat \<Rightarrow> nat \<Rightarrow> nat list" where
  "probe_from n start idx = (if idx < start then [idx..<start] else [idx..<n] @ [0..<start])"

fun scan_list :: "slot list \<Rightarrow> HashSetEntry \<Rightarrow> nat list \<Rightarrow> nat option" where
  "scan_list arr h [] = None"
| "scan_list arr h (i # is) =
     (if arr ! i = Free \<or> arr ! i = Slot h then Some i else scan_list arr h is)"

lemma probe_from_step:
  assumes "idx < n" "start < n"
  shows "probe_from n start idx = idx #
     (if next_idx n idx = start then [] else probe_from n start (next_idx n idx))"
proof (cases "idx + 1 = n")
  case True
  then have "[idx..<n] = [idx]" by auto
  with True assms show ?thesis by (auto simp: probe_from_def next_idx_def)
next
  case False
  with assms show ?thesis by (auto simp: probe_from_def next_idx_def upt_conv_Cons)
qed

lemma insert_scan_list:
  assumes "start < length arr" "idx < length arr"
  shows "insert_scan arr h start idx =
    (case scan_list arr h (probe_from (length arr) start idx) of
       Some i \<Rightarrow> if arr ! i = Free then Some i else None
     | None \<Rightarrow> None)"
  using assms
proof (induction arr h start idx rule: insert_scan.induct)
  case (1 arr h start idx)
  have "next_idx (length arr) idx < length arr"
    using "1.prems" by (auto simp: next_idx_def)
  with 1 show ?case
    by (subst insert_scan.simps, subst probe_from_step) (auto simp: Let_def)
qed

lemma erase_scan_list:
  assumes "start < length arr" "idx < length arr"
  shows "erase_scan arr h start idx =
    (case scan_list arr h (probe_from (length arr) start idx) of
       Some i \<Rightarrow> if arr ! i = Slot h then Ret i
                 else Throw (RuntimeError ''deletion failed to find elt'')
     | None \<Rightarrow> Throw (RuntimeError ''deletion failed after complete scan''))"
  using assms
proof (induction arr h start idx rule: erase_scan.induct)
  case (1 arr h start idx)
  have "next_idx (length arr) idx < length arr"
    using "1.prems" by (auto simp: next_idx_def)
  with 1 show ?case
    by (subst erase_scan.simps, subst probe_from_step) (auto simp: Let_def)
qed

lemma set_probe_from_start: "start < n \<Longrightarrow> set (probe_from n start start) = {0..<n}"
  by (auto simp: probe_from_def)

lemma distinct_probe_from: "distinct (probe_from n start start)"
  by (auto simp: probe_from_def)

lemma scan_list_Some:
  "scan_list arr h is = Some i \<Longrightarrow>
     i \<in> set is \<and> (arr ! i = Free \<or> arr ! i = Slot h) \<and>
     (\<forall>j \<in> set (takeWhile (\<lambda>k. k \<noteq> i) is). arr ! j \<noteq> Free \<and> arr ! j \<noteq> Slot h)"
  by (induction "is") (auto split: if_splits)

lemma takeWhile_neq_order:
  "i \<in> set xs \<Longrightarrow> k \<in> set xs \<Longrightarrow> k \<noteq> i \<Longrightarrow>
     i \<notin> set (takeWhile (\<lambda>j. j \<noteq> k) xs) \<Longrightarrow> k \<in> set (takeWhile (\<lambda>j. j \<noteq> i) xs)"
  by (induction xs) (auto split: if_splits)

lemma scan_list_None:
  "scan_list arr h is = None \<longleftrightarrow> (\<forall>i \<in> set is. arr ! i \<noteq> Free \<and> arr ! i \<noteq> Slot h)"
  by (induction "is") auto

section \<open>Entries of the array\<close>

lemma set_slot_entries: "set (slot_entries arr) = {h. Slot h \<in> set arr}"
  by (induction arr rule: slot_entries.induct) auto

lemma slot_entries_replicate [simp]: "slot_entries (replicate n Free) = []"
  by (induction n) auto

lemma mset_slot_entries_fill:
  "i < length arr \<Longrightarrow> arr ! i = Free \<Longrightarrow>
     mset (slot_entries (arr[i := Slot h])) = add_mset h (mset (slot_entries arr))"
  by (induction arr arbitrary: i rule: slot_entries.induct) (auto simp: nth_Cons split: nat.splits)

lemma mset_slot_entries_kill:
  "i < length arr \<Longrightarrow> arr ! i = Slot h \<Longrightarrow>
     add_mset h (mset (slot_entries (arr[i := Tombstone]))) = mset (slot_entries arr)"
  by (induction arr arbitrary: i rule: slot_entries.induct) (auto simp: nth_Cons split: nat.splits)

lemma length_slot_entries_le: "length (slot_entries arr) \<le> length arr"
  by (induction arr rule: slot_entries.induct) auto

lemma slot_entries_inj:
  "distinct (slot_entries arr) \<Longrightarrow> i < length arr \<Longrightarrow> j < length arr \<Longrightarrow>
     arr ! i = Slot h \<Longrightarrow> arr ! j = Slot h \<Longrightarrow> i = j"
proof (induction arr arbitrary: i j rule: slot_entries.induct)
  case (2 g arr)
  have "Slot g \<notin> set arr" using "2.prems"(1) by (simp add: set_slot_entries)
  with 2 show ?case by (cases i; cases j) (auto simp: in_set_conv_nth)
qed (auto simp: nth_Cons split: nat.splits)

section \<open>Invariant\<close>

text \<open>
  Entries are stored once, the counter counts them, and every slot the probe of an entry
  passes before the entry's own slot is in use (or was): an insertion never stops early.
\<close>

definition probe_path :: "(Hash \<Rightarrow> uint64) \<Rightarrow> nat \<Rightarrow> HashSetEntry \<Rightarrow> nat \<Rightarrow> nat list" where
  "probe_path sh n h i =
     takeWhile (\<lambda>k. k \<noteq> i)
       (probe_from n (shorthash sh (hash h) n) (shorthash sh (hash h) n))"

definition atomic_set_inv :: "(Hash \<Rightarrow> uint64) \<Rightarrow> atomic_set \<Rightarrow> bool" where
  "atomic_set_inv sh s \<longleftrightarrow>
     length (array s) = capacity s \<and> capacity s < 2 ^ 32 \<and>
     distinct (slot_entries (array s)) \<and>
     unat (num_filled_slots s) = length (slot_entries (array s)) \<and>
     (\<forall>i < capacity s. \<forall>h. array s ! i = Slot h \<longrightarrow>
        (\<forall>j \<in> set (probe_path sh (capacity s) h i). array s ! j \<noteq> Free))"

lemma shorthash_less:
  assumes "0 < n" "n < 2 ^ 32"
  shows "shorthash sh h n < n"
proof -
  define x where "x = (sh h AND 0xFFFFFFFF :: 64 word)"
  have x: "unat x < 2 ^ 32"
  proof -
    have "x \<le> 0xFFFFFFFF" unfolding x_def by (rule word_and_le1)
    then show ?thesis by (simp add: word_le_nat_alt)
  qed
  have n: "unat (of_nat n :: 64 word) = n"
    using assms(2) by (simp add: unat_of_nat)
  have "unat x * n < 2 ^ 32 * n" using x assms(1) by simp
  moreover have "unat x * n < 2 ^ 64"
    using mult_strict_mono[of "unat x" "2 ^ 32" n "2 ^ 32"] x assms by simp
  ultimately have "unat (x * of_nat n) = unat x * n" "unat x * n < 2 ^ 32 * n"
    using n by (simp_all add: unat_word_ariths)
  then have "unat (x * of_nat n) div 2 ^ 32 < n"
    by (simp only: less_mult_imp_div_less mult.commute)
  then show ?thesis
    unfolding shorthash_def x_def[symmetric]
    by (simp only: unat_drop_bit_eq drop_bit_nat_def)
qed

lemma probe_path_subset: "set (probe_path sh n h i) \<subseteq> {0..<max n (shorthash sh (hash h) n)}"
  unfolding probe_path_def probe_from_def
  by (auto dest!: set_takeWhileD split: if_splits)

lemma inv_probe_path_less:
  "atomic_set_inv sh s \<Longrightarrow> 0 < capacity s \<Longrightarrow> j \<in> set (probe_path sh (capacity s) h i) \<Longrightarrow>
     j < capacity s"
  using probe_path_subset[of sh "capacity s" h i] shorthash_less[of "capacity s" sh "hash h"]
  by (auto simp: atomic_set_inv_def)

lemma with_extra_buffer_less [simp]: "with_extra_buffer n < 4294967296"
  by (simp add: with_extra_buffer_def)

lemma atomic_set_inv_new [simp]: "atomic_set_inv sh (atomic_set_new n)"
  by (simp add: atomic_set_inv_def atomic_set_new_def with_extra_buffer_less Let_def)

lemma get_hashes_new [simp]: "get_hashes (atomic_set_new n) = []"
  by (simp add: get_hashes_def atomic_set_new_def Let_def)

lemma atomic_set_inv_clear [simp]: "atomic_set_inv sh s \<Longrightarrow> atomic_set_inv sh (set_clear s)"
  by (simp add: atomic_set_inv_def set_clear_def)

lemma get_hashes_clear [simp]: "get_hashes (set_clear s) = []"
  by (simp add: get_hashes_def set_clear_def)

lemma atomic_set_inv_resize [simp]:
  "atomic_set_inv sh s \<Longrightarrow> atomic_set_inv sh (set_resize n s)"
  by (simp add: atomic_set_inv_def set_resize_def Let_def with_extra_buffer_less)

text \<open>The scan of a member stops at the member.\<close>

lemma scan_member:
  assumes inv: "atomic_set_inv sh s" and i: "i < capacity s" "array s ! i = Slot h"
  defines "st \<equiv> shorthash sh (hash h) (capacity s)"
  shows "scan_list (array s) h (probe_from (capacity s) st st) = Some i"
proof -
  have pos: "0 < capacity s" using i(1) by auto
  have st: "st < capacity s" unfolding st_def
    using shorthash_less[OF pos] inv by (simp add: atomic_set_inv_def)
  have "i \<in> set (probe_from (capacity s) st st)"
    using set_probe_from_start[OF st] i(1) by simp
  with i(2) obtain k where k: "scan_list (array s) h (probe_from (capacity s) st st) = Some k"
    using scan_list_None by (metis not_Some_eq)
  note sk = scan_list_Some[OF k]
  have kc: "k < capacity s" using sk set_probe_from_start[OF st] by auto
  show ?thesis
  proof (cases "k = i")
    case True with k show ?thesis by simp
  next
    case False
    have "array s ! k \<noteq> Slot h"
      using slot_entries_inj[of "array s" k i h] inv i kc False by (auto simp: atomic_set_inv_def)
    then have free: "array s ! k = Free" using sk by auto
    have "i \<notin> set (takeWhile (\<lambda>j. j \<noteq> k) (probe_from (capacity s) st st))"
      using sk i(2) by auto
    then have "k \<in> set (takeWhile (\<lambda>j. j \<noteq> i) (probe_from (capacity s) st st))"
      using sk \<open>i \<in> set (probe_from (capacity s) st st)\<close> False
      by (auto intro: takeWhile_neq_order)
    then have "array s ! k \<noteq> Free"
      using inv i by (auto simp: atomic_set_inv_def probe_path_def st_def)
    with free show ?thesis by simp
  qed
qed

section \<open>Behaviour of the operations\<close>

lemma get_hashes_nth:
  "i < length (array s) \<Longrightarrow> array s ! i = Slot h \<Longrightarrow> h \<in> set (get_hashes s)"
  using nth_mem[of i "array s"] by (simp add: get_hashes_def set_slot_entries)

lemma scan_nonmember:
  assumes inv: "atomic_set_inv sh s" and h: "h \<notin> set (get_hashes s)" and pos: "0 < capacity s"
  defines "st \<equiv> shorthash sh (hash h) (capacity s)"
  shows "scan_list (array s) h (probe_from (capacity s) st st) = None \<longleftrightarrow> Free \<notin> set (array s)"
proof -
  have st: "st < capacity s" unfolding st_def
    using shorthash_less[OF pos] inv by (simp add: atomic_set_inv_def)
  have len: "length (array s) = capacity s" using inv by (simp add: atomic_set_inv_def)
  have "array s ! i \<noteq> Slot h" if "i < capacity s" for i
    using h that len get_hashes_nth by metis
  then show ?thesis
    by (auto simp: scan_list_None set_probe_from_start[OF st] in_set_conv_nth len)
qed

lemma free_slot_not_full:
  "atomic_set_inv sh s \<Longrightarrow> Free \<in> set (array s) \<Longrightarrow> unat (num_filled_slots s) < capacity s"
proof -
  assume inv: "atomic_set_inv sh s" and f: "Free \<in> set (array s)"
  have "Free \<in> set arr \<Longrightarrow> length (slot_entries arr) < length arr" for arr
    by (induction arr rule: slot_entries.induct)
      (auto simp: less_Suc_eq_le length_slot_entries_le)
  from this[OF f] inv show ?thesis by (simp add: atomic_set_inv_def)
qed

lemma try_insert_iff:
  assumes inv: "atomic_set_inv sh s"
  shows "fst (try_insert sh h s) \<longleftrightarrow> h \<notin> set (get_hashes s) \<and> Free \<in> set (array s)"
proof (cases "0 < capacity s")
  case False
  then show ?thesis using inv by (auto simp: try_insert_def atomic_set_inv_def)
next
  case pos: True
  define st where "st = shorthash sh (hash h) (capacity s)"
  have len: "length (array s) = capacity s" using inv by (simp add: atomic_set_inv_def)
  have st: "st < capacity s" unfolding st_def
    using shorthash_less[OF pos] inv by (simp add: atomic_set_inv_def)
  note scan = insert_scan_list[of st "array s" st h, unfolded len, OF st st]
  show ?thesis
  proof (cases "h \<in> set (get_hashes s)")
    case True
    then obtain i where "i < capacity s" "array s ! i = Slot h"
      by (auto simp: get_hashes_def set_slot_entries in_set_conv_nth len)
    with scan_member[OF inv this] scan True show ?thesis
      by (simp add: try_insert_def st_def[symmetric])
  next
    case False
    show ?thesis
    proof (cases "scan_list (array s) h (probe_from (capacity s) st st)")
      case None
      with scan_nonmember[OF inv False pos] scan show ?thesis
        by (simp add: try_insert_def st_def[symmetric])
    next
      case (Some i)
      have "Free \<in> set (array s)"
        using scan_nonmember[OF inv False pos] Some st_def by (metis option.simps(3))
      moreover have "i < capacity s" "array s ! i = Free"
        using scan_list_Some[OF Some] set_probe_from_start[OF st] False len get_hashes_nth
        by auto
      ultimately show ?thesis using scan Some False free_slot_not_full[OF inv]
        by (simp add: try_insert_def st_def[symmetric])
    qed
  qed
qed

lemma try_insert_False: "try_insert sh h s = (False, s') \<Longrightarrow> s' = s"
  by (auto simp: try_insert_def Let_def split: if_splits option.splits)

lemma try_insert_True_slot:
  assumes inv: "atomic_set_inv sh s" and ins: "try_insert sh h s = (True, s')"
  obtains i where "i < capacity s" "array s ! i = Free"
    "\<forall>j \<in> set (probe_path sh (capacity s) h i). array s ! j \<noteq> Free"
    "s' = s\<lparr>array := (array s)[i := Slot h], num_filled_slots := num_filled_slots s + 1\<rparr>"
proof -
  define st where "st = shorthash sh (hash h) (capacity s)"
  have len: "length (array s) = capacity s" using inv by (simp add: atomic_set_inv_def)
  have pos: "0 < capacity s" using ins by (auto simp: try_insert_def Let_def split: if_splits)
  have st: "st < capacity s" unfolding st_def
    using shorthash_less[OF pos] inv by (simp add: atomic_set_inv_def)
  from ins obtain i where i: "insert_scan (array s) h st st = Some i"
    and s': "s' = s\<lparr>array := (array s)[i := Slot h], num_filled_slots := num_filled_slots s + 1\<rparr>"
    by (auto simp: try_insert_def st_def Let_def split: if_splits option.splits)
  from i have sc: "scan_list (array s) h (probe_from (capacity s) st st) = Some i"
    and fr: "array s ! i = Free"
    using insert_scan_list[of st "array s" st h] st len by (auto split: option.splits if_splits)
  have "i < capacity s" using scan_list_Some[OF sc] set_probe_from_start[OF st] by auto
  then show thesis using that[OF _ fr _ s'] scan_list_Some[OF sc]
    by (auto simp: probe_path_def st_def)
qed

lemma try_insert_True:
  assumes inv: "atomic_set_inv sh s" and ins: "try_insert sh h s = (True, s')"
  shows "mset (get_hashes s') = add_mset h (mset (get_hashes s)) \<and> atomic_set_inv sh s'"
proof -
  from try_insert_True_slot[OF inv ins] obtain i where i: "i < capacity s" "array s ! i = Free"
    and path: "\<forall>j \<in> set (probe_path sh (capacity s) h i). array s ! j \<noteq> Free"
    and s': "s' = s\<lparr>array := (array s)[i := Slot h], num_filled_slots := num_filled_slots s + 1\<rparr>"
    by metis
  have len: "length (array s) = capacity s" using inv by (simp add: atomic_set_inv_def)
  have h: "h \<notin> set (get_hashes s)" "Free \<in> set (array s)"
    using try_insert_iff[OF inv, of h] ins by auto
  have m: "mset (slot_entries ((array s)[i := Slot h])) = add_mset h (mset (slot_entries (array s)))"
    using mset_slot_entries_fill i len by simp
  have d: "distinct (slot_entries ((array s)[i := Slot h]))"
    using m h(1) inv by (metis atomic_set_inv_def distinct.simps(2) get_hashes_def
        mset.simps(2) mset_eq_imp_distinct_iff)
  have l: "length (slot_entries ((array s)[i := Slot h])) = Suc (length (slot_entries (array s)))"
    using m by (metis mset.simps(2) length_Cons mset_eq_length)
  have c: "unat (num_filled_slots s + 1) = Suc (unat (num_filled_slots s))"
    using free_slot_not_full[OF inv h(2)] inv
    by (simp add: atomic_set_inv_def unat_word_ariths)
  have p: "(array s)[i := Slot h] ! j \<noteq> Free"
    if k: "k < capacity s" "(array s)[i := Slot h] ! k = Slot g"
      and j: "j \<in> set (probe_path sh (capacity s) g k)" for j k g
  proof (cases "j = i")
    case False
    then have "array s ! j \<noteq> Free"
      using k j path inv len i by (cases "k = i") (auto simp: atomic_set_inv_def)
    with False show ?thesis by simp
  qed (use i len in simp)
  show ?thesis using inv m d l c p
    by (auto simp: s' get_hashes_def atomic_set_inv_def)
qed

text \<open>Erasing an entry that is present never throws; erasing any other one does.\<close>

lemma set_erase_scan:
  fixes h :: HashSetEntry
  assumes inv: "atomic_set_inv sh s" and pos: "0 < capacity s"
  defines "st \<equiv> shorthash sh (hash h) (capacity s)"
  shows "erase_scan (array s) h st st =
    (case scan_list (array s) h (probe_from (capacity s) st st) of
       Some i \<Rightarrow> if array s ! i = Slot h then Ret i
                 else Throw (RuntimeError ''deletion failed to find elt'')
     | None \<Rightarrow> Throw (RuntimeError ''deletion failed after complete scan''))"
proof -
  have "length (array s) = capacity s" using inv by (simp add: atomic_set_inv_def)
  moreover have "st < capacity s" unfolding st_def
    using shorthash_less[OF pos] inv by (simp add: atomic_set_inv_def)
  ultimately show ?thesis using erase_scan_list[of st "array s" st h] by simp
qed

lemma atomic_set_inv_kill:
  assumes inv: "atomic_set_inv sh s" and i: "i < capacity s" "array s ! i = Slot h"
  shows "atomic_set_inv sh (s\<lparr>array := (array s)[i := Tombstone],
           num_filled_slots := num_filled_slots s - 1\<rparr>)"
proof -
  have len: "length (array s) = capacity s" using inv by (simp add: atomic_set_inv_def)
  have m: "add_mset h (mset (slot_entries ((array s)[i := Tombstone]))) = mset (slot_entries (array s))"
    using mset_slot_entries_kill i len by simp
  have d: "distinct (slot_entries ((array s)[i := Tombstone]))"
    using m inv by (metis atomic_set_inv_def distinct.simps(2) mset.simps(2) mset_eq_imp_distinct_iff)
  have l: "length (slot_entries (array s)) = Suc (length (slot_entries ((array s)[i := Tombstone])))"
    using m by (metis mset.simps(2) length_Cons mset_eq_length)
  then have "unat (num_filled_slots s) = Suc (length (slot_entries ((array s)[i := Tombstone])))"
    using inv by (simp add: atomic_set_inv_def)
  then have c: "unat (num_filled_slots s - 1) = length (slot_entries ((array s)[i := Tombstone]))"
    by (simp add: unat_sub word_le_nat_alt)
  have "(array s)[i := Tombstone] ! j \<noteq> Free"
    if k: "k < capacity s" "(array s)[i := Tombstone] ! k = Slot g"
      and j: "j \<in> set (probe_path sh (capacity s) g k)" for j k g
    using k j inv len i by (cases "k = i"; cases "j = i") (auto simp: atomic_set_inv_def)
  then show ?thesis using inv d c by (simp add: atomic_set_inv_def)
qed

lemma set_erase_member:
  assumes inv: "atomic_set_inv sh s" and h: "h \<in> set (get_hashes s)"
  shows "\<exists>s'. set_erase sh h s = Ret s' \<and> atomic_set_inv sh s' \<and>
           add_mset h (mset (get_hashes s')) = mset (get_hashes s)"
proof -
  have len: "length (array s) = capacity s" using inv by (simp add: atomic_set_inv_def)
  from h obtain i where i: "i < capacity s" "array s ! i = Slot h"
    by (auto simp: get_hashes_def set_slot_entries in_set_conv_nth len)
  have "set_erase sh h s = Ret (s\<lparr>array := (array s)[i := Tombstone],
           num_filled_slots := num_filled_slots s - 1\<rparr>)"
    using set_erase_scan[OF inv, of h] scan_member[OF inv i] i by (simp add: set_erase_def Let_def)
  with atomic_set_inv_kill[OF inv i] mset_slot_entries_kill[of i "array s" h] i len
  show ?thesis by (simp add: get_hashes_def)
qed

lemma set_erase_nonmember:
  assumes inv: "atomic_set_inv sh s" and h: "h \<notin> set (get_hashes s)"
  shows "\<exists>e. set_erase sh h s = Throw e"
proof (cases "0 < capacity s")
  case True
  have "length (array s) = capacity s" using inv by (simp add: atomic_set_inv_def)
  then have "scan_list (array s) h (probe_from (capacity s) st st) = Some i \<Longrightarrow>
      st < capacity s \<Longrightarrow> array s ! i \<noteq> Slot h" for i st
    using scan_list_Some set_probe_from_start h get_hashes_nth by (metis atLeastLessThan_iff)
  moreover have "shorthash sh (hash h) (capacity s) < capacity s"
    using shorthash_less[OF True] inv by (simp add: atomic_set_inv_def)
  ultimately show ?thesis
    using set_erase_scan[OF inv True, of h] by (auto simp: set_erase_def Let_def split: option.splits)
next
  case False
  then show ?thesis using inv
    by (simp add: set_erase_def Let_def erase_scan.simps atomic_set_inv_def)
qed

section \<open>A fresh set has room for its nominal capacity\<close>

lemma f32_exp_lower: "0 < f32_exp n \<Longrightarrow> 2 ^ (23 + f32_exp n) \<le> n"
proof (induction n rule: f32_exp.induct)
  case (1 n)
  then have n: "\<not> n < 2 ^ 24" "f32_exp n = Suc (f32_exp (n div 2))"
    by (auto simp: f32_exp.simps[of n] split: if_splits)
  show ?case
  proof (cases "0 < f32_exp (n div 2)")
    case True
    with 1 n have "2 ^ (23 + f32_exp (n div 2)) \<le> n div 2" by blast
    then have "2 * 2 ^ (23 + f32_exp (n div 2)) \<le> n" by linarith
    then show ?thesis using n(2) by (simp only: add_Suc_right power_Suc)
  qed (use n in simp)
qed

lemma f32_round_bounds: "2 * n \<le> 2 * f32_round n + 2 ^ f32_exp n \<and> f32_round n \<le> n + 2 ^ f32_exp n"
proof -
  define e q r where "e = f32_exp n" and "q = n div 2 ^ e" and "r = n mod 2 ^ e"
  have n: "n = q * 2 ^ e + r" unfolding q_def r_def by (rule div_mult_mod_eq[symmetric])
  have r: "r < 2 ^ e" by (simp add: r_def)
  have "f32_round n = (if 2 * r > 2 ^ e \<or> (2 * r = 2 ^ e \<and> odd q) then q * 2 ^ e + 2 ^ e else q * 2 ^ e)"
    by (simp add: f32_round_def Let_def e_def q_def r_def)
  then show ?thesis using n r unfolding e_def[symmetric] by (auto split: if_splits)
qed

lemma f32_round_small: "n < 2 ^ 24 \<Longrightarrow> f32_round n = n"
  by (simp add: f32_round_def Let_def f32_exp.simps[of n])

lemma with_extra_buffer_ge:
  assumes "n < 2 ^ 24"
  shows "n \<le> with_extra_buffer n"
proof -
  define p where "p = n * 10066330"
  define f e where "f = f32_round p" and "e = f32_exp p"
  have b: "2 * p \<le> 2 * f + 2 ^ e" "f \<le> p + 2 ^ e"
    using f32_round_bounds[of p] by (auto simp: f_def e_def)
  have e: "e = 0 \<or> 2 ^ 23 * 2 ^ e \<le> p"
    using f32_exp_lower[of p] by (auto simp: e_def power_add)
  have lo: "n * 2 ^ 23 \<le> f"
  proof (cases "e = 0")
    case True
    then have "2 * p \<le> 2 * f + 1" using b(1) by simp
    then show ?thesis by (simp add: p_def)
  next
    case False
    then have "(2::nat) ^ e * 2 ^ 23 \<le> n * 10066330" using e by (simp add: p_def mult.commute)
    with b(1) show ?thesis by (simp add: p_def)
  qed
  have "(2::nat) ^ e \<le> p + 1" using e by auto
  then have hi: "f < 2 ^ 55" using b(2) assms by (simp add: p_def)
  have "n \<le> f div 2 ^ 23" using lo by (simp add: less_eq_div_iff_mult_less_eq)
  moreover have "f div 2 ^ 23 < 2 ^ 32"
    using hi by (simp add: less_mult_imp_div_less)
  ultimately show ?thesis
    using f32_round_small[OF assms] by (simp add: with_extra_buffer_def f_def p_def)
qed

definition no_tombstone :: "atomic_set \<Rightarrow> bool" where
  "no_tombstone s \<longleftrightarrow> Tombstone \<notin> set (array s)"

lemma no_tombstone_free:
  assumes "atomic_set_inv sh s" "no_tombstone s" "length (get_hashes s) < capacity s"
  shows "Free \<in> set (array s)"
proof (rule ccontr)
  assume nf: "Free \<notin> set (array s)"
  have "Free \<notin> set arr \<Longrightarrow> Tombstone \<notin> set arr \<Longrightarrow> length (slot_entries arr) = length arr" for arr
    by (induction arr rule: slot_entries.induct) auto
  from this[OF nf] assms show False
    by (simp add: no_tombstone_def get_hashes_def atomic_set_inv_def)
qed

section \<open>The interface the block-level objects rely on\<close>

locale entry_set =
  fixes invar :: "'s \<Rightarrow> bool"
    and entries :: "'s \<Rightarrow> HashSetEntry list"
    and ins :: "HashSetEntry \<Rightarrow> 's \<Rightarrow> bool \<times> 's"
    and del :: "HashSetEntry \<Rightarrow> 's \<Rightarrow> 's outcome"
    and clear :: "'s \<Rightarrow> 's"
  assumes ins_True: "invar s \<Longrightarrow> ins h s = (True, s') \<Longrightarrow>
        invar s' \<and> mset (entries s') = add_mset h (mset (entries s))"
    and ins_False: "invar s \<Longrightarrow> ins h s = (False, s') \<Longrightarrow> s' = s"
    and entries_distinct: "invar s \<Longrightarrow> distinct (entries s)"
    and del_member: "invar s \<Longrightarrow> h \<in> set (entries s) \<Longrightarrow>
        \<exists>s'. del h s = Ret s' \<and> invar s' \<and> add_mset h (mset (entries s')) = mset (entries s)"
    and clear_empty: "invar s \<Longrightarrow> invar (clear s) \<and> entries (clear s) = []"
begin

lemma ins_member: "invar s \<Longrightarrow> h \<in> set (entries s) \<Longrightarrow> \<not> fst (ins h s)"
proof
  assume s: "invar s" "h \<in> set (entries s)" "fst (ins h s)"
  then obtain s' where "ins h s = (True, s')" by (cases "ins h s") auto
  then have s': "invar s'" "mset (entries s') = mset (h # entries s)"
    using ins_True s(1) by auto
  then have "distinct (h # entries s)"
    using entries_distinct mset_eq_imp_distinct_iff by blast
  with s(2) show False by simp
qed

text \<open>An insertion that is undone leaves the entries as they were.\<close>

lemma ins_del:
  assumes "invar s" "ins h s = (True, s')"
  shows "\<exists>s''. del h s' = Ret s'' \<and> invar s'' \<and> mset (entries s'') = mset (entries s)"
proof -
  have s': "invar s'" "mset (entries s') = add_mset h (mset (entries s))"
    using ins_True[OF assms] by auto
  then have "h \<in> set (entries s')" by (metis set_mset_mset union_single_eq_member)
  from del_member[OF s'(1) this] s'(2) show ?thesis by auto
qed

end

interpretation atomic_set: entry_set "atomic_set_inv sh" get_hashes "try_insert sh" "set_erase sh"
    set_clear for sh
proof unfold_locales
  fix s s' h
  assume inv: "atomic_set_inv sh s"
  show "try_insert sh h s = (True, s') \<Longrightarrow>
      atomic_set_inv sh s' \<and> mset (get_hashes s') = add_mset h (mset (get_hashes s))"
    using try_insert_True[OF inv] by blast
  show "try_insert sh h s = (False, s') \<Longrightarrow> s' = s"
    by (rule try_insert_False)
  show "distinct (get_hashes s)"
    using inv by (simp add: atomic_set_inv_def get_hashes_def)
  show "h \<in> set (get_hashes s) \<Longrightarrow> \<exists>s'. set_erase sh h s = Ret s' \<and> atomic_set_inv sh s' \<and>
      add_mset h (mset (get_hashes s')) = mset (get_hashes s)"
    by (rule set_erase_member[OF inv])
  show "atomic_set_inv sh (set_clear s) \<and> get_hashes (set_clear s) = []"
    using inv by simp
qed

section \<open>Properties\<close>

text \<open>
  C36: insertion and removal of the open-addressing set behave as on a mathematical set. An
  insertion succeeds exactly when the entry is absent and some slot was never used; it adds the
  entry on success and changes nothing on failure. A removal succeeds exactly on a member and
  removes it. Both keep the invariant, whatever keyed hash places the entries.
\<close>

theorem atomic_set_operations:
  assumes "atomic_set_inv sh s"
  shows "(fst (try_insert sh h s) \<longleftrightarrow> h \<notin> set (get_hashes s) \<and> Free \<in> set (array s)) \<and>
     atomic_set_inv sh (snd (try_insert sh h s)) \<and>
     mset (get_hashes (snd (try_insert sh h s))) =
       (if fst (try_insert sh h s) then add_mset h (mset (get_hashes s)) else mset (get_hashes s)) \<and>
     (if h \<in> set (get_hashes s)
      then \<exists>s'. set_erase sh h s = Ret s' \<and> atomic_set_inv sh s' \<and>
             mset (get_hashes s') = mset (get_hashes s) - {#h#}
      else \<exists>e. set_erase sh h s = Throw e)"
proof -
  obtain ok s' where ins: "try_insert sh h s = (ok, s')" by force
  have "(if h \<in> set (get_hashes s)
      then \<exists>s'. set_erase sh h s = Ret s' \<and> atomic_set_inv sh s' \<and>
             mset (get_hashes s') = mset (get_hashes s) - {#h#}
      else \<exists>e. set_erase sh h s = Throw e)"
    using set_erase_member[OF assms, of h] set_erase_nonmember[OF assms, of h]
    by (auto, metis add_mset_remove_trivial)
  then show ?thesis
    using try_insert_iff[OF assms, of h] try_insert_True[OF assms, of h s']
      try_insert_False[of sh h s s'] assms ins by (cases ok) auto
qed

theorem atomic_set_operations_witness:
  "fst (try_insert (\<lambda>_. 0) (HashSetEntry 7 1) (atomic_set_new 2)) \<and>
   set_erase (\<lambda>_. 0) (HashSetEntry 7 1) (atomic_set_new 2) \<noteq> Ret (atomic_set_new 2)"
proof -
  have "Free \<in> set (array (atomic_set_new 2))"
    by (simp add: atomic_set_new_def with_extra_buffer_def f32_round_def f32_exp.simps Let_def)
  then show ?thesis
    using atomic_set_operations[OF atomic_set_inv_new, of "\<lambda>_. 0" "HashSetEntry 7 1" 2] by auto
qed

text \<open>The outcome of inserting a list of entries one after the other.\<close>

fun insert_all :: "(Hash \<Rightarrow> uint64) \<Rightarrow> HashSetEntry list \<Rightarrow> atomic_set \<Rightarrow> bool \<times> atomic_set" where
  "insert_all sh [] s = (True, s)"
| "insert_all sh (h # hs) s =
     (let (ok, s1) = try_insert sh h s; (oks, s2) = insert_all sh hs s1 in (ok \<and> oks, s2))"

lemma no_tombstone_insert:
  "no_tombstone s \<Longrightarrow> no_tombstone (snd (try_insert sh h s)) \<and>
     capacity (snd (try_insert sh h s)) = capacity s"
  using set_update_subset_insert[of "array s" _ "Slot h"]
  by (auto simp: no_tombstone_def try_insert_def Let_def split: option.splits)

lemma insert_all_room:
  assumes "atomic_set_inv sh s" "no_tombstone s" "distinct hs" "set hs \<inter> set (get_hashes s) = {}"
    "length (get_hashes s) + length hs \<le> capacity s"
  shows "fst (insert_all sh hs s) \<and> atomic_set_inv sh (snd (insert_all sh hs s)) \<and>
     mset (get_hashes (snd (insert_all sh hs s))) = mset hs + mset (get_hashes s)"
  using assms
proof (induction hs arbitrary: s)
  case (Cons h hs)
  obtain ok s1 where ins: "try_insert sh h s = (ok, s1)" by force
  have "Free \<in> set (array s)"
    using no_tombstone_free[OF Cons.prems(1,2)] Cons.prems(5) by simp
  then have "ok" using try_insert_iff[OF Cons.prems(1), of h] ins Cons.prems(4) by simp
  with ins try_insert_True[OF Cons.prems(1), of h s1]
  have s1: "mset (get_hashes s1) = add_mset h (mset (get_hashes s))" "atomic_set_inv sh s1" by auto
  have l: "length (get_hashes s1) = Suc (length (get_hashes s))"
    using s1(1) by (metis size_add_mset size_mset)
  have st: "set (get_hashes s1) = insert h (set (get_hashes s))"
    using s1(1) by (metis set_mset_add_mset_insert set_mset_mset)
  have nt: "no_tombstone s1" "capacity s1 = capacity s"
    using no_tombstone_insert[OF Cons.prems(2), of sh h] ins by auto
  have "set hs \<inter> set (get_hashes s1) = {}" using Cons.prems(3,4) st by auto
  moreover have "length (get_hashes s1) + length hs \<le> capacity s1" using Cons.prems(5) l nt by simp
  ultimately show ?case
    using Cons.IH[OF s1(2) nt(1)] Cons.prems(3) s1(1) ins \<open>ok\<close>
    by (auto simp: split_beta)
qed simp

text \<open>
  A set created for \<open>n\<close> entries (\<open>n\<close> below \<open>2 ^ 24\<close>, hash sets never exceed 65535)
  accepts any \<open>n\<close> distinct entries, for every keyed hash: the single-precision scaling of the
  capacity never rounds below \<open>n\<close> and the probe finds the last free slot.
\<close>

theorem fresh_set_accepts_capacity:
  assumes "distinct hs" "length hs \<le> n" "n < 2 ^ 24"
  shows "fst (insert_all sh hs (atomic_set_new n)) \<and>
     mset (get_hashes (snd (insert_all sh hs (atomic_set_new n)))) = mset hs"
proof -
  have "n \<le> capacity (atomic_set_new n)"
    using with_extra_buffer_ge[of n] assms(3) by (simp add: atomic_set_new_def Let_def)
  moreover have "no_tombstone (atomic_set_new n)"
    by (simp add: no_tombstone_def atomic_set_new_def Let_def)
  ultimately show ?thesis
    using insert_all_room[OF atomic_set_inv_new, of n hs sh] assms(1,2) by simp
qed

theorem fresh_set_accepts_capacity_witness:
  "fst (insert_all (\<lambda>_. 0) [HashSetEntry 1 5, HashSetEntry 2 5, HashSetEntry 1 6] (atomic_set_new 3))"
  using fresh_set_accepts_capacity[of "[HashSetEntry 1 5, HashSetEntry 2 5, HashSetEntry 1 6]" 3 "\<lambda>_. 0"]
  by simp

end
