(* ===== verification/RevertableObject.thy ===== *)
theory RevertableObject
  imports RevertableBase AtomicSet
begin

text \<open>
  \<open>RevertableObject\<close> (\<open>object/revertable_object.h\<close>, \<open>object/revertable_object.cc\<close>): one
  key of the state database during a block. Transactions add deltas, each addition yields a
  \<open>DeltaRewind\<close> that is later committed or destroyed (which takes the delta back), and
  \<open>commit_round\<close> folds the committed deltas into the committed object.

  Every call is one atomic step. The keyed short hash is the parameter \<open>sh\<close>, the calling
  thread's tag generator the argument \<open>uid\<close>. \<open>utils::print_assert\<close> is an exception.
\<close>

section \<open>State\<close>

record RevertableObject =
  base_obj :: RevertableBaseObject
  total_subtracted :: int64
  total_added :: AtomicUint128
  size_increase :: uint64
  new_hashes :: atomic_set
  num_new_elts :: uint32
  hashset_clear_committed :: bool
  max_committed_clear_threshold :: uint64
  delete_last_committed :: bool
  available_asset :: uint64
  available_asset_upperbound :: uint64
  committed_base :: "StorageObject option"

record DeltaRewind =
  rewind_base :: BaseRewind
  rw_delta :: StorageDelta
  do_rewind :: bool

definition delta_rewind_new :: "BaseRewind \<Rightarrow> StorageDelta \<Rightarrow> DeltaRewind" where
  "delta_rewind_new r d = \<lparr>rewind_base = r, rw_delta = d, do_rewind = True\<rparr>"

definition RevertableObject_new :: RevertableObject where
  "RevertableObject_new =
     \<lparr>base_obj = base_new, total_subtracted = 0, total_added = u128_new, size_increase = 0,
      new_hashes = atomic_set_new START_HASH_SET_SIZE, num_new_elts = 0,
      hashset_clear_committed = False, max_committed_clear_threshold = 0,
      delete_last_committed = False, available_asset = 0, available_asset_upperbound = 0,
      committed_base = None\<rparr>"

definition RevertableObject_from :: "StorageObject \<Rightarrow> RevertableObject" where
  "RevertableObject_from ob =
     (let ro = \<lparr>base_obj = base_from_object ob, total_subtracted = 0, total_added = u128_new,
                size_increase = 0, new_hashes = atomic_set_new 0, num_new_elts = 0,
                hashset_clear_committed = False, max_committed_clear_threshold = 0,
                delete_last_committed = False, available_asset = 0,
                available_asset_upperbound = 0, committed_base = Some ob\<rparr>
      in case body ob of
           hash_set hs \<Rightarrow> ro\<lparr>new_hashes := set_resize (unat (max_size hs)) (new_hashes ro)\<rparr>
         | asset a \<Rightarrow> ro\<lparr>available_asset := a, available_asset_upperbound := a\<rparr>
         | _ \<Rightarrow> ro)"

section \<open>Adding a delta\<close>

definition try_add_uint64 :: "int64 \<Rightarrow> uint64 \<Rightarrow> uint64 option" where
  "try_add_uint64 delta base = (if add_overflow_us base delta then None else Some (base + delta))"

type_synonym add_result = "(DeltaRewind option \<times> RevertableObject \<times> uid) outcome"

text \<open>A failure after a successful \<open>try_set\<close> destroys the base rewind on the way out.\<close>

definition fail_after_set :: "uid \<Rightarrow> BaseRewind \<Rightarrow> RevertableObject \<Rightarrow> add_result" where
  "fail_after_set u r ro =
     obind (rewind_destroy u r (base_obj ro)) (\<lambda>(b, u'). Ret (None, ro\<lparr>base_obj := b\<rparr>, u'))"

definition with_base :: "uid \<Rightarrow> StorageDeltaClass \<Rightarrow> RevertableObject \<Rightarrow>
    (uid \<Rightarrow> BaseRewind \<Rightarrow> RevertableObject \<Rightarrow> add_result) \<Rightarrow> add_result" where
  "with_base u dc ro k =
     obind (try_set u dc (base_obj ro)) (\<lambda>(res, b, u').
       case res of
         None \<Rightarrow> Ret (None, ro\<lparr>base_obj := b\<rparr>, u')
       | Some r \<Rightarrow> k u' r (ro\<lparr>base_obj := b\<rparr>))"

definition committed_hash_set :: "RevertableObject \<Rightarrow> HashSet outcome" where
  "committed_hash_set ro = (case committed_base ro of
       None \<Rightarrow> Ret \<lparr>hashes = [], max_size = of_nat START_HASH_SET_SIZE\<rparr>
     | Some ob \<Rightarrow> (case body ob of
           hash_set hs \<Rightarrow> Ret hs
         | _ \<Rightarrow> Throw (RuntimeError ''wrong union arm'')))"

fun try_add_delta :: "(Hash \<Rightarrow> uint64) \<Rightarrow> uid \<Rightarrow> StorageDelta \<Rightarrow> RevertableObject \<Rightarrow> add_result" where
  "try_add_delta sh u DELETE_LAST ro = Ret (Some (delta_rewind_new False DELETE_LAST), ro, u)"
| "try_add_delta sh u (NONNEGATIVE_INT64_SET_ADD set_value d) ro =
     with_base u (DC_NONNEGATIVE_INT64 set_value) ro (\<lambda>u1 r ro1.
       if sint d < 0 then
         let cur_value = total_subtracted ro1
         in if add_overflow_ss cur_value d then fail_after_set u1 r ro1
            else let new_value = cur_value + d
                 in if sint set_value < 0 \<or> sint (set_value + new_value) < 0
                    then fail_after_set u1 r ro1
                    else Ret (Some (delta_rewind_new r (NONNEGATIVE_INT64_SET_ADD set_value d)),
                              ro1\<lparr>total_subtracted := new_value\<rparr>, u1)
       else Ret (Some (delta_rewind_new r (NONNEGATIVE_INT64_SET_ADD set_value d)),
                 ro1\<lparr>total_added := u128_add d (total_added ro1)\<rparr>, u1))"
| "try_add_delta sh u (RAW_MEMORY_WRITE data) ro =
     with_base u (DC_RAW_MEMORY data) ro (\<lambda>u1 r ro1.
       Ret (Some (delta_rewind_new r (RAW_MEMORY_WRITE data)), ro1, u1))"
| "try_add_delta sh u (HASH_SET_INCREASE_LIMIT limit_increase) ro =
     with_base u DC_HASH_SET ro (\<lambda>u1 r ro1.
       Ret (Some (delta_rewind_new r (HASH_SET_INCREASE_LIMIT limit_increase)),
            ro1\<lparr>size_increase := size_increase ro1 + ucast limit_increase\<rparr>, u1))"
| "try_add_delta sh u (HASH_SET_INSERT h) ro =
     with_base u DC_HASH_SET ro (\<lambda>u1 r ro1.
       obind (committed_hash_set ro1) (\<lambda>hs.
         if h \<in> set (hashes hs) then fail_after_set u1 r ro1
         else
           let cur_size = length (hashes hs) + unat (num_new_elts ro1 + 1);
               ro2 = ro1\<lparr>num_new_elts := num_new_elts ro1 + 1\<rparr>;
               undo = ro2\<lparr>num_new_elts := num_new_elts ro2 - 1\<rparr>
           in if cur_size > unat (max_size hs) then fail_after_set u1 r undo
              else let (ok, s) = try_insert sh h (new_hashes ro2)
                   in if \<not> ok then fail_after_set u1 r undo
                      else Ret (Some (delta_rewind_new r (HASH_SET_INSERT h)),
                                ro2\<lparr>new_hashes := s\<rparr>, u1)))"
| "try_add_delta sh u (HASH_SET_CLEAR threshold) ro =
     with_base u DC_HASH_SET ro (\<lambda>u1 r ro1.
       Ret (Some (delta_rewind_new r (HASH_SET_CLEAR threshold)), ro1, u1))"
| "try_add_delta sh u (ASSET_OBJECT_ADD d) ro =
     with_base u DC_KNOWN_SUPPLY_ASSET ro (\<lambda>u1 r ro1.
       if sint d < 0 then
         (case try_add_uint64 d (available_asset ro1) of
            None \<Rightarrow> fail_after_set u1 r ro1
          | Some v \<Rightarrow> Ret (Some (delta_rewind_new r (ASSET_OBJECT_ADD d)),
                           ro1\<lparr>available_asset := v\<rparr>, u1))
       else
         (case try_add_uint64 d (available_asset_upperbound ro1) of
            None \<Rightarrow> fail_after_set u1 r ro1
          | Some v \<Rightarrow> Ret (Some (delta_rewind_new r (ASSET_OBJECT_ADD d)),
                           ro1\<lparr>available_asset_upperbound := v\<rparr>, u1)))"
| "try_add_delta sh u _ ro =
     Throw (RuntimeError ''unimplemented deltatype in RevertableObject::try_set'')"

section \<open>Committing or reverting one delta\<close>

fun commit_delta :: "StorageDelta \<Rightarrow> RevertableObject \<Rightarrow> RevertableObject outcome" where
  "commit_delta DELETE_LAST ro = Ret (ro\<lparr>delete_last_committed := True\<rparr>)"
| "commit_delta (NONNEGATIVE_INT64_SET_ADD _ _) ro = Ret ro"
| "commit_delta (RAW_MEMORY_WRITE _) ro = Ret ro"
| "commit_delta (HASH_SET_INCREASE_LIMIT _) ro = Ret ro"
| "commit_delta (HASH_SET_INSERT _) ro = Ret ro"
| "commit_delta (HASH_SET_CLEAR threshold) ro =
     (let ro1 = ro\<lparr>hashset_clear_committed := True\<rparr>;
          cur_threshold = max_committed_clear_threshold ro1
      in if cur_threshold \<ge> threshold then Ret ro1
         else Ret (ro1\<lparr>max_committed_clear_threshold := threshold\<rparr>))"
| "commit_delta (ASSET_OBJECT_ADD d) ro =
     (if sint d < 0
      then Ret (ro\<lparr>available_asset_upperbound := available_asset_upperbound ro + d\<rparr>)
      else Ret (ro\<lparr>available_asset := available_asset ro + d\<rparr>))"
| "commit_delta _ ro = Throw (RuntimeError ''unknown deltatype in commit_delta()'')"

fun revert_delta :: "(Hash \<Rightarrow> uint64) \<Rightarrow> StorageDelta \<Rightarrow> RevertableObject \<Rightarrow> RevertableObject outcome" where
  "revert_delta sh DELETE_LAST ro = Ret ro"
| "revert_delta sh (NONNEGATIVE_INT64_SET_ADD _ d) ro =
     (if sint d < 0 then Ret (ro\<lparr>total_subtracted := total_subtracted ro - d\<rparr>)
      else Ret (ro\<lparr>total_added := u128_sub d (total_added ro)\<rparr>))"
| "revert_delta sh (RAW_MEMORY_WRITE _) ro = Ret ro"
| "revert_delta sh (HASH_SET_INCREASE_LIMIT limit_increase) ro =
     Ret (ro\<lparr>size_increase := size_increase ro - ucast limit_increase\<rparr>)"
| "revert_delta sh (HASH_SET_INSERT h) ro =
     (let ro1 = ro\<lparr>num_new_elts := num_new_elts ro - 1\<rparr>
      in obind (set_erase sh h (new_hashes ro1)) (\<lambda>s. Ret (ro1\<lparr>new_hashes := s\<rparr>)))"
| "revert_delta sh (HASH_SET_CLEAR _) ro = Ret ro"
| "revert_delta sh (ASSET_OBJECT_ADD d) ro =
     (if sint d < 0 then Ret (ro\<lparr>available_asset := available_asset ro - d\<rparr>)
      else Ret (ro\<lparr>available_asset_upperbound := available_asset_upperbound ro - d\<rparr>))"
| "revert_delta sh _ ro = Throw (RuntimeError ''assert unreachable'')"

definition delta_rewind_commit ::
    "DeltaRewind \<Rightarrow> RevertableObject \<Rightarrow> (DeltaRewind \<times> RevertableObject) outcome" where
  "delta_rewind_commit rw ro =
     obind (commit_delta (rw_delta rw) ro) (\<lambda>ro1.
       Ret (rw\<lparr>rewind_base := False, do_rewind := False\<rparr>,
            ro1\<lparr>base_obj := rewind_commit (rewind_base rw) (base_obj ro1)\<rparr>))"

text \<open>The destructor body runs first, then the destructor of the base rewind.\<close>

definition delta_rewind_destroy :: "(Hash \<Rightarrow> uint64) \<Rightarrow> uid \<Rightarrow> DeltaRewind \<Rightarrow> RevertableObject \<Rightarrow>
    (RevertableObject \<times> uid) outcome" where
  "delta_rewind_destroy sh u rw ro =
     obind (if do_rewind rw then revert_delta sh (rw_delta rw) ro else Ret ro) (\<lambda>ro1.
       obind (rewind_destroy u (rewind_base rw) (base_obj ro1)) (\<lambda>(b, u').
         Ret (ro1\<lparr>base_obj := b\<rparr>, u')))"

section \<open>The end of a round\<close>

definition clear_mods :: "RevertableObject \<Rightarrow> RevertableObject" where
  "clear_mods ro =
     (let ro1 = ro\<lparr>total_subtracted := 0, total_added := u128_clear (total_added ro),
                   size_increase := 0, new_hashes := set_clear (new_hashes ro),
                   num_new_elts := 0, hashset_clear_committed := False,
                   max_committed_clear_threshold := 0, delete_last_committed := False\<rparr>;
          amount = prev_asset (committed_base ro1)
      in ro1\<lparr>available_asset := amount, available_asset_upperbound := amount\<rparr>)"

fun commit_body :: "RevertableObject \<Rightarrow> ObjectBody \<Rightarrow> (ObjectBody \<times> RevertableObject) outcome" where
  "commit_body ro (nonnegative_int64 v) =
     (let v1 = v + total_subtracted ro; add = u128_fetch_cap (total_added ro)
      in if add_overflow_su v1 add then Ret (nonnegative_int64 INT64_MAX, ro)
         else Ret (nonnegative_int64 (v1 + add), ro))"
| "commit_body ro (raw_memory_storage d) = Ret (raw_memory_storage d, ro)"
| "commit_body ro (hash_set hs) =
     (let size_inc = size_increase ro;
          new_size = size_inc + ucast (max_size hs) :: uint64;
          hs1 = hs\<lparr>max_size := ucast (min (of_nat MAX_HASH_SET_SIZE) new_size)\<rparr>;
          new_hashes_list = get_hashes (new_hashes ro);
          ro1 = (if size_inc > 0
                 then ro\<lparr>new_hashes := set_resize (unat new_size mod 2 ^ 32) (new_hashes ro)\<rparr>
                 else ro);
          hs2 = normalize_hashset (hs1\<lparr>hashes := hashes hs1 @ new_hashes_list\<rparr>);
          hs3 = (if hashset_clear_committed ro1
                 then clear_hashset hs2 (max_committed_clear_threshold ro1) else hs2)
      in Ret (hash_set hs3, ro1))"
| "commit_body ro (asset a) =
     (if available_asset ro = available_asset_upperbound ro
      then Ret (asset (available_asset ro), ro)
      else Throw (RuntimeError ''asset value vs. upperbound mismatch in commit''))"
| "commit_body ro (unconstrained_int64 _) =
     Throw (RuntimeError ''unimplemented object type in RevertableObject::commit_round()'')"

definition commit_round :: "RevertableObject \<Rightarrow> RevertableObject outcome" where
  "commit_round ro =
     (let (new_base, b) = commit_round_and_reset (base_obj ro);
          ro1 = ro\<lparr>base_obj := b\<rparr>
      in obind (case new_base of
                  None \<Rightarrow> Ret (committed_base ro1)
                | Some dc \<Rightarrow> obind (object_from_delta_class dc (committed_base ro1)) (\<lambda>ob. Ret (Some ob)))
           (\<lambda>cb.
              let ro2 = ro1\<lparr>committed_base := cb\<rparr>
              in case cb of
                   None \<Rightarrow> Ret (clear_mods ro2)
                 | Some ob \<Rightarrow>
                     if delete_last_committed ro2 then
                       let ro3 = clear_mods ro2
                       in Ret (ro3\<lparr>committed_base := None,
                                   base_obj := clear_required_type (base_obj ro3)\<rparr>)
                     else
                       obind (commit_body ro2 (body ob)) (\<lambda>(bd, ro3).
                         Ret (clear_mods (ro3\<lparr>committed_base := Some (ob\<lparr>body := bd\<rparr>)\<rparr>)))))"

definition rewind_round :: "RevertableObject \<Rightarrow> RevertableObject" where
  "rewind_round ro = clear_mods (ro\<lparr>base_obj := base_rewind_round (base_obj ro)\<rparr>)"

definition get_committed_object :: "RevertableObject \<Rightarrow> StorageObject option" where
  "get_committed_object ro = committed_base ro"

end
