(* ===== verification/RevertableRound.thy ===== *)
theory RevertableRound
  imports RevertableObject
begin

text \<open>
  What a \<open>RevertableObject\<close> holds in the middle of a block. The history of a round is the
  multiset \<open>L\<close> of live rewinds and the multiset \<open>C\<close> of committed deltas; the round
  invariant reads every counter of the object as a sum over the two. It is kept by every
  interleaving of additions, commits and reverts.
\<close>

section \<open>What a delta contributes\<close>

fun delta_class :: "StorageDelta \<Rightarrow> StorageDeltaClass option" where
  "delta_class DELETE_LAST = None"
| "delta_class (RAW_MEMORY_WRITE data) = Some (DC_RAW_MEMORY data)"
| "delta_class (NONNEGATIVE_INT64_SET_ADD sv _) = Some (DC_NONNEGATIVE_INT64 sv)"
| "delta_class (HASH_SET_INSERT _) = Some DC_HASH_SET"
| "delta_class (HASH_SET_INCREASE_LIMIT _) = Some DC_HASH_SET"
| "delta_class (HASH_SET_CLEAR _) = Some DC_HASH_SET"
| "delta_class (UNCONSTRAINED_INT64_SET_ADD sv _) = Some (DC_UNCONSTRAINED_INT64 sv DT_UNCONSTRAINED_INT64_SET_ADD)"
| "delta_class (UNCONSTRAINED_INT64_SET_MAX sv _) = Some (DC_UNCONSTRAINED_INT64 sv DT_UNCONSTRAINED_INT64_SET_MAX)"
| "delta_class (UNCONSTRAINED_INT64_SET_XOR sv _) = Some (DC_UNCONSTRAINED_INT64 sv DT_UNCONSTRAINED_INT64_SET_XOR)"
| "delta_class (ASSET_OBJECT_ADD _) = Some DC_KNOWN_SUPPLY_ASSET"

fun nn_neg :: "StorageDelta \<Rightarrow> int" where
  "nn_neg (NONNEGATIVE_INT64_SET_ADD _ d) = (if sint d < 0 then sint d else 0)"
| "nn_neg _ = 0"

fun nn_pos :: "StorageDelta \<Rightarrow> int" where
  "nn_pos (NONNEGATIVE_INT64_SET_ADD _ d) = (if sint d < 0 then 0 else sint d)"
| "nn_pos _ = 0"

fun limit_inc :: "StorageDelta \<Rightarrow> int" where
  "limit_inc (HASH_SET_INCREASE_LIMIT l) = uint l"
| "limit_inc _ = 0"

fun inserted :: "StorageDelta \<Rightarrow> HashSetEntry multiset" where
  "inserted (HASH_SET_INSERT h) = {#h#}"
| "inserted _ = {#}"

fun asset_neg :: "StorageDelta \<Rightarrow> int" where
  "asset_neg (ASSET_OBJECT_ADD d) = (if sint d < 0 then sint d else 0)"
| "asset_neg _ = 0"

fun asset_pos :: "StorageDelta \<Rightarrow> int" where
  "asset_pos (ASSET_OBJECT_ADD d) = (if sint d < 0 then 0 else sint d)"
| "asset_pos _ = 0"

abbreviation total :: "(StorageDelta \<Rightarrow> 'a :: comm_monoid_add) \<Rightarrow> StorageDelta multiset \<Rightarrow> 'a" where
  "total f A \<equiv> sum_mset (image_mset f A)"

definition clear_max :: "StorageDelta multiset \<Rightarrow> uint64" where
  "clear_max C = Max (insert 0 {t. HASH_SET_CLEAR t \<in># C})"

lemma nn_neg_le [simp]: "nn_neg d \<le> 0" and asset_neg_le [simp]: "asset_neg d \<le> 0"
  by (cases d; simp)+

lemma pos_ge [simp]: "0 \<le> nn_pos d" "0 \<le> asset_pos d" "0 \<le> limit_inc d"
  by (cases d; simp)+

lemma total_nonneg: "(\<And>d. (0 :: int) \<le> f d) \<Longrightarrow> 0 \<le> total f A"
  by (induction A) auto

lemma total_nonpos: "(\<And>d. f d \<le> (0 :: int)) \<Longrightarrow> total f A \<le> 0"
  by (induction A) (auto simp: add_nonpos_nonpos)

lemmas total_signs [simp] = total_nonneg[of nn_pos, OF pos_ge(1)] total_nonneg[of asset_pos, OF pos_ge(2)]
  total_nonneg[of limit_inc, OF pos_ge(3)] total_nonpos[of nn_neg, OF nn_neg_le]
  total_nonpos[of asset_neg, OF asset_neg_le]

lemma total_nn_neg_witness:
  "total nn_neg A < 0 \<Longrightarrow> \<exists>sv d. NONNEGATIVE_INT64_SET_ADD sv d \<in># A"
proof (induction A)
  case (add x A)
  then show ?case by (cases x) auto
qed simp

lemma clear_set_finite [simp]: "finite {t. HASH_SET_CLEAR t \<in># C}"
proof -
  have "HASH_SET_CLEAR ` {t. HASH_SET_CLEAR t \<in># C} \<subseteq> set_mset C" by auto
  then show ?thesis by (rule finite_imageD[OF finite_subset]) (auto intro: inj_onI)
qed

lemma clear_max_add:
  "clear_max (add_mset d C) = (case d of HASH_SET_CLEAR t \<Rightarrow> max t (clear_max C) | _ \<Rightarrow> clear_max C)"
proof (cases d)
  case (HASH_SET_CLEAR t)
  then have "insert 0 {t'. HASH_SET_CLEAR t' \<in># add_mset d C} = insert t (insert 0 {t'. HASH_SET_CLEAR t' \<in># C})"
    by auto
  with HASH_SET_CLEAR show ?thesis by (simp add: clear_max_def del: insert_iff)
qed (simp_all add: clear_max_def)

lemma clear_max_empty [simp]: "clear_max {#} = 0"
  by (simp add: clear_max_def)

section \<open>The round invariant\<close>

definition deltas :: "DeltaRewind multiset \<Rightarrow> StorageDelta multiset \<Rightarrow> StorageDelta multiset" where
  "deltas L C = image_mset rw_delta L + C"

definition classed :: "StorageDelta multiset \<Rightarrow> StorageDelta multiset" where
  "classed A = filter_mset (\<lambda>d. delta_class d \<noteq> None) A"

text \<open>The tag and the pointer of the base object.\<close>

definition base_inv :: "DeltaRewind multiset \<Rightarrow> StorageDelta multiset \<Rightarrow> RevertableBaseObject \<Rightarrow> bool" where
  "base_inv L C b \<longleftrightarrow> base_ok b \<and>
     (\<forall>d dc. d \<in># deltas L C \<longrightarrow> delta_class d = Some dc \<longrightarrow> obj b = Some dc) \<and>
     (\<forall>rw. rw \<in># L \<longrightarrow> do_rewind rw \<and> (delta_class (rw_delta rw) = None \<longrightarrow> \<not> rewind_base rw)) \<and>
     (if base_finalized b then classed C \<noteq> {#}
      else classed C = {#} \<and> base_inflight b = size (classed (image_mset rw_delta L)) \<and>
           (\<forall>rw. rw \<in># L \<longrightarrow> delta_class (rw_delta rw) \<noteq> None \<longrightarrow> rewind_base rw))"

text \<open>The counters: \<open>A\<close> holds the live and the committed deltas, \<open>C\<close> the committed ones.\<close>

definition nn_inv :: "StorageDelta multiset \<Rightarrow> RevertableObject \<Rightarrow> bool" where
  "nn_inv A ro \<longleftrightarrow>
     total_subtracted ro = word_of_int (total nn_neg A) \<and> - (2 ^ 63) \<le> total nn_neg A \<and>
     u128_value (total_added ro) = word_of_int (total nn_pos A) \<and>
     (\<forall>sv d. NONNEGATIVE_INT64_SET_ADD sv d \<in># A \<longrightarrow> total nn_neg A < 0 \<longrightarrow>
        0 \<le> sint sv + total nn_neg A)"

definition hs_inv :: "(Hash \<Rightarrow> uint64) \<Rightarrow> StorageDelta multiset \<Rightarrow> RevertableObject \<Rightarrow> bool" where
  "hs_inv sh A ro \<longleftrightarrow>
     size_increase ro = word_of_int (total limit_inc A) \<and>
     atomic_set_inv sh (new_hashes ro) \<and>
     mset (get_hashes (new_hashes ro)) = total inserted A \<and>
     unat (num_new_elts ro) = size (total inserted A) \<and>
     (\<forall>h. h \<in># total inserted A \<longrightarrow> h \<notin> set (hashes (prev_hash_set (committed_base ro)))) \<and>
     (total inserted A = {#} \<or>
        length (hashes (prev_hash_set (committed_base ro))) + size (total inserted A)
          \<le> unat (max_size (prev_hash_set (committed_base ro))))"

definition asset_low :: "uint64 \<Rightarrow> StorageDelta multiset \<Rightarrow> StorageDelta multiset \<Rightarrow> int" where
  "asset_low a0 A C = uint a0 + total asset_pos C + total asset_neg A"

definition asset_high :: "uint64 \<Rightarrow> StorageDelta multiset \<Rightarrow> StorageDelta multiset \<Rightarrow> int" where
  "asset_high a0 A C = uint a0 + total asset_pos A + total asset_neg C"

definition asset_inv :: "StorageDelta multiset \<Rightarrow> StorageDelta multiset \<Rightarrow> RevertableObject \<Rightarrow> bool" where
  "asset_inv A C ro \<longleftrightarrow>
     (let a0 = prev_asset (committed_base ro)
      in available_asset ro = word_of_int (asset_low a0 A C) \<and> 0 \<le> asset_low a0 A C \<and>
         available_asset_upperbound ro = word_of_int (asset_high a0 A C) \<and> asset_high a0 A C < 2 ^ 64)"

definition flag_inv :: "StorageDelta multiset \<Rightarrow> RevertableObject \<Rightarrow> bool" where
  "flag_inv C ro \<longleftrightarrow>
     (hashset_clear_committed ro \<longleftrightarrow> (\<exists>t. HASH_SET_CLEAR t \<in># C)) \<and>
     max_committed_clear_threshold ro = clear_max C \<and>
     (delete_last_committed ro \<longleftrightarrow> DELETE_LAST \<in># C)"

definition mods_inv :: "(Hash \<Rightarrow> uint64) \<Rightarrow> StorageDelta multiset \<Rightarrow> StorageDelta multiset \<Rightarrow>
    RevertableObject \<Rightarrow> bool" where
  "mods_inv sh A C ro \<longleftrightarrow> nn_inv A ro \<and> hs_inv sh A ro \<and> asset_inv A C ro \<and> flag_inv C ro"

definition round_inv :: "(Hash \<Rightarrow> uint64) \<Rightarrow> DeltaRewind multiset \<Rightarrow> StorageDelta multiset \<Rightarrow>
    RevertableObject \<Rightarrow> bool" where
  "round_inv sh L C ro \<longleftrightarrow> base_inv L C (base_obj ro) \<and>
     required_type (base_obj ro) = map_option (\<lambda>ob. body_type (body ob)) (committed_base ro) \<and>
     (\<forall>d. d \<in># deltas L C \<longrightarrow> supported d) \<and> mods_inv sh (deltas L C) C ro"

lemma deltas_simps [simp]:
  "deltas (add_mset rw L) C = add_mset (rw_delta rw) (deltas L C)"
  "deltas L (add_mset d C) = add_mset d (deltas L C)"
  "deltas {#} C = C"
  by (simp_all add: deltas_def)

lemma classed_simps [simp]:
  "classed {#} = {#}"
  "classed (add_mset d A) = (if delta_class d = None then classed A else add_mset d (classed A))"
  by (simp_all add: classed_def)

lemma asset_low_le_high:
  "C \<subseteq># A \<Longrightarrow> asset_low a0 A C \<le> asset_high a0 A C"
proof -
  assume "C \<subseteq># A"
  then obtain R where A: "A = C + R" by (metis subset_mset.le_iff_add)
  show ?thesis using order_trans[OF total_signs(5)[of R] total_signs(2)[of R]]
    by (simp add: A asset_low_def asset_high_def)
qed

lemma committed_sub_deltas [simp]: "C \<subseteq># deltas L C"
  by (simp add: deltas_def)

section \<open>The base object under the three steps\<close>

lemma in_classed [simp]: "d \<in># classed A \<longleftrightarrow> d \<in># A \<and> delta_class d \<noteq> None"
  by (simp add: classed_def)

lemma classed_union [simp]: "classed (A + B) = classed A + classed B"
  by (simp add: classed_def)

lemma classed_empty: "classed A = {#} \<Longrightarrow> d \<in># A \<Longrightarrow> delta_class d = None"
  using in_classed[of d A] by auto

lemma classed_nonempty: "classed A \<noteq> {#} \<Longrightarrow> \<exists>d dc. d \<in># A \<and> delta_class d = Some dc"
  using in_classed[of _ A] by (metis multiset_nonemptyE not_Some_eq)

lemma base_inv_finI:
  assumes "base_ok b" "base_finalized b" "classed C \<noteq> {#}"
    "\<And>d dc. d \<in># deltas L C \<Longrightarrow> delta_class d = Some dc \<Longrightarrow> obj b = Some dc"
    "\<And>rw. rw \<in># L \<Longrightarrow> do_rewind rw"
    "\<And>rw. rw \<in># L \<Longrightarrow> delta_class (rw_delta rw) = None \<Longrightarrow> \<not> rewind_base rw"
  shows "base_inv L C b"
  using assms by (simp add: base_inv_def)

lemma base_inv_openI:
  assumes "base_ok b" "\<not> base_finalized b" "classed C = {#}"
    "base_inflight b = size (classed (image_mset rw_delta L))"
    "\<And>d dc. d \<in># deltas L C \<Longrightarrow> delta_class d = Some dc \<Longrightarrow> obj b = Some dc"
    "\<And>rw. rw \<in># L \<Longrightarrow> do_rewind rw"
    "\<And>rw. rw \<in># L \<Longrightarrow> rewind_base rw \<longleftrightarrow> delta_class (rw_delta rw) \<noteq> None"
  shows "base_inv L C b"
  using assms by (simp add: base_inv_def)

lemma base_invD:
  assumes "base_inv L C b"
  shows "base_ok b"
    "d \<in># deltas L C \<Longrightarrow> delta_class d = Some dc \<Longrightarrow> obj b = Some dc"
    "rw \<in># L \<Longrightarrow> do_rewind rw"
    "rw \<in># L \<Longrightarrow> delta_class (rw_delta rw) = None \<Longrightarrow> \<not> rewind_base rw"
    "base_finalized b \<Longrightarrow> classed C \<noteq> {#}"
    "\<not> base_finalized b \<Longrightarrow> classed C = {#}"
    "\<not> base_finalized b \<Longrightarrow> base_inflight b = size (classed (image_mset rw_delta L))"
    "\<not> base_finalized b \<Longrightarrow> rw \<in># L \<Longrightarrow> rewind_base rw \<longleftrightarrow> delta_class (rw_delta rw) \<noteq> None"
  using assms by (auto simp: base_inv_def)

lemma base_inv_obj:
  assumes "base_inv L C b"
  shows "obj b = Some dc \<longleftrightarrow> (\<exists>d. d \<in># deltas L C \<and> delta_class d = Some dc)"
proof
  assume o: "obj b = Some dc"
  have "classed (deltas L C) \<noteq> {#}"
  proof (cases "base_finalized b")
    case True
    then show ?thesis using base_invD(5)[OF assms] by (simp add: deltas_def)
  next
    case False
    then have "base_inflight b \<noteq> 0"
      using base_invD(1)[OF assms] o
      by (auto simp: base_ok_def expect_nonnull_iff is_finalized_iff le_Suc_eq)
    then show ?thesis using False base_invD(7)[OF assms] by (auto simp: deltas_def)
  qed
  from classed_nonempty[OF this] obtain d dc' where "d \<in># deltas L C" "delta_class d = Some dc'"
    by blast
  with base_invD(2)[OF assms this] o
  show "\<exists>d. d \<in># deltas L C \<and> delta_class d = Some dc" by auto
qed (use base_invD(2)[OF assms] in blast)

lemma base_inv_agrees:
  assumes "base_inv L C b"
  shows "class_agrees b dc \<longleftrightarrow> type_allowed b dc \<and>
     (\<forall>d dc'. d \<in># deltas L C \<longrightarrow> delta_class d = Some dc' \<longrightarrow> dc' = dc)"
proof -
  have "(obj b = None \<or> obj b = Some dc) \<longleftrightarrow> (\<forall>dc'. obj b = Some dc' \<longrightarrow> dc' = dc)"
    by (cases "obj b") auto
  then show ?thesis unfolding class_agrees_def base_inv_obj[OF assms] by blast
qed

lemma base_inv_inflight_le:
  "base_inv L C b \<Longrightarrow> \<not> base_finalized b \<Longrightarrow> base_inflight b \<le> size L"
  using base_invD(7)[of L C b] size_filter_mset_lesseq[of _ "image_mset rw_delta L"]
  by (simp add: classed_def)

lemma base_inv_set:
  assumes inv: "base_inv L C b" and ag: "class_agrees b dc" and u: "uid_ok u"
    and d: "delta_class d = Some dc" and room: "size L < 255"
  shows "\<exists>r b' u'. try_set u dc b = Ret (Some r, b', u') \<and> uid_ok u' \<and>
     base_inv (add_mset (delta_rewind_new r d) L) C b' \<and> required_type b' = required_type b"
proof -
  have "base_finalized b \<or> base_inflight b < 255"
    using base_inv_inflight_le[OF inv] room by (auto intro: le_less_trans)
  from try_set_accepts[OF base_invD(1)[OF inv] ag u this] obtain b' u' where
    s: "try_set u dc b = Ret (Some (\<not> base_finalized b), b', u')" "uid_ok u'" "base_ok b'"
      "obj b' = Some dc" "required_type b' = required_type b" "base_finalized b' = base_finalized b"
      "\<not> base_finalized b \<longrightarrow> base_inflight b' = base_inflight b + 1"
    by auto
  have all: "d' \<in># deltas L C \<Longrightarrow> delta_class d' = Some dc' \<Longrightarrow> dc' = dc" for d' dc'
    using base_inv_agrees[OF inv, of dc] ag by blast
  have "base_inv (add_mset (delta_rewind_new (\<not> base_finalized b) d) L) C b'"
  proof (cases "base_finalized b")
    case True
    then show ?thesis using s d all base_invD(3,4)[OF inv] base_invD(5)[OF inv True]
      by (intro base_inv_finI) (auto simp: delta_rewind_new_def)
  next
    case False
    then show ?thesis using s d all base_invD(3)[OF inv] base_invD(6-8)[OF inv False]
      by (intro base_inv_openI) (auto simp: delta_rewind_new_def)
  qed
  with s show ?thesis by blast
qed

lemma base_inv_revert:
  assumes inv: "base_inv (add_mset rw L) C b" and u: "uid_ok u"
  shows "\<exists>b' u'. rewind_destroy u (rewind_base rw) b = Ret (b', u') \<and> uid_ok u' \<and>
     base_inv L C b' \<and> required_type b' = required_type b"
proof (cases "base_finalized b")
  case True
  then have inv': "base_inv L C b" using base_invD(1-5)[OF inv] by (intro base_inv_finI) auto
  have "\<exists>b' u'. base_revert u b = Ret (b', u') \<and> uid_ok u' \<and> b' = b"
    using base_revert_ok[OF base_invD(1)[OF inv] u] True by blast
  with inv' u show ?thesis by (auto simp: rewind_destroy_def)
next
  case False
  note open_inv = base_invD(6-8)[OF inv False]
  show ?thesis
  proof (cases "delta_class (rw_delta rw)")
    case None
    then have "base_inv L C b" using base_invD(1-3)[OF inv] open_inv False
      by (intro base_inv_openI) auto
    with u open_inv None show ?thesis by (simp add: rewind_destroy_def)
  next
    case (Some dc)
    then have n: "base_inflight b = Suc (size (classed (image_mset rw_delta L)))"
      using open_inv by simp
    from base_revert_ok[OF base_invD(1)[OF inv] u] n False obtain b' u' where
      r: "base_revert u b = Ret (b', u')" "uid_ok u'" "base_ok b'" "required_type b' = required_type b"
        "\<not> base_finalized b'" "base_inflight b' = base_inflight b - 1"
        "obj b' = (if base_inflight b = 1 then None else obj b)" by auto
    have none: "d \<in># deltas L C \<Longrightarrow> delta_class d \<noteq> None \<Longrightarrow> base_inflight b \<noteq> 1" for d
      using n open_inv(1) in_classed[of d "deltas L C"] unfolding deltas_def
      by (auto simp del: in_classed union_iff)
    have "base_inv L C b'"
    proof (rule base_inv_openI)
      show "d \<in># deltas L C \<Longrightarrow> delta_class d = Some dc' \<Longrightarrow> obj b' = Some dc'" for d dc'
        using none[of d] r(7) base_invD(2)[OF inv, of d dc'] by simp
    qed (use r n open_inv base_invD(3)[OF inv] in auto)
    with r open_inv Some show ?thesis by (simp add: rewind_destroy_def)
  qed
qed

lemma base_inv_commit:
  assumes inv: "base_inv (add_mset rw L) C b"
  shows "base_inv L (add_mset (rw_delta rw) C) (rewind_commit (rewind_base rw) b)"
proof (cases "delta_class (rw_delta rw)")
  case None
  then have r: "\<not> rewind_base rw" using base_invD(4)[OF inv] by simp
  have "base_inv L (add_mset (rw_delta rw) C) b"
  proof (cases "base_finalized b")
    case True
    then show ?thesis using None base_invD(1-5)[OF inv] by (intro base_inv_finI) auto
  next
    case False
    then show ?thesis using None base_invD(1-3)[OF inv] base_invD(6-8)[OF inv False]
      by (intro base_inv_openI) auto
  qed
  with r show ?thesis by (simp add: rewind_commit_def)
next
  case (Some dc)
  then have "obj b \<noteq> None" using base_invD(2)[OF inv] by fastforce
  note bc = base_commit_ok[OF base_invD(1)[OF inv] this]
  have fin: "base_finalized (rewind_commit (rewind_base rw) b)"
    "base_ok (rewind_commit (rewind_base rw) b)" "obj (rewind_commit (rewind_base rw) b) = obj b"
    using bc base_invD(1)[OF inv] base_invD(8)[OF inv, of rw] Some
    by (auto simp: rewind_commit_def)
  show ?thesis using fin Some base_invD(2-4)[OF inv] by (intro base_inv_finI) auto
qed

lemma required_type_commit [simp]:
  "required_type (rewind_commit r b) = required_type b"
  by (simp add: rewind_commit_def base_commit_def)

section \<open>Adding a delta, the counters apart from the base object\<close>

fun add_mods :: "(Hash \<Rightarrow> uint64) \<Rightarrow> StorageDelta \<Rightarrow> RevertableObject \<Rightarrow> RevertableObject option" where
  "add_mods sh (NONNEGATIVE_INT64_SET_ADD sv d) ro =
     (if sint d < 0 then
        if add_overflow_ss (total_subtracted ro) d \<or> sint sv < 0 \<or>
           sint (sv + (total_subtracted ro + d)) < 0
        then None
        else Some (ro\<lparr>total_subtracted := total_subtracted ro + d\<rparr>)
      else Some (ro\<lparr>total_added := u128_add d (total_added ro)\<rparr>))"
| "add_mods sh (HASH_SET_INCREASE_LIMIT l) ro =
     Some (ro\<lparr>size_increase := size_increase ro + ucast l\<rparr>)"
| "add_mods sh (HASH_SET_INSERT h) ro =
     (let hs = prev_hash_set (committed_base ro)
      in if h \<in> set (hashes hs) \<or> length (hashes hs) + unat (num_new_elts ro + 1) > unat (max_size hs) \<or>
            \<not> fst (try_insert sh h (new_hashes ro))
         then None
         else Some (ro\<lparr>num_new_elts := num_new_elts ro + 1,
                       new_hashes := snd (try_insert sh h (new_hashes ro))\<rparr>))"
| "add_mods sh (ASSET_OBJECT_ADD d) ro =
     (if sint d < 0 then
        map_option (\<lambda>v. ro\<lparr>available_asset := v\<rparr>) (try_add_uint64 d (available_asset ro))
      else map_option (\<lambda>v. ro\<lparr>available_asset_upperbound := v\<rparr>)
             (try_add_uint64 d (available_asset_upperbound ro)))"
| "add_mods sh _ ro = Some ro"

lemma add_mods_base [simp]:
  "add_mods sh d (ro\<lparr>base_obj := b\<rparr>) = map_option (\<lambda>x. x\<lparr>base_obj := b\<rparr>) (add_mods sh d ro)"
  by (cases d) (auto simp: Let_def try_add_uint64_def)

lemma add_mods_frame:
  "add_mods sh d ro = Some ro' \<Longrightarrow> committed_base ro' = committed_base ro \<and> base_obj ro' = base_obj ro \<and>
     hashset_clear_committed ro' = hashset_clear_committed ro \<and>
     max_committed_clear_threshold ro' = max_committed_clear_threshold ro \<and>
     delete_last_committed ro' = delete_last_committed ro"
  by (cases d) (auto simp: Let_def split: if_splits)

lemma with_base_rejects:
  assumes "base_inv L C (base_obj ro)" "\<not> class_agrees (base_obj ro) dc" "uid_ok u"
  shows "\<exists>u'. with_base u dc ro k = Ret (None, ro, u') \<and> uid_ok u'"
  using try_set_rejects[OF base_invD(1)[OF assms(1)] assms(2,3)] by (auto simp: with_base_def)

lemma with_base_accepts:
  assumes inv: "base_inv L C (base_obj ro)" and ag: "class_agrees (base_obj ro) dc" and u: "uid_ok u"
    and d: "delta_class d = Some dc" and room: "size L < 255"
  shows "\<exists>r b' u' b'' u''. (\<forall>k. with_base u dc ro k = k u' r (ro\<lparr>base_obj := b'\<rparr>)) \<and> uid_ok u' \<and>
     base_inv (add_mset (delta_rewind_new r d) L) C b' \<and> required_type b' = required_type (base_obj ro) \<and>
     (\<forall>ro'. base_obj ro' = b' \<longrightarrow> fail_after_set u' r ro' = Ret (None, ro'\<lparr>base_obj := b''\<rparr>, u'')) \<and>
     uid_ok u'' \<and> base_inv L C b'' \<and> required_type b'' = required_type (base_obj ro)"
proof -
  from base_inv_set[OF inv ag u d room] obtain r b' u' where
    s: "try_set u dc (base_obj ro) = Ret (Some r, b', u')" "uid_ok u'"
      "base_inv (add_mset (delta_rewind_new r d) L) C b'" "required_type b' = required_type (base_obj ro)"
    by blast
  from base_inv_revert[OF s(3,2)] obtain b'' u'' where
    r: "rewind_destroy u' r b' = Ret (b'', u'')" "uid_ok u''" "base_inv L C b''"
      "required_type b'' = required_type b'" by (auto simp: delta_rewind_new_def)
  have "fail_after_set u' r ro' = Ret (None, ro'\<lparr>base_obj := b''\<rparr>, u'')" if "base_obj ro' = b'" for ro'
    using that r(1) by (simp add: fail_after_set_def)
  moreover have "with_base u dc ro k = k u' r (ro\<lparr>base_obj := b'\<rparr>)" for k using s(1) by (simp add: with_base_def)
  ultimately show ?thesis using s r by metis
qed

lemma committed_hash_set_prev:
  assumes "class_agrees b DC_HASH_SET"
    "required_type b = map_option (\<lambda>ob. body_type (body ob)) (committed_base ro)"
  shows "committed_hash_set ro = Ret (prev_hash_set (committed_base ro))"
  using assms by (auto simp: committed_hash_set_def prev_hash_set_def class_agrees_def type_allowed_def
      split: option.splits ObjectBody.splits)

text \<open>The result of an addition in terms of the counters.\<close>

lemma try_add_delta_rejects:
  assumes "base_inv L C (base_obj ro)" "delta_class d = Some dc" "\<not> class_agrees (base_obj ro) dc"
    "uid_ok u" "supported d"
  shows "\<exists>u'. try_add_delta sh u d ro = Ret (None, ro, u') \<and> uid_ok u'"
  using assms with_base_rejects[OF assms(1) _ assms(4)] by (cases d) auto

lemma try_add_delta_agrees:
  assumes inv: "base_inv L C (base_obj ro)" and cls: "delta_class d = Some dc"
    and ag: "class_agrees (base_obj ro) dc" and u: "uid_ok u" and sup: "supported d"
    and room: "size L < 255"
    and req: "required_type (base_obj ro) = map_option (\<lambda>ob. body_type (body ob)) (committed_base ro)"
  shows "case add_mods sh d ro of
      None \<Rightarrow> \<exists>b' u'. try_add_delta sh u d ro = Ret (None, ro\<lparr>base_obj := b'\<rparr>, u') \<and> uid_ok u' \<and>
        base_inv L C b' \<and> required_type b' = required_type (base_obj ro)
    | Some ro1 \<Rightarrow> \<exists>r b' u'. try_add_delta sh u d ro = Ret (Some (delta_rewind_new r d), ro1\<lparr>base_obj := b'\<rparr>, u') \<and>
        uid_ok u' \<and> base_inv (add_mset (delta_rewind_new r d) L) C b' \<and>
        required_type b' = required_type (base_obj ro)"
proof -
  have hs: "dc = DC_HASH_SET \<Longrightarrow> committed_hash_set (ro\<lparr>base_obj := b\<rparr>) = Ret (prev_hash_set (committed_base ro))" for b
    using committed_hash_set_prev[of "base_obj ro" "ro\<lparr>base_obj := b\<rparr>"] ag req by simp
  from with_base_accepts[OF inv ag u cls room] obtain r b' u' b'' u'' where
    wb: "\<And>k. with_base u dc ro k = k u' r (ro\<lparr>base_obj := b'\<rparr>)"
    and ok: "uid_ok u'" "base_inv (add_mset (delta_rewind_new r d) L) C b'"
      "required_type b' = required_type (base_obj ro)"
    and fail: "\<And>ro'. base_obj ro' = b' \<Longrightarrow> fail_after_set u' r ro' = Ret (None, ro'\<lparr>base_obj := b''\<rparr>, u'')"
    and undo: "uid_ok u''" "base_inv L C b''" "required_type b'' = required_type (base_obj ro)"
    by blast
  have "try_add_delta sh u d ro = (case add_mods sh d ro of
      None \<Rightarrow> Ret (None, ro\<lparr>base_obj := b''\<rparr>, u'')
    | Some ro1 \<Rightarrow> Ret (Some (delta_rewind_new r d), ro1\<lparr>base_obj := b'\<rparr>, u'))"
    using cls sup wb hs fail by (cases d) (auto simp: Let_def split_beta try_add_uint64_def)
  with ok undo show ?thesis by (auto split: option.split)
qed

section \<open>The counters under the three steps\<close>

lemma word_plus_signed:
  "word_of_int T + d = word_of_int (T + sint d)" "word_of_int T - d = word_of_int (T - sint d)"
  for d :: "64 word"
  by simp_all

lemma word_plus_ucast:
  "word_of_int T + ucast d = word_of_int (T + uint d)" "word_of_int T - ucast d = word_of_int (T - uint d)"
  for d :: "'a :: len word"
  by (simp_all only: ucast_eq of_int_add of_int_diff)

lemma sint_word_of_int64: "- (2 ^ 63) \<le> z \<Longrightarrow> z < 2 ^ 63 \<Longrightarrow> sint (word_of_int z :: 64 word) = z"
  by (rule sint_of_fits) (simp add: fits_int64_def)

lemma uint_word_of_int64: "0 \<le> z \<Longrightarrow> z < 2 ^ 64 \<Longrightarrow> uint (word_of_int z :: 64 word) = z"
  by (simp add: uint_word_of_int_eq take_bit_int_eq_self)

lemma inv_base_update [simp]:
  "nn_inv A (ro\<lparr>base_obj := b\<rparr>) = nn_inv A ro" "hs_inv sh A (ro\<lparr>base_obj := b\<rparr>) = hs_inv sh A ro"
  "asset_inv A C (ro\<lparr>base_obj := b\<rparr>) = asset_inv A C ro" "flag_inv C (ro\<lparr>base_obj := b\<rparr>) = flag_inv C ro"
  "mods_inv sh A C (ro\<lparr>base_obj := b\<rparr>) = mods_inv sh A C ro"
  by (simp_all add: nn_inv_def hs_inv_def asset_inv_def flag_inv_def mods_inv_def)

lemma nn_inv_sint:
  "nn_inv A ro \<Longrightarrow> sint (total_subtracted ro) = total nn_neg A"
proof -
  assume i: "nn_inv A ro"
  have "total nn_neg A < 2 ^ 63" by (rule order_le_less_trans[OF total_signs(4)]) simp
  with i show ?thesis by (simp add: nn_inv_def sint_word_of_int64)
qed

text \<open>A subtraction is admitted exactly when the final value cannot fall below zero.\<close>

lemma add_mods_nn_iff:
  assumes "nn_inv A ro" "sint d < 0"
  shows "(add_overflow_ss (total_subtracted ro) d \<or> sint sv < 0 \<or> sint (sv + (total_subtracted ro + d)) < 0)
     \<longleftrightarrow> sint sv + total nn_neg A + sint d < 0"
proof -
  let ?t = "total_subtracted ro"
  have t: "sint ?t = total nn_neg A" "sint ?t \<le> 0" using nn_inv_sint[OF assms(1)] by simp_all
  show ?thesis
  proof (cases "add_overflow_ss ?t d")
    case True
    then have "sint ?t + sint d < - (2 ^ 63)" using t(2) assms(2) by (auto simp: overflow_defs)
    then show ?thesis using True t sint64_bounds(2)[of sv] by auto
  next
    case False
    then have s: "sint (?t + d) = total nn_neg A + sint d" using t sint_add_in_range by simp
    show ?thesis
    proof (cases "sint sv < 0")
      case True
      then have "sint sv + total nn_neg A + sint d < 0" using t assms(2) by linarith
      with True show ?thesis by blast
    next
      case nn: False
      have "\<not> add_overflow_ss sv (?t + d)"
        using nn t assms(2) s sint64_bounds[of sv] sint64_bounds[of "?t + d"]
        by (auto simp: overflow_defs simp del: total_signs)
      then have "sint (sv + (?t + d)) = sint sv + (total nn_neg A + sint d)"
        using s sint_add_in_range[of sv "?t + d"] by simp
      then show ?thesis using False nn by (simp add: add.assoc)
    qed
  qed
qed

lemma nn_inv_add:
  assumes inv: "nn_inv A ro"
    and ag: "\<And>sv' d'. NONNEGATIVE_INT64_SET_ADD sv' d' \<in># A \<Longrightarrow> sv' = sv"
    and res: "add_mods sh (NONNEGATIVE_INT64_SET_ADD sv d) ro = Some ro'"
  shows "nn_inv (add_mset (NONNEGATIVE_INT64_SET_ADD sv d) A) ro'"
proof (cases "sint d < 0")
  case True
  then have ro': "ro' = ro\<lparr>total_subtracted := total_subtracted ro + d\<rparr>"
    and nn: "\<not> add_overflow_ss (total_subtracted ro) d" "0 \<le> sint sv + total nn_neg A + sint d"
    using res add_mods_nn_iff[OF inv True, of sv] by (auto split: if_splits)
  have "- (2 ^ 63) \<le> total nn_neg A + sint d"
    using nn(1) nn_inv_sint[OF inv] by (simp add: overflow_defs)
  then show ?thesis using inv True nn(2) ag unfolding ro'
    by (auto simp: nn_inv_def word_plus_signed add.commute)
next
  case False
  then have ro': "ro' = ro\<lparr>total_added := u128_add d (total_added ro)\<rparr>" using res by simp
  have "0 \<le> sint sv + total nn_neg A" if "total nn_neg A < 0"
    using total_nn_neg_witness[OF that] inv that ag by (auto simp: nn_inv_def)
  then show ?thesis using inv False ag unfolding ro'
    by (auto simp: nn_inv_def word_plus_ucast sint_eq_uint_nonneg[symmetric] add.commute)
qed

lemma nn_inv_revert:
  assumes "nn_inv (add_mset (NONNEGATIVE_INT64_SET_ADD sv d) A) ro"
  shows "\<exists>ro'. revert_delta sh (NONNEGATIVE_INT64_SET_ADD sv d) ro = Ret ro' \<and> nn_inv A ro' \<and>
     (\<exists>t v. ro' = ro\<lparr>total_subtracted := t, total_added := v\<rparr>)"
proof (cases "sint d < 0")
  case True
  have "NONNEGATIVE_INT64_SET_ADD sv' d' \<in># A \<Longrightarrow> 0 \<le> sint sv' + (sint d + total nn_neg A)" for sv' d'
    using assms True total_signs(4)[of A] by (auto simp: nn_inv_def)
  then have "nn_inv A (ro\<lparr>total_subtracted := total_subtracted ro - d\<rparr>)"
    using assms True by (force simp: nn_inv_def word_plus_signed)
  then show ?thesis using True by (auto intro!: exI[of _ "total_added ro"])
next
  case False
  then have "nn_inv A (ro\<lparr>total_added := u128_sub d (total_added ro)\<rparr>)"
    using assms by (auto simp: nn_inv_def word_plus_ucast sint_eq_uint_nonneg[symmetric])
  then show ?thesis using False by (auto intro!: exI[of _ "total_subtracted ro"])
qed

text \<open>The open-addressing set.\<close>

lemma hs_inv_add_limit:
  "hs_inv sh A ro \<Longrightarrow>
     hs_inv sh (add_mset (HASH_SET_INCREASE_LIMIT l) A) (ro\<lparr>size_increase := size_increase ro + ucast l\<rparr>)"
  by (simp add: hs_inv_def word_plus_ucast add.commute)

lemma atomic_set_length: "atomic_set_inv sh s \<Longrightarrow> length (get_hashes s) < 2 ^ 32"
  using length_slot_entries_le[of "array s"] by (simp add: atomic_set_inv_def get_hashes_def)

lemma add_mods_insert_iff:
  assumes inv: "hs_inv sh A ro"
  shows "add_mods sh (HASH_SET_INSERT h) ro \<noteq> None \<longleftrightarrow>
     h \<notin> set (hashes (prev_hash_set (committed_base ro))) \<and> h \<notin># total inserted A \<and>
     length (hashes (prev_hash_set (committed_base ro))) + size (total inserted A) + 1
       \<le> unat (max_size (prev_hash_set (committed_base ro))) \<and> Free \<in> set (array (new_hashes ro))"
proof -
  have ai: "atomic_set_inv sh (new_hashes ro)" using inv by (simp add: hs_inv_def)
  note ins = try_insert_iff[OF ai, of h]
  have mem: "h \<in> set (get_hashes (new_hashes ro)) \<longleftrightarrow> h \<in># total inserted A"
    using inv by (metis hs_inv_def set_mset_mset)
  show ?thesis
  proof (cases "Free \<in> set (array (new_hashes ro))")
    case True
    have "unat (num_filled_slots (new_hashes ro)) < 2 ^ 32 - 1"
      using free_slot_not_full[OF ai True] ai by (simp add: atomic_set_inv_def)
    moreover have "unat (num_filled_slots (new_hashes ro)) = size (total inserted A)"
      using ai inv by (metis atomic_set_inv_def get_hashes_def hs_inv_def size_mset)
    ultimately have "unat (num_new_elts ro + 1) = size (total inserted A) + 1"
      using inv by (simp add: hs_inv_def unat_word_ariths)
    then show ?thesis using ins mem True by (auto simp: Let_def)
  next
    case False
    then show ?thesis using ins by (auto simp: Let_def)
  qed
qed

lemma hs_inv_add_insert:
  assumes inv: "hs_inv sh A ro" and res: "add_mods sh (HASH_SET_INSERT h) ro = Some ro'"
  shows "hs_inv sh (add_mset (HASH_SET_INSERT h) A) ro'"
proof -
  have ai: "atomic_set_inv sh (new_hashes ro)" using inv by (simp add: hs_inv_def)
  obtain s where s: "try_insert sh h (new_hashes ro) = (True, s)"
    and ro': "ro' = ro\<lparr>num_new_elts := num_new_elts ro + 1, new_hashes := s\<rparr>"
    using res by (cases "try_insert sh h (new_hashes ro)") (auto simp: Let_def split: if_splits)
  note ins = try_insert_True[OF ai s]
  have adm: "h \<notin> set (hashes (prev_hash_set (committed_base ro)))"
     "length (hashes (prev_hash_set (committed_base ro))) + size (total inserted A) + 1
       \<le> unat (max_size (prev_hash_set (committed_base ro)))"
    using add_mods_insert_iff[OF inv, of h] res by auto
  have "mset (get_hashes s) = total inserted (add_mset (HASH_SET_INSERT h) A)"
    using ins inv by (simp add: hs_inv_def)
  then have "length (get_hashes s) = unat (num_new_elts ro) + 1"
    using inv by (metis Suc_eq_plus1 hs_inv_def ins size_add_mset size_mset)
  then have "unat (num_new_elts ro + 1) = size (total inserted (add_mset (HASH_SET_INSERT h) A))"
    using inv atomic_set_length[of sh s] ins by (simp add: hs_inv_def unat_word_ariths)
  then show ?thesis using inv ins adm unfolding ro' by (auto simp: hs_inv_def)
qed

lemma hs_inv_revert_insert:
  assumes inv: "hs_inv sh (add_mset (HASH_SET_INSERT h) A) ro"
  shows "\<exists>ro' s n. revert_delta sh (HASH_SET_INSERT h) ro = Ret ro' \<and> hs_inv sh A ro' \<and>
     ro' = ro\<lparr>num_new_elts := n, new_hashes := s\<rparr>"
proof -
  have "h \<in> set (get_hashes (new_hashes ro))"
    using inv by (metis hs_inv_def image_mset_add_mset inserted.simps(1) set_mset_mset sum_mset.add_mset
        union_iff union_single_eq_member union_mset_add_mset_left)
  from set_erase_member[OF _ this, of sh] inv obtain s where
    s: "set_erase sh h (new_hashes ro) = Ret s" "atomic_set_inv sh s"
      "add_mset h (mset (get_hashes s)) = mset (get_hashes (new_hashes ro))"
    by (auto simp: hs_inv_def)
  have n: "unat (num_new_elts ro) = Suc (size (total inserted A))" using inv by (simp add: hs_inv_def)
  then have "num_new_elts ro \<noteq> 0" by auto
  then have "unat (num_new_elts ro - 1) = size (total inserted A)" using n unat_minus_one by fastforce
  then have "hs_inv sh A (ro\<lparr>num_new_elts := num_new_elts ro - 1, new_hashes := s\<rparr>)"
    using inv s by (auto simp: hs_inv_def)
  then show ?thesis using s(1) by auto
qed

text \<open>The two bounds of the asset.\<close>

lemma asset_inv_bounds:
  assumes "asset_inv A C ro" "C \<subseteq># A"
  shows "uint (available_asset ro) = asset_low (prev_asset (committed_base ro)) A C"
    "uint (available_asset_upperbound ro) = asset_high (prev_asset (committed_base ro)) A C"
  using assms(1) asset_low_le_high[OF assms(2), of "prev_asset (committed_base ro)"]
  by (auto simp: asset_inv_def Let_def uint_word_of_int64)

lemma add_mods_asset_iff:
  assumes "asset_inv A C ro" "C \<subseteq># A"
  shows "add_mods sh (ASSET_OBJECT_ADD d) ro \<noteq> None \<longleftrightarrow>
     (if sint d < 0 then 0 \<le> asset_low (prev_asset (committed_base ro)) A C + sint d
      else asset_high (prev_asset (committed_base ro)) A C + sint d < 2 ^ 64)"
  using asset_inv_bounds[OF assms] uint64_bounds[of "available_asset ro"]
    uint64_bounds[of "available_asset_upperbound ro"]
  by (auto simp: try_add_uint64_def overflow_defs)

lemma asset_inv_add:
  assumes "asset_inv A C ro" "C \<subseteq># A" "add_mods sh (ASSET_OBJECT_ADD d) ro = Some ro'"
  shows "asset_inv (add_mset (ASSET_OBJECT_ADD d) A) C ro'"
  using add_mods_asset_iff[OF assms(1,2), of sh d] assms
  by (auto simp: asset_inv_def Let_def try_add_uint64_def asset_low_def asset_high_def
      algebra_simps split: if_splits)

lemma asset_inv_revert:
  assumes inv: "asset_inv (add_mset (ASSET_OBJECT_ADD d) A) C ro" and sub: "C \<subseteq># A"
  shows "\<exists>v w ro'. revert_delta sh (ASSET_OBJECT_ADD d) ro = Ret ro' \<and> asset_inv A C ro' \<and>
     ro' = ro\<lparr>available_asset := v, available_asset_upperbound := w\<rparr>"
proof (cases "sint d < 0")
  case True
  have "asset_inv A C (ro\<lparr>available_asset := available_asset ro - d\<rparr>)" using inv True
    by (simp add: asset_inv_def Let_def asset_low_def asset_high_def algebra_simps)
  then show ?thesis using True
    by (intro exI[of _ "available_asset ro - d"] exI[of _ "available_asset_upperbound ro"] exI) auto
next
  case False
  have "asset_inv A C (ro\<lparr>available_asset_upperbound := available_asset_upperbound ro - d\<rparr>)" using inv False
    by (simp add: asset_inv_def Let_def asset_low_def asset_high_def algebra_simps)
  then show ?thesis using False
    by (intro exI[of _ "available_asset ro"] exI[of _ "available_asset_upperbound ro - d"] exI) auto
qed

lemma asset_inv_commit:
  assumes inv: "asset_inv A C ro" and sub: "add_mset (ASSET_OBJECT_ADD d) C \<subseteq># A"
  shows "\<exists>v w ro'. commit_delta (ASSET_OBJECT_ADD d) ro = Ret ro' \<and>
     asset_inv A (add_mset (ASSET_OBJECT_ADD d) C) ro' \<and>
     ro' = ro\<lparr>available_asset := v, available_asset_upperbound := w\<rparr>"
proof -
  have le: "asset_low a0 A (add_mset (ASSET_OBJECT_ADD d) C) \<le>
      asset_high a0 A (add_mset (ASSET_OBJECT_ADD d) C)" for a0 by (rule asset_low_le_high[OF sub])
  show ?thesis
  proof (cases "sint d < 0")
    case True
    have "asset_inv A (add_mset (ASSET_OBJECT_ADD d) C)
        (ro\<lparr>available_asset_upperbound := available_asset_upperbound ro + d\<rparr>)" using inv True le
      by (simp add: asset_inv_def Let_def asset_low_def asset_high_def algebra_simps)
    then show ?thesis using True
      by (intro exI[of _ "available_asset ro"] exI[of _ "available_asset_upperbound ro + d"] exI) auto
  next
    case False
    have "asset_inv A (add_mset (ASSET_OBJECT_ADD d) C)
        (ro\<lparr>available_asset := available_asset ro + d\<rparr>)" using inv False le
      by (simp add: asset_inv_def Let_def asset_low_def asset_high_def algebra_simps)
    then show ?thesis using False
      by (intro exI[of _ "available_asset ro + d"] exI[of _ "available_asset_upperbound ro"] exI) auto
  qed
qed

text \<open>All counters together.\<close>

definition same_class :: "StorageDelta multiset \<Rightarrow> StorageDelta \<Rightarrow> bool" where
  "same_class A d \<longleftrightarrow>
     (\<forall>d' dc dc'. d' \<in># A \<longrightarrow> delta_class d' = Some dc' \<longrightarrow> delta_class d = Some dc \<longrightarrow> dc' = dc)"

lemma mods_inv_add:
  assumes inv: "mods_inv sh A C ro" and sub: "C \<subseteq># A" and cl: "same_class A d"
    and res: "add_mods sh d ro = Some ro'"
  shows "mods_inv sh (add_mset d A) C ro'"
proof -
  have i: "nn_inv A ro" "hs_inv sh A ro" "asset_inv A C ro" "flag_inv C ro"
    using inv by (auto simp: mods_inv_def)
  have nn: "nn_inv (add_mset d A) ro'"
  proof (cases d)
    case (NONNEGATIVE_INT64_SET_ADD sv x)
    have "NONNEGATIVE_INT64_SET_ADD sv' d' \<in># A \<Longrightarrow> sv' = sv" for sv' d'
      using cl NONNEGATIVE_INT64_SET_ADD by (fastforce simp: same_class_def)
    then show ?thesis using nn_inv_add[OF i(1)] res NONNEGATIVE_INT64_SET_ADD by metis
  qed (use i(1) res in \<open>auto simp: nn_inv_def Let_def split: if_splits\<close>)
  have hs: "hs_inv sh (add_mset d A) ro'"
  proof (cases d)
    case (HASH_SET_INSERT h)
    then show ?thesis using hs_inv_add_insert[OF i(2)] res by simp
  next
    case (HASH_SET_INCREASE_LIMIT l)
    then show ?thesis using hs_inv_add_limit[OF i(2)] res by auto
  qed (use i(2) res in \<open>auto simp: hs_inv_def split: if_splits\<close>)
  have "asset_inv (add_mset d A) C ro'"
  proof (cases d)
    case (ASSET_OBJECT_ADD x)
    then show ?thesis using asset_inv_add[OF i(3) sub] res by simp
  qed (use i(3) res in \<open>auto simp: asset_inv_def asset_low_def asset_high_def Let_def split: if_splits\<close>)
  then show ?thesis using nn hs i(4) add_mods_frame[OF res] by (simp add: mods_inv_def flag_inv_def)
qed

lemma flag_inv_commit:
  assumes "flag_inv C ro" "commit_delta d ro = Ret ro'"
  shows "flag_inv (add_mset d C) ro'"
  using assms by (cases d) (auto simp: flag_inv_def clear_max_add Let_def split: if_splits)

lemma mods_inv_commit:
  assumes inv: "mods_inv sh A C ro" and sub: "add_mset d C \<subseteq># A" and sup: "supported d"
  shows "\<exists>ro'. commit_delta d ro = Ret ro' \<and> mods_inv sh A (add_mset d C) ro' \<and>
     committed_base ro' = committed_base ro \<and> base_obj ro' = base_obj ro"
proof -
  have i: "nn_inv A ro" "hs_inv sh A ro" "asset_inv A C ro" "flag_inv C ro"
    using inv by (auto simp: mods_inv_def)
  have "\<exists>ro'. commit_delta d ro = Ret ro' \<and> nn_inv A ro' \<and> hs_inv sh A ro' \<and>
     asset_inv A (add_mset d C) ro' \<and> committed_base ro' = committed_base ro \<and> base_obj ro' = base_obj ro"
  proof (cases d)
    case (ASSET_OBJECT_ADD x)
    then show ?thesis using asset_inv_commit[OF i(3)] sub i(1,2)
      by (fastforce simp: nn_inv_def hs_inv_def)
  qed (use i sup in \<open>auto simp: nn_inv_def hs_inv_def asset_inv_def asset_low_def asset_high_def Let_def\<close>)
  then show ?thesis using flag_inv_commit[OF i(4)] by (auto simp: mods_inv_def)
qed

lemma inv_frames:
  "hs_inv sh A (ro\<lparr>total_subtracted := t, total_added := v\<rparr>) = hs_inv sh A ro"
  "asset_inv A C (ro\<lparr>total_subtracted := t, total_added := v\<rparr>) = asset_inv A C ro"
  "flag_inv C (ro\<lparr>total_subtracted := t, total_added := v\<rparr>) = flag_inv C ro"
  "nn_inv A (ro\<lparr>num_new_elts := n, new_hashes := s\<rparr>) = nn_inv A ro"
  "asset_inv A C (ro\<lparr>num_new_elts := n, new_hashes := s\<rparr>) = asset_inv A C ro"
  "flag_inv C (ro\<lparr>num_new_elts := n, new_hashes := s\<rparr>) = flag_inv C ro"
  "nn_inv A (ro\<lparr>size_increase := l\<rparr>) = nn_inv A ro"
  "asset_inv A C (ro\<lparr>size_increase := l\<rparr>) = asset_inv A C ro"
  "flag_inv C (ro\<lparr>size_increase := l\<rparr>) = flag_inv C ro"
  "nn_inv A (ro\<lparr>available_asset := x, available_asset_upperbound := y\<rparr>) = nn_inv A ro"
  "hs_inv sh A (ro\<lparr>available_asset := x, available_asset_upperbound := y\<rparr>) = hs_inv sh A ro"
  "flag_inv C (ro\<lparr>available_asset := x, available_asset_upperbound := y\<rparr>) = flag_inv C ro"
  by (simp_all add: nn_inv_def hs_inv_def asset_inv_def flag_inv_def)

lemma mods_inv_revert:
  assumes inv: "mods_inv sh (add_mset d A) C ro" and sub: "C \<subseteq># A" and sup: "supported d"
  shows "\<exists>ro'. revert_delta sh d ro = Ret ro' \<and> mods_inv sh A C ro' \<and>
     committed_base ro' = committed_base ro \<and> base_obj ro' = base_obj ro"
proof -
  have i: "nn_inv (add_mset d A) ro" "hs_inv sh (add_mset d A) ro" "asset_inv (add_mset d A) C ro"
    "flag_inv C ro" using inv by (auto simp: mods_inv_def)
  have nn: "nn_inv A ro" if "nn_neg d = 0" "nn_pos d = 0" using i(1) that by (auto simp: nn_inv_def)
  have hs: "hs_inv sh A ro" if "inserted d = {#}" "limit_inc d = 0" using i(2) that by (auto simp: hs_inv_def)
  have as: "asset_inv A C ro" if "asset_neg d = 0" "asset_pos d = 0"
    using i(3) that by (auto simp: asset_inv_def asset_low_def asset_high_def)
  show ?thesis
  proof (cases d)
    case (NONNEGATIVE_INT64_SET_ADD sv x)
    obtain t v where "revert_delta sh d ro = Ret (ro\<lparr>total_subtracted := t, total_added := v\<rparr>)"
      "nn_inv A (ro\<lparr>total_subtracted := t, total_added := v\<rparr>)"
      using nn_inv_revert[of sv x A ro sh] i(1) NONNEGATIVE_INT64_SET_ADD by auto
    then show ?thesis using i(4) hs as NONNEGATIVE_INT64_SET_ADD
      by (simp add: mods_inv_def inv_frames)
  next
    case (HASH_SET_INSERT h)
    obtain n t where "revert_delta sh d ro = Ret (ro\<lparr>num_new_elts := n, new_hashes := t\<rparr>)"
      "hs_inv sh A (ro\<lparr>num_new_elts := n, new_hashes := t\<rparr>)"
      using hs_inv_revert_insert[of sh h A ro] i(2) HASH_SET_INSERT by auto
    then show ?thesis using i(4) nn as HASH_SET_INSERT by (simp add: mods_inv_def inv_frames)
  next
    case (HASH_SET_INCREASE_LIMIT l)
    have "hs_inv sh A (ro\<lparr>size_increase := size_increase ro - ucast l\<rparr>)"
      using i(2) HASH_SET_INCREASE_LIMIT by (simp add: hs_inv_def)
    with HASH_SET_INCREASE_LIMIT show ?thesis using i(4) nn as
      by (simp add: mods_inv_def inv_frames)
  next
    case (ASSET_OBJECT_ADD x)
    obtain v w where
      "revert_delta sh d ro = Ret (ro\<lparr>available_asset := v, available_asset_upperbound := w\<rparr>)"
      "asset_inv A C (ro\<lparr>available_asset := v, available_asset_upperbound := w\<rparr>)"
      using asset_inv_revert[of x A C ro sh, OF _ sub] i(3) ASSET_OBJECT_ADD by auto
    then show ?thesis using i(4) nn hs ASSET_OBJECT_ADD by (simp add: mods_inv_def inv_frames)
  qed (use i(4) sup nn hs as in \<open>auto simp: mods_inv_def\<close>)
qed

end
