(* ===== verification/RevertableCommit.thy ===== *)
theory RevertableCommit
  imports RevertableRound
begin

text \<open>
  The contract of a \<open>RevertableObject\<close> over one block: which deltas it admits, that every
  interleaving of additions, commits and reverts keeps the round invariant without an
  exception or a retry that never ends, and that the object a round commits is a function of
  the previous object and the multiset of committed deltas.
\<close>

section \<open>Steps\<close>

definition class_admitted :: "StorageObject option \<Rightarrow> StorageDelta multiset \<Rightarrow> StorageDelta \<Rightarrow> bool" where
  "class_admitted cb A d \<longleftrightarrow>
     (\<forall>dc. delta_class d = Some dc \<longrightarrow>
        (\<forall>ob. cb = Some ob \<longrightarrow> body_type (body ob) = dc_type dc)) \<and> same_class A d"

text \<open>
  The deltas an object admits: the type is that of the committed object, the class that of the
  other deltas of the block, and the constraint of the type holds whichever of the deltas in
  flight are reverted later.
\<close>

definition admits :: "StorageObject option \<Rightarrow> StorageDelta multiset \<Rightarrow> StorageDelta multiset \<Rightarrow>
    StorageDelta \<Rightarrow> bool" where
  "admits cb A C d \<longleftrightarrow> class_admitted cb A d \<and>
     (case d of
        NONNEGATIVE_INT64_SET_ADD sv x \<Rightarrow> sint x < 0 \<longrightarrow> 0 \<le> sint sv + total nn_neg A + sint x
      | HASH_SET_INSERT h \<Rightarrow>
          h \<notin> set (hashes (prev_hash_set cb)) \<and> h \<notin># total inserted A \<and>
          length (hashes (prev_hash_set cb)) + size (total inserted A) + 1 \<le> unat (max_size (prev_hash_set cb))
      | ASSET_OBJECT_ADD x \<Rightarrow>
          (if sint x < 0 then 0 \<le> asset_low (prev_asset cb) A C + sint x
           else asset_high (prev_asset cb) A C + sint x < 2 ^ 64)
      | _ \<Rightarrow> True)"

fun slot_free :: "StorageDelta \<Rightarrow> RevertableObject \<Rightarrow> bool" where
  "slot_free (HASH_SET_INSERT h) ro \<longleftrightarrow> Free \<in> set (array (new_hashes ro))"
| "slot_free _ ro \<longleftrightarrow> True"

lemma round_invD:
  assumes "round_inv sh L C ro"
  shows "base_inv L C (base_obj ro)"
    "required_type (base_obj ro) = map_option (\<lambda>ob. body_type (body ob)) (committed_base ro)"
    "d \<in># deltas L C \<Longrightarrow> supported d" "mods_inv sh (deltas L C) C ro"
    "nn_inv (deltas L C) ro" "hs_inv sh (deltas L C) ro" "asset_inv (deltas L C) C ro" "flag_inv C ro"
  using assms by (auto simp: round_inv_def mods_inv_def)

lemma type_allowed_iff:
  "required_type b = map_option (\<lambda>ob. body_type (body ob)) cb \<Longrightarrow>
     type_allowed b dc \<longleftrightarrow> (\<forall>ob. cb = Some ob \<longrightarrow> body_type (body ob) = dc_type dc)"
  by (cases cb) (auto simp: type_allowed_def)

lemma class_agrees_iff:
  assumes "round_inv sh L C ro" "delta_class d = Some dc"
  shows "class_agrees (base_obj ro) dc \<longleftrightarrow> class_admitted (committed_base ro) (deltas L C) d"
  using base_inv_agrees[OF round_invD(1)[OF assms(1)], of dc] assms(2)
    type_allowed_iff[OF round_invD(2)[OF assms(1)], of dc]
  by (auto simp: class_admitted_def same_class_def)

lemma add_mods_iff:
  assumes inv: "round_inv sh L C ro" and ag: "class_admitted (committed_base ro) (deltas L C) d"
    and sup: "supported d"
  shows "add_mods sh d ro \<noteq> None \<longleftrightarrow> admits (committed_base ro) (deltas L C) C d \<and> slot_free d ro"
proof (cases d)
  case (NONNEGATIVE_INT64_SET_ADD sv x)
  then show ?thesis using ag add_mods_nn_iff[OF round_invD(5)[OF inv], of x sv]
    by (auto simp: admits_def not_less)
next
  case (HASH_SET_INSERT h)
  then show ?thesis using ag add_mods_insert_iff[OF round_invD(6)[OF inv], of h] by (auto simp: admits_def)
next
  case (ASSET_OBJECT_ADD x)
  then show ?thesis using ag add_mods_asset_iff[OF round_invD(7)[OF inv], of sh x] by (auto simp: admits_def)
qed (use ag sup in \<open>auto simp: admits_def\<close>)

lemma round_add:
  assumes inv: "round_inv sh L C ro" and u: "uid_ok u" and sup: "supported d" and room: "size L < 255"
  shows "\<exists>res ro' u'. try_add_delta sh u d ro = Ret (res, ro', u') \<and> uid_ok u' \<and>
     committed_base ro' = committed_base ro \<and>
     (res \<noteq> None \<longleftrightarrow> admits (committed_base ro) (deltas L C) C d \<and> slot_free d ro) \<and>
     (case res of None \<Rightarrow> round_inv sh L C ro'
      | Some rw \<Rightarrow> rw_delta rw = d \<and> round_inv sh (add_mset rw L) C ro')"
proof (cases "delta_class d")
  case None
  then have d: "d = DELETE_LAST" by (cases d) auto
  have "base_inv (add_mset (delta_rewind_new False d) L) C (base_obj ro)"
  proof (cases "base_finalized (base_obj ro)")
    case True
    then show ?thesis using base_invD(1-5)[OF round_invD(1)[OF inv]] None
      by (intro base_inv_finI) (auto simp: delta_rewind_new_def)
  next
    case False
    then show ?thesis using base_invD(1-3)[OF round_invD(1)[OF inv]]
        base_invD(6-8)[OF round_invD(1)[OF inv] False] None
      by (intro base_inv_openI) (auto simp: delta_rewind_new_def)
  qed
  moreover have "same_class (deltas L C) d" using None by (simp add: same_class_def)
  ultimately show ?thesis
    using mods_inv_add[OF round_invD(4)[OF inv] committed_sub_deltas, of d ro] d u inv round_invD(2,3)[OF inv]
    by (auto simp: round_inv_def delta_rewind_new_def admits_def class_admitted_def)
next
  case (Some dc)
  show ?thesis
  proof (cases "class_agrees (base_obj ro) dc")
    case False
    then show ?thesis using try_add_delta_rejects[OF round_invD(1)[OF inv] Some False u sup, of sh]
        class_agrees_iff[OF inv Some] inv by (auto simp: admits_def)
  next
    case True
    then have ag: "class_admitted (committed_base ro) (deltas L C) d" using class_agrees_iff[OF inv Some] by simp
    then have sc: "same_class (deltas L C) d" by (simp add: class_admitted_def)
    note add = try_add_delta_agrees[OF round_invD(1)[OF inv] Some True u sup room round_invD(2)[OF inv], of sh]
    show ?thesis
    proof (cases "add_mods sh d ro")
      case None
      then show ?thesis using add add_mods_iff[OF inv ag sup] inv
        by (auto simp: round_inv_def)
    next
      case ro1: (Some ro1)
      note m = mods_inv_add[OF round_invD(4)[OF inv] committed_sub_deltas sc ro1]
      show ?thesis using add ro1 add_mods_iff[OF inv ag sup] add_mods_frame[OF ro1] inv m sup
        by (auto simp: round_inv_def delta_rewind_new_def)
    qed
  qed
qed

lemma round_commit:
  assumes inv: "round_inv sh (add_mset rw L) C ro"
  shows "\<exists>rw' ro'. delta_rewind_commit rw ro = Ret (rw', ro') \<and>
     round_inv sh L (add_mset (rw_delta rw) C) ro' \<and> committed_base ro' = committed_base ro"
proof -
  have sup: "supported (rw_delta rw)" using round_invD(3)[OF inv] by simp
  have "add_mset (rw_delta rw) C \<subseteq># deltas (add_mset rw L) C" by simp
  from mods_inv_commit[OF round_invD(4)[OF inv] this sup] obtain ro1 where
    "commit_delta (rw_delta rw) ro = Ret ro1" "committed_base ro1 = committed_base ro"
    "base_obj ro1 = base_obj ro" "mods_inv sh (deltas (add_mset rw L) C) (add_mset (rw_delta rw) C) ro1"
    by blast
  then show ?thesis using base_inv_commit[OF round_invD(1)[OF inv]] round_invD(2,3)[OF inv]
    by (auto simp: delta_rewind_commit_def round_inv_def)
qed

lemma round_revert:
  assumes inv: "round_inv sh (add_mset rw L) C ro" and u: "uid_ok u"
  shows "\<exists>ro' u'. delta_rewind_destroy sh u rw ro = Ret (ro', u') \<and> uid_ok u' \<and>
     round_inv sh L C ro' \<and> committed_base ro' = committed_base ro"
proof -
  have sup: "supported (rw_delta rw)" and live: "do_rewind rw"
    using round_invD(3)[OF inv] base_invD(3)[OF round_invD(1)[OF inv]] by simp_all
  have "mods_inv sh (add_mset (rw_delta rw) (deltas L C)) C ro" using round_invD(4)[OF inv] by simp
  from mods_inv_revert[OF this committed_sub_deltas sup] obtain ro1 where
    "revert_delta sh (rw_delta rw) ro = Ret ro1" "committed_base ro1 = committed_base ro"
    "base_obj ro1 = base_obj ro" "mods_inv sh (deltas L C) C ro1" by blast
  then show ?thesis using base_inv_revert[OF round_invD(1)[OF inv] u] round_invD(2,3)[OF inv] live
    by (fastforce simp: delta_rewind_destroy_def round_inv_def)
qed

section \<open>The object a round commits\<close>

fun class_of :: "StorageDelta list \<Rightarrow> StorageDeltaClass option" where
  "class_of [] = None"
| "class_of (d # ds) = (case delta_class d of None \<Rightarrow> class_of ds | Some dc \<Rightarrow> Some dc)"

definition start_object :: "StorageObject option \<Rightarrow> StorageDelta list \<Rightarrow> StorageObject option" where
  "start_object cb ds = (case class_of ds of
       None \<Rightarrow> cb
     | Some dc \<Rightarrow> (case object_from_delta_class dc cb of Ret ob \<Rightarrow> Some ob | _ \<Rightarrow> cb))"

definition sum_of :: "(StorageDelta \<Rightarrow> int) \<Rightarrow> StorageDelta list \<Rightarrow> int" where
  "sum_of f ds = sum_list (map f ds)"

fun insertions :: "StorageDelta list \<Rightarrow> HashSetEntry list" where
  "insertions [] = []"
| "insertions (HASH_SET_INSERT h # ds) = h # insertions ds"
| "insertions (_ # ds) = insertions ds"

definition survives :: "StorageDelta list \<Rightarrow> HashSetEntry \<Rightarrow> bool" where
  "survives ds e \<longleftrightarrow> list_all (\<lambda>d. case d of HASH_SET_CLEAR t \<Rightarrow> t < index e | _ \<Rightarrow> True) ds"

fun spec_body :: "StorageDelta list \<Rightarrow> ObjectBody \<Rightarrow> ObjectBody" where
  "spec_body ds (nonnegative_int64 v) =
     nonnegative_int64 (word_of_int (min (2 ^ 63 - 1) (sint v + sum_of nn_neg ds + sum_of nn_pos ds)))"
| "spec_body ds (hash_set hs) =
     hash_set \<lparr>hashes = normalize_list (filter (survives ds) (hashes hs @ insertions ds)),
               max_size = word_of_int (min 65535 (uint (max_size hs) + sum_of limit_inc ds))\<rparr>"
| "spec_body ds (asset a) = asset (word_of_int (uint a + sum_of asset_pos ds + sum_of asset_neg ds))"
| "spec_body ds b = b"

definition spec_commit :: "StorageObject option \<Rightarrow> StorageDelta list \<Rightarrow> StorageObject option" where
  "spec_commit cb ds =
     (if DELETE_LAST \<in> set ds then None
      else map_option (\<lambda>ob. ob\<lparr>body := spec_body ds (body ob)\<rparr>) (start_object cb ds))"

definition storable :: "StorageObject option \<Rightarrow> bool" where
  "storable cb \<longleftrightarrow> (\<forall>ob. cb = Some ob \<longrightarrow> body_type (body ob) \<noteq> UNCONSTRAINED_INT64)"

lemma total_mset: "total f (mset ds) = sum_of f ds"
  by (simp add: sum_of_def flip: mset_map sum_mset_sum_list)

lemma inserted_mset: "total inserted (mset ds) = mset (insertions ds)"
  by (induction ds rule: insertions.induct) auto

lemma sum_of_bound: "(\<And>d. f d \<le> k) \<Longrightarrow> sum_of f ds \<le> k * int (length ds)"
  by (induction ds) (auto simp: sum_of_def algebra_simps intro: add_mono)

lemma sum_of_signs [simp]: "0 \<le> sum_of nn_pos ds" "sum_of nn_neg ds \<le> 0" "0 \<le> sum_of limit_inc ds"
  unfolding total_mset[symmetric] by simp_all

lemma nn_pos_bound: "nn_pos d \<le> 2 ^ 63" and limit_inc_bound: "limit_inc d \<le> 2 ^ 32"
  subgoal by (cases d) (auto intro: less_imp_le[OF sint64_bounds(2), simplified])
  subgoal by (cases d) (auto intro: order_less_imp_le[OF uint_lt2p[where 'a = 32, simplified]])
  done

lemma class_of_SomeD: "class_of ds = Some dc \<Longrightarrow> \<exists>d \<in> set ds. delta_class d = Some dc"
  by (induction ds) (auto split: option.splits)

lemma class_of_NoneD: "class_of ds = None \<Longrightarrow> d \<in> set ds \<Longrightarrow> delta_class d = None"
  by (induction ds) (auto split: option.splits)

lemma obj_class_of:
  assumes "base_inv {#} (mset ds) b"
  shows "obj b = class_of ds"
proof (cases "class_of ds")
  case None
  have "obj b \<noteq> Some dc" for dc using base_inv_obj[OF assms, of dc] class_of_NoneD[OF None] by force
  with None show ?thesis by (cases "obj b") auto
next
  case (Some dc)
  then show ?thesis using base_inv_obj[OF assms, of dc] class_of_SomeD[OF Some] by auto
qed

lemma supported_class: "supported d \<Longrightarrow> delta_class d = Some dc \<Longrightarrow> dc_type dc \<noteq> UNCONSTRAINED_INT64"
  by (cases d) auto

lemma object_from_delta_class_Ret:
  assumes "dc_type dc \<noteq> UNCONSTRAINED_INT64" "\<forall>ob. cb = Some ob \<longrightarrow> body_type (body ob) = dc_type dc"
  shows "\<exists>ob. object_from_delta_class dc cb = Ret ob"
  using assms by (cases dc; cases cb) (auto simp: object_from_delta_class_def)

text \<open>Each type of body.\<close>

lemma commit_body_nn:
  assumes inv: "nn_inv (mset ds) ro" and v: "sum_of nn_neg ds = 0 \<or> 0 \<le> sint v + sum_of nn_neg ds"
    and len: "length ds < 2 ^ 31"
  shows "commit_body ro (nonnegative_int64 v) = Ret (spec_body ds (nonnegative_int64 v), ro)"
proof -
  let ?n = "sum_of nn_neg ds" and ?p = "sum_of nn_pos ds" and ?v1 = "v + total_subtracted ro"
  have t: "sint (total_subtracted ro) = ?n" using nn_inv_sint[OF inv] by (simp add: total_mset)
  have "\<not> add_overflow_ss v (total_subtracted ro)"
    using v t sum_of_signs(2)[of ds] sint64_bounds[of v] sint64_bounds[of "total_subtracted ro"]
    by (auto simp: overflow_defs simp del: sum_of_signs)
  then have v1: "sint ?v1 = sint v + ?n" using t sint_add_in_range by simp
  have "?p \<le> 2 ^ 63 * int (length ds)" by (rule sum_of_bound) (rule nn_pos_bound)
  also have "\<dots> < 2 ^ 128" using len by simp
  finally have "uint (u128_value (total_added ro)) = ?p"
    using inv by (simp add: nn_inv_def total_mset uint_word_of_int_eq take_bit_int_eq_self)
  then have cap: "uint (u128_fetch_cap (total_added ro)) = min ?p (2 ^ 64 - 1)"
    by (simp add: u128_fetch_cap_value)
  show ?thesis
  proof (cases "add_overflow_su ?v1 (u128_fetch_cap (total_added ro))")
    case True
    then have "2 ^ 63 - 1 \<le> sint ?v1 + ?p"
      using cap sint64_bounds(1)[of ?v1] sum_of_signs(1)[of ds]
      by (auto simp: overflow_defs simp del: sum_of_signs)
    then have "min (2 ^ 63 - 1) (sint v + ?n + ?p) = 2 ^ 63 - 1" using v1 by simp
    with True show ?thesis by simp
  next
    case False
    then have s: "sint ?v1 + min ?p (2 ^ 64 - 1) < 2 ^ 63" using cap by (simp add: overflow_defs)
    have "min (2 ^ 63 - 1) (sint v + ?n + ?p) = sint v + ?n + min ?p (2 ^ 64 - 1)"
      using s v1 sint64_bounds(1)[of ?v1] by (auto simp: min_def)
    moreover have "word_of_int (sint v + ?n + min ?p (2 ^ 64 - 1)) = ?v1 + u128_fetch_cap (total_added ro)"
    proof -
      have "?v1 + u128_fetch_cap (total_added ro) =
          word_of_int (sint ?v1) + word_of_int (uint (u128_fetch_cap (total_added ro)))" by simp
      then show ?thesis unfolding v1 cap by (simp only: of_int_add)
    qed
    ultimately show ?thesis using False by simp
  qed
qed

lemma commit_body_asset:
  assumes inv: "asset_inv (mset ds) (mset ds) ro" and a: "a = prev_asset (committed_base ro)"
  shows "commit_body ro (asset a) = Ret (spec_body ds (asset a), ro)"
    and "0 \<le> uint a + sum_of asset_pos ds + sum_of asset_neg ds"
    and "uint a + sum_of asset_pos ds + sum_of asset_neg ds < 2 ^ 64"
  using inv by (simp_all add: asset_inv_def Let_def asset_low_def asset_high_def total_mset a)

lemma survives_clear_max:
  "survives ds e \<longleftrightarrow> (\<forall>t. HASH_SET_CLEAR t \<in># mset ds \<longrightarrow> t < index e)"
  unfolding survives_def list_all_iff by (auto split: StorageDelta.splits)

lemma clear_max_less:
  assumes "HASH_SET_CLEAR t0 \<in># C"
  shows "clear_max C < k \<longleftrightarrow> (\<forall>t. HASH_SET_CLEAR t \<in># C \<longrightarrow> t < k)"
proof -
  have "clear_max C < k \<longleftrightarrow> 0 < k \<and> (\<forall>t. HASH_SET_CLEAR t \<in># C \<longrightarrow> t < k)"
    unfolding clear_max_def by simp
  moreover have "0 < k" if "t0 < k" using that by (metis bot.not_eq_extremum not_less_bot word_not_simps(1) word_zero_le le_less_trans)
  ultimately show ?thesis using assms by blast
qed

lemma filter_normalize_list: "filter P (normalize_list xs) = normalize_list (filter P xs)"
  by (rule normalized_unique) (simp_all add: mset_filter)

lemma committed_entries:
  assumes flag: "flag_inv (mset ds) ro" and ms: "mset new = mset (insertions ds)"
  shows "(if hashset_clear_committed ro
          then clear_list (normalize_list (old @ new)) (max_committed_clear_threshold ro)
          else normalize_list (old @ new)) =
     normalize_list (filter (survives ds) (old @ insertions ds))"
proof -
  have n: "normalize_list (old @ new) = normalize_list (old @ insertions ds)"
    using ms by (intro normalize_list_cong) simp
  show ?thesis
  proof (cases "\<exists>t. HASH_SET_CLEAR t \<in># mset ds")
    case True
    then obtain t0 where t0: "HASH_SET_CLEAR t0 \<in># mset ds" ..
    have "survives ds = (\<lambda>e. clear_max (mset ds) < index e)"
      by (rule ext) (simp only: survives_clear_max clear_max_less[OF t0])
    with True show ?thesis using flag n
      by (auto simp: flag_inv_def clear_list_filter filter_normalize_list)
  next
    case False
    then have "survives ds = (\<lambda>e. True)" by (auto simp: survives_clear_max fun_eq_iff)
    with False show ?thesis using flag n by (auto simp: flag_inv_def)
  qed
qed

lemma committed_limit:
  assumes inv: "size_increase ro = word_of_int (sum_of limit_inc ds)" and len: "length ds < 2 ^ 31"
  shows "(ucast (min (of_nat MAX_HASH_SET_SIZE) (size_increase ro + ucast m)) :: uint32) =
     word_of_int (min 65535 (uint (m :: uint32) + sum_of limit_inc ds))"
proof -
  have b: "sum_of limit_inc ds \<le> 2 ^ 32 * int (length ds)" by (rule sum_of_bound) (rule limit_inc_bound)
  have m: "uint m < 2 ^ 32" using uint_lt2p[of m] by simp
  have "uint m + sum_of limit_inc ds < 2 ^ 64" using b m len by simp
  moreover have "size_increase ro + ucast m = word_of_int (uint m + sum_of limit_inc ds)"
    using inv by (simp add: add.commute)
  ultimately have u: "uint (size_increase ro + ucast m) = uint m + sum_of limit_inc ds"
    using uint_word_of_int64[of "uint m + sum_of limit_inc ds"] by (simp only:) simp
  have "uint (min (of_nat MAX_HASH_SET_SIZE) (size_increase ro + ucast m)) =
      min 65535 (uint m + sum_of limit_inc ds)"
    using u by (simp add: min_def word_le_def MAX_HASH_SET_SIZE_def)
  then show ?thesis by (metis of_int_uint)
qed

lemma commit_body_hs:
  assumes hs_i: "hs_inv sh (mset ds) ro" and flag: "flag_inv (mset ds) ro" and len: "length ds < 2 ^ 31"
  shows "\<exists>t. commit_body ro (hash_set hs) = Ret (spec_body ds (hash_set hs), ro\<lparr>new_hashes := t\<rparr>) \<and>
     atomic_set_inv sh t"
proof -
  define ns where "ns = (size_increase ro + ucast (max_size hs) :: uint64)"
  define t where "t = (if size_increase ro > 0 then set_resize (unat ns mod 2 ^ 32) (new_hashes ro)
    else new_hashes ro)"
  have i: "size_increase ro = word_of_int (sum_of limit_inc ds)"
    "mset (get_hashes (new_hashes ro)) = mset (insertions ds)" "atomic_set_inv sh (new_hashes ro)"
    using hs_i by (auto simp: hs_inv_def total_mset inserted_mset)
  have t: "atomic_set_inv sh t" using i(3) by (simp add: t_def)
  have "commit_body ro (hash_set hs) = Ret (hash_set
      \<lparr>hashes = (if hashset_clear_committed ro
          then clear_list (normalize_list (hashes hs @ get_hashes (new_hashes ro))) (max_committed_clear_threshold ro)
          else normalize_list (hashes hs @ get_hashes (new_hashes ro))),
       max_size = ucast (min (of_nat MAX_HASH_SET_SIZE) ns)\<rparr>, ro\<lparr>new_hashes := t\<rparr>)"
    by (simp add: Let_def normalize_hashset_def clear_hashset_def t_def ns_def)
  then have "commit_body ro (hash_set hs) = Ret (spec_body ds (hash_set hs), ro\<lparr>new_hashes := t\<rparr>)"
    by (simp only: spec_body.simps committed_entries[OF flag i(2)] ns_def
        committed_limit[OF i(1) len, of "max_size hs"])
  with t show ?thesis by blast
qed

text \<open>The state a round starts from.\<close>

lemma clear_mods_inv:
  assumes "atomic_set_inv sh (new_hashes ro)"
  shows "mods_inv sh {#} {#} (clear_mods ro)"
  using assms
  by (simp add: mods_inv_def nn_inv_def hs_inv_def asset_inv_def flag_inv_def clear_mods_def Let_def
      asset_low_def asset_high_def uint64_bounds[simplified])

lemma clear_mods_frame [simp]:
  "committed_base (clear_mods ro) = committed_base ro" "base_obj (clear_mods ro) = base_obj ro"
  by (simp_all add: clear_mods_def Let_def)

lemma base_inv_empty:
  "base_inv {#} {#} b \<longleftrightarrow> base_ok b \<and> obj b = None"
proof
  assume i: "base_inv {#} {#} b"
  then have "obj b = None" using base_inv_obj[OF i] by (cases "obj b") auto
  then show "base_ok b \<and> obj b = None" using base_invD(1)[OF i] by simp
next
  assume b: "base_ok b \<and> obj b = None"
  then show "base_inv {#} {#} b"
    using base_ok_obj_None[of b] by (intro base_inv_openI) auto
qed

lemma base_reset_ok: "base_ok \<lparr>tag = 0, obj = None, required_type = r\<rparr>"
  by (simp add: base_ok_def low_byte_def expect_nonnull_def)

lemma idle_clear_mods:
  assumes "atomic_set_inv sh (new_hashes ro)" "tag (base_obj ro) = 0" "obj (base_obj ro) = None"
    "required_type (base_obj ro) = map_option (\<lambda>ob. body_type (body ob)) (committed_base ro)"
  shows "round_inv sh {#} {#} (clear_mods ro)"
proof -
  have "base_obj ro = \<lparr>tag = 0, obj = None, required_type = required_type (base_obj ro)\<rparr>"
    using assms(2,3) by simp
  then have "base_ok (base_obj ro)" using base_reset_ok by metis
  then show ?thesis using assms clear_mods_inv[OF assms(1)] by (simp add: round_inv_def base_inv_empty)
qed

lemma round_inv_new: "round_inv sh {#} {#} RevertableObject_new"
  by (simp add: round_inv_def base_inv_empty RevertableObject_new_def mods_inv_def nn_inv_def hs_inv_def
      asset_inv_def flag_inv_def asset_low_def asset_high_def prev_asset_def Let_def)
    (simp add: base_new_def)

lemma get_hashes_resize_new: "get_hashes (set_resize n (atomic_set_new 0)) = []"
  by (simp add: set_resize_def get_hashes_def atomic_set_new_def Let_def)

lemma round_inv_from: "round_inv sh {#} {#} (RevertableObject_from ob)"
  by (cases "body ob"; simp add: round_inv_def base_inv_empty RevertableObject_from_def mods_inv_def nn_inv_def
      hs_inv_def asset_inv_def flag_inv_def asset_low_def asset_high_def prev_asset_def Let_def
      uint64_bounds[simplified] get_hashes_resize_new;
      simp add: base_from_object_def)

section \<open>Committing and abandoning a round\<close>

lemma start_object_Ret:
  assumes inv: "round_inv sh {#} (mset ds) ro" and st: "storable (committed_base ro)"
  shows "(case class_of ds of None \<Rightarrow> Ret (committed_base ro)
          | Some dc \<Rightarrow> obind (object_from_delta_class dc (committed_base ro)) (\<lambda>ob. Ret (Some ob))) =
         Ret (start_object (committed_base ro) ds)"
    and "class_of ds = Some dc \<Longrightarrow>
         \<exists>ob. start_object (committed_base ro) ds = Some ob \<and> object_from_delta_class dc (committed_base ro) = Ret ob"
    and "storable (start_object (committed_base ro) ds)"
proof -
  have ex: "\<exists>ob. start_object (committed_base ro) ds = Some ob \<and>
      object_from_delta_class dc (committed_base ro) = Ret ob \<and> dc_type dc \<noteq> UNCONSTRAINED_INT64"
    if c: "class_of ds = Some dc" for dc
  proof -
    obtain d where d: "d \<in> set ds" "delta_class d = Some dc" using class_of_SomeD[OF c] by blast
    have o: "obj (base_obj ro) = Some dc" using obj_class_of[OF round_invD(1)[OF inv]] c by simp
    have "required_type (base_obj ro) = None \<or> required_type (base_obj ro) = Some (dc_type dc)"
      using base_invD(1)[OF round_invD(1)[OF inv]] o by (auto simp: base_ok_def)
    then have "\<forall>ob. committed_base ro = Some ob \<longrightarrow> body_type (body ob) = dc_type dc"
      using round_invD(2)[OF inv] by auto
    moreover have "dc_type dc \<noteq> UNCONSTRAINED_INT64"
      using supported_class[OF round_invD(3)[OF inv] d(2)] d(1) by simp
    ultimately show ?thesis using object_from_delta_class_Ret[of dc "committed_base ro"] c
      by (auto simp: start_object_def)
  qed
  show "(case class_of ds of None \<Rightarrow> Ret (committed_base ro)
          | Some dc \<Rightarrow> obind (object_from_delta_class dc (committed_base ro)) (\<lambda>ob. Ret (Some ob))) =
         Ret (start_object (committed_base ro) ds)"
    using ex by (cases "class_of ds") (auto simp: start_object_def)
  show "class_of ds = Some dc \<Longrightarrow>
         \<exists>ob. start_object (committed_base ro) ds = Some ob \<and> object_from_delta_class dc (committed_base ro) = Ret ob"
    using ex by blast
  show "storable (start_object (committed_base ro) ds)"
  proof (cases "class_of ds")
    case None
    then show ?thesis using st by (simp add: start_object_def)
  next
    case (Some dc)
    then show ?thesis using ex[OF Some] object_from_delta_class_type by (force simp: storable_def)
  qed
qed

lemma start_object_body:
  assumes inv: "round_inv sh {#} (mset ds) ro" and st: "storable (committed_base ro)"
    and ob: "start_object (committed_base ro) ds = Some ob"
  shows "body ob = hash_set hs \<Longrightarrow> hs = prev_hash_set (committed_base ro)"
    and "body ob = asset a \<Longrightarrow> a = prev_asset (committed_base ro)"
    and "body ob = nonnegative_int64 v \<Longrightarrow> sum_of nn_neg ds = 0 \<or> 0 \<le> sint v + sum_of nn_neg ds"
proof -
  note ret = start_object_Ret(2)[OF inv st]
  show "body ob = hash_set hs \<Longrightarrow> hs = prev_hash_set (committed_base ro)"
    using ob ret by (cases "class_of ds")
      (auto simp: start_object_def object_from_delta_class_def prev_hash_set_def
        split: if_splits StorageDeltaClass.splits)
  show "body ob = asset a \<Longrightarrow> a = prev_asset (committed_base ro)"
    using ob ret by (cases "class_of ds")
      (auto simp: start_object_def object_from_delta_class_def prev_asset_def
        split: if_splits StorageDeltaClass.splits)
  assume v: "body ob = nonnegative_int64 v"
  show "sum_of nn_neg ds = 0 \<or> 0 \<le> sint v + sum_of nn_neg ds"
  proof (cases "sum_of nn_neg ds < 0")
    case True
    then obtain sv x where d: "NONNEGATIVE_INT64_SET_ADD sv x \<in> set ds"
      using total_nn_neg_witness[of "mset ds"] by (auto simp: total_mset)
    have "obj (base_obj ro) = Some (DC_NONNEGATIVE_INT64 sv)"
      using base_invD(2)[OF round_invD(1)[OF inv], of "NONNEGATIVE_INT64_SET_ADD sv x"] d by simp
    then have "class_of ds = Some (DC_NONNEGATIVE_INT64 sv)"
      using obj_class_of[OF round_invD(1)[OF inv]] by simp
    then have "v = sv" using ret ob v by (auto simp: object_from_delta_class_def split: if_splits)
    moreover have "0 \<le> sint sv + sum_of nn_neg ds"
      using round_invD(5)[OF inv] d True by (auto simp: nn_inv_def total_mset)
    ultimately show ?thesis by simp
  next
    case False
    then show ?thesis using sum_of_signs(2)[of ds] by linarith
  qed
qed

lemma commit_body_spec:
  assumes inv: "round_inv sh {#} (mset ds) ro" and st: "storable (committed_base ro)"
    and ob: "start_object (committed_base ro) ds = Some ob" and len: "length ds < 2 ^ 31"
    and ro2: "ro2 = ro\<lparr>base_obj := b, committed_base := Some ob\<rparr>"
  shows "\<exists>t. commit_body ro2 (body ob) = Ret (spec_body ds (body ob), ro2\<lparr>new_hashes := t\<rparr>) \<and> atomic_set_inv sh t"
proof -
  have ai: "atomic_set_inv sh (new_hashes ro2)" using round_invD(6)[OF inv] by (simp add: hs_inv_def ro2)
  have fr: "nn_inv (mset ds) ro2" "flag_inv (mset ds) ro2"
    using round_invD(5,8)[OF inv] by (simp_all add: ro2 nn_inv_def flag_inv_def)
  have same: "ro2\<lparr>new_hashes := new_hashes ro2\<rparr> = ro2" by simp
  show ?thesis
  proof (cases "body ob")
    case (hash_set hs)
    have "prev_hash_set (Some ob) = prev_hash_set (committed_base ro)"
      using start_object_body(1)[OF inv st ob hash_set] hash_set by (simp add: prev_hash_set_def)
    then have "hs_inv sh (mset ds) ro2" using round_invD(6)[OF inv] by (simp add: hs_inv_def ro2)
    from commit_body_hs[OF this fr(2) len] show ?thesis unfolding hash_set by blast
  next
    case (nonnegative_int64 v)
    have "commit_body ro2 (body ob) = Ret (spec_body ds (body ob), ro2)" unfolding nonnegative_int64
      by (rule commit_body_nn[OF fr(1) start_object_body(3)[OF inv st ob nonnegative_int64] len])
    with ai same show ?thesis by metis
  next
    case (asset a)
    have p: "prev_asset (Some ob) = prev_asset (committed_base ro)" "a = prev_asset (committed_base ro2)"
      using start_object_body(2)[OF inv st ob asset] asset by (simp_all add: prev_asset_def ro2)
    have "asset_inv (mset ds) (mset ds) ro2" using round_invD(7)[OF inv] p
      by (simp add: asset_inv_def ro2)
    from commit_body_asset(1)[OF this p(2)] have "commit_body ro2 (body ob) = Ret (spec_body ds (body ob), ro2)"
      unfolding asset .
    with ai same show ?thesis by metis
  next
    case (raw_memory_storage x)
    then have "commit_body ro2 (body ob) = Ret (spec_body ds (body ob), ro2)" by simp
    with ai same show ?thesis by metis
  next
    case (unconstrained_int64 x)
    then show ?thesis using start_object_Ret(3)[OF inv st] ob by (simp add: storable_def)
  qed
qed

lemma spec_body_type [simp]: "body_type (spec_body ds b) = body_type b"
  by (cases b) auto

lemma commit_round_spec:
  assumes inv: "round_inv sh {#} (mset ds) ro" and st: "storable (committed_base ro)"
    and len: "length ds < 2 ^ 31"
  shows "\<exists>ro'. commit_round ro = Ret ro' \<and> committed_base ro' = spec_commit (committed_base ro) ds \<and>
     (DELETE_LAST \<notin> set ds \<or> prev_asset (start_object (committed_base ro) ds) = 0 \<longrightarrow>
        round_inv sh {#} {#} ro')"
proof -
  define b where "b = snd (commit_round_and_reset (base_obj ro))"
  define cb where "cb = start_object (committed_base ro) ds"
  define ro2 where "ro2 = ro\<lparr>base_obj := b, committed_base := cb\<rparr>"
  note oc = obj_class_of[OF round_invD(1)[OF inv]]
  have reset: "commit_round_and_reset (base_obj ro) = (class_of ds, b)"
    using oc by (auto simp: b_def commit_round_and_reset_def split: option.splits)
  have b: "tag b = 0" "obj b = None" using oc by (auto simp: b_def commit_round_and_reset_def split: option.splits)
  have req: "required_type b = map_option (\<lambda>ob. body_type (body ob)) cb"
  proof (cases "class_of ds")
    case None
    then show ?thesis using oc round_invD(2)[OF inv]
      by (simp add: b_def commit_round_and_reset_def cb_def start_object_def)
  next
    case (Some dc)
    then show ?thesis using oc start_object_Ret(2)[OF inv st Some] object_from_delta_class_type
      by (auto simp: b_def commit_round_and_reset_def cb_def)
  qed
  have ai: "atomic_set_inv sh (new_hashes ro2)" and del: "delete_last_committed ro2 \<longleftrightarrow> DELETE_LAST \<in> set ds"
    using round_invD(6,8)[OF inv] by (auto simp: hs_inv_def flag_inv_def ro2_def)
  have run: "commit_round ro = (case cb of
       None \<Rightarrow> Ret (clear_mods ro2)
     | Some ob \<Rightarrow> if DELETE_LAST \<in> set ds then
           Ret ((clear_mods ro2)\<lparr>committed_base := None, base_obj := clear_required_type b\<rparr>)
         else obind (commit_body ro2 (body ob)) (\<lambda>(bd, ro3).
           Ret (clear_mods (ro3\<lparr>committed_base := Some (ob\<lparr>body := bd\<rparr>)\<rparr>))))"
  proof -
    have sel: "committed_base (ro\<lparr>base_obj := b\<rparr>) = committed_base ro" by simp
    show ?thesis using del
      unfolding commit_round_def reset Let_def prod.case sel start_object_Ret(1)[OF inv st] obind.simps
        cb_def[symmetric] ro2_def[symmetric]
      by (cases cb) (simp_all add: ro2_def)
  qed
  show ?thesis
  proof (cases cb)
    case None
    have "round_inv sh {#} {#} (clear_mods ro2)"
      by (rule idle_clear_mods) (use ai b req in \<open>auto simp: ro2_def\<close>)
    then show ?thesis using run None by (simp add: spec_commit_def cb_def[symmetric]) (simp add: ro2_def)
  next
    case (Some ob)
    show ?thesis
    proof (cases "DELETE_LAST \<in> set ds")
      case True
      let ?r = "(clear_mods ro2)\<lparr>committed_base := None, base_obj := clear_required_type b\<rparr>"
      have "round_inv sh {#} {#} ?r" if "prev_asset cb = 0"
      proof -
        have "mods_inv sh {#} {#} ?r" using that clear_mods_inv[OF ai]
          by (simp add: mods_inv_def nn_inv_def hs_inv_def asset_inv_def flag_inv_def asset_low_def asset_high_def Let_def)
            (simp add: ro2_def prev_asset_def[of None])
        moreover have "base_ok (clear_required_type b)" "obj (clear_required_type b) = None"
          using b by (simp_all add: clear_required_type_def base_ok_def low_byte_def expect_nonnull_def)
        ultimately show ?thesis by (simp add: round_inv_def base_inv_empty clear_required_type_def)
      qed
      then show ?thesis using run Some True by (simp add: spec_commit_def cb_def[symmetric])
    next
      case False
      from commit_body_spec[OF inv st _ len, of ob ro2 b] Some obtain t where
        t: "commit_body ro2 (body ob) = Ret (spec_body ds (body ob), ro2\<lparr>new_hashes := t\<rparr>)" "atomic_set_inv sh t"
        by (auto simp: cb_def[symmetric] ro2_def)
      have "round_inv sh {#} {#}
          (clear_mods (ro2\<lparr>new_hashes := t, committed_base := Some (ob\<lparr>body := spec_body ds (body ob)\<rparr>)\<rparr>))"
        by (rule idle_clear_mods) (use t b req Some in \<open>auto simp: ro2_def\<close>)
      then show ?thesis using run Some False t by (simp add: spec_commit_def cb_def[symmetric])
    qed
  qed
qed

lemma rewind_round_idle:
  assumes inv: "round_inv sh L C ro"
  shows "round_inv sh {#} {#} (rewind_round ro)" "committed_base (rewind_round ro) = committed_base ro"
proof -
  show "committed_base (rewind_round ro) = committed_base ro" by (simp add: rewind_round_def)
  show "round_inv sh {#} {#} (rewind_round ro)" unfolding rewind_round_def
    by (rule idle_clear_mods) (use round_invD(2,6)[OF inv] in \<open>auto simp: base_rewind_round_def hs_inv_def\<close>)
qed

section \<open>Interleavings\<close>

text \<open>
  The states of one round: \<open>L\<close> the live rewinds, \<open>C\<close> the committed deltas. Any thread may
  take the next step. At most 254 rewinds of one object are live when a delta is added, the
  range of the eight-bit writer count.
\<close>

inductive ro_reach :: "(Hash \<Rightarrow> uint64) \<Rightarrow> RevertableObject \<Rightarrow> DeltaRewind multiset \<Rightarrow>
    StorageDelta multiset \<Rightarrow> RevertableObject \<Rightarrow> bool"
  for sh ro0 where
  reach_start: "ro_reach sh ro0 {#} {#} ro0"
| reach_add: "ro_reach sh ro0 L C ro \<Longrightarrow> size L < 255 \<Longrightarrow> uid_ok u \<Longrightarrow>
    try_add_delta sh u d ro = Ret (Some rw, ro', u') \<Longrightarrow> ro_reach sh ro0 (add_mset rw L) C ro'"
| reach_reject: "ro_reach sh ro0 L C ro \<Longrightarrow> size L < 255 \<Longrightarrow> uid_ok u \<Longrightarrow>
    try_add_delta sh u d ro = Ret (None, ro', u') \<Longrightarrow> ro_reach sh ro0 L C ro'"
| reach_commit: "ro_reach sh ro0 (add_mset rw L) C ro \<Longrightarrow>
    delta_rewind_commit rw ro = Ret (rw', ro') \<Longrightarrow> ro_reach sh ro0 L (add_mset (rw_delta rw) C) ro'"
| reach_revert: "ro_reach sh ro0 (add_mset rw L) C ro \<Longrightarrow> uid_ok u \<Longrightarrow>
    delta_rewind_destroy sh u rw ro = Ret (ro', u') \<Longrightarrow> ro_reach sh ro0 L C ro'"

lemma try_add_delta_supported: "try_add_delta sh u d ro = Ret x \<Longrightarrow> supported d"
  by (cases d) auto

lemma ro_reach_inv:
  assumes "ro_reach sh ro0 L C ro" "round_inv sh {#} {#} ro0"
  shows "round_inv sh L C ro \<and> committed_base ro = committed_base ro0"
  using assms
proof (induction rule: ro_reach.induct)
  case (reach_add L C ro u d rw ro' u')
  then show ?case using round_add[of sh L C ro u d] try_add_delta_supported by fastforce
next
  case (reach_reject L C ro u d ro' u')
  then show ?case using round_add[of sh L C ro u d] try_add_delta_supported by fastforce
next
  case (reach_commit rw L C ro rw' ro')
  then show ?case using round_commit[of sh rw L C ro] by auto
next
  case (reach_revert rw L C ro u ro' u')
  then show ?case using round_revert[of sh rw L C ro u] by auto
qed simp

lemma reach_add_then_commit:
  assumes idle: "round_inv sh {#} {#} ro0" and r: "ro_reach sh ro0 {#} C ro" and sup: "supported d"
    and adm: "admits (committed_base ro0) C C d" "slot_free d ro"
  shows "\<exists>ro'. ro_reach sh ro0 {#} (add_mset d C) ro'"
proof -
  have inv: "round_inv sh {#} C ro" "committed_base ro = committed_base ro0"
    using ro_reach_inv[OF r idle] by auto
  have u: "uid_ok 0" by (simp add: uid_ok_def)
  from round_add[OF inv(1) u sup] adm inv(2) obtain rw ro1 u' where
    a: "try_add_delta sh 0 d ro = Ret (Some rw, ro1, u')" "rw_delta rw = d" "round_inv sh {#rw#} C ro1"
    by (auto split: option.splits)
  have r1: "ro_reach sh ro0 {#rw#} C ro1" by (rule reach_add[OF r _ u a(1)]) simp
  from round_commit[OF a(3)] obtain rw' ro2 where "delta_rewind_commit rw ro1 = Ret (rw', ro2)" by blast
  from reach_commit[OF r1 this] a(2) show ?thesis by auto
qed

text \<open>Two interleavings of the same two deltas, used below to instantiate the properties.\<close>

definition sample_object :: StorageObject where
  "sample_object = \<lparr>body = nonnegative_int64 10, escrowed_fee = 0\<rparr>"

definition sample_deltas :: "StorageDelta list" where
  "sample_deltas = [NONNEGATIVE_INT64_SET_ADD 10 (- 3), NONNEGATIVE_INT64_SET_ADD 10 5]"

lemma sample_reach:
  "\<exists>ro. ro_reach sh (RevertableObject_from sample_object) {#} (mset sample_deltas) ro"
proof -
  let ?ro0 = "RevertableObject_from sample_object"
  let ?d1 = "NONNEGATIVE_INT64_SET_ADD 10 (- 3)" and ?d2 = "NONNEGATIVE_INT64_SET_ADD 10 5"
  have cb: "committed_base ?ro0 = Some sample_object"
    by (simp add: RevertableObject_from_def sample_object_def Let_def)
  have ty: "body_type (body sample_object) = NONNEGATIVE_INT64" by (simp add: sample_object_def)
  have "\<exists>ro. ro_reach sh ?ro0 {#} {#?d2#} ro"
    by (rule reach_add_then_commit[OF round_inv_from reach_start])
      (simp_all add: cb ty admits_def class_admitted_def same_class_def)
  then obtain ro where r: "ro_reach sh ?ro0 {#} {#?d2#} ro" ..
  have "\<exists>ro. ro_reach sh ?ro0 {#} (add_mset ?d1 {#?d2#}) ro"
    by (rule reach_add_then_commit[OF round_inv_from r])
      (simp_all add: cb ty admits_def class_admitted_def same_class_def)
  then show ?thesis by (simp add: sample_deltas_def)
qed

lemma sample_storable: "storable (committed_base (RevertableObject_from sample_object))"
  by (simp add: RevertableObject_from_def sample_object_def Let_def storable_def)

section \<open>Properties\<close>

text \<open>
  C10: the outcome of a block does not depend on the interleaving. Two executions that start
  from the same object between rounds and end with the same multiset of committed deltas, whatever
  other deltas were tried, rejected or reverted on the way and in whatever order the threads
  ran, both commit without an exception and commit the same object.
\<close>

theorem commit_order_independent:
  assumes "round_inv sh {#} {#} ro0" "storable (committed_base ro0)" "size C < 2 ^ 31"
    "ro_reach sh ro0 {#} C ro1" "ro_reach sh ro0 {#} C ro2"
  shows "\<exists>r1 r2. commit_round ro1 = Ret r1 \<and> commit_round ro2 = Ret r2 \<and>
     get_committed_object r1 = get_committed_object r2"
proof -
  obtain ds where ds: "C = mset ds" using ex_mset by metis
  have i: "round_inv sh {#} (mset ds) ro1" "round_inv sh {#} (mset ds) ro2"
    "committed_base ro1 = committed_base ro0" "committed_base ro2 = committed_base ro0"
    using ro_reach_inv assms ds by blast+
  show ?thesis using commit_round_spec[OF i(1)] commit_round_spec[OF i(2)] assms(2,3) i ds
    by (fastforce simp: get_committed_object_def)
qed

theorem commit_order_independent_witness:
  "\<exists>ro1 ro2 r1 r2. ro_reach (\<lambda>_. 0) (RevertableObject_from sample_object) {#} (mset sample_deltas) ro1 \<and>
     ro_reach (\<lambda>_. 0) (RevertableObject_from sample_object) {#} (mset sample_deltas) ro2 \<and>
     commit_round ro1 = Ret r1 \<and> commit_round ro2 = Ret r2 \<and>
     get_committed_object r1 = get_committed_object r2"
proof -
  obtain ro where r: "ro_reach (\<lambda>_. 0) (RevertableObject_from sample_object) {#} (mset sample_deltas) ro"
    using sample_reach by blast
  show ?thesis using commit_order_independent[OF round_inv_from sample_storable _ r r] r
    by (auto simp: sample_deltas_def)
qed

text \<open>
  C11: the committed object is exactly the one the contract prescribes: nothing when a deletion
  was committed, otherwise the start value of the agreed delta class with all committed
  deltas applied (integers summed and capped at the largest value, assets summed, hash set
  entries added, cleared and sorted, the limit raised up to its maximum). The object is then
  ready for the next round, unless a non-zero asset was deleted.
\<close>

theorem commit_round_refines_spec:
  assumes "round_inv sh {#} {#} ro0" "storable (committed_base ro0)" "length ds < 2 ^ 31"
    "ro_reach sh ro0 {#} (mset ds) ro"
  shows "\<exists>ro'. commit_round ro = Ret ro' \<and>
     get_committed_object ro' = spec_commit (get_committed_object ro0) ds \<and>
     (DELETE_LAST \<notin> set ds \<or> prev_asset (start_object (get_committed_object ro0) ds) = 0 \<longrightarrow>
        round_inv sh {#} {#} ro')"
proof -
  have "round_inv sh {#} (mset ds) ro" "committed_base ro = committed_base ro0"
    using ro_reach_inv assms by blast+
  then show ?thesis using commit_round_spec[of sh ds ro] assms(2,3) by (simp add: get_committed_object_def)
qed

theorem commit_round_refines_spec_witness:
  "\<exists>ro ro'. ro_reach (\<lambda>_. 0) (RevertableObject_from sample_object) {#} (mset sample_deltas) ro \<and>
     commit_round ro = Ret ro' \<and>
     get_committed_object ro' = Some \<lparr>body = nonnegative_int64 12, escrowed_fee = 0\<rparr>"
proof -
  obtain ro where r: "ro_reach (\<lambda>_. 0) (RevertableObject_from sample_object) {#} (mset sample_deltas) ro"
    using sample_reach by blast
  have "spec_commit (get_committed_object (RevertableObject_from sample_object)) sample_deltas =
      Some \<lparr>body = nonnegative_int64 12, escrowed_fee = 0\<rparr>"
    by (simp add: spec_commit_def start_object_def sample_deltas_def sample_object_def get_committed_object_def
        RevertableObject_from_def Let_def object_from_delta_class_def sum_of_def)
  then show ?thesis
    using commit_round_refines_spec[OF round_inv_from sample_storable _ r] r by (auto simp: sample_deltas_def)
qed



text \<open>
  C13: an asset is conserved exactly. When the committed deltas of a round contain asset
  additions and no deletion, the committed amount, read as an integer, is the previous amount plus
  the sum of the committed deltas: nothing wraps around and the check that the two running
  bounds meet never fails.
\<close>

theorem asset_conserved:
  assumes "round_inv sh {#} {#} ro0" "storable (committed_base ro0)" "length ds < 2 ^ 31"
    "ro_reach sh ro0 {#} (mset ds) ro" "ASSET_OBJECT_ADD x \<in> set ds" "DELETE_LAST \<notin> set ds"
  shows "\<exists>ro' ob a. commit_round ro = Ret ro' \<and> get_committed_object ro' = Some ob \<and> body ob = asset a \<and>
     uint a = uint (prev_asset (get_committed_object ro0)) + (\<Sum>d\<leftarrow>ds. asset_pos d + asset_neg d)"
proof -
  have i: "round_inv sh {#} (mset ds) ro" "committed_base ro = committed_base ro0"
    using ro_reach_inv assms by blast+
  have "obj (base_obj ro) = Some DC_KNOWN_SUPPLY_ASSET"
    using base_invD(2)[OF round_invD(1)[OF i(1)], of "ASSET_OBJECT_ADD x"] assms(5) by simp
  then have c: "class_of ds = Some DC_KNOWN_SUPPLY_ASSET" using obj_class_of[OF round_invD(1)[OF i(1)]] by simp
  obtain ob where ob: "start_object (committed_base ro) ds = Some ob"
    "body ob = asset (prev_asset (committed_base ro))"
    using start_object_Ret(2)[OF i(1) _ c] assms(2) i(2)
    by (auto simp: object_from_delta_class_def split: if_splits)
  let ?s = "uint (prev_asset (committed_base ro)) + sum_of asset_pos ds + sum_of asset_neg ds"
  have rng: "0 \<le> ?s" "?s < 2 ^ 64"
    using commit_body_asset(2,3)[of ds ro] round_invD(7)[OF i(1)] by simp_all
  have "?s = uint (prev_asset (committed_base ro)) + (\<Sum>d\<leftarrow>ds. asset_pos d + asset_neg d)"
    by (simp add: sum_of_def sum_list_addf)
  with rng uint_word_of_int64[OF rng] show ?thesis
    using commit_round_spec[OF i(1)] assms(2,3,6) i(2) ob
    by (auto simp: spec_commit_def get_committed_object_def)
qed

lemma sample_asset_reach:
  "\<exists>ro. ro_reach sh RevertableObject_new {#} {#ASSET_OBJECT_ADD 7#} ro"
  by (rule reach_add_then_commit[OF round_inv_new reach_start])
    (simp_all add: admits_def class_admitted_def same_class_def RevertableObject_new_def asset_high_def prev_asset_def)

theorem asset_conserved_witness:
  "\<exists>ro ro' ob a. ro_reach (\<lambda>_. 0) RevertableObject_new {#} {#ASSET_OBJECT_ADD 7#} ro \<and>
     commit_round ro = Ret ro' \<and> get_committed_object ro' = Some ob \<and> body ob = asset a \<and> uint a = 7"
proof -
  obtain ro where r: "ro_reach (\<lambda>_. 0) RevertableObject_new {#} (mset [ASSET_OBJECT_ADD 7]) ro"
    using sample_asset_reach by auto
  have "storable (committed_base RevertableObject_new)"
    by (simp add: RevertableObject_new_def storable_def)
  from asset_conserved[OF round_inv_new this _ r, of 7] r show ?thesis
    by (auto simp: RevertableObject_new_def prev_asset_def get_committed_object_def)
qed



text \<open>
  C15: a hash set object keeps a duplicate-free, descending list of entries. When the committed
  object holds one and no deletion is committed, the new entries are the old and the inserted
  ones whose index exceeds every committed clear threshold, and no entry was inserted twice or
  over an existing one.
\<close>

theorem hash_set_committed:
  assumes "round_inv sh {#} {#} ro0" "length ds < 2 ^ 31" "ro_reach sh ro0 {#} (mset ds) ro"
    "committed_base ro0 = Some ob0" "body ob0 = hash_set hs" "distinct (hashes hs)" "DELETE_LAST \<notin> set ds"
  shows "\<exists>ro' ob hs'. commit_round ro = Ret ro' \<and> get_committed_object ro' = Some ob \<and> body ob = hash_set hs' \<and>
     distinct (hashes hs') \<and> normalized (hashes hs') \<and> distinct (insertions ds) \<and>
     set (hashes hs') = {e \<in> set (hashes hs) \<union> set (insertions ds). survives ds e} \<and>
     set (hashes hs) \<inter> set (insertions ds) = {} \<and>
     (insertions ds \<noteq> [] \<longrightarrow> length (hashes hs) + length (insertions ds) \<le> unat (max_size hs))"
proof -
  have i: "round_inv sh {#} (mset ds) ro" "committed_base ro = Some ob0"
    using ro_reach_inv assms(1,3,4) by metis+
  have st: "storable (committed_base ro)" using i(2) assms(5) by (simp add: storable_def)
  have prev: "prev_hash_set (Some ob0) = hs" using assms(5) by (simp add: prev_hash_set_def)
  have h: "mset (get_hashes (new_hashes ro)) = mset (insertions ds)" "atomic_set_inv sh (new_hashes ro)"
    "\<forall>h. h \<in> set (insertions ds) \<longrightarrow> h \<notin> set (hashes hs)"
    "insertions ds = [] \<or> length (hashes hs) + length (insertions ds) \<le> unat (max_size hs)"
    using round_invD(6)[OF i(1)] prev by (auto simp: hs_inv_def i(2) inserted_mset)
  have dist: "distinct (insertions ds)"
    using mset_eq_imp_distinct_iff[OF h(1)] atomic_set.entries_distinct[OF h(2)] by simp
  obtain ob where ob: "start_object (committed_base ro) ds = Some ob" "body ob = hash_set hs"
  proof (cases "class_of ds")
    case None
    then show ?thesis using that i(2) assms(5) by (simp add: start_object_def)
  next
    case (Some dc)
    then obtain ob where o: "start_object (committed_base ro) ds = Some ob"
        "object_from_delta_class dc (committed_base ro) = Ret ob"
      using start_object_Ret(2)[OF i(1) st Some] by blast
    then have "body_type (body ob) = HASH_SET"
      using object_from_delta_class_type object_from_delta_class_prev i(2) assms(5) by fastforce
    then obtain hs2 where "body ob = hash_set hs2" by (cases "body ob") auto
    with start_object_body(1)[OF i(1) st o(1) this] that o(1) prev i(2) show ?thesis by simp
  qed
  show ?thesis using commit_round_spec[OF i(1) st assms(2)] ob assms(6,7) dist h(3,4)
    by (auto simp: spec_commit_def get_committed_object_def)
qed

definition sample_hash_object :: StorageObject where
  "sample_hash_object =
     \<lparr>body = hash_set \<lparr>hashes = [HashSetEntry 4 9, HashSetEntry 3 2], max_size = 3\<rparr>, escrowed_fee = 0\<rparr>"

lemma sample_hash_reach:
  "\<exists>ro. ro_reach sh (RevertableObject_from sample_hash_object) {#}
     (mset [HASH_SET_INSERT (HashSetEntry 3 5), HASH_SET_CLEAR 2]) ro"
proof -
  let ?ro0 = "RevertableObject_from sample_hash_object"
  have cb: "committed_base ?ro0 = Some sample_hash_object"
    by (simp add: RevertableObject_from_def sample_hash_object_def Let_def)
  have hs: "body_type (body sample_hash_object) = HASH_SET"
    "prev_hash_set (Some sample_hash_object) =
       \<lparr>hashes = [HashSetEntry 4 9, HashSetEntry 3 2], max_size = 3\<rparr>"
    by (simp_all add: sample_hash_object_def prev_hash_set_def)
  have free: "Free \<in> set (array (new_hashes ?ro0))"
    by (simp add: RevertableObject_from_def sample_hash_object_def set_resize_def atomic_set_new_def
        with_extra_buffer_def f32_round_def f32_exp.simps Let_def)
  have "\<exists>ro. ro_reach sh ?ro0 {#} (add_mset (HASH_SET_INSERT (HashSetEntry 3 5)) {#}) ro"
    by (rule reach_add_then_commit[OF round_inv_from reach_start])
      (simp_all add: cb hs free admits_def class_admitted_def same_class_def)
  then obtain ro where r: "ro_reach sh ?ro0 {#} (add_mset (HASH_SET_INSERT (HashSetEntry 3 5)) {#}) ro" ..
  have "\<exists>ro. ro_reach sh ?ro0 {#} (add_mset (HASH_SET_CLEAR 2) (add_mset (HASH_SET_INSERT (HashSetEntry 3 5)) {#})) ro"
    by (rule reach_add_then_commit[OF round_inv_from r])
      (simp_all add: cb hs admits_def class_admitted_def same_class_def)
  then show ?thesis by (simp add: add_mset_commute)
qed

theorem hash_set_committed_witness:
  "\<exists>ro ro' ob hs'. ro_reach (\<lambda>_. 0) (RevertableObject_from sample_hash_object) {#}
       (mset [HASH_SET_INSERT (HashSetEntry 3 5), HASH_SET_CLEAR 2]) ro \<and>
     commit_round ro = Ret ro' \<and> get_committed_object ro' = Some ob \<and> body ob = hash_set hs' \<and>
     set (hashes hs') = {HashSetEntry 4 9, HashSetEntry 3 5}"
proof -
  obtain ro where r: "ro_reach (\<lambda>_. 0) (RevertableObject_from sample_hash_object) {#}
      (mset [HASH_SET_INSERT (HashSetEntry 3 5), HASH_SET_CLEAR 2]) ro" using sample_hash_reach by blast
  have cb: "committed_base (RevertableObject_from sample_hash_object) = Some sample_hash_object"
    "body sample_hash_object = hash_set \<lparr>hashes = [HashSetEntry 4 9, HashSetEntry 3 2], max_size = 3\<rparr>"
    by (simp_all add: RevertableObject_from_def sample_hash_object_def Let_def)
  have "{e \<in> set [HashSetEntry 4 9, HashSetEntry 3 2] \<union>
        set (insertions [HASH_SET_INSERT (HashSetEntry 3 5), HASH_SET_CLEAR 2]).
        survives [HASH_SET_INSERT (HashSetEntry 3 5), HASH_SET_CLEAR 2] e} = {HashSetEntry 4 9, HashSetEntry 3 5}"
    by (auto simp: survives_def)
  with hash_set_committed[OF round_inv_from _ r cb] r show ?thesis by auto
qed

text \<open>
  C29: abandoning a round restores the object: whatever was added, committed or left in flight,
  the committed object is the one before the round and the object is ready for the next one.
\<close>

theorem rewind_round_restores:
  assumes "round_inv sh {#} {#} ro0" "ro_reach sh ro0 L C ro"
  shows "get_committed_object (rewind_round ro) = get_committed_object ro0 \<and>
     round_inv sh {#} {#} (rewind_round ro)"
  using ro_reach_inv[OF assms(2,1)] rewind_round_idle[of sh L C ro]
  by (simp add: get_committed_object_def)

theorem rewind_round_restores_witness:
  "\<exists>ro. ro_reach (\<lambda>_. 0) (RevertableObject_from sample_object) {#} (mset sample_deltas) ro \<and>
     get_committed_object (rewind_round ro) = Some sample_object"
proof -
  obtain ro where r: "ro_reach (\<lambda>_. 0) (RevertableObject_from sample_object) {#} (mset sample_deltas) ro"
    using sample_reach by blast
  from rewind_round_restores[OF round_inv_from r] r show ?thesis
    by (auto simp: get_committed_object_def RevertableObject_from_def sample_object_def Let_def)
qed

text \<open>
  Deleting an asset leaves its amount behind in the running bounds. After a round that
  deletes an asset of 100 units the committed object is gone, yet the same in-memory object
  accepts a withdrawal of those 100 units in the next round.
\<close>

theorem deleted_asset_spendable:
  "\<exists>ro1 ro2 ro3 rw rw' u'.
     delta_rewind_commit (delta_rewind_new False DELETE_LAST)
       (RevertableObject_from \<lparr>body = asset 100, escrowed_fee = 0\<rparr>) = Ret (rw, ro1) \<and>
     commit_round ro1 = Ret ro2 \<and> get_committed_object ro2 = None \<and>
     try_add_delta sh 0 (ASSET_OBJECT_ADD (- 100)) ro2 = Ret (Some rw', ro3, u')"
proof -
  have nt: "expect_nonnull 0 = False" by (simp add: expect_nonnull_def)
  show ?thesis
    by (simp add: delta_rewind_commit_def delta_rewind_new_def RevertableObject_from_def rewind_commit_def
        commit_round_def commit_round_and_reset_def base_from_object_def clear_mods_def prev_asset_def
        get_committed_object_def clear_required_type_def with_base_def try_set_def uid_get_def shorn_read_def
        nt try_add_uint64_def overflow_defs Let_def)
qed

end
