(* ===== verification/ProxyApplicator.thy ===== *)
theory ProxyApplicator
  imports RevertableCommit
begin

text \<open>
  \<open>ProxyApplicator\<close> (\<open>storage_proxy/proxy_applicator.cc\<close>): the view one transaction has of
  one object. Deltas are applied to a private copy and folded into at most one delta of each
  kind, which \<open>get_deltas\<close> hands to the shared object when the transaction ends.
\<close>

section \<open>Definitions\<close>

type_synonym set_add_t = "int64 \<times> int64"

record ProxyApplicator =
  current :: "StorageObject option"
  memory_write :: "byte list option"
  nnint64_delta :: "set_add_t option"
  do_limit_increase :: bool
  hs_size_increase :: uint64
  pa_new_hashes :: "HashSetEntry list"
  hs_clear_threshold :: "uint64 option"
  pa_delta :: "int64 option"
  is_deleted :: bool

definition proxy_applicator_new :: "StorageObject option \<Rightarrow> ProxyApplicator" where
  "proxy_applicator_new base =
     \<lparr>current = base, memory_write = None, nnint64_delta = None, do_limit_increase = False,
      hs_size_increase = 0, pa_new_hashes = [], hs_clear_threshold = None, pa_delta = None,
      is_deleted = False\<rparr>"

fun delta_apply_type_guard :: "StorageDelta \<Rightarrow> ProxyApplicator \<Rightarrow> bool outcome" where
  "delta_apply_type_guard d p = (case current p of
       None \<Rightarrow> Ret True
     | Some ob \<Rightarrow> (case d of
           RAW_MEMORY_WRITE _ \<Rightarrow> Ret (body_type (body ob) = RAW_MEMORY)
         | NONNEGATIVE_INT64_SET_ADD _ _ \<Rightarrow> Ret (body_type (body ob) = NONNEGATIVE_INT64)
         | HASH_SET_INSERT _ \<Rightarrow> Ret (body_type (body ob) = HASH_SET)
         | HASH_SET_INCREASE_LIMIT _ \<Rightarrow> Ret (body_type (body ob) = HASH_SET)
         | HASH_SET_CLEAR _ \<Rightarrow> Ret (body_type (body ob) = HASH_SET)
         | ASSET_OBJECT_ADD _ \<Rightarrow> Ret (body_type (body ob) = KNOWN_SUPPLY_ASSET)
         | _ \<Rightarrow> Throw (RuntimeError ''unknown deltatype'')))"

definition make_nnint64_delta :: "int64 \<Rightarrow> int64 \<Rightarrow> int64 \<Rightarrow> set_add_t option outcome" where
  "make_nnint64_delta base old_delta new_delta =
     (if sint new_delta < 0 then
        if add_overflow_ss new_delta old_delta then Ret None
        else
          let new_delta = new_delta + old_delta
          in if add_overflow_ss base new_delta then
               if sint new_delta < 0 then Ret None
               else if sint base < 0 then
                 if sint old_delta < 0 then Throw (RuntimeError ''invalid input to make_nnint64_delta'')
                 else Ret None
               else Ret (Some (base, new_delta))
             else if sint (base + new_delta) < 0 then Ret None
             else Ret (Some (base, new_delta))
      else
        let new_delta = (if add_overflow_ss old_delta new_delta then INT64_MAX else new_delta + old_delta)
        in Ret (Some (base, new_delta)))"

fun default_body :: "ObjectType \<Rightarrow> ObjectBody outcome" where
  "default_body RAW_MEMORY = Ret (raw_memory_storage [])"
| "default_body NONNEGATIVE_INT64 = Ret (nonnegative_int64 0)"
| "default_body HASH_SET = Ret (hash_set \<lparr>hashes = [], max_size = of_nat START_HASH_SET_SIZE\<rparr>)"
| "default_body KNOWN_SUPPLY_ASSET = Ret (asset 0)"
| "default_body UNCONSTRAINED_INT64 = Throw (RuntimeError ''unimplemented object type'')"

definition make_current :: "ObjectType \<Rightarrow> ProxyApplicator \<Rightarrow> ProxyApplicator outcome" where
  "make_current obj_type p = (case current p of
       None \<Rightarrow> obind (default_body obj_type) (\<lambda>b. Ret (p\<lparr>current := Some \<lparr>body = b, escrowed_fee = 0\<rparr>\<rparr>))
     | Some ob \<Rightarrow> if body_type (body ob) \<noteq> obj_type then Throw (RuntimeError ''type mismatch'') else Ret p)"

definition set_body :: "ObjectBody \<Rightarrow> ProxyApplicator \<Rightarrow> ProxyApplicator" where
  "set_body b p = p\<lparr>current := map_option (\<lambda>ob. ob\<lparr>body := b\<rparr>) (current p)\<rparr>"

definition make_current_nnint64 :: "set_add_t \<Rightarrow> ProxyApplicator \<Rightarrow> ProxyApplicator outcome" where
  "make_current_nnint64 sa p = (case sa of (set_value, d) \<Rightarrow>
     obind (make_current NONNEGATIVE_INT64 p) (\<lambda>p1.
       if add_overflow_ss set_value d then
         if sint d > 0 then Ret (set_body (nonnegative_int64 INT64_MAX) p1)
         else Throw (RuntimeError ''should not have negative overflow!'')
       else Ret (set_body (nonnegative_int64 (set_value + d)) p1)))"

definition current_hash_set :: "ProxyApplicator \<Rightarrow> HashSet" where
  "current_hash_set p = prev_hash_set (current p)"

definition current_asset :: "ProxyApplicator \<Rightarrow> uint64" where
  "current_asset p = prev_asset (current p)"

fun apply_delta :: "StorageDelta \<Rightarrow> ProxyApplicator \<Rightarrow> (bool \<times> ProxyApplicator) outcome" where
  "apply_delta (RAW_MEMORY_WRITE data) p =
     obind (make_current RAW_MEMORY (p\<lparr>memory_write := Some data\<rparr>)) (\<lambda>p1.
       Ret (True, set_body (raw_memory_storage data) p1))"
| "apply_delta (NONNEGATIVE_INT64_SET_ADD set_value d) p =
     (case nnint64_delta p of
        None \<Rightarrow> obind (make_nnint64_delta set_value 0 d) (\<lambda>res. case res of
            None \<Rightarrow> Ret (False, p)
          | Some r \<Rightarrow> obind (make_current_nnint64 r (p\<lparr>nnint64_delta := Some r\<rparr>)) (\<lambda>p1. Ret (True, p1)))
      | Some (sv, od) \<Rightarrow>
          if sv \<noteq> set_value then Ret (False, p)
          else obind (make_nnint64_delta sv od d) (\<lambda>res. case res of
            None \<Rightarrow> Ret (False, p)
          | Some r \<Rightarrow> obind (make_current_nnint64 r (p\<lparr>nnint64_delta := Some r\<rparr>)) (\<lambda>p1. Ret (True, p1))))"
| "apply_delta (HASH_SET_INSERT h) p =
     obind (make_current HASH_SET p) (\<lambda>p1.
       let hs = current_hash_set p1
       in if h \<in> set (hashes hs) then Ret (False, p1)
          else if length (hashes hs) \<ge> unat (max_size hs) then Ret (False, p1)
          else if (case hs_clear_threshold p1 of None \<Rightarrow> False | Some t \<Rightarrow> t \<ge> index h) then Ret (False, p1)
          else Ret (True, (set_body (hash_set (normalize_hashset (hs\<lparr>hashes := hashes hs @ [h]\<rparr>))) p1)
                            \<lparr>pa_new_hashes := pa_new_hashes p1 @ [h]\<rparr>))"
| "apply_delta (HASH_SET_INCREASE_LIMIT limit_increase) p =
     obind (make_current HASH_SET p) (\<lambda>p1.
       Ret (True, p1\<lparr>hs_size_increase := hs_size_increase p1 + ucast limit_increase,
                     do_limit_increase := True\<rparr>))"
| "apply_delta (HASH_SET_CLEAR threshold) p =
     obind (make_current HASH_SET p) (\<lambda>p1.
       let t = (case hs_clear_threshold p1 of None \<Rightarrow> threshold | Some t0 \<Rightarrow> max threshold t0)
       in Ret (True, (set_body (hash_set (clear_hashset (current_hash_set p1) t)) p1)
                       \<lparr>hs_clear_threshold := Some t\<rparr>))"
| "apply_delta (ASSET_OBJECT_ADD d) p =
     obind (make_current KNOWN_SUPPLY_ASSET p) (\<lambda>p1.
       if (case pa_delta p1 of None \<Rightarrow> False | Some od \<Rightarrow> add_overflow_ss od d) then Ret (False, p1)
       else let cur_asset_value = current_asset p1
            in if add_overflow_us cur_asset_value d then Ret (False, p1)
               else Ret (True, (set_body (asset (cur_asset_value + d)) p1)
                      \<lparr>pa_delta := Some (case pa_delta p1 of None \<Rightarrow> d | Some od \<Rightarrow> od + d)\<rparr>))"
| "apply_delta _ p = Throw (RuntimeError ''unknown deltatype'')"

definition try_apply :: "StorageDelta \<Rightarrow> ProxyApplicator \<Rightarrow> (bool \<times> ProxyApplicator) outcome" where
  "try_apply d p =
     (if d = DELETE_LAST then Ret (True, p\<lparr>is_deleted := True, current := None\<rparr>)
      else if is_deleted p then Ret (False, p)
      else obind (delta_apply_type_guard d p) (\<lambda>ok.
        if \<not> ok then Ret (False, p) else apply_delta d p))"

definition proxy_get :: "ProxyApplicator \<Rightarrow> StorageObject option" where
  "proxy_get p = (if is_deleted p then None else current p)"

definition get_deltas :: "ProxyApplicator \<Rightarrow> StorageDelta list" where
  "get_deltas p =
     (if \<not> is_deleted p \<and> current p = None then []
      else
        (case memory_write p of None \<Rightarrow> [] | Some data \<Rightarrow> [make_raw_memory_write data]) @
        (case nnint64_delta p of None \<Rightarrow> [] | Some (sv, d) \<Rightarrow> [make_nonnegative_int64_set_add sv d]) @
        (if do_limit_increase p
         then [make_hash_set_increase_limit (ucast (min (hs_size_increase p) (of_nat MAX_HASH_SET_SIZE)))]
         else []) @
        map make_hash_set_insert_entry (pa_new_hashes p) @
        (case hs_clear_threshold p of None \<Rightarrow> [] | Some t \<Rightarrow> [make_hash_set_clear t]) @
        (case pa_delta p of None \<Rightarrow> [] | Some d \<Rightarrow> [make_asset_add d]) @
        (if is_deleted p then [make_delete_last] else []))"

definition get_base_nnint64_set_value :: "ProxyApplicator \<Rightarrow> int64 option" where
  "get_base_nnint64_set_value p = (case nnint64_delta p of
       Some (sv, _) \<Rightarrow> Some sv
     | None \<Rightarrow> (case current p of
           Some ob \<Rightarrow> (case body ob of nonnegative_int64 v \<Rightarrow> Some v | _ \<Rightarrow> None)
         | None \<Rightarrow> Some 0))"

text \<open>A transaction applies deltas until one is refused, which aborts the transaction.\<close>

fun apply_all :: "StorageDelta list \<Rightarrow> ProxyApplicator \<Rightarrow> (bool \<times> ProxyApplicator) outcome" where
  "apply_all [] p = Ret (True, p)"
| "apply_all (d # ds) p =
     obind (try_apply d p) (\<lambda>(ok, p1). if ok then apply_all ds p1 else Ret (False, p1))"

declare delta_apply_type_guard.simps [simp del]

section \<open>Arithmetic of the nonnegative integer\<close>

definition nn_value :: "set_add_t \<Rightarrow> int" where
  "nn_value sa = sint (fst sa) + sint (snd sa)"

text \<open>A negative accumulated delta never takes the value below zero.\<close>

definition nn_delta_ok :: "set_add_t \<Rightarrow> bool" where
  "nn_delta_ok sa \<longleftrightarrow> (sint (snd sa) < 0 \<longrightarrow> 0 \<le> nn_value sa)"

lemma make_nnint64_delta_total:
  assumes "nn_delta_ok (base, old)"
  shows "\<exists>res. make_nnint64_delta base old new = Ret res \<and>
     (\<forall>r. res = Some r \<longrightarrow> fst r = base \<and> nn_delta_ok r)"
proof (cases "sint new < 0")
  case True
  show ?thesis
  proof (cases "add_overflow_ss new old")
    case True
    then show ?thesis using \<open>sint new < 0\<close> by (simp add: make_nnint64_delta_def)
  next
    case False
    then have s: "sint (new + old) = sint new + sint old" by (rule sint_add_in_range)
    have "0 \<le> sint (new + old) \<Longrightarrow> sint base < 0 \<Longrightarrow> \<not> add_overflow_ss base (new + old)"
      using sint64_bounds[of base] sint64_bounds[of "new + old"] by (auto simp: overflow_defs)
    moreover have "\<not> add_overflow_ss base (new + old) \<Longrightarrow>
        sint (base + (new + old)) = nn_value (base, new + old)"
      using sint_add_in_range by (simp add: nn_value_def)
    ultimately show ?thesis using True False
      by (auto simp: make_nnint64_delta_def Let_def nn_delta_ok_def not_less)
  qed
next
  case False
  have "nn_delta_ok (base, if add_overflow_ss old new then INT64_MAX else new + old)"
  proof (cases "add_overflow_ss old new")
    case True
    then show ?thesis by (simp add: nn_delta_ok_def)
  next
    case no: False
    have "sint (new + old) = sint old + sint new" using sint_add_in_range[OF no] by (simp add: add.commute)
    with no False assms show ?thesis by (auto simp: nn_delta_ok_def nn_value_def)
  qed
  with False show ?thesis by (simp add: make_nnint64_delta_def Let_def)
qed

lemma make_current_nnint64_total:
  assumes ok: "nn_delta_ok r" and ty: "\<forall>ob. current p = Some ob \<longrightarrow> body_type (body ob) = NONNEGATIVE_INT64"
  shows "\<exists>ob. make_current_nnint64 r p = Ret (p\<lparr>current := Some ob\<rparr>) \<and>
     body ob = nonnegative_int64 (word_of_int (min (2 ^ 63 - 1) (nn_value r)))"
proof -
  obtain sv d where r: "r = (sv, d)" by force
  have v: "nn_value r = sint sv + sint d" by (simp add: r nn_value_def)
  obtain ob0 where mc: "make_current NONNEGATIVE_INT64 p = Ret (p\<lparr>current := Some ob0\<rparr>)"
  proof (cases "current p")
    case None
    then show ?thesis using that by (simp add: make_current_def)
  next
    case (Some ob)
    then show ?thesis using that[of ob] ty by (simp add: make_current_def)
  qed
  show ?thesis
  proof (cases "add_overflow_ss sv d")
    case True
    have "\<not> nn_value r < - (2 ^ 63)"
      using ok sint64_bounds[of sv] sint64_bounds[of d] unfolding nn_delta_ok_def v by (auto simp: r)
    then have hi: "2 ^ 63 \<le> nn_value r" using True by (simp add: overflow_defs v)
    then have "0 < sint d" using sint64_bounds(2)[of sv] by (simp add: v)
    moreover have "word_of_int (min (2 ^ 63 - 1) (nn_value r)) = INT64_MAX" using hi by (simp add: min_def)
    ultimately show ?thesis using True mc
      by (intro exI[of _ "ob0\<lparr>body := nonnegative_int64 INT64_MAX\<rparr>"])
        (simp add: make_current_nnint64_def r set_body_def)
  next
    case False
    then have "min (2 ^ 63 - 1) (nn_value r) = nn_value r" by (simp add: overflow_defs v min_def)
    then have "word_of_int (min (2 ^ 63 - 1) (nn_value r)) = sv + d" by (simp only: v of_int_add) simp
    with False mc show ?thesis
      by (intro exI[of _ "ob0\<lparr>body := nonnegative_int64 (sv + d)\<rparr>"])
        (simp add: make_current_nnint64_def r set_body_def)
  qed
qed

section \<open>The invariant of a transaction's view\<close>

definition no_mem :: "ProxyApplicator \<Rightarrow> bool" where
  "no_mem p \<longleftrightarrow> memory_write p = None"

definition no_nn :: "ProxyApplicator \<Rightarrow> bool" where
  "no_nn p \<longleftrightarrow> nnint64_delta p = None"

definition no_hs :: "ProxyApplicator \<Rightarrow> bool" where
  "no_hs p \<longleftrightarrow> \<not> do_limit_increase p \<and> pa_new_hashes p = [] \<and> hs_clear_threshold p = None"

definition no_asset :: "ProxyApplicator \<Rightarrow> bool" where
  "no_asset p \<longleftrightarrow> pa_delta p = None"

lemmas untouched_defs = no_mem_def no_nn_def no_hs_def no_asset_def

definition kept :: "uint64 option \<Rightarrow> HashSetEntry multiset \<Rightarrow> HashSetEntry multiset" where
  "kept t es = (case t of None \<Rightarrow> es | Some t \<Rightarrow> filter_mset (\<lambda>e. t < index e) es)"

fun body_inv :: "StorageObject option \<Rightarrow> ProxyApplicator \<Rightarrow> ObjectBody \<Rightarrow> bool" where
  "body_inv cb p (raw_memory_storage d) \<longleftrightarrow> no_nn p \<and> no_hs p \<and> no_asset p \<and>
     (case memory_write p of None \<Rightarrow> map_option body cb = Some (raw_memory_storage d) | Some m \<Rightarrow> d = m)"
| "body_inv cb p (nonnegative_int64 v) \<longleftrightarrow> no_mem p \<and> no_hs p \<and> no_asset p \<and>
     (case nnint64_delta p of None \<Rightarrow> map_option body cb = Some (nonnegative_int64 v)
      | Some r \<Rightarrow> nn_delta_ok r \<and> v = word_of_int (min (2 ^ 63 - 1) (nn_value r)))"
| "body_inv cb p (hash_set hs) \<longleftrightarrow> no_mem p \<and> no_nn p \<and> no_asset p \<and>
     normalized (hashes hs) \<and> max_size hs = max_size (prev_hash_set cb) \<and>
     mset (hashes hs) = kept (hs_clear_threshold p) (mset (hashes (prev_hash_set cb)) + mset (pa_new_hashes p)) \<and>
     distinct (hashes (prev_hash_set cb) @ pa_new_hashes p) \<and> (cb = None \<longrightarrow> \<not> no_hs p)"
| "body_inv cb p (asset a) \<longleftrightarrow> no_mem p \<and> no_nn p \<and> no_hs p \<and>
     (case pa_delta p of None \<Rightarrow> map_option body cb = Some (asset a)
      | Some d \<Rightarrow> uint a = uint (prev_asset cb) + sint d)"
| "body_inv cb p (unconstrained_int64 v) \<longleftrightarrow> no_mem p \<and> no_nn p \<and> no_hs p \<and> no_asset p \<and>
     map_option body cb = Some (unconstrained_int64 v)"

definition proxy_inv :: "StorageObject option \<Rightarrow> ProxyApplicator \<Rightarrow> bool" where
  "proxy_inv cb p \<longleftrightarrow> is_deleted p \<or>
     (case current p of
        None \<Rightarrow> cb = None \<and> no_mem p \<and> no_nn p \<and> no_hs p \<and> no_asset p
      | Some ob \<Rightarrow> (\<forall>o1. cb = Some o1 \<longrightarrow> body_type (body o1) = body_type (body ob)) \<and> body_inv cb p (body ob))"

text \<open>The entry list of a stored hash set is sorted and has no duplicates.\<close>

definition hash_sets_ok :: "StorageObject option \<Rightarrow> bool" where
  "hash_sets_ok cb \<longleftrightarrow> normalized (hashes (prev_hash_set cb)) \<and> distinct (hashes (prev_hash_set cb))"

lemma proxy_inv_new: "hash_sets_ok cb \<Longrightarrow> proxy_inv cb (proxy_applicator_new cb)"
proof (cases cb)
  case (Some ob)
  assume "hash_sets_ok cb"
  with Some show ?thesis
    by (cases "body ob") (simp_all add: proxy_inv_def proxy_applicator_new_def untouched_defs hash_sets_ok_def
        prev_hash_set_def kept_def)
qed (simp add: proxy_inv_def proxy_applicator_new_def untouched_defs)

lemma make_current_ok:
  assumes "\<forall>ob. current p = Some ob \<longrightarrow> body_type (body ob) = T" "T \<noteq> UNCONSTRAINED_INT64"
  shows "\<exists>ob. make_current T p = Ret (p\<lparr>current := Some ob\<rparr>) \<and> body_type (body ob) = T \<and>
     (current p = None \<longrightarrow> default_body T = Ret (body ob)) \<and> (\<forall>o1. current p = Some o1 \<longrightarrow> ob = o1)"
proof (cases "current p")
  case None
  then show ?thesis using assms(2) by (cases T) (auto simp: make_current_def)
next
  case (Some ob)
  then show ?thesis using assms(1) by (auto simp: make_current_def intro!: exI[of _ ob])
qed

lemma guard_supported:
  assumes "supported d" "d \<noteq> DELETE_LAST"
  shows "\<exists>dc. delta_class d = Some dc \<and> dc_type dc \<noteq> UNCONSTRAINED_INT64 \<and>
     delta_apply_type_guard d p = Ret (\<forall>ob. current p = Some ob \<longrightarrow> body_type (body ob) = dc_type dc)"
  using assms by (cases d) (auto simp: delta_apply_type_guard.simps split: option.split)

section \<open>Every operation keeps the invariant and never throws\<close>

text \<open>
  \<open>step_ok\<close>: the call returns, and when it accepts the delta the new view satisfies the
  invariant.
\<close>

definition step_ok :: "StorageObject option \<Rightarrow> (bool \<times> ProxyApplicator) outcome \<Rightarrow> bool" where
  "step_ok cb res \<longleftrightarrow> (\<exists>ok p'. res = Ret (ok, p') \<and> (ok \<longrightarrow> proxy_inv cb p'))"

lemma step_ok_simps [simp]:
  "step_ok cb (Ret (False, p))" "step_ok cb (Ret (True, p)) = proxy_inv cb p"
  by (auto simp: step_ok_def)

lemma proxy_inv_type:
  "proxy_inv cb p \<Longrightarrow> \<not> is_deleted p \<Longrightarrow> \<forall>ob. current p = Some ob \<longrightarrow> body_type (body ob) = T \<Longrightarrow>
     cb = Some o1 \<Longrightarrow> body_type (body o1) = T"
  by (cases "current p") (auto simp: proxy_inv_def)

lemma apply_raw_memory:
  assumes inv: "proxy_inv cb p" "\<not> is_deleted p"
    and ty: "\<forall>ob. current p = Some ob \<longrightarrow> body_type (body ob) = RAW_MEMORY"
  shows "step_ok cb (apply_delta (RAW_MEMORY_WRITE m) p)"
proof -
  obtain ob where mc: "make_current RAW_MEMORY (p\<lparr>memory_write := Some m\<rparr>) = Ret (p\<lparr>memory_write := Some m, current := Some ob\<rparr>)"
    using make_current_ok[of "p\<lparr>memory_write := Some m\<rparr>" RAW_MEMORY] ty by auto
  have "no_nn p \<and> no_hs p \<and> no_asset p"
    using inv ty by (cases "current p"; cases "body (the (current p))") (auto simp: proxy_inv_def)
  then show ?thesis using mc proxy_inv_type[OF inv ty]
    by (auto simp: set_body_def proxy_inv_def untouched_defs)
qed

lemma apply_nnint64:
  assumes inv: "proxy_inv cb p" "\<not> is_deleted p"
    and ty: "\<forall>ob. current p = Some ob \<longrightarrow> body_type (body ob) = NONNEGATIVE_INT64"
  shows "step_ok cb (apply_delta (NONNEGATIVE_INT64_SET_ADD sv d) p)"
proof -
  have other: "no_mem p \<and> no_hs p \<and> no_asset p"
    using inv ty by (cases "current p"; cases "body (the (current p))") (auto simp: proxy_inv_def)
  have old: "nn_delta_ok r" if "nnint64_delta p = Some r" for r
    using inv ty that by (cases "current p"; cases "body (the (current p))")
      (auto simp: proxy_inv_def untouched_defs)
  have upd: "step_ok cb (obind (make_current_nnint64 r (p\<lparr>nnint64_delta := Some r\<rparr>)) (\<lambda>p1. Ret (True, p1)))"
    if r: "nn_delta_ok r" for r
  proof -
    from make_current_nnint64_total[OF r, of "p\<lparr>nnint64_delta := Some r\<rparr>"] ty obtain ob where
      "make_current_nnint64 r (p\<lparr>nnint64_delta := Some r\<rparr>) = Ret (p\<lparr>nnint64_delta := Some r, current := Some ob\<rparr>)"
      "body ob = nonnegative_int64 (word_of_int (min (2 ^ 63 - 1) (nn_value r)))" by auto
    then show ?thesis using other r proxy_inv_type[OF inv ty] by (auto simp: proxy_inv_def untouched_defs)
  qed
  show ?thesis
  proof (cases "nnint64_delta p")
    case None
    have "nn_delta_ok (sv, 0)" by (simp add: nn_delta_ok_def)
    from make_nnint64_delta_total[OF this, of d] None upd show ?thesis by (auto split: option.splits)
  next
    case (Some r)
    obtain sv' od where r: "r = (sv', od)" by force
    from make_nnint64_delta_total[OF old[OF Some, unfolded r], of d] Some r upd show ?thesis
      by (auto split: option.splits)
  qed
qed

lemma apply_asset:
  assumes inv: "proxy_inv cb p" "\<not> is_deleted p"
    and ty: "\<forall>ob. current p = Some ob \<longrightarrow> body_type (body ob) = KNOWN_SUPPLY_ASSET"
  shows "step_ok cb (apply_delta (ASSET_OBJECT_ADD d) p)"
proof -
  obtain ob where mc: "make_current KNOWN_SUPPLY_ASSET p = Ret (p\<lparr>current := Some ob\<rparr>)"
    "current p = None \<Longrightarrow> body ob = asset 0" "\<And>o1. current p = Some o1 \<Longrightarrow> ob = o1"
    "body_type (body ob) = KNOWN_SUPPLY_ASSET"
    using make_current_ok[OF ty] by auto
  have other: "no_mem p \<and> no_nn p \<and> no_hs p"
    using inv ty by (cases "current p"; cases "body (the (current p))") (auto simp: proxy_inv_def)
  obtain a where a: "body ob = asset a" using mc(4) by (cases "body ob") auto
  have amt: "uint a = uint (prev_asset cb) + (case pa_delta p of None \<Rightarrow> 0 | Some x \<Rightarrow> sint x)"
  proof (cases "current p")
    case None
    then show ?thesis using mc(2) a inv by (auto simp: proxy_inv_def untouched_defs prev_asset_def)
  next
    case (Some o1)
    then show ?thesis using mc(3)[OF Some] a inv
      by (auto simp: proxy_inv_def untouched_defs prev_asset_def split: option.splits)
  qed
  let ?d' = "case pa_delta p of None \<Rightarrow> d | Some od \<Rightarrow> od + d"
  show ?thesis
  proof (cases "(case pa_delta p of None \<Rightarrow> False | Some od \<Rightarrow> add_overflow_ss od d) \<or> add_overflow_us a d")
    case True
    then show ?thesis using mc(1) a by (auto simp: current_asset_def prev_asset_def Let_def)
  next
    case False
    have "uint (a + d) = uint a + sint d" using False uint_add_signed_in_range by blast
    moreover have "sint ?d' = (case pa_delta p of None \<Rightarrow> 0 | Some x \<Rightarrow> sint x) + sint d"
      using False sint_add_in_range by (auto split: option.splits)
    ultimately show ?thesis using False mc(1) a amt other proxy_inv_type[OF inv ty]
      by (auto simp: current_asset_def prev_asset_def[of "Some ob"] Let_def set_body_def proxy_inv_def untouched_defs)
  qed
qed

text \<open>The hash set view before an operation: a fresh one or the one already there.\<close>

lemma hash_set_view:
  assumes inv: "proxy_inv cb p" "\<not> is_deleted p" and ok: "hash_sets_ok cb"
    and ty: "\<forall>ob. current p = Some ob \<longrightarrow> body_type (body ob) = HASH_SET"
  shows "\<exists>ob hs. make_current HASH_SET p = Ret (p\<lparr>current := Some ob\<rparr>) \<and> body ob = hash_set hs \<and>
     no_mem p \<and> no_nn p \<and> no_asset p \<and> normalized (hashes hs) \<and> max_size hs = max_size (prev_hash_set cb) \<and>
     mset (hashes hs) = kept (hs_clear_threshold p) (mset (hashes (prev_hash_set cb)) + mset (pa_new_hashes p)) \<and>
     distinct (hashes (prev_hash_set cb) @ pa_new_hashes p)"
proof -
  obtain ob where mc: "make_current HASH_SET p = Ret (p\<lparr>current := Some ob\<rparr>)"
    "current p = None \<Longrightarrow> body ob = hash_set \<lparr>hashes = [], max_size = of_nat START_HASH_SET_SIZE\<rparr>"
    "\<And>o1. current p = Some o1 \<Longrightarrow> ob = o1" "body_type (body ob) = HASH_SET"
    using make_current_ok[OF ty] by auto
  show ?thesis
  proof (cases "current p")
    case None
    then show ?thesis using mc(1,2) inv
      by (auto simp: proxy_inv_def untouched_defs prev_hash_set_def kept_def normalized_def)
  next
    case (Some o1)
    then have o1: "ob = o1" using mc(3) by simp
    obtain hs where "body ob = hash_set hs" using mc(4) by (cases "body ob") auto
    then show ?thesis using mc(1) inv Some o1 by (auto simp: proxy_inv_def)
  qed
qed

lemma apply_hash_set_limit:
  assumes inv: "proxy_inv cb p" "\<not> is_deleted p" and ok: "hash_sets_ok cb"
    and ty: "\<forall>ob. current p = Some ob \<longrightarrow> body_type (body ob) = HASH_SET"
  shows "step_ok cb (apply_delta (HASH_SET_INCREASE_LIMIT l) p)"
  using hash_set_view[OF assms] proxy_inv_type[OF inv ty]
  by (auto simp: proxy_inv_def untouched_defs)

lemma kept_add: "kept t (add_mset h es) = (if (case t of None \<Rightarrow> True | Some x \<Rightarrow> x < index h)
    then add_mset h (kept t es) else kept t es)"
  by (simp add: kept_def split: option.split)

lemma kept_subset: "e \<in># es \<Longrightarrow> (case t of None \<Rightarrow> True | Some x \<Rightarrow> x < index e) \<Longrightarrow> e \<in># kept t es"
  by (simp add: kept_def split: option.splits)

lemma apply_hash_set_insert:
  assumes inv: "proxy_inv cb p" "\<not> is_deleted p" and ok: "hash_sets_ok cb"
    and ty: "\<forall>ob. current p = Some ob \<longrightarrow> body_type (body ob) = HASH_SET"
  shows "step_ok cb (apply_delta (HASH_SET_INSERT h) p)"
proof -
  from hash_set_view[OF assms] obtain ob hs where v:
    "make_current HASH_SET p = Ret (p\<lparr>current := Some ob\<rparr>)" "body ob = hash_set hs"
    "no_mem p \<and> no_nn p \<and> no_asset p" "max_size hs = max_size (prev_hash_set cb)"
    "mset (hashes hs) = kept (hs_clear_threshold p) (mset (hashes (prev_hash_set cb)) + mset (pa_new_hashes p))"
    "distinct (hashes (prev_hash_set cb) @ pa_new_hashes p)" by blast
  let ?fresh = "case hs_clear_threshold p of None \<Rightarrow> True | Some t \<Rightarrow> t < index h"
  show ?thesis
  proof (cases "h \<in> set (hashes hs) \<or> length (hashes hs) \<ge> unat (max_size hs) \<or> \<not> ?fresh")
    case True
    then show ?thesis using v(1,2)
      by (auto simp: current_hash_set_def prev_hash_set_def Let_def not_less split: option.splits)
  next
    case False
    then have h: "h \<notin># mset (hashes (prev_hash_set cb)) + mset (pa_new_hashes p)"
      using kept_subset[of h _ "hs_clear_threshold p"] v(5) by (metis set_mset_mset)
    have m: "mset (hashes hs @ [h]) = kept (hs_clear_threshold p)
        (mset (hashes (prev_hash_set cb)) + mset (pa_new_hashes p @ [h]))"
      using False v(5) by (simp add: kept_add)
    have "apply_delta (HASH_SET_INSERT h) p = Ret (True, p\<lparr>
        current := Some (ob\<lparr>body := hash_set (hs\<lparr>hashes := normalize_list (hashes hs @ [h])\<rparr>)\<rparr>),
        pa_new_hashes := pa_new_hashes p @ [h]\<rparr>)"
      using False v(1,2)
      by (auto simp: current_hash_set_def prev_hash_set_def[of "Some ob"] Let_def set_body_def
          normalize_hashset_def not_le split: option.splits)
    then show ?thesis using m v h proxy_inv_type[OF inv ty]
      by (auto simp: proxy_inv_def untouched_defs simp del: mset_append)
  qed
qed

lemma kept_clear:
  "filter_mset (\<lambda>e. (case t of None \<Rightarrow> x | Some y \<Rightarrow> max x y) < index e) (kept t es) =
     kept (Some (case t of None \<Rightarrow> x | Some y \<Rightarrow> max x y)) es"
  by (auto simp: kept_def filter_filter_mset split: option.split intro!: filter_mset_cong)

lemma apply_hash_set_clear:
  assumes inv: "proxy_inv cb p" "\<not> is_deleted p" and ok: "hash_sets_ok cb"
    and ty: "\<forall>ob. current p = Some ob \<longrightarrow> body_type (body ob) = HASH_SET"
  shows "step_ok cb (apply_delta (HASH_SET_CLEAR x) p)"
proof -
  from hash_set_view[OF assms] obtain ob hs where v:
    "make_current HASH_SET p = Ret (p\<lparr>current := Some ob\<rparr>)" "body ob = hash_set hs"
    "no_mem p \<and> no_nn p \<and> no_asset p" "normalized (hashes hs)" "max_size hs = max_size (prev_hash_set cb)"
    "mset (hashes hs) = kept (hs_clear_threshold p) (mset (hashes (prev_hash_set cb)) + mset (pa_new_hashes p))"
    "distinct (hashes (prev_hash_set cb) @ pa_new_hashes p)" by blast
  define t where "t = (case hs_clear_threshold p of None \<Rightarrow> x | Some y \<Rightarrow> max x y)"
  have m: "mset (clear_list (hashes hs) t) =
      kept (Some t) (mset (hashes (prev_hash_set cb)) + mset (pa_new_hashes p))"
    using v(6) kept_clear[where t = "hs_clear_threshold p" and x = x] by (simp add: clear_list_filter[OF v(4)] t_def)
  have "apply_delta (HASH_SET_CLEAR x) p = Ret (True, p\<lparr>
      current := Some (ob\<lparr>body := hash_set (hs\<lparr>hashes := clear_list (hashes hs) t\<rparr>)\<rparr>),
      hs_clear_threshold := Some t\<rparr>)"
    using v(1,2) by (simp add: current_hash_set_def prev_hash_set_def[of "Some ob"] Let_def set_body_def
        clear_hashset_def t_def)
  then show ?thesis using m v proxy_inv_type[OF inv ty] normalized_clear_list[OF v(4), of t]
    by (auto simp: proxy_inv_def untouched_defs)
qed

lemma try_apply_ok:
  assumes inv: "proxy_inv cb p" and ok: "hash_sets_ok cb" and sup: "supported d"
  shows "step_ok cb (try_apply d p)"
proof (cases "d = DELETE_LAST \<or> is_deleted p")
  case True
  then show ?thesis by (auto simp: try_apply_def proxy_inv_def)
next
  case False
  from guard_supported[OF sup, of p] False obtain dc where dc: "delta_class d = Some dc"
    "delta_apply_type_guard d p = Ret (\<forall>ob. current p = Some ob \<longrightarrow> body_type (body ob) = dc_type dc)"
    by auto
  have nd: "\<not> is_deleted p" using False by simp
  show ?thesis
  proof (cases "\<forall>ob. current p = Some ob \<longrightarrow> body_type (body ob) = dc_type dc")
    case True
    have "step_ok cb (apply_delta d p)" using dc(1) sup True
      apply_raw_memory[OF inv nd] apply_nnint64[OF inv nd] apply_asset[OF inv nd]
      apply_hash_set_limit[OF inv nd ok] apply_hash_set_insert[OF inv nd ok] apply_hash_set_clear[OF inv nd ok]
      by (cases d) (auto simp del: apply_delta.simps)
    with True False dc(2) show ?thesis by (simp add: try_apply_def)
  next
    case no: False
    then show ?thesis using False dc(2) by (auto simp: try_apply_def)
  qed
qed

lemma apply_all_ok:
  assumes "proxy_inv cb p" "hash_sets_ok cb" "list_all supported ds"
  shows "step_ok cb (apply_all ds p)"
  using assms
proof (induction ds arbitrary: p)
  case (Cons d ds)
  then have "step_ok cb (try_apply d p)" using try_apply_ok by simp
  then obtain ok1 p1 where t: "try_apply d p = Ret (ok1, p1)" "ok1 \<Longrightarrow> proxy_inv cb p1"
    by (auto simp: step_ok_def)
  then show ?case using Cons.IH[of p1] Cons.prems by (cases ok1) auto
qed simp

section \<open>What the transaction saw is what is committed\<close>

text \<open>A raised limit takes effect after the block, so the two agree up to the limit.\<close>

fun visible :: "ObjectBody \<Rightarrow> ObjectBody" where
  "visible (hash_set hs) = hash_set (hs\<lparr>max_size := 0\<rparr>)"
| "visible b = b"

definition visible_object :: "StorageObject option \<Rightarrow> ObjectBody option" where
  "visible_object ob = map_option (\<lambda>ob. visible (body ob)) ob"

definition hs_deltas :: "ProxyApplicator \<Rightarrow> StorageDelta list" where
  "hs_deltas p =
     (if do_limit_increase p
      then [make_hash_set_increase_limit (ucast (min (hs_size_increase p) (of_nat MAX_HASH_SET_SIZE)))]
      else []) @
     map make_hash_set_insert_entry (pa_new_hashes p) @
     (case hs_clear_threshold p of None \<Rightarrow> [] | Some t \<Rightarrow> [make_hash_set_clear t])"

lemma get_deltas_eq:
  "get_deltas p =
     (if \<not> is_deleted p \<and> current p = None then []
      else (case memory_write p of None \<Rightarrow> [] | Some data \<Rightarrow> [RAW_MEMORY_WRITE data]) @
        (case nnint64_delta p of None \<Rightarrow> [] | Some r \<Rightarrow> [NONNEGATIVE_INT64_SET_ADD (fst r) (snd r)]) @
        hs_deltas p @ (case pa_delta p of None \<Rightarrow> [] | Some d \<Rightarrow> [ASSET_OBJECT_ADD d]) @
        (if is_deleted p then [DELETE_LAST] else []))"
  by (auto simp: get_deltas_def hs_deltas_def make_delta_defs split: option.split)

lemma hs_deltas_class:
  "class_of (hs_deltas p) = (if no_hs p then None else Some DC_HASH_SET)"
  by (cases "pa_new_hashes p") (auto simp: hs_deltas_def make_delta_defs no_hs_def split: option.split)

lemma hs_deltas_no_delete: "DELETE_LAST \<notin> set (hs_deltas p)"
  by (auto simp: hs_deltas_def make_delta_defs split: option.split)

lemma insertions_append: "insertions (xs @ ys) = insertions xs @ insertions ys"
  by (induction xs rule: insertions.induct) auto

lemma insertions_map: "insertions (map HASH_SET_INSERT hs) = hs"
  by (induction hs) auto

lemma hs_deltas_insertions: "insertions (hs_deltas p) = pa_new_hashes p"
  by (auto simp: hs_deltas_def insertions_append insertions_map make_delta_defs make_hash_set_insert_entry_def[abs_def]
      split: option.split)

lemma hs_deltas_survives:
  "survives (hs_deltas p) e = (case hs_clear_threshold p of None \<Rightarrow> True | Some t \<Rightarrow> t < index e)"
  by (auto simp: hs_deltas_def survives_def make_delta_defs list_all_iff split: option.split)

lemma kept_filter: "kept t (mset xs) = mset (filter (\<lambda>e. case t of None \<Rightarrow> True | Some t \<Rightarrow> t < index e) xs)"
  by (auto simp: kept_def split: option.split)

text \<open>One lemma for each type of body the view can have.\<close>

lemma view_raw_memory:
  assumes v: "\<not> is_deleted p" "current p = Some ob" "body ob = raw_memory_storage d" "body_inv cb p (body ob)"
    and ty: "\<And>o1. cb = Some o1 \<Longrightarrow> body_type (body o1) = body_type (body ob)"
  shows "visible_object (spec_commit cb (get_deltas p)) = visible_object (proxy_get p)"
proof -
  have "no_nn p \<and> no_hs p \<and> no_asset p" using v(3,4) by simp
  then have ds: "get_deltas p = (case memory_write p of None \<Rightarrow> [] | Some m \<Rightarrow> [RAW_MEMORY_WRITE m])"
    using v(1,2) by (auto simp: get_deltas_eq hs_deltas_def untouched_defs split: option.split)
  show ?thesis using v ty
    by (cases "memory_write p")
      (auto simp: ds spec_commit_def start_object_def object_from_delta_class_def visible_object_def proxy_get_def
        split: option.splits)
qed

lemma view_nonnegative_int64:
  assumes v: "\<not> is_deleted p" "current p = Some ob" "body ob = nonnegative_int64 x" "body_inv cb p (body ob)"
    and ty: "\<And>o1. cb = Some o1 \<Longrightarrow> body_type (body o1) = body_type (body ob)"
  shows "visible_object (spec_commit cb (get_deltas p)) = visible_object (proxy_get p)"
proof -
  have "no_mem p \<and> no_hs p \<and> no_asset p" using v(3,4) by simp
  then have ds: "get_deltas p = (case nnint64_delta p of None \<Rightarrow> []
      | Some r \<Rightarrow> [NONNEGATIVE_INT64_SET_ADD (fst r) (snd r)])"
    using v(1,2) by (auto simp: get_deltas_eq hs_deltas_def untouched_defs split: option.split)
  have nv: "sint y + nn_neg (NONNEGATIVE_INT64_SET_ADD y z) + nn_pos (NONNEGATIVE_INT64_SET_ADD y z) =
      nn_value (y, z)" for y z by (simp add: nn_value_def)
  have small: "min (2 ^ 63 - 1) (sint x) = sint x" using sint64_bounds(2)[of x] by (simp add: min_def)
  show ?thesis
  proof (cases "nnint64_delta p")
    case None
    then show ?thesis using v small
      by (auto simp: ds spec_commit_def start_object_def visible_object_def proxy_get_def sum_of_def)
  next
    case (Some r)
    then show ?thesis using v ty nv[of "fst r" "snd r"]
      by (auto simp: ds spec_commit_def start_object_def object_from_delta_class_def visible_object_def
          proxy_get_def sum_of_def simp del: nn_neg.simps nn_pos.simps split: option.splits)
  qed
qed

lemma view_hash_set:
  assumes v: "\<not> is_deleted p" "current p = Some ob" "body ob = hash_set hs" "body_inv cb p (body ob)"
    and ty: "\<And>o1. cb = Some o1 \<Longrightarrow> body_type (body o1) = body_type (body ob)"
  shows "visible_object (spec_commit cb (get_deltas p)) = visible_object (proxy_get p)"
proof -
  have bi: "body_inv cb p (hash_set hs)" using v(3,4) by simp
  then have "no_mem p \<and> no_nn p \<and> no_asset p" by simp
  then have ds: "get_deltas p = hs_deltas p" using v(1,2) by (simp add: get_deltas_eq untouched_defs)
  have surv: "survives (hs_deltas p) = (\<lambda>e. case hs_clear_threshold p of None \<Rightarrow> True | Some t \<Rightarrow> t < index e)"
    by (rule ext) (rule hs_deltas_survives)
  have "mset (hashes hs) = mset (filter (survives (hs_deltas p)) (hashes (prev_hash_set cb) @ pa_new_hashes p))"
    using bi unfolding body_inv.simps surv kept_filter[symmetric] by simp
  then have eq: "normalize_list (filter (survives (hs_deltas p)) (hashes (prev_hash_set cb) @ pa_new_hashes p)) = hashes hs"
    using bi unfolding body_inv.simps by (metis normalize_list_cong normalize_list_normalized)
  obtain ob0 where "start_object cb (hs_deltas p) = Some ob0" "body ob0 = hash_set (prev_hash_set cb)"
  proof (cases "no_hs p")
    case True
    then obtain o1 where o1: "cb = Some o1" using bi by (cases cb) auto
    then obtain h1 where "body o1 = hash_set h1" using ty v(3) by (cases "body o1") auto
    with o1 show ?thesis using that True by (simp add: start_object_def hs_deltas_class prev_hash_set_def)
  next
    case False
    then show ?thesis using that ty v(3)
      by (cases cb) (auto simp: start_object_def hs_deltas_class object_from_delta_class_def)
  qed
  then show ?thesis using v(1-3) eq hs_deltas_no_delete[of p]
    by (simp add: ds spec_commit_def visible_object_def proxy_get_def hs_deltas_insertions)
qed

lemma view_asset:
  assumes v: "\<not> is_deleted p" "current p = Some ob" "body ob = asset a" "body_inv cb p (body ob)"
    and ty: "\<And>o1. cb = Some o1 \<Longrightarrow> body_type (body o1) = body_type (body ob)"
  shows "visible_object (spec_commit cb (get_deltas p)) = visible_object (proxy_get p)"
proof -
  have "no_mem p \<and> no_nn p \<and> no_hs p" using v(3,4) by simp
  then have ds: "get_deltas p = (case pa_delta p of None \<Rightarrow> [] | Some d \<Rightarrow> [ASSET_OBJECT_ADD d])"
    using v(1,2) by (auto simp: get_deltas_eq hs_deltas_def untouched_defs split: option.split)
  have pn: "asset_pos (ASSET_OBJECT_ADD d) + asset_neg (ASSET_OBJECT_ADD d) = sint d" for d by simp
  show ?thesis
  proof (cases "pa_delta p")
    case None
    then show ?thesis using v
      by (auto simp: ds spec_commit_def start_object_def visible_object_def proxy_get_def sum_of_def)
  next
    case (Some d)
    have "word_of_int (uint (prev_asset cb) + sint d) = a"
      using v(4) Some unfolding v(3) by (simp flip: of_int_add) (metis of_int_uint ucast_id)
    then have "word_of_int (uint (prev_asset cb) + asset_pos (ASSET_OBJECT_ADD d) + asset_neg (ASSET_OBJECT_ADD d)) = a"
      using pn[of d] by (simp add: add.assoc del: asset_pos.simps asset_neg.simps of_int_add)
    then show ?thesis using ty v(1-3) Some
      by (auto simp: ds spec_commit_def start_object_def object_from_delta_class_def visible_object_def
          proxy_get_def sum_of_def simp del: asset_pos.simps asset_neg.simps of_int_add split: option.splits)
  qed
qed

lemma spec_commit_view:
  assumes inv: "proxy_inv cb p"
  shows "visible_object (spec_commit cb (get_deltas p)) = visible_object (proxy_get p)"
proof (cases "is_deleted p")
  case True
  then have "DELETE_LAST \<in> set (get_deltas p)" by (simp add: get_deltas_eq)
  with True show ?thesis by (simp add: spec_commit_def proxy_get_def visible_object_def)
next
  case nd: False
  show ?thesis
  proof (cases "current p")
    case None
    then show ?thesis using nd inv
      by (simp add: get_deltas_eq spec_commit_def start_object_def proxy_get_def proxy_inv_def visible_object_def)
  next
    case (Some ob)
    have bi: "body_inv cb p (body ob)" "\<And>o1. cb = Some o1 \<Longrightarrow> body_type (body o1) = body_type (body ob)"
      using inv nd Some by (auto simp: proxy_inv_def)
    show ?thesis
    proof (cases "body ob")
      case (unconstrained_int64 v)
      then have "get_deltas p = []" "map_option body cb = Some (unconstrained_int64 v)"
        using bi nd Some by (auto simp: get_deltas_eq hs_deltas_def untouched_defs)
      then show ?thesis using Some nd unconstrained_int64
        by (auto simp: spec_commit_def start_object_def visible_object_def proxy_get_def)
    qed (use view_raw_memory[OF nd Some _ bi] view_nonnegative_int64[OF nd Some _ bi] view_asset[OF nd Some _ bi]
        view_hash_set[OF nd Some _ bi] in blast)+
  qed
qed

section \<open>Properties\<close>

text \<open>
  Applying supported deltas to a transaction's view never throws: the paths the source
  marks as impossible are not reached, whatever the sequence.
\<close>

theorem proxy_never_throws:
  assumes "hash_sets_ok cb" "list_all supported ds"
  shows "\<exists>ok p. apply_all ds (proxy_applicator_new cb) = Ret (ok, p)"
  using apply_all_ok[OF proxy_inv_new[OF assms(1)] assms] by (auto simp: step_ok_def)

theorem proxy_never_throws_witness:
  "\<exists>ok p. apply_all [NONNEGATIVE_INT64_SET_ADD (- 5) 10, NONNEGATIVE_INT64_SET_ADD (- 5) (- 7), DELETE_LAST]
     (proxy_applicator_new None) = Ret (ok, p)"
  by (rule proxy_never_throws) (simp_all add: hash_sets_ok_def prev_hash_set_def normalized_def)

text \<open>
  C12: what a transaction reads is what a block commits. After any sequence of accepted deltas,
  the object the view returns is, up to a raised limit, the object the contract of the shared
  object prescribes for the deltas the view hands over.
\<close>

theorem proxy_view_is_committed:
  assumes "hash_sets_ok cb" "list_all supported ds" "apply_all ds (proxy_applicator_new cb) = Ret (True, p)"
  shows "visible_object (spec_commit cb (get_deltas p)) = visible_object (proxy_get p)"
proof (rule spec_commit_view)
  show "proxy_inv cb p" using apply_all_ok[OF proxy_inv_new[OF assms(1)] assms(1,2)] assms(3) by (auto simp: step_ok_def)
qed

theorem proxy_view_is_committed_witness:
  "\<exists>p. apply_all [ASSET_OBJECT_ADD 9, ASSET_OBJECT_ADD (- 4)] (proxy_applicator_new None) = Ret (True, p) \<and>
     visible_object (spec_commit None (get_deltas p)) = Some (asset 5)"
proof -
  obtain p where p: "apply_all [ASSET_OBJECT_ADD 9, ASSET_OBJECT_ADD (- 4)] (proxy_applicator_new None) = Ret (True, p)"
    "proxy_get p = Some \<lparr>body = asset 5, escrowed_fee = 0\<rparr>"
    by (simp add: try_apply_def delta_apply_type_guard.simps proxy_applicator_new_def make_current_def set_body_def
        current_asset_def prev_asset_def overflow_defs Let_def proxy_get_def)
  have "hash_sets_ok None" by (simp add: hash_sets_ok_def prev_hash_set_def normalized_def)
  from proxy_view_is_committed[OF this _ p(1)] p show ?thesis by (simp add: visible_object_def)
qed

end
