(* ===== verification/StateDB.thy ===== *)
theory StateDB
  imports ProxyApplicator
begin

text \<open>
  The state databases (\<open>state_db/state_db.cc\<close>, \<open>state_db/state_db_v2.cc\<close>,
  \<open>state_db/groundhog_persistent_state_db.cc\<close>, \<open>state_db/sisyphus_state_db.cc\<close>) and the
  cache of keys created in the current block (\<open>state_db/new_key_cache.cc\<close>).

  The Merkle tries come from another repository. They are the parameter \<open>T\<close>, a record of the
  operations the databases call; \<open>trie_laws\<close> states what the databases rely on: a trie is a
  map, and normalisation drops at most values without a committed object. Writing through the
  pointer \<open>get_value\<close> returns is \<open>trie_put\<close>. The keyed short hash of libsodium, with the key
  drawn for the round, is the parameter \<open>kh\<close>. Parallel batches visit every key of the list once.
\<close>

section \<open>The cache of new keys\<close>

definition CACHE_LINES :: nat where "CACHE_LINES = 73"

type_synonym NewKeyCacheLine = "(AddressAndKey, RevertableObject) omap"

record NewKeyCache =
  lines :: "NewKeyCacheLine list"
  hash_key :: "AddressAndKey \<Rightarrow> uint64"
  in_try_reserve_mode :: bool

definition line_try_reserve_delta :: "(Hash \<Rightarrow> uint64) \<Rightarrow> uid \<Rightarrow> AddressAndKey \<Rightarrow> StorageDelta \<Rightarrow>
    NewKeyCacheLine \<Rightarrow> (DeltaRewind option \<times> NewKeyCacheLine \<times> uid) outcome" where
  "line_try_reserve_delta sh u key d line =
     (let ro = (case map_of line key of None \<Rightarrow> RevertableObject_new | Some ro \<Rightarrow> ro)
      in obind (try_add_delta sh u d ro) (\<lambda>(res, ro', u'). Ret (res, omap_set key ro' line, u')))"

definition line_commit_and_get :: "AddressAndKey \<Rightarrow> NewKeyCacheLine \<Rightarrow>
    (StorageObject option \<times> NewKeyCacheLine) outcome" where
  "line_commit_and_get key line = (case map_of line key of
       None \<Rightarrow> Ret (None, line)
     | Some ro \<Rightarrow> obind (commit_round ro) (\<lambda>ro'. Ret (get_committed_object ro', omap_set key ro' line)))"

definition new_key_cache_new :: "(AddressAndKey \<Rightarrow> uint64) \<Rightarrow> NewKeyCache" where
  "new_key_cache_new kh = \<lparr>lines = replicate CACHE_LINES [], hash_key = kh, in_try_reserve_mode = True\<rparr>"

definition get_cache_line :: "AddressAndKey \<Rightarrow> (AddressAndKey \<Rightarrow> uint64) \<Rightarrow> nat" where
  "get_cache_line key kh = unat (drop_bit 32 ((kh key AND 0xFFFFFFFF) * of_nat CACHE_LINES :: 64 word)) mod 2 ^ 16"

definition cache_try_reserve_delta :: "(Hash \<Rightarrow> uint64) \<Rightarrow> uid \<Rightarrow> AddressAndKey \<Rightarrow> StorageDelta \<Rightarrow>
    NewKeyCache \<Rightarrow> (DeltaRewind option \<times> NewKeyCache \<times> uid) outcome" where
  "cache_try_reserve_delta sh u key d c =
     (if \<not> in_try_reserve_mode c
      then Throw (RuntimeError ''bad access on new key cache (try reserve mode)'')
      else
        let cache_line = get_cache_line key (hash_key c)
        in obind (line_try_reserve_delta sh u key d (lines c ! cache_line)) (\<lambda>(res, line, u').
             Ret (res, c\<lparr>lines := (lines c)[cache_line := line]\<rparr>, u')))"

definition finalize_modifications :: "NewKeyCache \<Rightarrow> NewKeyCache" where
  "finalize_modifications c = c\<lparr>in_try_reserve_mode := False\<rparr>"

definition cache_commit_and_get :: "AddressAndKey \<Rightarrow> NewKeyCache \<Rightarrow>
    (StorageObject option \<times> NewKeyCache) outcome" where
  "cache_commit_and_get key c =
     (if in_try_reserve_mode c then Throw (RuntimeError ''bad access on new key cache (get mode)'')
      else
        let cache_line = get_cache_line key (hash_key c)
        in obind (line_commit_and_get key (lines c ! cache_line)) (\<lambda>(res, line).
             Ret (res, c\<lparr>lines := (lines c)[cache_line := line]\<rparr>)))"

definition clear_for_next_block :: "(AddressAndKey \<Rightarrow> uint64) \<Rightarrow> NewKeyCache \<Rightarrow> NewKeyCache" where
  "clear_for_next_block kh c =
     c\<lparr>lines := map (\<lambda>_. []) (lines c), in_try_reserve_mode := True, hash_key := kh\<rparr>"

text \<open>The object a rewind points to, when it lives in the cache.\<close>

definition cache_find :: "AddressAndKey \<Rightarrow> NewKeyCache \<Rightarrow> RevertableObject option" where
  "cache_find key c = map_of (lines c ! get_cache_line key (hash_key c)) key"

definition cache_write :: "AddressAndKey \<Rightarrow> RevertableObject \<Rightarrow> NewKeyCache \<Rightarrow> NewKeyCache" where
  "cache_write key ro c =
     (let i = get_cache_line key (hash_key c)
      in c\<lparr>lines := (lines c)[i := omap_set key ro (lines c ! i)]\<rparr>)"

definition cache_ok :: "NewKeyCache \<Rightarrow> bool" where
  "cache_ok c \<longleftrightarrow> length (lines c) = CACHE_LINES"

lemma get_cache_line_less: "get_cache_line key kh < CACHE_LINES"
proof -
  have "shorthash kh key CACHE_LINES < CACHE_LINES" by (rule shorthash_less) (simp_all add: CACHE_LINES_def)
  then show ?thesis unfolding get_cache_line_def shorthash_def by (simp add: mod_less CACHE_LINES_def)
qed

lemma cache_find_write [simp]:
  "cache_ok c \<Longrightarrow> cache_find k (cache_write key ro c) = (if k = key then Some ro else cache_find k c)"
  using get_cache_line_less[of key "hash_key c"] get_cache_line_less[of k "hash_key c"]
  by (simp add: cache_find_def cache_write_def cache_ok_def Let_def nth_list_update)

lemma cache_write_frame [simp]:
  "cache_ok (cache_write key ro c) = cache_ok c" "hash_key (cache_write key ro c) = hash_key c"
  "in_try_reserve_mode (cache_write key ro c) = in_try_reserve_mode c"
  by (simp_all add: cache_ok_def cache_write_def Let_def)

lemma cache_new [simp]: "cache_ok (new_key_cache_new kh)" "cache_find k (new_key_cache_new kh) = None"
  using get_cache_line_less[of k kh] by (simp_all add: cache_ok_def new_key_cache_new_def cache_find_def)

lemma cache_clear [simp]:
  "cache_ok c \<Longrightarrow> cache_ok (clear_for_next_block kh c)"
  "cache_ok c \<Longrightarrow> cache_find k (clear_for_next_block kh c) = None"
  "in_try_reserve_mode (clear_for_next_block kh c)"
  using get_cache_line_less[of k kh] by (simp_all add: cache_ok_def clear_for_next_block_def cache_find_def)

lemma cache_finalize [simp]:
  "cache_ok (finalize_modifications c) = cache_ok c" "cache_find k (finalize_modifications c) = cache_find k c"
  "\<not> in_try_reserve_mode (finalize_modifications c)"
  by (simp_all add: cache_ok_def finalize_modifications_def cache_find_def)

lemma cache_try_reserve_eq:
  "in_try_reserve_mode c \<Longrightarrow> cache_try_reserve_delta sh u key d c =
     obind (try_add_delta sh u d (case cache_find key c of None \<Rightarrow> RevertableObject_new | Some ro \<Rightarrow> ro))
       (\<lambda>(res, ro', u'). Ret (res, cache_write key ro' c, u'))"
  by (simp add: cache_try_reserve_delta_def line_try_reserve_delta_def Let_def cache_find_def cache_write_def
      obind_assoc split_def)

lemma cache_commit_and_get_eq:
  assumes "\<not> in_try_reserve_mode c"
  shows "cache_commit_and_get key c = (case cache_find key c of
       None \<Rightarrow> Ret (None, c)
     | Some ro \<Rightarrow> obind (commit_round ro) (\<lambda>ro'. Ret (get_committed_object ro', cache_write key ro' c)))"
  using assms by (simp add: cache_commit_and_get_def line_commit_and_get_def Let_def cache_find_def cache_write_def
      obind_assoc split: option.split)

section \<open>The databases\<close>

record 't trie_ops =
  trie_get :: "AddressAndKey \<Rightarrow> 't \<Rightarrow> RevertableObject option"
  trie_put :: "AddressAndKey \<Rightarrow> RevertableObject \<Rightarrow> 't \<Rightarrow> 't"
  trie_delete :: "AddressAndKey \<Rightarrow> 't \<Rightarrow> 't"
  hash_and_normalize :: "'t \<Rightarrow> 't"

definition trie_laws :: "'t trie_ops \<Rightarrow> bool" where
  "trie_laws T \<longleftrightarrow>
     (\<forall>k ro t k'. trie_get T k' (trie_put T k ro t) = (if k' = k then Some ro else trie_get T k' t)) \<and>
     (\<forall>k t k'. trie_get T k' (trie_delete T k t) = (if k' = k then None else trie_get T k' t)) \<and>
     (\<forall>k t. trie_get T k (hash_and_normalize T t) = trie_get T k t \<or>
        (trie_get T k (hash_and_normalize T t) = None \<and>
         (\<exists>ro. trie_get T k t = Some ro \<and> get_committed_object ro = None)))"

record 't StateDB =
  state_db :: 't
  new_key_cache :: NewKeyCache
  has_uncommitted_deltas :: bool

definition get_committed_value :: "'t trie_ops \<Rightarrow> AddressAndKey \<Rightarrow> 't StateDB \<Rightarrow> StorageObject option" where
  "get_committed_value T a db = (case trie_get T a (state_db db) of
       Some res \<Rightarrow> get_committed_object res
     | None \<Rightarrow> None)"

definition try_apply_delta :: "'t trie_ops \<Rightarrow> (Hash \<Rightarrow> uint64) \<Rightarrow> uid \<Rightarrow> AddressAndKey \<Rightarrow> StorageDelta \<Rightarrow>
    't StateDB \<Rightarrow> (DeltaRewind option \<times> 't StateDB \<times> uid) outcome" where
  "try_apply_delta T sh u a d db =
     (let db1 = db\<lparr>has_uncommitted_deltas := True\<rparr>
      in case trie_get T a (state_db db) of
           None \<Rightarrow> obind (cache_try_reserve_delta sh u a d (new_key_cache db1)) (\<lambda>(res, c, u').
             Ret (res, db1\<lparr>new_key_cache := c\<rparr>, u'))
         | Some ro \<Rightarrow> obind (try_add_delta sh u d ro) (\<lambda>(res, ro', u').
             Ret (res, db1\<lparr>state_db := trie_put T a ro' (state_db db1)\<rparr>, u')))"

definition update_key :: "'t trie_ops \<Rightarrow> AddressAndKey \<Rightarrow> 't StateDB \<Rightarrow> 't StateDB outcome" where
  "update_key T addrkey db = (case trie_get T addrkey (state_db db) of
       Some main_db_value \<Rightarrow> obind (commit_round main_db_value) (\<lambda>ro.
         let db1 = db\<lparr>state_db := trie_put T addrkey ro (state_db db)\<rparr>
         in if get_committed_object ro = None
            then Ret (db1\<lparr>state_db := trie_delete T addrkey (state_db db1)\<rparr>)
            else Ret db1)
     | None \<Rightarrow> obind (cache_commit_and_get addrkey (new_key_cache db)) (\<lambda>(new_obj, c).
         let db1 = db\<lparr>new_key_cache := c\<rparr>
         in case new_obj of
              Some ob \<Rightarrow> Ret (db1\<lparr>state_db := trie_put T addrkey (RevertableObject_from ob) (state_db db1)\<rparr>)
            | None \<Rightarrow> Ret db1))"

fun update_keys :: "'t trie_ops \<Rightarrow> AddressAndKey list \<Rightarrow> 't StateDB \<Rightarrow> 't StateDB outcome" where
  "update_keys T [] db = Ret db"
| "update_keys T (k # ks) db = obind (update_key T k db) (update_keys T ks)"

definition commit_modifications :: "'t trie_ops \<Rightarrow> (AddressAndKey \<Rightarrow> uint64) \<Rightarrow> AddressAndKey list \<Rightarrow>
    't StateDB \<Rightarrow> 't StateDB outcome" where
  "commit_modifications T kh ks db =
     obind (update_keys T ks (db\<lparr>new_key_cache := finalize_modifications (new_key_cache db)\<rparr>)) (\<lambda>db1.
       Ret (db1\<lparr>new_key_cache := clear_for_next_block kh (new_key_cache db1),
                state_db := hash_and_normalize T (state_db db1),
                has_uncommitted_deltas := False\<rparr>))"

fun rewind_keys :: "'t trie_ops \<Rightarrow> AddressAndKey list \<Rightarrow> 't \<Rightarrow> 't" where
  "rewind_keys T [] t = t"
| "rewind_keys T (k # ks) t = rewind_keys T ks (case trie_get T k t of
       Some main_db_value \<Rightarrow> trie_put T k (rewind_round main_db_value) t
     | None \<Rightarrow> t)"

definition rewind_modifications :: "'t trie_ops \<Rightarrow> (AddressAndKey \<Rightarrow> uint64) \<Rightarrow> AddressAndKey list \<Rightarrow>
    't StateDB \<Rightarrow> 't StateDB" where
  "rewind_modifications T kh ks db =
     db\<lparr>new_key_cache := clear_for_next_block kh (new_key_cache db),
        state_db := hash_and_normalize T (rewind_keys T ks (state_db db)),
        has_uncommitted_deltas := False\<rparr>"

text \<open>Commit and destruction of a rewind, on the object of the key it was taken for.\<close>

definition statedb_find :: "'t trie_ops \<Rightarrow> AddressAndKey \<Rightarrow> 't StateDB \<Rightarrow> RevertableObject option" where
  "statedb_find T k db = (case trie_get T k (state_db db) of
       Some ro \<Rightarrow> Some ro
     | None \<Rightarrow> cache_find k (new_key_cache db))"

definition statedb_write :: "'t trie_ops \<Rightarrow> AddressAndKey \<Rightarrow> RevertableObject \<Rightarrow> 't StateDB \<Rightarrow> 't StateDB" where
  "statedb_write T k ro db = (case trie_get T k (state_db db) of
       Some _ \<Rightarrow> db\<lparr>state_db := trie_put T k ro (state_db db)\<rparr>
     | None \<Rightarrow> db\<lparr>new_key_cache := cache_write k ro (new_key_cache db)\<rparr>)"

definition on_object :: "('db \<Rightarrow> RevertableObject option) \<Rightarrow> (RevertableObject \<Rightarrow> 'db \<Rightarrow> 'db) \<Rightarrow>
    (RevertableObject \<Rightarrow> (RevertableObject \<times> 'a) outcome) \<Rightarrow> 'db \<Rightarrow> ('db \<times> 'a) outcome" where
  "on_object locate write f db = (case locate db of
       None \<Rightarrow> Throw (RuntimeError ''dangling rewind'')
     | Some ro \<Rightarrow> obind (f ro) (\<lambda>(ro', x). Ret (write ro' db, x)))"

definition swap_result :: "('a \<times> 'b) outcome \<Rightarrow> ('b \<times> 'a) outcome" where
  "swap_result m = obind m (\<lambda>(x, y). Ret (y, x))"

definition statedb_rewind_commit :: "'t trie_ops \<Rightarrow> AddressAndKey \<Rightarrow> DeltaRewind \<Rightarrow> 't StateDB \<Rightarrow>
    ('t StateDB \<times> DeltaRewind) outcome" where
  "statedb_rewind_commit T k rw =
     on_object (statedb_find T k) (statedb_write T k) (\<lambda>ro. swap_result (delta_rewind_commit rw ro))"

definition statedb_rewind_destroy :: "'t trie_ops \<Rightarrow> (Hash \<Rightarrow> uint64) \<Rightarrow> uid \<Rightarrow> AddressAndKey \<Rightarrow> DeltaRewind \<Rightarrow>
    't StateDB \<Rightarrow> ('t StateDB \<times> uid) outcome" where
  "statedb_rewind_destroy T sh u k rw =
     on_object (statedb_find T k) (statedb_write T k) (delta_rewind_destroy sh u rw)"

text \<open>
  \<open>StateDBv2\<close>, \<open>GroundhogPersistentStateDB\<close> and \<open>SisyphusStateDB\<close> share one design: a key is
  inserted into the trie, with an empty object, on its first delta, so there is no second
  cache. The state is the trie alone (the timestamps of the persistent tries only concern the
  disk layout).
\<close>

definition v2_get_committed_value :: "'t trie_ops \<Rightarrow> AddressAndKey \<Rightarrow> 't \<Rightarrow> StorageObject option" where
  "v2_get_committed_value T a t = (case trie_get T a t of
       Some res \<Rightarrow> get_committed_object res
     | None \<Rightarrow> None)"

definition v2_try_apply_delta :: "'t trie_ops \<Rightarrow> (Hash \<Rightarrow> uint64) \<Rightarrow> uid \<Rightarrow> AddressAndKey \<Rightarrow> StorageDelta \<Rightarrow>
    't \<Rightarrow> (DeltaRewind option \<times> 't \<times> uid) outcome" where
  "v2_try_apply_delta T sh u a d t =
     (let t1 = (case trie_get T a t of None \<Rightarrow> trie_put T a RevertableObject_new t | Some _ \<Rightarrow> t)
      in case trie_get T a t1 of
           None \<Rightarrow> Throw (RuntimeError ''should be impossible'')
         | Some ro \<Rightarrow> obind (try_add_delta sh u d ro) (\<lambda>(res, ro', u'). Ret (res, trie_put T a ro' t1, u')))"

definition v2_update_key :: "'t trie_ops \<Rightarrow> AddressAndKey \<Rightarrow> 't \<Rightarrow> 't outcome" where
  "v2_update_key T addrkey t = (case trie_get T addrkey t of
       Some main_db_value \<Rightarrow> obind (commit_round main_db_value) (\<lambda>ro.
         let t1 = trie_put T addrkey ro t
         in if get_committed_object ro = None then Ret (trie_delete T addrkey t1) else Ret t1)
     | None \<Rightarrow> Throw (RuntimeError ''should never happen''))"

fun v2_update_keys :: "'t trie_ops \<Rightarrow> AddressAndKey list \<Rightarrow> 't \<Rightarrow> 't outcome" where
  "v2_update_keys T [] t = Ret t"
| "v2_update_keys T (k # ks) t = obind (v2_update_key T k t) (v2_update_keys T ks)"

definition v2_commit_modifications :: "'t trie_ops \<Rightarrow> AddressAndKey list \<Rightarrow> 't \<Rightarrow> 't outcome" where
  "v2_commit_modifications T ks t =
     obind (v2_update_keys T ks t) (\<lambda>t1. Ret (hash_and_normalize T t1))"

fun v2_rewind_keys :: "'t trie_ops \<Rightarrow> AddressAndKey list \<Rightarrow> 't \<Rightarrow> 't outcome" where
  "v2_rewind_keys T [] t = Ret t"
| "v2_rewind_keys T (k # ks) t = (case trie_get T k t of
       Some main_db_value \<Rightarrow> v2_rewind_keys T ks (trie_put T k (rewind_round main_db_value) t)
     | None \<Rightarrow> Throw (RuntimeError ''invalid nonsense''))"

definition v2_rewind_modifications :: "'t trie_ops \<Rightarrow> AddressAndKey list \<Rightarrow> 't \<Rightarrow> 't outcome" where
  "v2_rewind_modifications T ks t =
     obind (v2_rewind_keys T ks t) (\<lambda>t1. Ret (hash_and_normalize T t1))"

definition v2_rewind_commit :: "'t trie_ops \<Rightarrow> AddressAndKey \<Rightarrow> DeltaRewind \<Rightarrow> 't \<Rightarrow>
    ('t \<times> DeltaRewind) outcome" where
  "v2_rewind_commit T k rw =
     on_object (trie_get T k) (trie_put T k) (\<lambda>ro. swap_result (delta_rewind_commit rw ro))"

definition v2_rewind_destroy :: "'t trie_ops \<Rightarrow> (Hash \<Rightarrow> uint64) \<Rightarrow> uid \<Rightarrow> AddressAndKey \<Rightarrow> DeltaRewind \<Rightarrow>
    't \<Rightarrow> ('t \<times> uid) outcome" where
  "v2_rewind_destroy T sh u k rw = on_object (trie_get T k) (trie_put T k) (delta_rewind_destroy sh u rw)"

text \<open>The ordered map as a trie: the instance the examples below run on.\<close>

definition omap_trie :: "(AddressAndKey, RevertableObject) omap trie_ops" where
  "omap_trie = \<lparr>trie_get = (\<lambda>k t. map_of t k), trie_put = omap_set, trie_delete = omap_erase,
                hash_and_normalize = (\<lambda>t. t)\<rparr>"

lemma omap_trie_laws: "trie_laws omap_trie"
  by (simp add: trie_laws_def omap_trie_def)

section \<open>The contract of a state database\<close>

text \<open>
  Between two blocks a database is a map \<open>m\<close> from keys to objects. Inside a block it also
  has, for every key, the live rewinds \<open>L k\<close> and the list \<open>C k\<close> of committed deltas.
\<close>

type_synonym ledger = "AddressAndKey \<Rightarrow> StorageObject option"
type_synonym live = "AddressAndKey \<Rightarrow> DeltaRewind multiset"
type_synonym commits = "AddressAndKey \<Rightarrow> StorageDelta list"

definition ledger_after :: "ledger \<Rightarrow> commits \<Rightarrow> ledger" where
  "ledger_after m C = (\<lambda>k. spec_commit (m k) (C k))"

definition no_live :: live where "no_live = (\<lambda>_. {#})"
definition no_commits :: commits where "no_commits = (\<lambda>_. [])"

definition small_block :: "commits \<Rightarrow> bool" where
  "small_block C \<longleftrightarrow> (\<forall>k. length (C k) < 2 ^ 31)"

locale ledger_db =
  fixes inv :: "ledger \<Rightarrow> live \<Rightarrow> commits \<Rightarrow> 'db \<Rightarrow> bool"
    and get :: "AddressAndKey \<Rightarrow> 'db \<Rightarrow> StorageObject option"
    and apply_d :: "uid \<Rightarrow> AddressAndKey \<Rightarrow> StorageDelta \<Rightarrow> 'db \<Rightarrow> (DeltaRewind option \<times> 'db \<times> uid) outcome"
    and commit_r :: "AddressAndKey \<Rightarrow> DeltaRewind \<Rightarrow> 'db \<Rightarrow> ('db \<times> DeltaRewind) outcome"
    and destroy_r :: "uid \<Rightarrow> AddressAndKey \<Rightarrow> DeltaRewind \<Rightarrow> 'db \<Rightarrow> ('db \<times> uid) outcome"
    and known :: "AddressAndKey \<Rightarrow> 'db \<Rightarrow> bool"
    and commit_b :: "AddressAndKey list \<Rightarrow> 'db \<Rightarrow> 'db outcome"
    and rewind_b :: "AddressAndKey list \<Rightarrow> 'db \<Rightarrow> 'db outcome"
  assumes get_law: "inv m L C db \<Longrightarrow> get k db = m k"
    and apply_law: "inv m L C db \<Longrightarrow> uid_ok u \<Longrightarrow> supported d \<Longrightarrow> size (L k) < 255 \<Longrightarrow>
      \<exists>res db' u'. apply_d u k d db = Ret (res, db', u') \<and> uid_ok u' \<and> known k db' \<and>
        (\<forall>k'. known k' db \<longrightarrow> known k' db') \<and>
        (case res of None \<Rightarrow> inv m L C db'
         | Some rw \<Rightarrow> rw_delta rw = d \<and> inv m (L(k := add_mset rw (L k))) C db')"
    and commit_law: "inv m (L(k := add_mset rw (L k))) C db \<Longrightarrow>
      \<exists>db' rw'. commit_r k rw db = Ret (db', rw') \<and> inv m L (C(k := C k @ [rw_delta rw])) db' \<and>
        (\<forall>k'. known k' db \<longrightarrow> known k' db')"
    and destroy_law: "inv m (L(k := add_mset rw (L k))) C db \<Longrightarrow> uid_ok u \<Longrightarrow>
      \<exists>db' u'. destroy_r u k rw db = Ret (db', u') \<and> uid_ok u' \<and> inv m L C db' \<and>
        (\<forall>k'. known k' db \<longrightarrow> known k' db')"
    and commit_block_law: "inv m no_live C db \<Longrightarrow> distinct ks \<Longrightarrow> small_block C \<Longrightarrow>
      \<forall>k. C k \<noteq> [] \<longrightarrow> k \<in> set ks \<Longrightarrow> \<forall>k \<in> set ks. known k db \<Longrightarrow>
      \<exists>db'. commit_b ks db = Ret db' \<and> inv (ledger_after m C) no_live no_commits db'"
    and rewind_block_law: "inv m L C db \<Longrightarrow> distinct ks \<Longrightarrow>
      \<forall>k. L k \<noteq> {#} \<or> C k \<noteq> [] \<longrightarrow> k \<in> set ks \<Longrightarrow> \<forall>k \<in> set ks. known k db \<Longrightarrow>
      \<exists>db'. rewind_b ks db = Ret db' \<and> inv m no_live no_commits db'"
begin

lemma get_stable: "inv m L C db \<Longrightarrow> inv m L' C' db' \<Longrightarrow> get k db = get k db'"
  using get_law by metis

end

end
