(* ===== verification/StateDBProofs.thy ===== *)
theory StateDBProofs
  imports StateDB
begin

text \<open>
  The databases meet their contract: the locale \<open>ledger_db\<close> is interpreted on \<open>StateDB\<close> and
  on the trie-only databases, for every trie that obeys \<open>trie_laws\<close> (the invariants carry
  the laws of the trie parameter).
\<close>

section \<open>One object\<close>

definition stored_ok :: "StorageObject option \<Rightarrow> bool" where
  "stored_ok cb \<longleftrightarrow> storable cb \<and> spec_commit cb [] = cb"

lemma start_object_Nil [simp]: "start_object cb [] = cb"
  by (simp add: start_object_def)

lemma spec_body_Nil_idem:
  "spec_body [] (spec_body ds b) = spec_body ds b"
proof (cases b)
  case (nonnegative_int64 v)
  have "min (2 ^ 63 - 1) (sint w) = sint (w :: int64)" for w using sint64_bounds(2)[of w] by (simp add: min_def)
  with nonnegative_int64 show ?thesis by (simp add: sum_of_def)
next
  case (hash_set hs)
  have "survives [] = (\<lambda>e. True)" by (rule ext) (simp add: survives_def)
  moreover have "normalize_list (normalize_list xs) = normalize_list xs" for xs
    by (rule normalize_list_normalized) simp
  moreover have "word_of_int (min 65535 (uint (word_of_int (min 65535 z) :: uint32))) =
      (word_of_int (min 65535 z) :: uint32)" if "0 \<le> z" for z
    using that by (simp add: uint_word_of_int_eq take_bit_int_eq_self min_def)
  ultimately show ?thesis using hash_set sum_of_signs(3)[of ds]
    by (simp add: sum_of_def[of _ "[]"])
next
  case (asset a)
  then show ?thesis by (simp add: sum_of_def)
qed simp_all

lemma storable_start: "storable cb \<Longrightarrow> storable (start_object cb ds)"
proof -
  have "object_from_delta_class dc cb = Ret ob \<Longrightarrow> body_type (body ob) \<noteq> UNCONSTRAINED_INT64" for dc ob
    by (auto simp: object_from_delta_class_def split: if_splits StorageDeltaClass.splits)
  then show "storable cb \<Longrightarrow> storable (start_object cb ds)"
    by (auto simp: start_object_def storable_def split: option.splits outcome.splits)
qed

lemma stored_ok_spec_commit: "storable cb \<Longrightarrow> stored_ok (spec_commit cb ds)"
  using storable_start[of cb ds]
  by (cases "start_object cb ds") (auto simp: stored_ok_def spec_commit_def storable_def spec_body_Nil_idem)

lemma stored_ok_None [simp]: "stored_ok None"
  by (simp add: stored_ok_def storable_def spec_commit_def)

lemma commit_object:
  assumes "round_inv sh {#} (mset ds) ro" "storable (committed_base ro)" "length ds < 2 ^ 31"
  shows "\<exists>ro'. commit_round ro = Ret ro' \<and> get_committed_object ro' = spec_commit (committed_base ro) ds \<and>
     (get_committed_object ro' \<noteq> None \<longrightarrow> round_inv sh {#} {#} ro')"
  using commit_round_spec[OF assms] by (auto simp: get_committed_object_def spec_commit_def split: if_splits)

section \<open>The trie-only databases\<close>

text \<open>The state of one key in the middle of a block, and after it.\<close>

fun key_open :: "(Hash \<Rightarrow> uint64) \<Rightarrow> StorageObject option \<Rightarrow> DeltaRewind multiset \<Rightarrow> StorageDelta list \<Rightarrow>
    RevertableObject option \<Rightarrow> bool" where
  "key_open sh cb L C None \<longleftrightarrow> cb = None \<and> L = {#} \<and> C = []"
| "key_open sh cb L C (Some ro) \<longleftrightarrow> round_inv sh L (mset C) ro \<and> committed_base ro = cb"

definition v2_inv :: "'t trie_ops \<Rightarrow> (Hash \<Rightarrow> uint64) \<Rightarrow> ledger \<Rightarrow> live \<Rightarrow> commits \<Rightarrow> 't \<Rightarrow> bool" where
  "v2_inv T sh m L C t \<longleftrightarrow> trie_laws T \<and>
     (\<forall>k. stored_ok (m k) \<and> key_open sh (m k) (L k) (C k) (trie_get T k t))"

definition v2_known :: "'t trie_ops \<Rightarrow> AddressAndKey \<Rightarrow> 't \<Rightarrow> bool" where
  "v2_known T k t \<longleftrightarrow> trie_get T k t \<noteq> None"

lemma trie_put_get: "trie_laws T \<Longrightarrow> trie_get T k' (trie_put T k ro t) = (if k' = k then Some ro else trie_get T k' t)"
  and trie_delete_get: "trie_laws T \<Longrightarrow> trie_get T k' (trie_delete T k t) = (if k' = k then None else trie_get T k' t)"
  by (simp_all add: trie_laws_def)

lemma key_open_normalize:
  assumes "trie_laws T" "key_open sh cb {#} [] (trie_get T k t)"
  shows "key_open sh cb {#} [] (trie_get T k (hash_and_normalize T t))"
proof -
  from assms(1) consider "trie_get T k (hash_and_normalize T t) = trie_get T k t"
    | ro where "trie_get T k (hash_and_normalize T t) = None" "trie_get T k t = Some ro" "get_committed_object ro = None"
    unfolding trie_laws_def by blast
  then show ?thesis using assms(2) by cases (auto simp: get_committed_object_def)
qed

lemma v2_get_law: "v2_inv T sh m L C t \<Longrightarrow> v2_get_committed_value T k t = m k"
  unfolding v2_inv_def v2_get_committed_value_def get_committed_object_def
  by (metis key_open.simps option.case_eq_if option.exhaust_sel)

lemma key_open_add:
  assumes "key_open sh cb L C (Some ro)" "uid_ok u" "supported d" "size L < 255"
  shows "\<exists>res ro' u'. try_add_delta sh u d ro = Ret (res, ro', u') \<and> uid_ok u' \<and>
     (case res of None \<Rightarrow> key_open sh cb L C (Some ro')
      | Some rw \<Rightarrow> rw_delta rw = d \<and> key_open sh cb (add_mset rw L) C (Some ro'))"
  using round_add[of sh L "mset C" ro u d] assms by (fastforce split: option.splits)

lemma key_open_fresh: "key_open sh cb L C None \<Longrightarrow> key_open sh cb L C (Some RevertableObject_new)"
  using round_inv_new[of sh] by (simp add: RevertableObject_new_def)

lemma key_open_commit:
  assumes "key_open sh cb (add_mset rw L) C x"
  shows "\<exists>ro ro' rw'. x = Some ro \<and> delta_rewind_commit rw ro = Ret (rw', ro') \<and>
     key_open sh cb L (C @ [rw_delta rw]) (Some ro')"
  using assms round_commit[of sh rw L "mset C"] by (cases x) fastforce+

lemma key_open_destroy:
  assumes "key_open sh cb (add_mset rw L) C x" "uid_ok u"
  shows "\<exists>ro ro' u'. x = Some ro \<and> delta_rewind_destroy sh u rw ro = Ret (ro', u') \<and> uid_ok u' \<and>
     key_open sh cb L C (Some ro')"
  using assms round_revert[of sh rw L "mset C"] by (cases x) fastforce+

text \<open>Replacing the object of one key.\<close>

lemma v2_inv_update:
  assumes "v2_inv T sh m L C t" "\<And>k'. k' \<noteq> k \<Longrightarrow> trie_get T k' t' = trie_get T k' t"
    "key_open sh (m k) Lk Ck (trie_get T k t')"
  shows "v2_inv T sh m (L(k := Lk)) (C(k := Ck)) t'"
  using assms by (simp add: v2_inv_def)

lemma v2_apply_law:
  assumes inv: "v2_inv T sh m L C t" and u: "uid_ok u" and d: "supported d" and room: "size (L k) < 255"
  shows "\<exists>res t' u'. v2_try_apply_delta T sh u k d t = Ret (res, t', u') \<and> uid_ok u' \<and> v2_known T k t' \<and>
     (\<forall>k'. v2_known T k' t \<longrightarrow> v2_known T k' t') \<and>
     (case res of None \<Rightarrow> v2_inv T sh m L C t'
      | Some rw \<Rightarrow> rw_delta rw = d \<and> v2_inv T sh m (L(k := add_mset rw (L k))) C t')"
proof -
  have T: "trie_laws T" using inv by (simp add: v2_inv_def)
  define t1 where "t1 = (case trie_get T k t of None \<Rightarrow> trie_put T k RevertableObject_new t | Some _ \<Rightarrow> t)"
  have fr: "k' \<noteq> k \<Longrightarrow> trie_get T k' t1 = trie_get T k' t" for k'
    by (simp add: t1_def trie_put_get[OF T] split: option.split)
  have ko: "key_open sh (m k) (L k) (C k) (trie_get T k t)" using inv by (simp add: v2_inv_def)
  obtain ro where ro: "trie_get T k t1 = Some ro" "key_open sh (m k) (L k) (C k) (Some ro)"
    using ko key_open_fresh[of sh "m k" "L k" "C k"] by (cases "trie_get T k t") (auto simp: t1_def trie_put_get[OF T])
  from key_open_add[OF ro(2) u d room] obtain res ro' u' where
    a: "try_add_delta sh u d ro = Ret (res, ro', u')" "uid_ok u'"
      "case res of None \<Rightarrow> key_open sh (m k) (L k) (C k) (Some ro')
       | Some rw \<Rightarrow> rw_delta rw = d \<and> key_open sh (m k) (add_mset rw (L k)) (C k) (Some ro')" by blast
  let ?t' = "trie_put T k ro' t1"
  have get': "trie_get T k' ?t' = (if k' = k then Some ro' else trie_get T k' t)" for k'
    using fr by (simp add: trie_put_get[OF T])
  have run: "v2_try_apply_delta T sh u k d t = Ret (res, ?t', u')"
    using ro(1) a(1) by (simp add: v2_try_apply_delta_def t1_def[symmetric] Let_def)
  have "case res of None \<Rightarrow> v2_inv T sh m L C ?t'
      | Some rw \<Rightarrow> rw_delta rw = d \<and> v2_inv T sh m (L(k := add_mset rw (L k))) C ?t'"
    using a(3) inv get' by (auto simp: v2_inv_def split: option.splits)
  then show ?thesis using run a(2) get' by (auto simp: v2_known_def)
qed

lemma v2_commit_law:
  assumes inv: "v2_inv T sh m (L(k := add_mset rw (L k))) C t"
  shows "\<exists>t' rw'. v2_rewind_commit T k rw t = Ret (t', rw') \<and> v2_inv T sh m L (C(k := C k @ [rw_delta rw])) t' \<and>
     (\<forall>k'. v2_known T k' t \<longrightarrow> v2_known T k' t')"
proof -
  have T: "trie_laws T" using inv by (simp add: v2_inv_def)
  have "key_open sh (m k) (add_mset rw (L k)) (C k) (trie_get T k t)"
    using inv by (auto simp: v2_inv_def dest: spec[of _ k])
  from key_open_commit[OF this] obtain ro ro' rw' where
    "trie_get T k t = Some ro" "delta_rewind_commit rw ro = Ret (rw', ro')"
    "key_open sh (m k) (L k) (C k @ [rw_delta rw]) (Some ro')" by blast
  then show ?thesis using inv
    by (auto simp: v2_rewind_commit_def on_object_def swap_result_def v2_inv_def v2_known_def trie_put_get[OF T]
        split: if_splits)
qed

lemma v2_destroy_law:
  assumes inv: "v2_inv T sh m (L(k := add_mset rw (L k))) C t" and u: "uid_ok u"
  shows "\<exists>t' u'. v2_rewind_destroy T sh u k rw t = Ret (t', u') \<and> uid_ok u' \<and> v2_inv T sh m L C t' \<and>
     (\<forall>k'. v2_known T k' t \<longrightarrow> v2_known T k' t')"
proof -
  have T: "trie_laws T" using inv by (simp add: v2_inv_def)
  have "key_open sh (m k) (add_mset rw (L k)) (C k) (trie_get T k t)"
    using inv by (auto simp: v2_inv_def dest: spec[of _ k])
  from key_open_destroy[OF this u] obtain ro ro' u' where
    "trie_get T k t = Some ro" "delta_rewind_destroy sh u rw ro = Ret (ro', u')" "uid_ok u'"
    "key_open sh (m k) (L k) (C k) (Some ro')" by blast
  then show ?thesis using inv
    by (auto simp: v2_rewind_destroy_def on_object_def v2_inv_def v2_known_def trie_put_get[OF T] split: if_splits)
qed

text \<open>The middle of a block commit: the keys of \<open>D\<close> are done.\<close>

definition v2_mid :: "'t trie_ops \<Rightarrow> (Hash \<Rightarrow> uint64) \<Rightarrow> ledger \<Rightarrow> commits \<Rightarrow> AddressAndKey set \<Rightarrow> 't \<Rightarrow> bool" where
  "v2_mid T sh m C D t \<longleftrightarrow> trie_laws T \<and> (\<forall>k. stored_ok (m k) \<and>
     (if k \<in> D then key_open sh (ledger_after m C k) {#} [] (trie_get T k t)
      else key_open sh (m k) {#} (C k) (trie_get T k t)))"

lemma v2_update_key_mid:
  assumes mid: "v2_mid T sh m C D t" and k: "k \<notin> D" "v2_known T k t" and small: "small_block C"
  shows "\<exists>t'. v2_update_key T k t = Ret t' \<and> v2_mid T sh m C (insert k D) t' \<and>
     (\<forall>k'. k' \<noteq> k \<longrightarrow> trie_get T k' t' = trie_get T k' t)"
proof -
  have T: "trie_laws T" using mid by (simp add: v2_mid_def)
  obtain ro where ro: "trie_get T k t = Some ro" using k(2) by (auto simp: v2_known_def)
  have ko: "round_inv sh {#} (mset (C k)) ro" "committed_base ro = m k" "storable (m k)"
    using mid k(1) ro by (auto simp: v2_mid_def stored_ok_def dest: spec[of _ k])
  have "length (C k) < 2 ^ 31" using small by (simp add: small_block_def)
  from commit_object[OF ko(1) _ this] ko(2,3) obtain ro' where
    c: "commit_round ro = Ret ro'" "get_committed_object ro' = ledger_after m C k"
      "get_committed_object ro' \<noteq> None \<longrightarrow> round_inv sh {#} {#} ro'"
    by (auto simp: ledger_after_def)
  define t' where "t' = (if get_committed_object ro' = None then trie_delete T k (trie_put T k ro' t)
    else trie_put T k ro' t)"
  have get': "trie_get T k' t' = (if k' = k then (if get_committed_object ro' = None then None else Some ro')
      else trie_get T k' t)" for k'
    by (simp add: t'_def trie_put_get[OF T] trie_delete_get[OF T])
  have "v2_update_key T k t = Ret t'" using ro c(1) by (simp add: v2_update_key_def t'_def Let_def)
  moreover have "v2_mid T sh m C (insert k D) t'"
    using mid c(2,3) get' by (auto simp: v2_mid_def get_committed_object_def)
  ultimately show ?thesis using get' by auto
qed

lemma v2_update_keys_mid:
  assumes "v2_mid T sh m C D t" "distinct ks" "set ks \<inter> D = {}" "\<forall>k \<in> set ks. v2_known T k t" "small_block C"
  shows "\<exists>t'. v2_update_keys T ks t = Ret t' \<and> v2_mid T sh m C (set ks \<union> D) t'"
  using assms
proof (induction ks arbitrary: D t)
  case (Cons k ks)
  from v2_update_key_mid[OF Cons.prems(1), of k] Cons.prems obtain t1 where
    t1: "v2_update_key T k t = Ret t1" "v2_mid T sh m C (insert k D) t1"
      "\<forall>k'. k' \<noteq> k \<longrightarrow> trie_get T k' t1 = trie_get T k' t" by auto
  have "\<forall>k' \<in> set ks. v2_known T k' t1" using Cons.prems(2,4) t1(3) by (auto simp: v2_known_def)
  with Cons.IH[OF t1(2)] Cons.prems t1(1) show ?case by auto
qed simp

lemma v2_commit_block_law:
  assumes inv: "v2_inv T sh m no_live C t" and ks: "distinct ks" "\<forall>k. C k \<noteq> [] \<longrightarrow> k \<in> set ks"
    "\<forall>k \<in> set ks. v2_known T k t" and small: "small_block C"
  shows "\<exists>t'. v2_commit_modifications T ks t = Ret t' \<and> v2_inv T sh (ledger_after m C) no_live no_commits t'"
proof -
  have T: "trie_laws T" using inv by (simp add: v2_inv_def)
  have "v2_mid T sh m C {} t" using inv by (simp add: v2_inv_def v2_mid_def no_live_def)
  from v2_update_keys_mid[OF this ks(1) _ ks(3) small] obtain t1 where
    t1: "v2_update_keys T ks t = Ret t1" "v2_mid T sh m C (set ks) t1" by auto
  have ko: "stored_ok (ledger_after m C k) \<and> key_open sh (ledger_after m C k) {#} [] (trie_get T k t1)" for k
  proof (cases "k \<in> set ks")
    case True
    then have "key_open sh (ledger_after m C k) {#} [] (trie_get T k t1)" "storable (m k)"
      using t1(2) by (auto simp: v2_mid_def stored_ok_def)
    then show ?thesis using stored_ok_spec_commit[of "m k" "C k"] by (simp add: ledger_after_def)
  next
    case False
    then have "C k = []" using ks(2) by blast
    then have "ledger_after m C k = m k"
      using t1(2) by (simp add: v2_mid_def ledger_after_def stored_ok_def)
    with False t1(2) \<open>C k = []\<close> show ?thesis by (auto simp: v2_mid_def dest: spec[of _ k])
  qed
  then have "v2_inv T sh (ledger_after m C) no_live no_commits (hash_and_normalize T t1)"
    using T key_open_normalize[OF T] by (simp add: v2_inv_def no_live_def no_commits_def)
  with t1(1) show ?thesis by (simp add: v2_commit_modifications_def)
qed

lemma v2_rewind_keys_inv:
  assumes "v2_inv T sh m L C t" "\<forall>k \<in> set ks. v2_known T k t"
  shows "\<exists>t'. v2_rewind_keys T ks t = Ret t' \<and>
     v2_inv T sh m (\<lambda>k. if k \<in> set ks then {#} else L k) (\<lambda>k. if k \<in> set ks then [] else C k) t'"
  using assms
proof (induction ks arbitrary: L C t)
  case (Cons k ks)
  have T: "trie_laws T" using Cons.prems by (simp add: v2_inv_def)
  obtain ro where ro: "trie_get T k t = Some ro" using Cons.prems(2) by (auto simp: v2_known_def)
  have "round_inv sh (L k) (mset (C k)) ro" "committed_base ro = m k"
    using Cons.prems(1) ro by (auto simp: v2_inv_def dest: spec[of _ k])
  from rewind_round_idle[OF this(1)] this(2) have
    "v2_inv T sh m (L(k := {#})) (C(k := [])) (trie_put T k (rewind_round ro) t)"
    using v2_inv_update[OF Cons.prems(1), of k "trie_put T k (rewind_round ro) t" "{#}" "[]"]
    by (simp add: trie_put_get[OF T])
  moreover have "\<forall>k' \<in> set ks. v2_known T k' (trie_put T k (rewind_round ro) t)"
    using Cons.prems(2) by (simp add: v2_known_def trie_put_get[OF T])
  ultimately obtain t' where t': "v2_rewind_keys T ks (trie_put T k (rewind_round ro) t) = Ret t'"
    "v2_inv T sh m (\<lambda>k'. if k' \<in> set ks then {#} else (L(k := {#})) k')
       (\<lambda>k'. if k' \<in> set ks then [] else (C(k := [])) k') t'"
    using Cons.IH by blast
  have eq: "(\<lambda>k'. if k' \<in> set ks then {#} else (L(k := {#})) k') = (\<lambda>k'. if k' \<in> set (k # ks) then {#} else L k')"
    "(\<lambda>k'. if k' \<in> set ks then [] else (C(k := [])) k') = (\<lambda>k'. if k' \<in> set (k # ks) then [] else C k')"
    by (auto simp: fun_eq_iff)
  have "v2_rewind_keys T (k # ks) t = Ret t'" using ro t'(1) by simp
  with t'(2)[unfolded eq] show ?case by blast
qed simp

lemma v2_rewind_block_law:
  assumes inv: "v2_inv T sh m L C t" and ks: "\<forall>k. L k \<noteq> {#} \<or> C k \<noteq> [] \<longrightarrow> k \<in> set ks"
    "\<forall>k \<in> set ks. v2_known T k t"
  shows "\<exists>t'. v2_rewind_modifications T ks t = Ret t' \<and> v2_inv T sh m no_live no_commits t'"
proof -
  have T: "trie_laws T" using inv by (simp add: v2_inv_def)
  from v2_rewind_keys_inv[OF inv ks(2)] obtain t1 where t1: "v2_rewind_keys T ks t = Ret t1"
    "v2_inv T sh m (\<lambda>k. if k \<in> set ks then {#} else L k) (\<lambda>k. if k \<in> set ks then [] else C k) t1" by blast
  have "(\<lambda>k. if k \<in> set ks then {#} else L k) = (\<lambda>_. {#})" "(\<lambda>k. if k \<in> set ks then [] else C k) = (\<lambda>_. [])"
    using ks(1) by (auto simp: fun_eq_iff)
  with t1(2) have "v2_inv T sh m no_live no_commits (hash_and_normalize T t1)"
    using key_open_normalize[OF T] by (simp add: v2_inv_def no_live_def no_commits_def)
  with t1(1) show ?thesis by (simp add: v2_rewind_modifications_def)
qed

interpretation v2: ledger_db "v2_inv T sh" "v2_get_committed_value T" "v2_try_apply_delta T sh"
    "v2_rewind_commit T" "v2_rewind_destroy T sh" "v2_known T" "v2_commit_modifications T"
    "v2_rewind_modifications T" for T sh
  by unfold_locales
    (rule v2_get_law v2_apply_law v2_commit_law v2_destroy_law v2_commit_block_law v2_rewind_block_law; assumption)+

section \<open>The database with a cache of new keys\<close>

definition statedb_inv :: "'t trie_ops \<Rightarrow> (Hash \<Rightarrow> uint64) \<Rightarrow> ledger \<Rightarrow> live \<Rightarrow> commits \<Rightarrow> 't StateDB \<Rightarrow> bool" where
  "statedb_inv T sh m L C db \<longleftrightarrow> trie_laws T \<and> cache_ok (new_key_cache db) \<and> in_try_reserve_mode (new_key_cache db) \<and>
     (\<forall>k. stored_ok (m k) \<and> key_open sh (m k) (L k) (C k) (statedb_find T k db) \<and>
        (trie_get T k (state_db db) = None \<longleftrightarrow> m k = None))"

text \<open>Every key can be committed: keys that were only read are skipped.\<close>

definition statedb_known :: "AddressAndKey \<Rightarrow> 't StateDB \<Rightarrow> bool" where
  "statedb_known k db = True"

lemma statedb_get_law: "statedb_inv T sh m L C db \<Longrightarrow> get_committed_value T k db = m k"
proof -
  assume "statedb_inv T sh m L C db"
  then have "key_open sh (m k) (L k) (C k) (statedb_find T k db)" "trie_get T k (state_db db) = None \<longleftrightarrow> m k = None"
    by (auto simp: statedb_inv_def)
  then show ?thesis
    by (cases "trie_get T k (state_db db)") (auto simp: get_committed_value_def statedb_find_def get_committed_object_def)
qed

lemma statedb_find_write:
  assumes "trie_laws T" "cache_ok (new_key_cache db)"
  shows "statedb_find T k' (statedb_write T k ro db) = (if k' = k then Some ro else statedb_find T k' db)"
    "(trie_get T k' (state_db (statedb_write T k ro db)) = None) = (trie_get T k' (state_db db) = None)"
    "cache_ok (new_key_cache (statedb_write T k ro db))"
    "in_try_reserve_mode (new_key_cache (statedb_write T k ro db)) = in_try_reserve_mode (new_key_cache db)"
  using assms by (auto simp: statedb_write_def statedb_find_def trie_put_get split: option.split)

lemma try_apply_delta_eq:
  assumes "in_try_reserve_mode (new_key_cache db)"
  shows "try_apply_delta T sh u k d db =
     obind (try_add_delta sh u d (case statedb_find T k db of None \<Rightarrow> RevertableObject_new | Some ro \<Rightarrow> ro))
       (\<lambda>(res, ro', u'). Ret (res, statedb_write T k ro' (db\<lparr>has_uncommitted_deltas := True\<rparr>), u'))"
  using assms by (cases "trie_get T k (state_db db)")
    (simp_all add: try_apply_delta_def statedb_find_def statedb_write_def cache_try_reserve_eq obind_assoc split_def Let_def)

lemma statedb_inv_flag [simp]:
  "statedb_inv T sh m L C (db\<lparr>has_uncommitted_deltas := b\<rparr>) = statedb_inv T sh m L C db"
  by (simp add: statedb_inv_def statedb_find_def cong: option.case_cong)

lemma statedb_inv_write:
  assumes inv: "statedb_inv T sh m L' C' db" and ko: "key_open sh (m k) (L k) (C k) (Some ro)"
    and same: "\<And>k'. k' \<noteq> k \<Longrightarrow> L' k' = L k' \<and> C' k' = C k'"
  shows "statedb_inv T sh m L C (statedb_write T k ro db)"
proof -
  have T: "trie_laws T" "cache_ok (new_key_cache db)" using inv by (auto simp: statedb_inv_def)
  have "key_open sh (m k') (L k') (C k') (if k' = k then Some ro else statedb_find T k' db)" for k'
    using inv ko same[of k'] by (cases "k' = k") (auto simp: statedb_inv_def dest: spec[of _ k'])
  then show ?thesis using inv by (simp add: statedb_inv_def statedb_find_write[OF T])
qed

lemma statedb_apply_law:
  assumes inv: "statedb_inv T sh m L C db" and u: "uid_ok u" and d: "supported d" and room: "size (L k) < 255"
  shows "\<exists>res db' u'. try_apply_delta T sh u k d db = Ret (res, db', u') \<and> uid_ok u' \<and>
     (case res of None \<Rightarrow> statedb_inv T sh m L C db'
      | Some rw \<Rightarrow> rw_delta rw = d \<and> statedb_inv T sh m (L(k := add_mset rw (L k))) C db')"
proof -
  define ro where "ro = (case statedb_find T k db of None \<Rightarrow> RevertableObject_new | Some ro \<Rightarrow> ro)"
  have "key_open sh (m k) (L k) (C k) (statedb_find T k db)" using inv by (simp add: statedb_inv_def)
  then have "key_open sh (m k) (L k) (C k) (Some ro)"
    using key_open_fresh[of sh "m k" "L k" "C k"] by (cases "statedb_find T k db") (auto simp: ro_def)
  from key_open_add[OF this u d room] obtain res ro' u' where
    a: "try_add_delta sh u d ro = Ret (res, ro', u')" "uid_ok u'"
      "case res of None \<Rightarrow> key_open sh (m k) (L k) (C k) (Some ro')
       | Some rw \<Rightarrow> rw_delta rw = d \<and> key_open sh (m k) (add_mset rw (L k)) (C k) (Some ro')" by blast
  let ?db = "db\<lparr>has_uncommitted_deltas := True\<rparr>"
  have inv': "statedb_inv T sh m L C ?db" using inv by simp
  have "case res of None \<Rightarrow> statedb_inv T sh m L C (statedb_write T k ro' ?db)
      | Some rw \<Rightarrow> rw_delta rw = d \<and> statedb_inv T sh m (L(k := add_mset rw (L k))) C (statedb_write T k ro' ?db)"
    using a(3) statedb_inv_write[OF inv'] by (auto split: option.splits)
  moreover have "try_apply_delta T sh u k d db = Ret (res, statedb_write T k ro' ?db, u')"
    using a(1) inv by (simp add: try_apply_delta_eq ro_def[symmetric] statedb_inv_def)
  ultimately show ?thesis using a(2) by blast
qed

lemma statedb_commit_law:
  assumes inv: "statedb_inv T sh m (L(k := add_mset rw (L k))) C db"
  shows "\<exists>db' rw'. statedb_rewind_commit T k rw db = Ret (db', rw') \<and>
     statedb_inv T sh m L (C(k := C k @ [rw_delta rw])) db'"
proof -
  have "key_open sh (m k) (add_mset rw (L k)) (C k) (statedb_find T k db)"
    using inv by (auto simp: statedb_inv_def dest: spec[of _ k])
  from key_open_commit[OF this] obtain ro ro' rw' where
    "statedb_find T k db = Some ro" "delta_rewind_commit rw ro = Ret (rw', ro')"
    "key_open sh (m k) (L k) (C k @ [rw_delta rw]) (Some ro')" by blast
  then show ?thesis using statedb_inv_write[OF inv, of k L "C(k := C k @ [rw_delta rw])" ro']
    by (simp add: statedb_rewind_commit_def on_object_def swap_result_def)
qed

lemma statedb_destroy_law:
  assumes inv: "statedb_inv T sh m (L(k := add_mset rw (L k))) C db" and u: "uid_ok u"
  shows "\<exists>db' u'. statedb_rewind_destroy T sh u k rw db = Ret (db', u') \<and> uid_ok u' \<and> statedb_inv T sh m L C db'"
proof -
  have "key_open sh (m k) (add_mset rw (L k)) (C k) (statedb_find T k db)"
    using inv by (auto simp: statedb_inv_def dest: spec[of _ k])
  from key_open_destroy[OF this u] obtain ro ro' u' where
    "statedb_find T k db = Some ro" "delta_rewind_destroy sh u rw ro = Ret (ro', u')" "uid_ok u'"
    "key_open sh (m k) (L k) (C k) (Some ro')" by blast
  then show ?thesis using statedb_inv_write[OF inv, of k L C ro']
    by (simp add: statedb_rewind_destroy_def on_object_def)
qed

text \<open>
  A key in the middle of a block commit, as a function of what the trie (\<open>x\<close>) and the database
  as a whole (\<open>y\<close>) hold for it.
\<close>

definition key_mid :: "(Hash \<Rightarrow> uint64) \<Rightarrow> StorageObject option \<Rightarrow> StorageDelta list \<Rightarrow> bool \<Rightarrow>
    RevertableObject option \<Rightarrow> RevertableObject option \<Rightarrow> bool" where
  "key_mid sh cb C finished x y \<longleftrightarrow> stored_ok cb \<and>
     (if finished then key_open sh (spec_commit cb C) {#} [] x \<and> (x = None \<longleftrightarrow> spec_commit cb C = None)
      else key_open sh cb {#} C y \<and> (x = None \<longleftrightarrow> cb = None))"

definition statedb_mid :: "'t trie_ops \<Rightarrow> (Hash \<Rightarrow> uint64) \<Rightarrow> ledger \<Rightarrow> commits \<Rightarrow> AddressAndKey set \<Rightarrow> 't StateDB \<Rightarrow> bool" where
  "statedb_mid T sh m C D db \<longleftrightarrow> trie_laws T \<and> cache_ok (new_key_cache db) \<and> \<not> in_try_reserve_mode (new_key_cache db) \<and>
     (\<forall>k. key_mid sh (m k) (C k) (k \<in> D) (trie_get T k (state_db db)) (statedb_find T k db))"

text \<open>The three outcomes of one key: committed in place, deleted, or moved out of the cache.\<close>

lemma update_key_mid:
  assumes mid: "statedb_mid T sh m C D db" and k: "k \<notin> D" and small: "small_block C"
  shows "\<exists>db'. update_key T k db = Ret db' \<and> statedb_mid T sh m C (insert k D) db'"
proof -
  have T: "trie_laws T" "cache_ok (new_key_cache db)" "\<not> in_try_reserve_mode (new_key_cache db)"
    using mid by (auto simp: statedb_mid_def)
  have km: "key_open sh (m k) {#} (C k) (statedb_find T k db)" "trie_get T k (state_db db) = None \<longleftrightarrow> m k = None"
    "stored_ok (m k)" "storable (m k)"
    using mid k by (auto simp: statedb_mid_def key_mid_def stored_ok_def dest!: spec[where x = k])
  have len: "length (C k) < 2 ^ 31" using small by (simp add: small_block_def)
  define goal where "goal db' \<longleftrightarrow> cache_ok (new_key_cache db') \<and> \<not> in_try_reserve_mode (new_key_cache db') \<and>
     (\<forall>k'. k' \<noteq> k \<longrightarrow> trie_get T k' (state_db db') = trie_get T k' (state_db db) \<and>
        statedb_find T k' db' = statedb_find T k' db) \<and>
     key_open sh (ledger_after m C k) {#} [] (trie_get T k (state_db db')) \<and>
     (trie_get T k (state_db db') = None \<longleftrightarrow> ledger_after m C k = None)" for db'
  have finish: "statedb_mid T sh m C (insert k D) db'" if g: "goal db'" for db'
  proof -
    have "key_mid sh (m k') (C k') (k' \<in> insert k D) (trie_get T k' (state_db db')) (statedb_find T k' db')" for k'
      using mid g km(3) by (cases "k' = k") (simp_all add: goal_def statedb_mid_def key_mid_def ledger_after_def)
    with g T show ?thesis by (simp add: statedb_mid_def goal_def)
  qed
  have commit: "\<exists>ro'. commit_round ro = Ret ro' \<and> get_committed_object ro' = ledger_after m C k \<and>
      (get_committed_object ro' \<noteq> None \<longrightarrow> round_inv sh {#} {#} ro')" if "statedb_find T k db = Some ro" for ro
    using commit_object[of sh "C k" ro] km that len by (simp add: ledger_after_def)
  show ?thesis
  proof (cases "trie_get T k (state_db db)")
    case (Some ro)
    then have "statedb_find T k db = Some ro" by (simp add: statedb_find_def)
    from commit[OF this] obtain ro' where c: "commit_round ro = Ret ro'" "get_committed_object ro' = ledger_after m C k"
      "get_committed_object ro' \<noteq> None \<longrightarrow> round_inv sh {#} {#} ro'" by blast
    define t where "t = (if get_committed_object ro' = None then trie_delete T k (trie_put T k ro' (state_db db))
      else trie_put T k ro' (state_db db))"
    have "update_key T k db = Ret (db\<lparr>state_db := t\<rparr>)" using Some c(1) by (simp add: update_key_def t_def Let_def)
    moreover have "goal (db\<lparr>state_db := t\<rparr>)" using T c(2,3)
      by (auto simp: goal_def t_def trie_put_get trie_delete_get statedb_find_def get_committed_object_def
          cong: option.case_cong)
    ultimately show ?thesis using finish by blast
  next
    case None
    show ?thesis
    proof (cases "cache_find k (new_key_cache db)")
      case no: None
      then have "update_key T k db = Ret db" using None T(3) by (simp add: update_key_def cache_commit_and_get_eq)
      moreover have "C k = []" "m k = None" using km(1) None no by (auto simp: statedb_find_def)
      then have "goal db" using T None by (simp add: goal_def ledger_after_def spec_commit_def)
      ultimately show ?thesis using finish by blast
    next
      case (Some ro)
      then have "statedb_find T k db = Some ro" using None by (simp add: statedb_find_def)
      from commit[OF this] obtain ro' where c: "commit_round ro = Ret ro'" "get_committed_object ro' = ledger_after m C k"
        by blast
      define db1 where "db1 = db\<lparr>new_key_cache := cache_write k ro' (new_key_cache db)\<rparr>"
      define db2 where "db2 = (case ledger_after m C k of None \<Rightarrow> db1
        | Some ob \<Rightarrow> db1\<lparr>state_db := trie_put T k (RevertableObject_from ob) (state_db db1)\<rparr>)"
      have "update_key T k db = Ret db2" using None Some T(3) c
        by (simp add: update_key_def cache_commit_and_get_eq db1_def db2_def Let_def split: option.split)
      moreover have "goal db2"
      proof (cases "ledger_after m C k")
        case no: None
        then show ?thesis using T None by (simp add: goal_def db2_def db1_def statedb_find_def cong: option.case_cong)
      next
        case (Some ob)
        have "committed_base (RevertableObject_from ob) = Some ob"
          by (simp add: RevertableObject_from_def Let_def split: ObjectBody.split)
        then show ?thesis using T None Some round_inv_from[of sh ob]
          by (simp add: goal_def db2_def db1_def statedb_find_def trie_put_get cong: option.case_cong)
      qed
      ultimately show ?thesis using finish by blast
    qed
  qed
qed

lemma update_keys_mid:
  assumes "statedb_mid T sh m C D db" "distinct ks" "set ks \<inter> D = {}" "small_block C"
  shows "\<exists>db'. update_keys T ks db = Ret db' \<and> statedb_mid T sh m C (set ks \<union> D) db'"
  using assms
proof (induction ks arbitrary: D db)
  case (Cons k ks)
  from update_key_mid[OF Cons.prems(1), of k] Cons.prems obtain db1 where
    "update_key T k db = Ret db1" "statedb_mid T sh m C (insert k D) db1" by auto
  with Cons.IH[of "insert k D" db1] Cons.prems show ?case by auto
qed simp

text \<open>A database without empty objects is unchanged by normalisation.\<close>

lemma normalize_same:
  assumes T: "trie_laws T" and ko: "key_open sh cb {#} [] (trie_get T k t)" "trie_get T k t = None \<longleftrightarrow> cb = None"
  shows "trie_get T k (hash_and_normalize T t) = trie_get T k t"
proof -
  from T consider "trie_get T k (hash_and_normalize T t) = trie_get T k t"
    | ro where "trie_get T k t = Some ro" "get_committed_object ro = None"
    unfolding trie_laws_def by blast
  then show ?thesis using ko by cases (auto simp: get_committed_object_def)
qed

lemma statedb_inv_normalized:
  assumes "trie_laws T" "cache_ok c" "\<And>k. stored_ok (m k)"
    "\<And>k. key_open sh (m k) {#} [] (trie_get T k t)" "\<And>k. trie_get T k t = None \<longleftrightarrow> m k = None"
  shows "statedb_inv T sh m no_live no_commits
     (db\<lparr>new_key_cache := clear_for_next_block kh c, state_db := hash_and_normalize T t\<rparr>)"
proof -
  have "trie_get T k (hash_and_normalize T t) = trie_get T k t" for k
    by (rule normalize_same[OF assms(1,4,5)])
  moreover have "key_open sh (m k) {#} [] (case trie_get T k t of None \<Rightarrow> None | Some ro \<Rightarrow> Some ro)" for k
    using assms(4)[of k] by (cases "trie_get T k t") auto
  ultimately show ?thesis using assms(1-3,5)
    by (simp add: statedb_inv_def statedb_find_def no_live_def no_commits_def cong: option.case_cong)
qed

lemma statedb_commit_block_law:
  assumes inv: "statedb_inv T sh m no_live C db" and ks: "distinct ks" "\<forall>k. C k \<noteq> [] \<longrightarrow> k \<in> set ks"
    and small: "small_block C"
  shows "\<exists>db'. commit_modifications T kh ks db = Ret db' \<and> statedb_inv T sh (ledger_after m C) no_live no_commits db'"
proof -
  let ?db = "db\<lparr>new_key_cache := finalize_modifications (new_key_cache db)\<rparr>"
  have "statedb_find T k ?db = statedb_find T k db" for k by (simp add: statedb_find_def cong: option.case_cong)
  then have "statedb_mid T sh m C {} ?db"
    using inv by (auto simp: statedb_inv_def statedb_mid_def key_mid_def no_live_def)
  from update_keys_mid[OF this ks(1) _ small] obtain db1 where
    db1: "update_keys T ks ?db = Ret db1" "statedb_mid T sh m C (set ks) db1" by auto
  have key: "key_open sh (ledger_after m C k) {#} [] (trie_get T k (state_db db1)) \<and>
      (trie_get T k (state_db db1) = None \<longleftrightarrow> ledger_after m C k = None)"
    and st: "stored_ok (ledger_after m C k)" for k
  proof -
    have km: "key_mid sh (m k) (C k) (k \<in> set ks) (trie_get T k (state_db db1)) (statedb_find T k db1)"
      using db1(2) by (simp add: statedb_mid_def)
    then show "stored_ok (ledger_after m C k)"
      using stored_ok_spec_commit[of "m k" "C k"] by (simp add: ledger_after_def key_mid_def stored_ok_def)
    show "key_open sh (ledger_after m C k) {#} [] (trie_get T k (state_db db1)) \<and>
      (trie_get T k (state_db db1) = None \<longleftrightarrow> ledger_after m C k = None)"
    proof (cases "k \<in> set ks")
      case False
      then have "C k = []" using ks(2) by blast
      then show ?thesis using km False
        by (cases "trie_get T k (state_db db1)")
          (auto simp: key_mid_def ledger_after_def stored_ok_def statedb_find_def)
    qed (use km in \<open>simp add: key_mid_def ledger_after_def\<close>)
  qed
  have "trie_laws T" "cache_ok (new_key_cache db1)" using db1(2) by (auto simp: statedb_mid_def)
  then have "statedb_inv T sh (ledger_after m C) no_live no_commits
     (db1\<lparr>new_key_cache := clear_for_next_block kh (new_key_cache db1), state_db := hash_and_normalize T (state_db db1)\<rparr>)"
    by (rule statedb_inv_normalized) (use st key in blast)+
  with db1(1) show ?thesis by (simp add: commit_modifications_def)
qed

lemma rewind_keys_get:
  "trie_laws T \<Longrightarrow> distinct ks \<Longrightarrow> trie_get T k (rewind_keys T ks t) =
     (if k \<in> set ks then map_option rewind_round (trie_get T k t) else trie_get T k t)"
  by (induction ks arbitrary: t) (auto simp: trie_put_get split: option.split)

lemma statedb_rewind_block_law:
  assumes inv: "statedb_inv T sh m L C db" and ks: "distinct ks" "\<forall>k. L k \<noteq> {#} \<or> C k \<noteq> [] \<longrightarrow> k \<in> set ks"
  shows "statedb_inv T sh m no_live no_commits (rewind_modifications T kh ks db)"
proof -
  have T: "trie_laws T" "cache_ok (new_key_cache db)" using inv by (auto simp: statedb_inv_def)
  have ko: "key_open sh (m k) {#} [] (trie_get T k (rewind_keys T ks (state_db db))) \<and>
      (trie_get T k (rewind_keys T ks (state_db db)) = None \<longleftrightarrow> m k = None)" for k
  proof -
    have k: "key_open sh (m k) (L k) (C k) (statedb_find T k db)" "trie_get T k (state_db db) = None \<longleftrightarrow> m k = None"
      using inv by (auto simp: statedb_inv_def)
    show ?thesis
    proof (cases "trie_get T k (state_db db)")
      case None
      then show ?thesis using k(2) by (simp add: rewind_keys_get[OF T(1) ks(1)])
    next
      case (Some ro)
      then have r: "round_inv sh (L k) (mset (C k)) ro" "committed_base ro = m k"
        using k(1) by (auto simp: statedb_find_def)
      show ?thesis
      proof (cases "k \<in> set ks")
        case True
        then show ?thesis using Some k(2) r rewind_round_idle[OF r(1)] by (simp add: rewind_keys_get[OF T(1) ks(1)])
      next
        case False
        then have "L k = {#}" "C k = []" using ks(2) by blast+
        then show ?thesis using False Some k(2) r by (simp add: rewind_keys_get[OF T(1) ks(1)])
      qed
    qed
  qed
  have st: "stored_ok (m k)" for k using inv by (simp add: statedb_inv_def)
  have "statedb_inv T sh m no_live no_commits
     (db\<lparr>new_key_cache := clear_for_next_block kh (new_key_cache db),
         state_db := hash_and_normalize T (rewind_keys T ks (state_db db))\<rparr>)"
    by (rule statedb_inv_normalized[OF T]) (use st ko in blast)+
  then show ?thesis by (simp add: rewind_modifications_def)
qed

lemma statedb_apply_known:
  assumes "statedb_inv T sh m L C db" "uid_ok u" "supported d" "size (L k) < 255"
  shows "\<exists>res db' u'. try_apply_delta T sh u k d db = Ret (res, db', u') \<and> uid_ok u' \<and> statedb_known k db' \<and>
     (\<forall>k'. statedb_known k' db \<longrightarrow> statedb_known k' db') \<and>
     (case res of None \<Rightarrow> statedb_inv T sh m L C db'
      | Some rw \<Rightarrow> rw_delta rw = d \<and> statedb_inv T sh m (L(k := add_mset rw (L k))) C db')"
  using statedb_apply_law[OF assms] by (simp add: statedb_known_def)

lemma statedb_commit_known:
  assumes "statedb_inv T sh m (L(k := add_mset rw (L k))) C db"
  shows "\<exists>db' rw'. statedb_rewind_commit T k rw db = Ret (db', rw') \<and>
     statedb_inv T sh m L (C(k := C k @ [rw_delta rw])) db' \<and> (\<forall>k'. statedb_known k' db \<longrightarrow> statedb_known k' db')"
  using statedb_commit_law[OF assms] by (simp add: statedb_known_def)

lemma statedb_destroy_known:
  assumes "statedb_inv T sh m (L(k := add_mset rw (L k))) C db" "uid_ok u"
  shows "\<exists>db' u'. statedb_rewind_destroy T sh u k rw db = Ret (db', u') \<and> uid_ok u' \<and> statedb_inv T sh m L C db' \<and>
     (\<forall>k'. statedb_known k' db \<longrightarrow> statedb_known k' db')"
  using statedb_destroy_law[OF assms] by (simp add: statedb_known_def)

interpretation v1: ledger_db "statedb_inv T sh" "get_committed_value T" "try_apply_delta T sh"
    "statedb_rewind_commit T" "statedb_rewind_destroy T sh" statedb_known "commit_modifications T kh"
    "\<lambda>ks db. Ret (rewind_modifications T kh ks db)" for T sh kh
proof unfold_locales
  fix m L C db ks
  assume "statedb_inv T sh m L C db" "distinct ks" "\<forall>k. L k \<noteq> {#} \<or> C k \<noteq> [] \<longrightarrow> k \<in> set ks"
  from statedb_rewind_block_law[OF this, of kh]
  show "\<exists>db'. Ret (rewind_modifications T kh ks db) = Ret db' \<and> statedb_inv T sh m no_live no_commits db'" by simp
qed (rule statedb_get_law statedb_apply_known statedb_commit_known statedb_destroy_known statedb_commit_block_law; assumption)+

end
