(* ===== verification/StorageProxy.thy ===== *)
theory StorageProxy
  imports StateDBProofs
begin

text \<open>
  The storage of one transaction: \<open>StorageProxy\<close> (\<open>storage_proxy/storage_proxy.cc\<close>) caches
  one \<open>ProxyApplicator\<close> per key and pushes the folded deltas to the state database;
  \<open>TransactionRewind\<close> (\<open>storage_proxy/transaction_rewind.h\<close>) holds the rewinds of the pushed
  deltas, to be committed or destroyed together.

  The state database is a template parameter of the source. Here it is the argument \<open>getc\<close>
  (its committed values) and the operations \<open>apply_d\<close>, \<open>commit_r\<close>, \<open>destroy_r\<close>.
\<close>

section \<open>Definitions\<close>

record StorageProxy =
  cache :: "(AddressAndKey, ProxyApplicator) omap"
  committed_local_values :: bool

definition storage_proxy_new :: StorageProxy where
  "storage_proxy_new = \<lparr>cache = [], committed_local_values = False\<rparr>"

definition get_local :: "ledger \<Rightarrow> AddressAndKey \<Rightarrow> StorageProxy \<Rightarrow> ProxyApplicator \<times> StorageProxy" where
  "get_local getc key sp = (case map_of (cache sp) key of
       Some v \<Rightarrow> (v, sp)
     | None \<Rightarrow> let res = getc key; v = proxy_applicator_new res
               in (v, sp\<lparr>cache := omap_emplace key v (cache sp)\<rparr>))"

definition storage_get :: "ledger \<Rightarrow> AddressAndKey \<Rightarrow> StorageProxy \<Rightarrow> StorageObject option \<times> StorageProxy" where
  "storage_get getc key sp = (let (v, sp1) = get_local getc key sp in (proxy_get v, sp1))"

definition apply_to_key :: "ledger \<Rightarrow> AddressAndKey \<Rightarrow> StorageDelta \<Rightarrow> string \<Rightarrow> StorageProxy \<Rightarrow> StorageProxy outcome" where
  "apply_to_key getc key d err sp =
     (let (v, sp1) = get_local getc key sp
      in obind (try_apply d v) (\<lambda>(ok, v').
           let sp2 = sp1\<lparr>cache := omap_set key v' (cache sp1)\<rparr>
           in if ok then Ret sp2 else Throw (HostError err)))"

definition raw_memory_write :: "ledger \<Rightarrow> AddressAndKey \<Rightarrow> byte list \<Rightarrow> StorageProxy \<Rightarrow> StorageProxy outcome" where
  "raw_memory_write getc key bytes =
     apply_to_key getc key (make_raw_memory_write bytes) ''failed to apply raw_memory_write''"

definition nonnegative_int64_set_add :: "ledger \<Rightarrow> AddressAndKey \<Rightarrow> int64 \<Rightarrow> int64 \<Rightarrow> StorageProxy \<Rightarrow> StorageProxy outcome" where
  "nonnegative_int64_set_add getc key set_value delta_value =
     apply_to_key getc key (make_nonnegative_int64_set_add set_value delta_value)
       ''failed to apply nonnegative_int64_set_add''"

definition nonnegative_int64_add :: "ledger \<Rightarrow> AddressAndKey \<Rightarrow> int64 \<Rightarrow> StorageProxy \<Rightarrow> StorageProxy outcome" where
  "nonnegative_int64_add getc key delta_value sp =
     (let (v, sp1) = get_local getc key sp
      in case get_base_nnint64_set_value v of
           None \<Rightarrow> Throw (HostError ''type mismatch in nonnegative_int64_add'')
         | Some base_value \<Rightarrow>
             apply_to_key getc key (make_nonnegative_int64_set_add base_value delta_value)
               ''failed to apply nonnegative_int64_add'' sp1)"

definition delete_object_last :: "ledger \<Rightarrow> AddressAndKey \<Rightarrow> StorageProxy \<Rightarrow> StorageProxy outcome" where
  "delete_object_last getc key = apply_to_key getc key make_delete_last ''failed to apply delete_last''"

definition hashset_insert :: "ledger \<Rightarrow> AddressAndKey \<Rightarrow> Hash \<Rightarrow> uint64 \<Rightarrow> StorageProxy \<Rightarrow> StorageProxy outcome" where
  "hashset_insert getc key h threshold =
     apply_to_key getc key (make_hash_set_insert h threshold) ''failed to apply hashset insert''"

definition hashset_increase_limit :: "ledger \<Rightarrow> AddressAndKey \<Rightarrow> uint32 \<Rightarrow> StorageProxy \<Rightarrow> StorageProxy outcome" where
  "hashset_increase_limit getc key limit sp =
     (let (v, sp1) = get_local getc key sp
      in if limit > 65535 then Throw (HostError ''limit increase too large'')
         else apply_to_key getc key (make_hash_set_increase_limit (ucast limit))
                ''failed to apply hashset limit increase'' sp1)"

definition hashset_clear :: "ledger \<Rightarrow> AddressAndKey \<Rightarrow> uint64 \<Rightarrow> StorageProxy \<Rightarrow> StorageProxy outcome" where
  "hashset_clear getc key threshold =
     apply_to_key getc key (make_hash_set_clear threshold) ''failed to apply hashset clear''"

definition asset_add :: "ledger \<Rightarrow> AddressAndKey \<Rightarrow> int64 \<Rightarrow> StorageProxy \<Rightarrow> StorageProxy outcome" where
  "asset_add getc key d = apply_to_key getc key (make_asset_add d) ''failed to apply asset add''"

definition assert_not_committed_local_values :: "StorageProxy \<Rightarrow> unit outcome" where
  "assert_not_committed_local_values sp =
     (if committed_local_values sp then Throw (RuntimeError ''double commit'') else Ret ())"

type_synonym TransactionRewind = "(AddressAndKey \<times> DeltaRewind) list"
type_synonym 'db apply_fn = "uid \<Rightarrow> AddressAndKey \<Rightarrow> StorageDelta \<Rightarrow> 'db \<Rightarrow> (DeltaRewind option \<times> 'db \<times> uid) outcome"
type_synonym 'db push_result = "(bool \<times> TransactionRewind \<times> 'db \<times> uid) outcome"

text \<open>The inner loop over the deltas of one key, then the outer loop over the keys.\<close>

fun push_key :: "'db apply_fn \<Rightarrow> AddressAndKey \<Rightarrow> StorageDelta list \<Rightarrow> TransactionRewind \<Rightarrow> 'db \<Rightarrow> uid \<Rightarrow>
    'db push_result" where
  "push_key apply_d k [] rewind db u = Ret (True, rewind, db, u)"
| "push_key apply_d k (d # ds) rewind db u =
     obind (apply_d u k d db) (\<lambda>(res, db', u'). case res of
         Some rw \<Rightarrow> push_key apply_d k ds (rewind @ [(k, rw)]) db' u'
       | None \<Rightarrow> Ret (False, rewind, db', u'))"

fun push_keys :: "'db apply_fn \<Rightarrow> (AddressAndKey \<times> ProxyApplicator) list \<Rightarrow> TransactionRewind \<Rightarrow> 'db \<Rightarrow> uid \<Rightarrow>
    'db push_result" where
  "push_keys apply_d [] rewind db u = Ret (True, rewind, db, u)"
| "push_keys apply_d ((k, v) # kvs) rewind db u =
     obind (push_key apply_d k (get_deltas v) rewind db u) (\<lambda>(ok, rewind', db', u').
       if ok then push_keys apply_d kvs rewind' db' u' else Ret (False, rewind', db', u'))"

definition push_deltas_to_statedb :: "'db apply_fn \<Rightarrow> StorageProxy \<Rightarrow> TransactionRewind \<Rightarrow> 'db \<Rightarrow> uid \<Rightarrow>
    'db push_result" where
  "push_deltas_to_statedb apply_d sp rewind db u =
     obind (assert_not_committed_local_values sp) (\<lambda>_. push_keys apply_d (cache sp) rewind db u)"

fun rewind_commit_all :: "(AddressAndKey \<Rightarrow> DeltaRewind \<Rightarrow> 'db \<Rightarrow> ('db \<times> DeltaRewind) outcome) \<Rightarrow>
    TransactionRewind \<Rightarrow> 'db \<Rightarrow> 'db outcome" where
  "rewind_commit_all commit_r [] db = Ret db"
| "rewind_commit_all commit_r ((k, rw) # rws) db =
     obind (commit_r k rw db) (\<lambda>(db', _). rewind_commit_all commit_r rws db')"

fun rewind_destroy_all :: "(uid \<Rightarrow> AddressAndKey \<Rightarrow> DeltaRewind \<Rightarrow> 'db \<Rightarrow> ('db \<times> uid) outcome) \<Rightarrow>
    TransactionRewind \<Rightarrow> 'db \<Rightarrow> uid \<Rightarrow> ('db \<times> uid) outcome" where
  "rewind_destroy_all destroy_r [] db u = Ret (db, u)"
| "rewind_destroy_all destroy_r ((k, rw) # rws) db u =
     obind (destroy_r u k rw db) (\<lambda>(db', u'). rewind_destroy_all destroy_r rws db' u')"

text \<open>The keys \<open>log_modified_keys\<close> records: every key of the cache, also those only read.\<close>

definition log_modified_keys :: "AddressAndKey list \<Rightarrow> StorageProxy \<Rightarrow> (AddressAndKey list \<times> StorageProxy) outcome" where
  "log_modified_keys keys sp =
     obind (assert_not_committed_local_values sp) (\<lambda>_.
       Ret (foldl (\<lambda>ks (k, _). if k \<in> set ks then ks else ks @ [k]) keys (cache sp),
            sp\<lparr>committed_local_values := True\<rparr>))"

section \<open>Live rewinds and committed deltas of a transaction\<close>

definition add_live :: "live \<Rightarrow> TransactionRewind \<Rightarrow> live" where
  "add_live L rws = (\<lambda>k. L k + mset (map snd (filter (\<lambda>x. fst x = k) rws)))"

definition add_commits :: "commits \<Rightarrow> (AddressAndKey \<times> StorageDelta) list \<Rightarrow> commits" where
  "add_commits C kds = (\<lambda>k. C k @ map snd (filter (\<lambda>x. fst x = k) kds))"

definition rewind_deltas :: "TransactionRewind \<Rightarrow> (AddressAndKey \<times> StorageDelta) list" where
  "rewind_deltas rws = map (\<lambda>(k, rw). (k, rw_delta rw)) rws"

definition proxy_deltas :: "(AddressAndKey \<times> ProxyApplicator) list \<Rightarrow> (AddressAndKey \<times> StorageDelta) list" where
  "proxy_deltas kvs = concat (map (\<lambda>(k, v). map (Pair k) (get_deltas v)) kvs)"

lemma add_live_Nil [simp]: "add_live L [] = L" and add_commits_Nil [simp]: "add_commits C [] = C"
  by (simp_all add: add_live_def add_commits_def)

lemma add_live_Cons: "add_live L ((k, rw) # rws) = (add_live L rws)(k := add_mset rw (add_live L rws k))"
  by (rule ext) (simp add: add_live_def)

lemma add_live_snoc: "add_live L (rws @ [(k, rw)]) = (add_live L rws)(k := add_mset rw (add_live L rws k))"
  by (rule ext) (simp add: add_live_def)

lemma add_commits_Cons: "add_commits C ((k, d) # kds) = add_commits (C(k := C k @ [d])) kds"
  by (rule ext) (simp add: add_commits_def)

lemma rewind_deltas_simps [simp]:
  "rewind_deltas [] = []" "rewind_deltas ((k, rw) # rws) = (k, rw_delta rw) # rewind_deltas rws"
  "rewind_deltas (xs @ ys) = rewind_deltas xs @ rewind_deltas ys"
  by (simp_all add: rewind_deltas_def)

text \<open>The room of the writer counts: at most 255 live rewinds on every key.\<close>

definition room_for :: "live \<Rightarrow> (AddressAndKey \<times> StorageDelta) list \<Rightarrow> bool" where
  "room_for L kds \<longleftrightarrow> (\<forall>k. size (L k) + length (filter (\<lambda>x. fst x = k) kds) \<le> 255)"

lemma room_for_append: "room_for L (xs @ ys) \<Longrightarrow> room_for L xs"
  unfolding room_for_def by (metis (mono_tags, lifting) add_leD1 add.assoc filter_append length_append)

lemma size_add_live: "size (add_live L rws k) = size (L k) + length (filter (\<lambda>x. fst x = k) (rewind_deltas rws))"
  unfolding add_live_def rewind_deltas_def size_union size_mset length_map
  by (simp add: filter_map comp_def split_beta)

lemma room_for_next:
  "room_for L (rewind_deltas rws @ (k, d) # kds) \<Longrightarrow> size (add_live L rws k) < 255"
  by (drule spec[of _ k, OF room_for_def[THEN iffD1]]) (simp add: size_add_live)

section \<open>A transaction on a database that meets its contract\<close>

context ledger_db
begin

lemma push_key_ok:
  assumes "inv m (add_live L rws) C db" "uid_ok u" "list_all supported ds"
    "room_for L (rewind_deltas rws @ map (Pair k) ds)"
  shows "\<exists>ok rws' db' u'. push_key apply_d k ds rws db u = Ret (ok, rws', db', u') \<and> uid_ok u' \<and>
     inv m (add_live L rws') C db' \<and> (\<forall>k'. known k' db \<longrightarrow> known k' db') \<and> (ds \<noteq> [] \<longrightarrow> known k db') \<and>
     (ok \<longrightarrow> rewind_deltas rws' = rewind_deltas rws @ map (Pair k) ds)"
  using assms
proof (induction ds arbitrary: rws db u)
  case (Cons d ds)
  have "size (add_live L rws k) < 255" using Cons.prems(4) room_for_next by simp
  from apply_law[OF Cons.prems(1,2) _ this, of d] Cons.prems(3) obtain res db1 u1 where
    a: "apply_d u k d db = Ret (res, db1, u1)" "uid_ok u1" "known k db1" "\<forall>k'. known k' db \<longrightarrow> known k' db1"
      "case res of None \<Rightarrow> inv m (add_live L rws) C db1
       | Some rw \<Rightarrow> rw_delta rw = d \<and> inv m ((add_live L rws)(k := add_mset rw (add_live L rws k))) C db1" by auto
  show ?case
  proof (cases res)
    case None
    then show ?thesis using a by auto
  next
    case (Some rw)
    then have rw: "rw_delta rw = d" "inv m (add_live L (rws @ [(k, rw)])) C db1"
      using a(5) by (simp_all add: add_live_snoc)
    have "room_for L (rewind_deltas (rws @ [(k, rw)]) @ map (Pair k) ds)" using Cons.prems(4) rw(1) by simp
    from Cons.IH[OF rw(2) a(2) _ this] Cons.prems(3) obtain ok rws' db' u' where
      b: "push_key apply_d k ds (rws @ [(k, rw)]) db1 u1 = Ret (ok, rws', db', u')" "uid_ok u'"
        "inv m (add_live L rws') C db'" "\<forall>k'. known k' db1 \<longrightarrow> known k' db'"
        "ok \<longrightarrow> rewind_deltas rws' = rewind_deltas (rws @ [(k, rw)]) @ map (Pair k) ds" by auto
    have "push_key apply_d k (d # ds) rws db u = Ret (ok, rws', db', u')" using a(1) Some b(1) by simp
    moreover have "\<forall>k'. known k' db \<longrightarrow> known k' db'" "known k db'" using a(3,4) b(4) by blast+
    ultimately show ?thesis using b(2,3,5) rw(1) by auto
  qed
qed auto

lemma push_keys_ok:
  assumes "inv m (add_live L rws) C db" "uid_ok u" "list_all (\<lambda>(k, v). list_all supported (get_deltas v)) kvs"
    "room_for L (rewind_deltas rws @ proxy_deltas kvs)"
  shows "\<exists>ok rws' db' u'. push_keys apply_d kvs rws db u = Ret (ok, rws', db', u') \<and> uid_ok u' \<and>
     inv m (add_live L rws') C db' \<and> (\<forall>k'. known k' db \<longrightarrow> known k' db') \<and>
     (ok \<longrightarrow> rewind_deltas rws' = rewind_deltas rws @ proxy_deltas kvs \<and>
        (\<forall>kd \<in> set (proxy_deltas kvs). known (fst kd) db'))"
  using assms
proof (induction kvs arbitrary: rws db u)
  case Nil
  then show ?case by (auto simp: proxy_deltas_def)
next
  case (Cons kv kvs)
  obtain k v where kv: "kv = (k, v)" by force
  have pd: "proxy_deltas (kv # kvs) = map (Pair k) (get_deltas v) @ proxy_deltas kvs" by (simp add: kv proxy_deltas_def)
  have r1: "room_for L (rewind_deltas rws @ map (Pair k) (get_deltas v))"
    using Cons.prems(4) room_for_append[of L "rewind_deltas rws @ map (Pair k) (get_deltas v)"] by (simp add: pd)
  from push_key_ok[OF Cons.prems(1,2) _ r1] Cons.prems(3) obtain ok rws1 db1 u1 where
    a: "push_key apply_d k (get_deltas v) rws db u = Ret (ok, rws1, db1, u1)" "uid_ok u1"
      "inv m (add_live L rws1) C db1" "\<forall>k'. known k' db \<longrightarrow> known k' db1" "get_deltas v \<noteq> [] \<longrightarrow> known k db1"
      "ok \<longrightarrow> rewind_deltas rws1 = rewind_deltas rws @ map (Pair k) (get_deltas v)" by (auto simp: kv)
  show ?case
  proof (cases ok)
    case False
    then show ?thesis using a by (auto simp: kv)
  next
    case True
    then have "room_for L (rewind_deltas rws1 @ proxy_deltas kvs)" using a(6) Cons.prems(4) by (simp add: pd)
    from Cons.IH[OF a(3,2) _ this] Cons.prems(3) obtain ok2 rws2 db2 u2 where
      b: "push_keys apply_d kvs rws1 db1 u1 = Ret (ok2, rws2, db2, u2)" "uid_ok u2"
        "inv m (add_live L rws2) C db2" "\<forall>k'. known k' db1 \<longrightarrow> known k' db2"
        "ok2 \<longrightarrow> rewind_deltas rws2 = rewind_deltas rws1 @ proxy_deltas kvs \<and>
           (\<forall>kd \<in> set (proxy_deltas kvs). known (fst kd) db2)" by auto
    have "get_deltas v \<noteq> [] \<longrightarrow> known k db2" using a(5) b(4) by blast
    moreover have "\<forall>k'. known k' db \<longrightarrow> known k' db2" using a(4) b(4) by blast
    ultimately show ?thesis unfolding pd unfolding kv using a(1,6) b(1,2,3,5) True by auto
  qed
qed

lemma rewind_commit_all_ok:
  assumes "inv m (add_live L rws) C db"
  shows "\<exists>db'. rewind_commit_all commit_r rws db = Ret db' \<and> inv m L (add_commits C (rewind_deltas rws)) db' \<and>
     (\<forall>k'. known k' db \<longrightarrow> known k' db')"
  using assms
proof (induction rws arbitrary: C db)
  case (Cons x rws)
  obtain k rw where x: "x = (k, rw)" by force
  have "inv m ((add_live L rws)(k := add_mset rw (add_live L rws k))) C db"
    using Cons.prems(1) unfolding x add_live_Cons .
  from commit_law[OF this] obtain db1 rw' where
    c: "commit_r k rw db = Ret (db1, rw')" "inv m (add_live L rws) (C(k := C k @ [rw_delta rw])) db1"
      "\<forall>k'. known k' db \<longrightarrow> known k' db1" by blast
  from Cons.IH[OF c(2)] obtain db' where "rewind_commit_all commit_r rws db1 = Ret db'"
    "inv m L (add_commits (C(k := C k @ [rw_delta rw])) (rewind_deltas rws)) db'" "\<forall>k'. known k' db1 \<longrightarrow> known k' db'"
    by blast
  then show ?case unfolding x using c(1,3) by (simp add: add_commits_Cons del: fun_upd_apply)
qed simp

lemma rewind_destroy_all_ok:
  assumes "inv m (add_live L rws) C db" "uid_ok u"
  shows "\<exists>db' u'. rewind_destroy_all destroy_r rws db u = Ret (db', u') \<and> uid_ok u' \<and> inv m L C db' \<and>
     (\<forall>k'. known k' db \<longrightarrow> known k' db')"
  using assms
proof (induction rws arbitrary: db u)
  case (Cons x rws)
  obtain k rw where x: "x = (k, rw)" by force
  have "inv m ((add_live L rws)(k := add_mset rw (add_live L rws k))) C db"
    using Cons.prems(1) unfolding x add_live_Cons .
  from destroy_law[OF this Cons.prems(2)] obtain db1 u1 where
    c: "destroy_r u k rw db = Ret (db1, u1)" "uid_ok u1" "inv m (add_live L rws) C db1"
      "\<forall>k'. known k' db \<longrightarrow> known k' db1" by blast
  from Cons.IH[OF c(3,2)] obtain db' u' where "rewind_destroy_all destroy_r rws db1 u1 = Ret (db', u')"
    "uid_ok u'" "inv m L C db'" "\<forall>k'. known k' db1 \<longrightarrow> known k' db'" by blast
  then show ?case unfolding x using c(1,4) by simp
qed simp

end

section \<open>The operations of a contract on its proxy\<close>

text \<open>One storage operation of a contract on the proxy of its transaction, when it does not throw.\<close>

inductive storage_step :: "ledger \<Rightarrow> AddressAndKey \<Rightarrow> StorageProxy \<Rightarrow> StorageProxy \<Rightarrow> bool" for getc k where
  step_get: "storage_get getc k sp = (v, sp') \<Longrightarrow> storage_step getc k sp sp'"
| step_raw: "raw_memory_write getc k bytes sp = Ret sp' \<Longrightarrow> storage_step getc k sp sp'"
| step_nn_set: "nonnegative_int64_set_add getc k s d sp = Ret sp' \<Longrightarrow> storage_step getc k sp sp'"
| step_nn_add: "nonnegative_int64_add getc k d sp = Ret sp' \<Longrightarrow> storage_step getc k sp sp'"
| step_delete: "delete_object_last getc k sp = Ret sp' \<Longrightarrow> storage_step getc k sp sp'"
| step_insert: "hashset_insert getc k h t sp = Ret sp' \<Longrightarrow> storage_step getc k sp sp'"
| step_limit: "hashset_increase_limit getc k l sp = Ret sp' \<Longrightarrow> storage_step getc k sp sp'"
| step_clear: "hashset_clear getc k t sp = Ret sp' \<Longrightarrow> storage_step getc k sp sp'"
| step_asset: "asset_add getc k d sp = Ret sp' \<Longrightarrow> storage_step getc k sp sp'"

lemmas storage_op_defs = raw_memory_write_def nonnegative_int64_set_add_def delete_object_last_def hashset_insert_def
  hashset_clear_def asset_add_def

definition sp_ok :: "ledger \<Rightarrow> StorageProxy \<Rightarrow> bool" where
  "sp_ok m sp \<longleftrightarrow> omap_ok (cache sp) \<and> (\<forall>k v. map_of (cache sp) k = Some v \<longrightarrow> proxy_inv (m k) v) \<and>
     \<not> committed_local_values sp"

lemma sp_ok_new: "sp_ok m storage_proxy_new"
  by (simp add: sp_ok_def storage_proxy_new_def)

lemma get_local_ok:
  assumes "sp_ok m sp" "\<forall>k. hash_sets_ok (m k)"
  shows "\<exists>v sp'. get_local m k sp = (v, sp') \<and> sp_ok m sp' \<and> map_of (cache sp') k = Some v \<and> proxy_inv (m k) v"
  using assms proxy_inv_new[of "m k"]
  by (cases "map_of (cache sp) k") (auto simp: get_local_def sp_ok_def Let_def map_of_omap_emplace)

lemma apply_to_key_ok:
  assumes "sp_ok m sp" "\<forall>k. hash_sets_ok (m k)" "supported d"
  shows "(\<exists>sp'. apply_to_key m k d e sp = Ret sp' \<and> sp_ok m sp') \<or> apply_to_key m k d e sp = Throw (HostError e)"
proof -
  obtain v sp1 where g: "get_local m k sp = (v, sp1)" "sp_ok m sp1" "proxy_inv (m k) v"
    using get_local_ok[OF assms(1,2)] by blast
  have "step_ok (m k) (try_apply d v)" using try_apply_ok g(3) assms(2,3) by blast
  then obtain ok v' where t: "try_apply d v = Ret (ok, v')" "ok \<Longrightarrow> proxy_inv (m k) v'" by (auto simp: step_ok_def)
  then show ?thesis using g by (cases ok) (auto simp: apply_to_key_def Let_def sp_ok_def)
qed

lemma apply_to_key_keeps:
  "apply_to_key m k d e sp = Ret sp' \<Longrightarrow> sp_ok m sp \<Longrightarrow> \<forall>k. hash_sets_ok (m k) \<Longrightarrow> supported d \<Longrightarrow> sp_ok m sp'"
  using apply_to_key_ok[of m sp d k e] by auto

lemma storage_get_ok:
  assumes "sp_ok m sp" "\<forall>k. hash_sets_ok (m k)"
  shows "storage_get m k sp = (v, sp') \<Longrightarrow> sp_ok m sp'"
  using get_local_ok[OF assms, of k] by (auto simp: storage_get_def)

lemma storage_step_ok:
  assumes "storage_step m k sp sp'" "sp_ok m sp" "\<forall>k. hash_sets_ok (m k)"
  shows "sp_ok m sp'"
  using assms
proof (induction rule: storage_step.induct)
  case (step_get sp v sp')
  then show ?case using storage_get_ok by blast
next
  case (step_nn_add d sp sp')
  obtain v sp1 where g: "get_local m k sp = (v, sp1)" "sp_ok m sp1" using get_local_ok[OF step_nn_add(2,3)] by blast
  with step_nn_add show ?case
    by (auto simp: nonnegative_int64_add_def make_nonnegative_int64_set_add_def Let_def elim: apply_to_key_keeps split: option.splits)
next
  case (step_limit l sp sp')
  obtain v sp1 where g: "get_local m k sp = (v, sp1)" "sp_ok m sp1" using get_local_ok[OF step_limit(2,3)] by blast
  with step_limit show ?case
    by (auto simp: hashset_increase_limit_def make_hash_set_increase_limit_def Let_def elim: apply_to_key_keeps split: if_splits)
qed (auto simp: storage_op_defs make_raw_memory_write_def make_nonnegative_int64_set_add_def make_delete_last_def
    make_hash_set_insert_def make_hash_set_clear_def make_asset_add_def elim!: apply_to_key_keeps)

lemma proxy_deltas_supported: "list_all (\<lambda>(k, d). supported d) (proxy_deltas kvs)"
  by (auto simp: proxy_deltas_def list_all_iff get_deltas_def make_raw_memory_write_def make_nonnegative_int64_set_add_def
      make_delete_last_def make_hash_set_increase_limit_def make_hash_set_insert_entry_def make_hash_set_clear_def make_asset_add_def
      split: option.splits if_splits)


text \<open>The proxies a contract can build when every read returns the ledger \<open>m\<close>.\<close>

inductive storage_reach :: "ledger \<Rightarrow> StorageProxy \<Rightarrow> bool" for m where
  reach_new: "storage_reach m storage_proxy_new"
| reach_step: "storage_reach m sp \<Longrightarrow> storage_step m k sp sp' \<Longrightarrow> storage_reach m sp'"

lemma get_local_flag: "get_local m k sp = (v, sp') \<Longrightarrow> committed_local_values sp' = committed_local_values sp"
  by (auto simp: get_local_def Let_def split: option.splits)

lemma apply_to_key_flag: "apply_to_key m k d e sp = Ret sp' \<Longrightarrow> committed_local_values sp' = committed_local_values sp"
  by (cases "get_local m k sp") (auto simp: apply_to_key_def Let_def outcome_simps dest: get_local_flag split: if_splits)

lemma storage_step_flag: "storage_step m k sp sp' \<Longrightarrow> committed_local_values sp' = committed_local_values sp"
proof (induction rule: storage_step.induct)
  case (step_get sp v sp')
  then show ?case by (cases "get_local m k sp") (auto simp: storage_get_def dest: get_local_flag)
next
  case (step_nn_add d sp sp')
  then show ?case by (cases "get_local m k sp")
    (auto simp: nonnegative_int64_add_def Let_def dest: get_local_flag apply_to_key_flag split: option.splits)
next
  case (step_limit l sp sp')
  then show ?case by (cases "get_local m k sp")
    (auto simp: hashset_increase_limit_def Let_def dest: get_local_flag apply_to_key_flag split: if_splits)
qed (auto simp: storage_op_defs dest: apply_to_key_flag)

lemma storage_reach_flag: "storage_reach m sp \<Longrightarrow> \<not> committed_local_values sp"
  by (induction rule: storage_reach.induct) (auto simp: storage_proxy_new_def dest: storage_step_flag)


end
