(* ===== verification/Bytes.thy ===== *)
theory Bytes
  imports Prelude
begin

text \<open>
  Byte strings of machine words: the big-endian and little-endian encodings the sources use
  for trie keys, digests and contract data, their inverses and the round trips.
\<close>

section \<open>Encodings\<close>

primrec be_bytes :: "nat \<Rightarrow> 'a :: len word \<Rightarrow> byte list" where
  "be_bytes 0 w = []"
| "be_bytes (Suc n) w = ucast (drop_bit (8 * n) w) # be_bytes n w"

definition be_step :: "'a :: len word \<Rightarrow> byte \<Rightarrow> 'a word" where
  "be_step acc b = push_bit 8 acc OR ucast b"

definition be_word :: "byte list \<Rightarrow> 'a :: len word" where
  "be_word bs = foldl be_step 0 bs"

definition le_bytes :: "nat \<Rightarrow> 'a :: len word \<Rightarrow> byte list" where
  "le_bytes n w = rev (be_bytes n w)"

definition le_word :: "byte list \<Rightarrow> 'a :: len word" where
  "le_word bs = be_word (rev bs)"

section \<open>Lengths and round trips\<close>

lemma length_be_bytes [simp]: "length (be_bytes n w) = n"
  by (induction n) simp_all

lemma length_le_bytes [simp]: "length (le_bytes n w) = n"
  by (simp add: le_bytes_def)

lemma be_step_byte:
  fixes w :: "'a :: len word"
  shows "be_step acc (ucast (drop_bit (8 * n) w)) = push_bit 8 acc OR take_bit 8 (drop_bit (8 * n) w)"
  by (rule bit_word_eqI) (auto simp: be_step_def bit_simps)

lemma be_word_acc:
  fixes w :: "'a :: len word"
  shows "foldl be_step acc (be_bytes n w) = push_bit (8 * n) acc OR take_bit (8 * n) w"
proof (induction n arbitrary: acc)
  case 0
  show ?case by simp
next
  case (Suc n)
  have "push_bit (8 * n) (push_bit 8 acc OR take_bit 8 (drop_bit (8 * n) w)) OR take_bit (8 * n) w =
      push_bit (8 * Suc n) acc OR take_bit (8 * Suc n) w"
    by (rule bit_word_eqI) (auto simp: bit_simps not_less algebra_simps)
  then show ?case by (simp add: Suc.IH be_step_byte)
qed

lemma be_word_be_bytes: "be_word (be_bytes n (w :: 'a :: len word)) = (take_bit (8 * n) w :: 'a word)"
  by (simp add: be_word_def be_word_acc)

lemma be_roundtrip [simp]:
  fixes w :: "'a :: len word"
  shows "LENGTH('a) \<le> 8 * n \<Longrightarrow> be_word (be_bytes n w) = w"
  by (rule bit_word_eqI) (simp add: be_word_be_bytes bit_simps)

lemma le_roundtrip [simp]:
  fixes w :: "'a :: len word"
  shows "LENGTH('a) \<le> 8 * n \<Longrightarrow> le_word (le_bytes n w) = w"
  by (simp add: le_word_def le_bytes_def)

lemma be_bytes_inject [simp]:
  fixes w v :: "'a :: len word"
  assumes "LENGTH('a) \<le> 8 * n"
  shows "be_bytes n w = be_bytes n v \<longleftrightarrow> w = v"
  using be_roundtrip[OF assms, of w] be_roundtrip[OF assms, of v] by metis

lemma le_bytes_inject [simp]:
  fixes w v :: "'a :: len word"
  assumes "LENGTH('a) \<le> 8 * n"
  shows "le_bytes n w = le_bytes n v \<longleftrightarrow> w = v"
  using assms by (simp add: le_bytes_def)

lemma append_eq_same_length:
  "length xs = length xs' \<Longrightarrow> xs @ ys = xs' @ ys' \<longleftrightarrow> xs = xs' \<and> ys = ys'"
  by simp

end
