(* ===== verification/ModificationLog.thy ===== *)
theory ModificationLog
  imports Storage Bytes
begin

text \<open>
  What a block records of the storage keys it touches: \<open>ModifiedKeysList\<close>
  (\<open>state_db/modified_keys_list.cc\<close>), the set of keys, and \<open>TypedModificationIndex\<close>
  (\<open>state_db/typed_modification_index.cc\<close>), one entry per delta and transaction, whose trie
  nodes carry a \<open>ModificationMetadata\<close> (\<open>state_db/modification_metadata.h\<close>).

  The ephemeral trie is a library of another repository: its lookup, insertion, enumeration
  and root hash are the fields of \<open>kv_ops\<close>, and \<open>kv_laws\<close> is what the code relies on.
  So are the generic hash (argument \<open>hr\<close>) and the base class of the metadata (\<open>base_ops\<close>).
\<close>

section \<open>Ephemeral tries\<close>

record ('k, 'v, 't) kv_ops =
  kv_empty :: 't
  kv_get :: "'k \<Rightarrow> 't \<Rightarrow> 'v option"
  kv_put :: "'k \<Rightarrow> 'v \<Rightarrow> 't \<Rightarrow> 't"
  kv_entries :: "'t \<Rightarrow> ('k \<times> 'v) list"
  kv_hash :: "'t \<Rightarrow> Hash"

definition kv_laws :: "('k, 'v, 't) kv_ops \<Rightarrow> bool" where
  "kv_laws K \<longleftrightarrow>
     (\<forall>k. kv_get K k (kv_empty K) = None) \<and>
     (\<forall>k v t k'. kv_get K k' (kv_put K k v t) = (if k' = k then Some v else kv_get K k' t)) \<and>
     (\<forall>t. distinct (map fst (kv_entries K t))) \<and>
     (\<forall>t k. map_of (kv_entries K t) k = kv_get K k t)"

definition assoc_kv :: "('k, 'v, ('k \<times> 'v) list) kv_ops" where
  "assoc_kv = \<lparr>kv_empty = [], kv_get = (\<lambda>k t. map_of t k), kv_put = (\<lambda>k v t. (k, v) # t),
     kv_entries = (\<lambda>t. map (\<lambda>k. (k, the (map_of t k))) (remdups (map fst t))), kv_hash = (\<lambda>_. 0)\<rparr>"

lemma assoc_kv_laws: "kv_laws assoc_kv"
proof -
  have "map_of (map (\<lambda>k. (k, the (map_of t k))) (remdups (map fst t))) k = map_of t k"
    for t :: "('a \<times> 'b) list" and k
  proof (cases "k \<in> fst ` set t")
    case True
    then obtain v where "map_of t k = Some v" by (metis map_of_eq_None_iff not_None_eq)
    then show ?thesis using True by (simp add: map_of_map_restrict restrict_map_def)
  next
    case False
    then have "map_of t k = None" by (simp add: map_of_eq_None_iff)
    with False show ?thesis by (simp add: map_of_map_restrict restrict_map_def)
  qed
  moreover have "distinct (map fst (map (\<lambda>k. (k, the (map_of t k))) (remdups (map fst t))))"
    for t :: "('a \<times> 'b) list" by (simp add: comp_def)
  ultimately show ?thesis unfolding kv_laws_def assoc_kv_def by simp
qed

lemma kv_lawsD:
  assumes "kv_laws K"
  shows "kv_get K k (kv_empty K) = None"
    "kv_get K k' (kv_put K k v t) = (if k' = k then Some v else kv_get K k' t)"
    "distinct (map fst (kv_entries K t))" "map_of (kv_entries K t) k = kv_get K k t"
  using assms unfolding kv_laws_def by blast+

lemma kv_entries_iff: "kv_laws K \<Longrightarrow> (k, v) \<in> set (kv_entries K t) \<longleftrightarrow> kv_get K k t = Some v"
  by (metis kv_lawsD(3,4) map_of_eq_Some_iff)

section \<open>The list of modified keys\<close>

record 't ModifiedKeysList =
  mk_keys :: 't
  logs_merged :: bool

definition mkl_new :: "(AddressAndKey, unit, 't) kv_ops \<Rightarrow> 't ModifiedKeysList" where
  "mkl_new K = \<lparr>mk_keys = kv_empty K, logs_merged = False\<rparr>"

definition assert_logs_merged :: "'t ModifiedKeysList \<Rightarrow> unit outcome" where
  "assert_logs_merged l = (if \<not> logs_merged l then Throw (RuntimeError ''logs not merged'') else Ret ())"

definition assert_logs_not_merged :: "'t ModifiedKeysList \<Rightarrow> unit outcome" where
  "assert_logs_not_merged l = (if logs_merged l then Throw (RuntimeError ''logs already merged'') else Ret ())"

definition log_key :: "(AddressAndKey, unit, 't) kv_ops \<Rightarrow> AddressAndKey \<Rightarrow> 't ModifiedKeysList \<Rightarrow>
    't ModifiedKeysList outcome" where
  "log_key K key l = obind (assert_logs_not_merged l) (\<lambda>_. Ret (l\<lparr>mk_keys := kv_put K key () (mk_keys l)\<rparr>))"

definition merge_logs :: "'t ModifiedKeysList \<Rightarrow> 't ModifiedKeysList outcome" where
  "merge_logs l = obind (assert_logs_not_merged l) (\<lambda>_. Ret (l\<lparr>logs_merged := True\<rparr>))"

definition get_keys :: "(AddressAndKey, unit, 't) kv_ops \<Rightarrow> 't ModifiedKeysList \<Rightarrow> AddressAndKey list outcome" where
  "get_keys K l = obind (assert_logs_merged l) (\<lambda>_. Ret (map fst (kv_entries K (mk_keys l))))"

definition mkl_hash :: "(AddressAndKey, unit, 't) kv_ops \<Rightarrow> 't ModifiedKeysList \<Rightarrow> Hash outcome" where
  "mkl_hash K l = obind (assert_logs_merged l) (\<lambda>_. Ret (kv_hash K (mk_keys l)))"

definition mkl_clear :: "(AddressAndKey, unit, 't) kv_ops \<Rightarrow> 't ModifiedKeysList \<Rightarrow> 't ModifiedKeysList" where
  "mkl_clear K l = l\<lparr>mk_keys := kv_empty K, logs_merged := False\<rparr>"

definition logged_keys :: "(AddressAndKey, unit, 't) kv_ops \<Rightarrow> 't ModifiedKeysList \<Rightarrow> AddressAndKey set" where
  "logged_keys K l = {k. kv_get K k (mk_keys l) \<noteq> None}"

lemmas mkl_defs = mkl_new_def assert_logs_merged_def assert_logs_not_merged_def log_key_def merge_logs_def
  get_keys_def mkl_hash_def mkl_clear_def

lemma logged_keys_simps [simp]:
  assumes "kv_laws K"
  shows "logged_keys K (mkl_new K) = {}" "logged_keys K (mkl_clear K l) = {}"
    "logged_keys K (l\<lparr>mk_keys := kv_put K k () (mk_keys l)\<rparr>) = insert k (logged_keys K l)"
    "logged_keys K (l\<lparr>logs_merged := b\<rparr>) = logged_keys K l"
  using assms by (auto simp: logged_keys_def mkl_defs kv_lawsD split: if_splits)

lemma get_keys_logged:
  assumes "kv_laws K" "get_keys K l = Ret ks"
  shows "distinct ks \<and> set ks = logged_keys K l"
proof -
  have "set (map fst (kv_entries K (mk_keys l))) = logged_keys K l"
    using kv_lawsD(4)[OF assms(1), symmetric] by (simp add: logged_keys_def map_of_eq_None_iff)
  then show ?thesis using assms(2) kv_lawsD(3)[OF assms(1), of "mk_keys l"]
    by (auto simp: mkl_defs split: if_splits)
qed

section \<open>Keys of the typed index\<close>

definition modification_key_length :: nat where "modification_key_length = 32 + 8"

fun delta_type_value :: "StorageDelta \<Rightarrow> byte" where
  "delta_type_value DELETE_LAST = 0"
| "delta_type_value (RAW_MEMORY_WRITE _) = 1"
| "delta_type_value (NONNEGATIVE_INT64_SET_ADD _ _) = 2"
| "delta_type_value (HASH_SET_INSERT _) = 3"
| "delta_type_value (HASH_SET_INCREASE_LIMIT _) = 4"
| "delta_type_value (HASH_SET_CLEAR _) = 5"
| "delta_type_value (UNCONSTRAINED_INT64_SET_ADD _ _) = 6"
| "delta_type_value (UNCONSTRAINED_INT64_SET_MAX _ _) = 7"
| "delta_type_value (UNCONSTRAINED_INT64_SET_XOR _ _) = 8"
| "delta_type_value (ASSET_OBJECT_ADD _) = 9"

fun modification_bytes :: "(byte list \<Rightarrow> Hash) \<Rightarrow> StorageDelta \<Rightarrow> byte list outcome" where
  "modification_bytes hr DELETE_LAST = Ret []"
| "modification_bytes hr (RAW_MEMORY_WRITE d) = Ret (be_bytes 32 (hr d))"
| "modification_bytes hr (NONNEGATIVE_INT64_SET_ADD s d) = Ret (be_bytes 8 s @ be_bytes 8 d)"
| "modification_bytes hr (HASH_SET_INSERT e) = Ret (be_bytes 32 (hash e) @ be_bytes 8 (index e))"
| "modification_bytes hr (HASH_SET_INCREASE_LIMIT l) = Ret (be_bytes 4 l)"
| "modification_bytes hr (HASH_SET_CLEAR t) = Ret (be_bytes 8 t)"
| "modification_bytes hr (ASSET_OBJECT_ADD d) = Ret (be_bytes 8 d)"
| "modification_bytes hr d = Throw (RuntimeError ''unimplemented'')"

text \<open>The key buffer starts zeroed and every part is copied to a fixed offset.\<close>

definition pad_to :: "nat \<Rightarrow> byte list \<Rightarrow> byte list" where
  "pad_to n bs = bs @ replicate (n - length bs) 0"

definition make_index_key :: "(byte list \<Rightarrow> Hash) \<Rightarrow> AddressAndKey \<Rightarrow> StorageDelta \<Rightarrow> Hash \<Rightarrow> byte list outcome" where
  "make_index_key hr addrkey d src_tx_hash =
     obind (modification_bytes hr d) (\<lambda>mb.
       Ret (be_bytes 64 addrkey @ [delta_type_value d] @ pad_to modification_key_length mb @ be_bytes 32 src_tx_hash))"

definition log_modification :: "(byte list, StorageDelta, 't) kv_ops \<Rightarrow> (byte list \<Rightarrow> Hash) \<Rightarrow>
    AddressAndKey \<Rightarrow> StorageDelta \<Rightarrow> Hash \<Rightarrow> 't \<Rightarrow> 't outcome" where
  "log_modification K hr addrkey md src_tx_hash idx =
     obind (make_index_key hr addrkey md src_tx_hash) (\<lambda>key. Ret (kv_put K key md idx))"

record IndexedModification =
  addr :: AddressAndKey
  tx_hash :: Hash
  mod_delta :: StorageDelta

definition indexed_modification :: "byte list \<times> StorageDelta \<Rightarrow> IndexedModification" where
  "indexed_modification kd = (case kd of (prefix, d) \<Rightarrow>
     \<lparr>addr = be_word (take 64 prefix), tx_hash = be_word (drop (length prefix - 32) prefix), mod_delta = d\<rparr>)"

definition save_modifications :: "(byte list, StorageDelta, 't) kv_ops \<Rightarrow> 't \<Rightarrow> IndexedModification list" where
  "save_modifications K idx = map indexed_modification (kv_entries K idx)"

definition tmi_hash :: "(byte list, StorageDelta, 't) kv_ops \<Rightarrow> 't \<Rightarrow> Hash" where
  "tmi_hash K idx = kv_hash K idx"

definition tmi_clear :: "(byte list, StorageDelta, 't) kv_ops \<Rightarrow> 't \<Rightarrow> 't" where
  "tmi_clear K idx = kv_empty K"

fun log_modifications :: "(byte list, StorageDelta, 't) kv_ops \<Rightarrow> (byte list \<Rightarrow> Hash) \<Rightarrow>
    IndexedModification list \<Rightarrow> 't \<Rightarrow> 't outcome" where
  "log_modifications K hr [] idx = Ret idx"
| "log_modifications K hr (x # xs) idx =
     obind (log_modification K hr (addr x) (mod_delta x) (tx_hash x) idx) (log_modifications K hr xs)"


lemma modification_bytes_Ret: "supported d \<Longrightarrow> \<exists>mb. modification_bytes hr d = Ret mb \<and> length mb \<le> modification_key_length"
  by (cases d) (simp_all add: modification_key_length_def)

lemma make_index_key_Ret: "supported d \<Longrightarrow> \<exists>k. make_index_key hr a d h = Ret k"
  using modification_bytes_Ret[of d hr] by (auto simp: make_index_key_def)

lemma length_pad_to: "length bs \<le> n \<Longrightarrow> length (pad_to n bs) = n"
  by (simp add: pad_to_def)

lemma pad_to_same_length: "length bs = length cs \<Longrightarrow> pad_to n bs = pad_to n cs \<Longrightarrow> bs = cs"
  by (simp add: pad_to_def)

lemma delta_type_value_length:
  assumes "delta_type_value d = delta_type_value d'" "modification_bytes hr d = Ret mb" "modification_bytes hr d' = Ret mb'"
  shows "length mb = length mb'"
  using assms by (cases d; cases d') auto

definition same_modification :: "(byte list \<Rightarrow> Hash) \<Rightarrow> StorageDelta \<Rightarrow> StorageDelta \<Rightarrow> bool" where
  "same_modification hr d d' \<longleftrightarrow> d = d' \<or>
     (\<exists>x y. d = RAW_MEMORY_WRITE x \<and> d' = RAW_MEMORY_WRITE y \<and> hr x = hr y)"

lemma modification_bytes_inj:
  assumes "delta_type_value d = delta_type_value d'" "modification_bytes hr d = Ret mb" "modification_bytes hr d' = Ret mb"
  shows "same_modification hr d d'"
  using assms by (cases d; cases d') (auto simp: same_modification_def intro: HashSetEntry.expand)

lemma make_index_key_inj:
  assumes "make_index_key hr a d h = Ret k" "make_index_key hr a' d' h' = Ret k"
  shows "a = a' \<and> h = h' \<and> same_modification hr d d'"
proof -
  obtain mb mb' where mb: "modification_bytes hr d = Ret mb" "modification_bytes hr d' = Ret mb'"
    and k: "k = be_bytes 64 a @ [delta_type_value d] @ pad_to modification_key_length mb @ be_bytes 32 h"
      "k = be_bytes 64 a' @ [delta_type_value d'] @ pad_to modification_key_length mb' @ be_bytes 32 h'"
    using assms by (auto simp: make_index_key_def outcome_simps)
  have len: "length mb \<le> modification_key_length" "length mb' \<le> modification_key_length"
    using mb by (cases d; auto simp: modification_key_length_def; cases d'; auto simp: modification_key_length_def)+
  from k have "be_bytes 64 a = be_bytes 64 a'" and t: "delta_type_value d = delta_type_value d'"
    and "pad_to modification_key_length mb @ be_bytes 32 h = pad_to modification_key_length mb' @ be_bytes 32 h'"
    by (auto simp: append_eq_same_length)
  then have "a = a'" "pad_to modification_key_length mb = pad_to modification_key_length mb'" "be_bytes 32 h = be_bytes 32 h'"
    using len by (simp_all add: append_eq_same_length length_pad_to)
  moreover from this have "mb = mb'" using delta_type_value_length[OF t mb] pad_to_same_length by blast
  ultimately show ?thesis using modification_bytes_inj[OF t mb(1)] mb(2) by simp
qed

lemma make_index_key_length: "make_index_key hr a d h = Ret k \<Longrightarrow> length k = 137"
  using modification_bytes_Ret[of d hr]
  by (cases d) (auto simp: make_index_key_def outcome_simps length_pad_to modification_key_length_def pad_to_def)

lemma indexed_modification_key:
  assumes "make_index_key hr a d h = Ret k"
  shows "indexed_modification (k, d) = \<lparr>addr = a, tx_hash = h, mod_delta = d\<rparr>"
proof -
  obtain bs where k: "k = be_bytes 64 a @ bs @ be_bytes 32 h" using assms by (auto simp: make_index_key_def outcome_simps)
  then have "drop (length k - 32) k = be_bytes 32 h" by simp
  then show ?thesis using k by (simp add: indexed_modification_def)
qed

section \<open>The index keeps every modification\<close>

lemma log_modifications_entries:
  assumes "kv_laws K" "log_modifications K hr ms idx = Ret idx'" "inj_on hr R"
    "\<And>x bs. x \<in> set ms \<Longrightarrow> mod_delta x = RAW_MEMORY_WRITE bs \<Longrightarrow> bs \<in> R"
    "\<And>k v bs. kv_get K k idx = Some v \<Longrightarrow> v = RAW_MEMORY_WRITE bs \<Longrightarrow> bs \<in> R"
    "\<And>k v. kv_get K k idx = Some v \<Longrightarrow> \<exists>a h. make_index_key hr a v h = Ret k"
  shows "set (save_modifications K idx') = set (save_modifications K idx) \<union> set ms"
  using assms(2,4,5,6)
proof (induction ms arbitrary: idx)
  case (Cons x ms)
  from Cons.prems(1) obtain key where key: "make_index_key hr (addr x) (mod_delta x) (tx_hash x) = Ret key"
    and rest: "log_modifications K hr ms (kv_put K key (mod_delta x) idx) = Ret idx'"
    by (auto simp: log_modification_def outcome_simps)
  let ?idx = "kv_put K key (mod_delta x) idx"
  have old: "v = mod_delta x" if g: "kv_get K key idx = Some v" for v
  proof -
    obtain a h where "make_index_key hr a v h = Ret key" using Cons.prems(4)[OF g] by blast
    from make_index_key_inj[OF this key] have "same_modification hr v (mod_delta x)" by simp
    then show ?thesis unfolding same_modification_def
      using Cons.prems(2)[of x] Cons.prems(3)[OF g] assms(3) by (auto dest: inj_onD)
  qed
  have entries: "set (kv_entries K ?idx) = insert (key, mod_delta x) (set (kv_entries K idx))"
    using old by (auto simp: kv_entries_iff[OF assms(1)] kv_lawsD(2)[OF assms(1)] split: if_splits)
  have "set (save_modifications K ?idx) = insert x (set (save_modifications K idx))"
  proof -
    have "indexed_modification (key, mod_delta x) = x"
      by (rule IndexedModification.equality) (simp_all add: indexed_modification_key[OF key])
    then show ?thesis by (simp add: save_modifications_def entries)
  qed
  moreover have "set (save_modifications K idx') = set (save_modifications K ?idx) \<union> set ms"
    by (rule Cons.IH[OF rest]) (use Cons.prems key in \<open>auto simp: kv_lawsD(2)[OF assms(1)] split: if_splits\<close>)
  ultimately show ?case by auto
qed simp

text \<open>
  C33: the index of a block returns exactly the modifications that were logged. Whatever supported
  modifications the transactions of a block log, in whatever order, reading the index back gives
  the set of all of them (address, transaction, delta): no two different modifications share a
  trie key, provided the generic hash does not collide on the raw memory contents written.
\<close>

theorem typed_index_roundtrip:
  assumes "kv_laws K" "list_all (\<lambda>x. supported (mod_delta x)) ms"
    "inj_on hr {bs. \<exists>x \<in> set ms. mod_delta x = RAW_MEMORY_WRITE bs}"
  shows "\<exists>idx. log_modifications K hr ms (kv_empty K) = Ret idx \<and> set (save_modifications K idx) = set ms"
proof -
  have "\<exists>idx. log_modifications K hr ms i = Ret idx" for i
    using assms(2)
  proof (induction ms arbitrary: i)
    case (Cons x ms)
    then have "supported (mod_delta x)" by simp
    then obtain k where "make_index_key hr (addr x) (mod_delta x) (tx_hash x) = Ret k"
      using make_index_key_Ret by blast
    then show ?case using Cons by (simp add: log_modification_def)
  qed simp
  then obtain idx where idx: "log_modifications K hr ms (kv_empty K) = Ret idx" by blast
  have "save_modifications K (kv_empty K) = []"
    using kv_lawsD(1)[OF assms(1)] kv_entries_iff[OF assms(1), of _ _ "kv_empty K"]
    by (cases "kv_entries K (kv_empty K)") (auto simp: save_modifications_def)
  then show ?thesis
    using idx log_modifications_entries[OF assms(1) idx assms(3)] kv_lawsD(1)[OF assms(1)] by auto
qed

theorem typed_index_roundtrip_witness:
  "\<exists>idx. log_modifications assoc_kv (\<lambda>bs. of_nat (length bs))
     [\<lparr>addr = 1, tx_hash = 2, mod_delta = RAW_MEMORY_WRITE [7]\<rparr>, \<lparr>addr = 1, tx_hash = 3, mod_delta = ASSET_OBJECT_ADD 5\<rparr>,
      \<lparr>addr = 1, tx_hash = 2, mod_delta = RAW_MEMORY_WRITE []\<rparr>] [] = Ret idx \<and>
   set (save_modifications assoc_kv idx) =
     {\<lparr>addr = 1, tx_hash = 2, mod_delta = RAW_MEMORY_WRITE [7]\<rparr>, \<lparr>addr = 1, tx_hash = 3, mod_delta = ASSET_OBJECT_ADD 5\<rparr>,
      \<lparr>addr = 1, tx_hash = 2, mod_delta = RAW_MEMORY_WRITE []\<rparr>}"
  using typed_index_roundtrip[OF assoc_kv_laws, of
      "[\<lparr>addr = 1, tx_hash = 2, mod_delta = RAW_MEMORY_WRITE [7]\<rparr>, \<lparr>addr = 1, tx_hash = 3, mod_delta = ASSET_OBJECT_ADD 5\<rparr>,
      \<lparr>addr = 1, tx_hash = 2, mod_delta = RAW_MEMORY_WRITE []\<rparr>]" "\<lambda>bs. of_nat (length bs)"]
  by (auto simp: inj_on_def assoc_kv_def)

end
