(* ===== verification/ContractDB.thy ===== *)
theory ContractDB
  imports ModificationLog
begin

text \<open>
  Contract code: \<open>ContractDB\<close>, the \<open>UncommittedContracts\<close> of the current block, the
  \<open>ContractDBProxy\<close> of a transaction with its create and deploy closures, the deploy address
  (\<open>contract_db/\<close>), and the log of contracts written to disk
  (\<open>contract_db/contract_persistence.h\<close>).

  A metered contract is the byte string the metering library returns, \<open>None\<close> when it rejects
  the code (a null data pointer). Arguments stand for code of other libraries: \<open>meter\<close> the
  metering library, \<open>hx\<close> and \<open>hv\<close> the generic hash of an XDR value and of a byte vector,
  \<open>K\<close> the Merkle trie of addresses.
\<close>

section \<open>The log of contracts on disk\<close>

type_synonym Contract = "byte list"
type_synonym metered = "byte list option"
type_synonym script_view = "byte list option"

record ContractRoundPersistence =
  creations :: "(Hash \<times> Contract) list"
  deployments :: "(Address \<times> Hash) list"

text \<open>One slot per thread in \<open>work_item\<close> and in the thread-local cache.\<close>

record AsyncPersistContracts =
  work_item :: "ContractRoundPersistence list"
  cache_objs :: "ContractRoundPersistence list"
  work_done :: bool
  work_ts :: uint32

definition empty_round :: ContractRoundPersistence where
  "empty_round = \<lparr>creations = [], deployments = []\<rparr>"

definition persist_new :: "nat \<Rightarrow> AsyncPersistContracts" where
  "persist_new n = \<lparr>work_item = replicate n empty_round, cache_objs = replicate n empty_round, work_done = True, work_ts = 0\<rparr>"

definition log_deploy :: "nat \<Rightarrow> Address \<Rightarrow> Hash \<Rightarrow> AsyncPersistContracts \<Rightarrow> AsyncPersistContracts" where
  "log_deploy tid a h p =
     p\<lparr>cache_objs := (cache_objs p)[tid := (cache_objs p ! tid)\<lparr>deployments := deployments (cache_objs p ! tid) @ [(a, h)]\<rparr>]\<rparr>"

definition log_create :: "nat \<Rightarrow> Hash \<Rightarrow> Contract \<Rightarrow> AsyncPersistContracts \<Rightarrow> AsyncPersistContracts" where
  "log_create tid h c p =
     p\<lparr>cache_objs := (cache_objs p)[tid := (cache_objs p ! tid)\<lparr>creations := creations (cache_objs p ! tid) @ [(h, c)]\<rparr>]\<rparr>"

definition swap_data :: "AsyncPersistContracts \<Rightarrow> AsyncPersistContracts" where
  "swap_data p = p\<lparr>work_item := cache_objs p, cache_objs := map (\<lambda>_. empty_round) (cache_objs p)\<rparr>"

definition persist_write :: "uint32 \<Rightarrow> AsyncPersistContracts \<Rightarrow> AsyncPersistContracts" where
  "persist_write ts p = p\<lparr>work_done := False, work_ts := ts\<rparr>"

definition persist_nowrite :: "AsyncPersistContracts \<Rightarrow> AsyncPersistContracts" where
  "persist_nowrite p = swap_data (p\<lparr>work_done := True\<rparr>)"

text \<open>The directory: the deployments of each round file, and the contract files.\<close>

record contract_files =
  deploy_files :: "uint32 \<Rightarrow> (Address \<times> Hash) list option"
  contract_file :: "Hash \<Rightarrow> Contract option"

definition save_data :: "AsyncPersistContracts \<Rightarrow> contract_files \<Rightarrow> contract_files" where
  "save_data p fs =
     fs\<lparr>deploy_files := (deploy_files fs)(work_ts p \<mapsto> concat (map deployments (work_item p))),
        contract_file := foldl (\<lambda>m (h, c). m(h \<mapsto> c)) (contract_file fs) (concat (map creations (work_item p)))\<rparr>"

text \<open>One pass of the worker thread, when it has been woken.\<close>

definition persist_run :: "AsyncPersistContracts \<times> contract_files \<Rightarrow> AsyncPersistContracts \<times> contract_files" where
  "persist_run st = (case st of (p, fs) \<Rightarrow>
     if work_done p then (p, fs) else ((swap_data p)\<lparr>work_done := True\<rparr>, save_data p fs))"

section \<open>Contracts of the current block\<close>

record UncommittedContracts =
  uc_contracts :: "(Hash, metered) omap"
  uc_deployments :: "(Address, Hash) omap"

definition uncommitted_new :: UncommittedContracts where
  "uncommitted_new = \<lparr>uc_contracts = [], uc_deployments = []\<rparr>"

definition uc_deploy_contract_to_address :: "Address \<Rightarrow> Hash \<Rightarrow> UncommittedContracts \<Rightarrow> UncommittedContracts" where
  "uc_deploy_contract_to_address a h uc = uc\<lparr>uc_deployments := omap_emplace a h (uc_deployments uc)\<rparr>"

definition uc_undo_deploy_contract_to_address :: "Address \<Rightarrow> UncommittedContracts \<Rightarrow> UncommittedContracts" where
  "uc_undo_deploy_contract_to_address a uc = uc\<lparr>uc_deployments := omap_erase a (uc_deployments uc)\<rparr>"

definition uc_add_new_contract :: "Hash \<Rightarrow> metered \<Rightarrow> UncommittedContracts \<Rightarrow> UncommittedContracts outcome" where
  "uc_add_new_contract h c uc =
     (if map_of (uc_contracts uc) h \<noteq> None
      then Throw (RuntimeError ''invalid add_new_contract (already existed)'')
      else Ret (uc\<lparr>uc_contracts := omap_emplace h c (uc_contracts uc)\<rparr>))"

definition uc_clear :: "UncommittedContracts \<Rightarrow> UncommittedContracts" where
  "uc_clear uc = uc\<lparr>uc_contracts := [], uc_deployments := []\<rparr>"

section \<open>The contract database\<close>

record 't ContractDB =
  addresses_to_contracts_map :: 't
  hashes_to_contracts_map :: "(Hash, metered) omap"
  uncommitted_contracts :: UncommittedContracts
  has_uncommitted_modifications :: bool
  persistence :: AsyncPersistContracts

definition contract_db_new :: "(Address, metered, 't) kv_ops \<Rightarrow> nat \<Rightarrow> 't ContractDB" where
  "contract_db_new K n = \<lparr>addresses_to_contracts_map = kv_empty K, hashes_to_contracts_map = [],
     uncommitted_contracts = uncommitted_new, has_uncommitted_modifications = False, persistence = persist_new n\<rparr>"

definition get_script_by_address :: "(Address, metered, 't) kv_ops \<Rightarrow> Address \<Rightarrow> 't ContractDB \<Rightarrow> script_view outcome" where
  "get_script_by_address K a db = (case kv_get K a (addresses_to_contracts_map db) of
       None \<Rightarrow> Ret None
     | Some None \<Rightarrow> Throw (RuntimeError ''invalid script stored within ContractDB!'')
     | Some (Some s) \<Rightarrow> Ret (Some s))"

definition get_script_by_hash :: "Hash \<Rightarrow> 't ContractDB \<Rightarrow> script_view" where
  "get_script_by_hash h db = (case map_of (hashes_to_contracts_map db) h of None \<Rightarrow> None | Some m \<Rightarrow> m)"

definition commit_contract_to_db :: "Hash \<Rightarrow> metered \<Rightarrow> 't ContractDB \<Rightarrow> 't ContractDB outcome" where
  "commit_contract_to_db h c db =
     (if map_of (hashes_to_contracts_map db) h \<noteq> None
      then Throw (RuntimeError ''failed to commit contract (contract at this hash already existed)'')
      else Ret (db\<lparr>hashes_to_contracts_map := omap_emplace h c (hashes_to_contracts_map db)\<rparr>))"

definition commit_registration :: "(Address, metered, 't) kv_ops \<Rightarrow> nat \<Rightarrow> Address \<Rightarrow> Hash \<Rightarrow> 't ContractDB \<Rightarrow> 't ContractDB outcome" where
  "commit_registration K tid a h db = (case map_of (hashes_to_contracts_map db) h of
       None \<Rightarrow> Throw (RuntimeError ''map::at'')
     | Some c \<Rightarrow>
         if kv_get K a (addresses_to_contracts_map db) \<noteq> None
         then Throw (RuntimeError ''double registration of a contract'')
         else Ret (db\<lparr>addresses_to_contracts_map := kv_put K a c (addresses_to_contracts_map db),
                      persistence := log_deploy tid a h (persistence db)\<rparr>))"

definition deploy_contract_to_address :: "Address \<Rightarrow> Hash \<Rightarrow> 't ContractDB \<Rightarrow> 't ContractDB" where
  "deploy_contract_to_address a h db =
     db\<lparr>has_uncommitted_modifications := True,
        uncommitted_contracts := uc_deploy_contract_to_address a h (uncommitted_contracts db)\<rparr>"

definition undo_deploy_contract_to_address :: "Address \<Rightarrow> 't ContractDB \<Rightarrow> 't ContractDB" where
  "undo_deploy_contract_to_address a db =
     db\<lparr>uncommitted_contracts := uc_undo_deploy_contract_to_address a (uncommitted_contracts db)\<rparr>"

definition check_committed_contract_exists :: "Hash \<Rightarrow> 't ContractDB \<Rightarrow> bool" where
  "check_committed_contract_exists h db \<longleftrightarrow> map_of (hashes_to_contracts_map db) h \<noteq> None"

definition add_new_uncommitted_contract :: "nat \<Rightarrow> Hash \<Rightarrow> metered \<Rightarrow> Contract \<Rightarrow> 't ContractDB \<Rightarrow> 't ContractDB outcome" where
  "add_new_uncommitted_contract tid h c unmetered db =
     obind (uc_add_new_contract h c (uncommitted_contracts db)) (\<lambda>uc.
       Ret (db\<lparr>has_uncommitted_modifications := True, uncommitted_contracts := uc,
               persistence := log_create tid h unmetered (persistence db)\<rparr>))"

fun commit_contracts :: "(Hash \<times> metered) list \<Rightarrow> 't ContractDB \<Rightarrow> 't ContractDB outcome" where
  "commit_contracts [] db = Ret db"
| "commit_contracts ((h, c) # xs) db = obind (commit_contract_to_db h c db) (commit_contracts xs)"

fun commit_registrations :: "(Address, metered, 't) kv_ops \<Rightarrow> nat \<Rightarrow> (Address \<times> Hash) list \<Rightarrow> 't ContractDB \<Rightarrow> 't ContractDB outcome" where
  "commit_registrations K tid [] db = Ret db"
| "commit_registrations K tid ((a, h) # xs) db = obind (commit_registration K tid a h db) (commit_registrations K tid xs)"

definition uc_commit :: "(Address, metered, 't) kv_ops \<Rightarrow> nat \<Rightarrow> 't ContractDB \<Rightarrow> 't ContractDB outcome" where
  "uc_commit K tid db =
     obind (commit_contracts (uc_contracts (uncommitted_contracts db)) db) (\<lambda>db1.
     obind (commit_registrations K tid (uc_deployments (uncommitted_contracts db)) db1) (\<lambda>db2.
       Ret (db2\<lparr>uncommitted_contracts := uc_clear (uncommitted_contracts db2)\<rparr>)))"

definition contract_db_commit :: "(Address, metered, 't) kv_ops \<Rightarrow> nat \<Rightarrow> uint32 \<Rightarrow> 't ContractDB \<Rightarrow> 't ContractDB outcome" where
  "contract_db_commit K tid ts db =
     obind (uc_commit K tid db) (\<lambda>db1.
       Ret (db1\<lparr>has_uncommitted_modifications := False, persistence := persist_write ts (persistence db1)\<rparr>))"

definition contract_db_rewind :: "'t ContractDB \<Rightarrow> 't ContractDB" where
  "contract_db_rewind db =
     db\<lparr>uncommitted_contracts := uc_clear (uncommitted_contracts db), has_uncommitted_modifications := False,
        persistence := persist_nowrite (persistence db)\<rparr>"

definition contract_db_hash :: "(Address, metered, 't) kv_ops \<Rightarrow> 't ContractDB \<Rightarrow> Hash outcome" where
  "contract_db_hash K db =
     (if has_uncommitted_modifications db
      then Throw (RuntimeError ''contractdb has uncommitted modifications assert fail'')
      else Ret (kv_hash K (addresses_to_contracts_map db)))"

section \<open>The proxy of a transaction\<close>

definition compute_contract_deploy_address :: "(byte list \<Rightarrow> Hash) \<Rightarrow> Address \<Rightarrow> Hash \<Rightarrow> uint64 \<Rightarrow> Address" where
  "compute_contract_deploy_address hv deployer contract_hash nonce =
     hv (be_bytes 32 deployer @ be_bytes 32 contract_hash @ le_bytes 8 nonce)"

record ContractDBProxy =
  new_contracts :: "(Hash, metered \<times> Contract) omap"
  new_deployments :: "(Address, Hash) omap"
  is_committed :: bool

definition contract_proxy_new :: ContractDBProxy where
  "contract_proxy_new = \<lparr>new_contracts = [], new_deployments = [], is_committed = False\<rparr>"

definition check_contract_exists :: "'t ContractDB \<Rightarrow> Hash \<Rightarrow> ContractDBProxy \<Rightarrow> bool" where
  "check_contract_exists db h px \<longleftrightarrow> check_committed_contract_exists h db \<or> map_of (new_contracts px) h \<noteq> None"

definition deploy_contract :: "(byte list \<Rightarrow> Hash) \<Rightarrow> 't ContractDB \<Rightarrow> Address \<Rightarrow> Hash \<Rightarrow> uint64 \<Rightarrow> ContractDBProxy \<Rightarrow>
    Address option \<times> ContractDBProxy" where
  "deploy_contract hv db sender h nonce px =
     (let deploy_address = compute_contract_deploy_address hv sender h nonce
      in if \<not> check_contract_exists db h px then (None, px)
         else if map_of (new_deployments px) deploy_address \<noteq> None then (None, px)
         else (Some deploy_address, px\<lparr>new_deployments := omap_set deploy_address h (new_deployments px)\<rparr>))"

definition deploy_contract_at_specific_address :: "'t ContractDB \<Rightarrow> Address \<Rightarrow> Hash \<Rightarrow> ContractDBProxy \<Rightarrow> ContractDBProxy outcome" where
  "deploy_contract_at_specific_address db a h px =
     (if \<not> check_contract_exists db h px then Throw (RuntimeError ''invalid deploy at specific address'')
      else if map_of (new_deployments px) a \<noteq> None then Throw (RuntimeError ''invalid deploy at specific address'')
      else Ret (px\<lparr>new_deployments := omap_set a h (new_deployments px)\<rparr>))"

definition create_contract :: "(Contract \<Rightarrow> Hash) \<Rightarrow> (Contract \<Rightarrow> metered) \<Rightarrow> Contract \<Rightarrow> ContractDBProxy \<Rightarrow> Hash \<times> ContractDBProxy" where
  "create_contract hx meter c px =
     (let h = hx c in (h, px\<lparr>new_contracts := omap_set h (meter c, c) (new_contracts px)\<rparr>))"

definition get_script :: "(Address, metered, 't) kv_ops \<Rightarrow> 't ContractDB \<Rightarrow> Address \<Rightarrow> ContractDBProxy \<Rightarrow> script_view outcome" where
  "get_script K db a px = (case map_of (new_deployments px) a of
       None \<Rightarrow> get_script_by_address K a db
     | Some script_hash \<Rightarrow> (case map_of (new_contracts px) script_hash of
           None \<Rightarrow> Ret (get_script_by_hash script_hash db)
         | Some (m, _) \<Rightarrow> Ret m))"

record ContractCreateClosure =
  cc_h :: Hash
  cc_contract :: metered
  cc_unmetered :: Contract
  do_create :: bool

type_synonym ContractDeployClosure = "Address \<times> Hash"

definition create_closure_commit :: "ContractCreateClosure \<Rightarrow> ContractCreateClosure" where
  "create_closure_commit cl = cl\<lparr>do_create := True\<rparr>"

text \<open>The destructor runs the creation; an exception there ends the process.\<close>

definition create_closure_destroy :: "nat \<Rightarrow> ContractCreateClosure \<Rightarrow> 't ContractDB \<Rightarrow> 't ContractDB outcome" where
  "create_closure_destroy tid cl db =
     (if do_create cl then
        (case add_new_uncommitted_contract tid (cc_h cl) (cc_contract cl) (cc_unmetered cl) db of
           Ret db' \<Rightarrow> Ret db'
         | Throw _ \<Rightarrow> Throw (Terminate ''exception in ~ContractCreateClosure'')
         | Diverge \<Rightarrow> Diverge)
      else Ret db)"

definition deploy_closure_commit :: "ContractDeployClosure \<Rightarrow> 't ContractDB \<Rightarrow> 't ContractDB" where
  "deploy_closure_commit cl db = deploy_contract_to_address (fst cl) (snd cl) db"

record contract_rewind =
  rw_creates :: "ContractCreateClosure list"
  rw_deploys :: "ContractDeployClosure list"

definition contract_assert_not_committed :: "ContractDBProxy \<Rightarrow> unit outcome" where
  "contract_assert_not_committed px =
     (if is_committed px then Throw (RuntimeError ''ContractDBProxy::assert_not_commited() failed'') else Ret ())"

definition push_create_contract :: "Hash \<times> metered \<times> Contract \<Rightarrow> ContractCreateClosure" where
  "push_create_contract hc = (case hc of (h, m, c) \<Rightarrow> \<lparr>cc_h = h, cc_contract = m, cc_unmetered = c, do_create = False\<rparr>)"

definition push_updates_to_db :: "ContractDBProxy \<Rightarrow> (contract_rewind \<times> ContractDBProxy) outcome" where
  "push_updates_to_db px =
     obind (contract_assert_not_committed px) (\<lambda>_.
       Ret (\<lparr>rw_creates = map push_create_contract (new_contracts px), rw_deploys = new_deployments px\<rparr>,
            px\<lparr>is_committed := True\<rparr>))"

text \<open>
  Commit of the rewind vector marks the creations and runs the deployments; its destruction runs
  the marked creations.
\<close>

definition contract_rewind_commit :: "contract_rewind \<Rightarrow> 't ContractDB \<Rightarrow> contract_rewind \<times> 't ContractDB" where
  "contract_rewind_commit rw db =
     (rw\<lparr>rw_creates := map create_closure_commit (rw_creates rw)\<rparr>, foldl (\<lambda>db cl. deploy_closure_commit cl db) db (rw_deploys rw))"

fun destroy_creates :: "nat \<Rightarrow> ContractCreateClosure list \<Rightarrow> 't ContractDB \<Rightarrow> 't ContractDB outcome" where
  "destroy_creates tid [] db = Ret db"
| "destroy_creates tid (cl # cls) db = obind (create_closure_destroy tid cl db) (destroy_creates tid cls)"

definition contract_rewind_destroy :: "nat \<Rightarrow> contract_rewind \<Rightarrow> 't ContractDB \<Rightarrow> 't ContractDB outcome" where
  "contract_rewind_destroy tid rw = destroy_creates tid (rw_creates rw)"

definition commit_tx_contracts :: "nat \<Rightarrow> ContractDBProxy \<Rightarrow> 't ContractDB \<Rightarrow> 't ContractDB outcome" where
  "commit_tx_contracts tid px db =
     obind (push_updates_to_db px) (\<lambda>(rw, _).
       case contract_rewind_commit rw db of (rw', db') \<Rightarrow> contract_rewind_destroy tid rw' db')"

end
