(* ===== verification/Transactions.thy ===== *)
theory Transactions
  imports ModificationLog
begin

text \<open>
  Transactions and what the execution of one leaves behind: the XDR types
  (\<open>xdr/transaction.x\<close>), the results frame (\<open>transaction_context/transaction_results.cc\<close>)
  that records results of remote calls while a block is assembled and replays them while it is
  validated, and the method names (\<open>transaction_context/method_invocation.cc\<close>).
\<close>

section \<open>Transactions\<close>

type_synonym RpcResult = "byte list"
type_synonym TransactionLog = "byte list"

datatype TransactionStatus = SUCCESS | FAILURE

record TransactionInvocation =
  invokedAddress :: Address
  ti_method_name :: uint32
  ti_calldata :: "byte list"

record Transaction =
  invocation :: TransactionInvocation
  gas_limit :: uint64
  gas_rate_bid :: uint64
  contracts_to_deploy :: "byte list list"

record WitnessEntry =
  wit_key :: uint64
  wit_value :: "byte list"

record SignedTransaction =
  tx_body :: Transaction
  witnesses :: "WitnessEntry list"

type_synonym NondeterministicResults = "RpcResult list"

record TransactionResults =
  rpc_results :: NondeterministicResults
  logs :: "TransactionLog list"

section \<open>The results frame\<close>

record TransactionResultsFrame =
  results :: TransactionResults
  validating :: bool
  rpc_idx :: uint32

definition results_frame_new :: "NondeterministicResults option \<Rightarrow> TransactionResultsFrame" where
  "results_frame_new nres = (case nres of
       Some res \<Rightarrow> \<lparr>results = \<lparr>rpc_results = res, logs = []\<rparr>, validating = True, rpc_idx = 0\<rparr>
     | None \<Rightarrow> \<lparr>results = \<lparr>rpc_results = [], logs = []\<rparr>, validating = False, rpc_idx = 0\<rparr>)"

definition add_log :: "TransactionLog \<Rightarrow> TransactionResultsFrame \<Rightarrow> TransactionResultsFrame" where
  "add_log l f = f\<lparr>results := (results f)\<lparr>logs := logs (results f) @ [l]\<rparr>\<rparr>"

definition add_rpc_result :: "RpcResult \<Rightarrow> TransactionResultsFrame \<Rightarrow> TransactionResultsFrame outcome" where
  "add_rpc_result r f =
     (if \<not> validating f
      then Ret (f\<lparr>results := (results f)\<lparr>rpc_results := rpc_results (results f) @ [r]\<rparr>\<rparr>)
      else Throw (HostError ''added rpc result when validating''))"

definition get_next_rpc_result :: "TransactionResultsFrame \<Rightarrow> (RpcResult \<times> TransactionResultsFrame) outcome" where
  "get_next_rpc_result f =
     (if unat (rpc_idx f) < length (rpc_results (results f))
      then Ret (rpc_results (results f) ! unat (rpc_idx f), f\<lparr>rpc_idx := rpc_idx f + 1\<rparr>)
      else Throw (HostError ''insufficient rpc results stored''))"

definition validating_check_all_rpc_results_used :: "TransactionResultsFrame \<Rightarrow> bool" where
  "validating_check_all_rpc_results_used f \<longleftrightarrow>
     (if \<not> validating f then True else unat (rpc_idx f) = length (rpc_results (results f)))"

text \<open>The two ways a frame is used: results arrive while assembling, are read back while validating.\<close>

fun record_results :: "RpcResult list \<Rightarrow> TransactionResultsFrame \<Rightarrow> TransactionResultsFrame outcome" where
  "record_results [] f = Ret f"
| "record_results (r # rs) f = obind (add_rpc_result r f) (record_results rs)"

fun replay_results :: "nat \<Rightarrow> TransactionResultsFrame \<Rightarrow> (RpcResult list \<times> TransactionResultsFrame) outcome" where
  "replay_results 0 f = Ret ([], f)"
| "replay_results (Suc n) f =
     obind (get_next_rpc_result f) (\<lambda>(r, f'). obind (replay_results n f') (\<lambda>(rs, f''). Ret (r # rs, f'')))"

lemma record_results_eq:
  "\<not> validating f \<Longrightarrow> record_results rs f =
     Ret (f\<lparr>results := (results f)\<lparr>rpc_results := rpc_results (results f) @ rs\<rparr>\<rparr>)"
  by (induction rs arbitrary: f) (simp_all add: add_rpc_result_def)

lemma replay_results_eq:
  "unat (rpc_idx f) + n \<le> length (rpc_results (results f)) \<Longrightarrow> length (rpc_results (results f)) < 2 ^ 32 \<Longrightarrow>
     replay_results n f = Ret (take n (drop (unat (rpc_idx f)) (rpc_results (results f))), f\<lparr>rpc_idx := rpc_idx f + of_nat n\<rparr>)"
proof (induction n arbitrary: f)
  case (Suc n)
  let ?f = "f\<lparr>rpc_idx := rpc_idx f + 1\<rparr>"
  have lt: "unat (rpc_idx f) < length (rpc_results (results f))" using Suc.prems(1) by simp
  have idx: "unat (rpc_idx f + 1) = unat (rpc_idx f) + 1"
    using lt Suc.prems(2) by (simp add: unat_word_ariths)
  have "replay_results n ?f = Ret (take n (drop (unat (rpc_idx f) + 1) (rpc_results (results f))),
      ?f\<lparr>rpc_idx := rpc_idx f + 1 + of_nat n\<rparr>)"
    using Suc.IH[of ?f] Suc.prems idx by simp
  moreover have "drop (unat (rpc_idx f)) (rpc_results (results f)) =
      rpc_results (results f) ! unat (rpc_idx f) # drop (unat (rpc_idx f) + 1) (rpc_results (results f))"
    using lt by (simp add: Cons_nth_drop_Suc)
  ultimately show ?case using lt by (simp add: get_next_rpc_result_def algebra_simps)
qed simp

lemma replay_too_many:
  assumes "length (rpc_results (results f)) < 2 ^ 32" "unat (rpc_idx f) \<le> length (rpc_results (results f))"
    "length (rpc_results (results f)) < unat (rpc_idx f) + n"
  shows "replay_results n f = Throw (HostError ''insufficient rpc results stored'')"
  using assms
proof (induction n arbitrary: f)
  case (Suc n)
  show ?case
  proof (cases "unat (rpc_idx f) < length (rpc_results (results f))")
    case True
    then have "unat (rpc_idx f + 1) = unat (rpc_idx f) + 1" using Suc.prems(1) by (simp add: unat_word_ariths)
    with True Suc show ?thesis by (simp add: get_next_rpc_result_def)
  qed (simp add: get_next_rpc_result_def)
qed simp

text \<open>
  A validator sees what the proposer saw. The results a transaction records while it is
  executed in the assembly of a block, put into the block, come back one by one in the same order
  when the block is validated; the check that all were used succeeds exactly when as many were
  read as were recorded, and reading one more is a host error.
\<close>

theorem rpc_results_replay:
  assumes "length rs < 2 ^ 32"
  shows "record_results rs (results_frame_new None) = Ret f \<Longrightarrow>
     (let v = results_frame_new (Some (rpc_results (results f))) in
       n \<le> length rs \<longrightarrow> (\<exists>v'. replay_results n v = Ret (take n rs, v') \<and>
          (validating_check_all_rpc_results_used v' \<longleftrightarrow> n = length rs))) \<and>
     (length rs < n \<longrightarrow> replay_results n (results_frame_new (Some (rpc_results (results f)))) =
        Throw (HostError ''insufficient rpc results stored''))"
  using assms
  by (auto simp: record_results_eq results_frame_new_def Let_def replay_results_eq replay_too_many
      validating_check_all_rpc_results_used_def unat_of_nat)

theorem rpc_results_replay_witness:
  "\<exists>v'. replay_results 2 (results_frame_new (Some [[1], [2, 3]])) = Ret ([[1], [2, 3]], v') \<and> validating_check_all_rpc_results_used v'"
  using rpc_results_replay[of "[[1], [2, 3]]" "\<lparr>results = \<lparr>rpc_results = [[1], [2, 3]], logs = []\<rparr>, validating = False, rpc_idx = 0\<rparr>" 2]
  by (simp add: add_rpc_result_def results_frame_new_def Let_def)

section \<open>Method names\<close>

record MethodInvocation =
  mi_addr :: Address
  method_name :: uint32
  calldata :: "byte list"

definition method_invocation_root :: "TransactionInvocation \<Rightarrow> MethodInvocation" where
  "method_invocation_root r = \<lparr>mi_addr = invokedAddress r, method_name = ti_method_name r, calldata = ti_calldata r\<rparr>"

definition hex_digit :: "nat \<Rightarrow> char" where
  "hex_digit n = ''0123456789ABCDEF'' ! n"

definition hex_byte :: "byte \<Rightarrow> string" where
  "hex_byte b = [hex_digit (unat b div 16), hex_digit (unat b mod 16)]"

definition get_invocable_methodname :: "MethodInvocation \<Rightarrow> string" where
  "get_invocable_methodname m = ''pub'' @ concat (map hex_byte (le_bytes 4 (method_name m)))"

lemma hex_digit_inject: "n < 16 \<Longrightarrow> m < 16 \<Longrightarrow> hex_digit n = hex_digit m \<longleftrightarrow> n = m"
  unfolding hex_digit_def by (subst nth_eq_iff_index_eq) (simp_all)

lemma unat_bounded: "unat (b :: byte) < 256"
  using unsigned_less[of b] by simp

lemma hex_byte_inject: "hex_byte b = hex_byte c \<longleftrightarrow> b = c"
proof -
  have "unat b < 256" "unat c < 256" using unat_bounded[of b] unat_bounded[of c] by simp_all
  then have "hex_byte b = hex_byte c \<longleftrightarrow> unat b div 16 = unat c div 16 \<and> unat b mod 16 = unat c mod 16"
    by (simp add: hex_byte_def hex_digit_inject)
  also have "\<dots> \<longleftrightarrow> unat b = unat c" by (metis div_mult_mod_eq)
  finally show ?thesis by (simp add: word_unat_eq_iff)
qed

lemma concat_hex_inject:
  "length bs = length cs \<Longrightarrow> concat (map hex_byte bs) = concat (map hex_byte cs) \<longleftrightarrow> bs = cs"
proof (induction bs cs rule: list_induct2)
  case (Cons b bs c cs)
  have "length (hex_byte b) = length (hex_byte c)" by (simp add: hex_byte_def)
  then show ?case using Cons by (simp add: hex_byte_inject)
qed simp

text \<open>
  A method number selects one exported function: the name is \<open>pub\<close> and eight hexadecimal
  digits, and two invocations have the same name only if their method numbers are equal.
\<close>

theorem methodname_injective:
  "length (get_invocable_methodname m) = 11 \<and>
   (get_invocable_methodname m = get_invocable_methodname m' \<longleftrightarrow> method_name m = method_name m')"
proof -
  have "length (concat (map hex_byte bs)) = 2 * length bs" for bs by (induction bs) (simp_all add: hex_byte_def)
  then show ?thesis by (simp add: get_invocable_methodname_def concat_hex_inject)
qed

end
