(* ===== verification/TransactionContext.thy ===== *)
theory TransactionContext
  imports StorageProxy ContractDB Transactions
begin

text \<open>
  The context of one transaction (\<open>transaction_context/transaction_context.cc\<close>) and the gas costs of the
  host calls (\<open>builtin_fns/gas_costs.h\<close>): the stack of invocations, the gas counter, the storage and
  contract proxies and the results the transaction collects.

  A runtime of a contract is held by its address in \<open>active_runtimes\<close>; the stack of runtime pointers is
  the list of these addresses.
\<close>

section \<open>Gas costs\<close>

definition gas_memcmp :: "uint64 \<Rightarrow> uint64" where "gas_memcmp n = 10 + n"
definition gas_memset :: "uint64 \<Rightarrow> uint64" where "gas_memset n = 10 + n * 2"
definition gas_memcpy :: "uint64 \<Rightarrow> uint64" where "gas_memcpy n = 10 + n * 2"
definition gas_strnlen :: "uint64 \<Rightarrow> uint64" where "gas_strnlen n = 10 + n"
definition gas_log :: "uint64 \<Rightarrow> uint64" where "gas_log n = 50 + n"
definition gas_return :: "uint64 \<Rightarrow> uint64" where "gas_return n = 50 + n * 2"
definition gas_get_calldata :: "uint64 \<Rightarrow> uint64" where "gas_get_calldata n = 50 + n * 2"
definition gas_get_calldata_len :: uint64 where "gas_get_calldata_len = 10"
definition gas_invoke :: "uint64 \<Rightarrow> uint64" where "gas_invoke n = 10000 + n * 2"
definition gas_get_msg_sender :: uint64 where "gas_get_msg_sender = 50"
definition gas_get_self_addr :: uint64 where "gas_get_self_addr = 50"
definition gas_get_block_number :: uint64 where "gas_get_block_number = 10"
definition gas_get_src_tx_hash :: uint64 where "gas_get_src_tx_hash = 50"
definition gas_get_invoked_tx_hash :: uint64 where "gas_get_invoked_tx_hash = 50"
definition gas_has_key :: uint64 where "gas_has_key = 10"
definition gas_raw_memory_set :: "uint64 \<Rightarrow> uint64" where "gas_raw_memory_set n = 50 + n * 2"
definition gas_raw_memory_get :: "uint64 \<Rightarrow> uint64" where "gas_raw_memory_get n = 50 + n * 2"
definition gas_raw_memory_get_len :: uint64 where "gas_raw_memory_get_len = 10"
definition gas_delete_key_last :: uint64 where "gas_delete_key_last = 50"
definition gas_nonnegative_int64_set_add :: uint64 where "gas_nonnegative_int64_set_add = 50"
definition gas_nonnegative_int64_add :: uint64 where "gas_nonnegative_int64_add = 50"
definition gas_nonnegative_int64_get :: uint64 where "gas_nonnegative_int64_get = 10"
definition gas_hashset_insert :: uint64 where "gas_hashset_insert = 100"
definition gas_hashset_increase_limit :: uint64 where "gas_hashset_increase_limit = 50"
definition gas_hashset_clear :: uint64 where "gas_hashset_clear = 100"
definition gas_hashset_get_size :: uint64 where "gas_hashset_get_size = 50"
definition gas_hashset_get_max_size :: uint64 where "gas_hashset_get_max_size = 50"
definition gas_hashset_get_index_of :: uint64 where "gas_hashset_get_index_of = 100"
definition gas_hashset_get_index :: uint64 where "gas_hashset_get_index = 50"
definition gas_hash :: uint64 where "gas_hash = 10000"
definition gas_check_sig_ed25519 :: uint64 where "gas_check_sig_ed25519 = 10000"
definition gas_create_contract :: "uint64 \<Rightarrow> uint64" where "gas_create_contract n = 10000 + n * 100"
definition gas_deploy_contract :: uint64 where "gas_deploy_contract = 100"
definition gas_get_witness :: "uint64 \<Rightarrow> uint64" where "gas_get_witness n = 50 + n * 2"
definition gas_get_witness_len :: uint64 where "gas_get_witness_len = 10"

section \<open>The transaction context\<close>

record TransactionContext =
  invocation_stack :: "MethodInvocation list"
  runtime_stack :: "Address list"
  committed_to_statedb :: bool
  tc_tx :: SignedTransaction
  tc_tx_hash :: Hash
  gas_used :: uint64
  current_block :: uint64
  return_buf :: "byte list"
  tx_results :: TransactionResultsFrame
  storage_proxy :: StorageProxy
  contract_db_proxy :: ContractDBProxy

definition transaction_context_new :: "SignedTransaction \<Rightarrow> Hash \<Rightarrow> uint64 \<Rightarrow> NondeterministicResults option \<Rightarrow> TransactionContext" where
  "transaction_context_new tx h block res =
     \<lparr>invocation_stack = [], runtime_stack = [], committed_to_statedb = False, tc_tx = tx, tc_tx_hash = h, gas_used = 0,
      current_block = block, return_buf = [], tx_results = results_frame_new res,
      storage_proxy = storage_proxy_new, contract_db_proxy = contract_proxy_new\<rparr>"

definition get_current_runtime :: "TransactionContext \<Rightarrow> Address outcome" where
  "get_current_runtime tc =
     (if runtime_stack tc = [] then Throw (RuntimeError ''no active runtime during get_current_runtime() call'')
      else Ret (last (runtime_stack tc)))"

text \<open>\<open>back()\<close> of an empty vector is undefined behaviour, here an outcome of its own.\<close>

definition get_current_method_invocation :: "TransactionContext \<Rightarrow> MethodInvocation outcome" where
  "get_current_method_invocation tc =
     (if invocation_stack tc = [] then Throw (Terminate ''back() on an empty invocation stack'')
      else Ret (last (invocation_stack tc)))"

definition push_invocation_stack :: "Address \<Rightarrow> MethodInvocation \<Rightarrow> TransactionContext \<Rightarrow> TransactionContext" where
  "push_invocation_stack runtime iv tc =
     tc\<lparr>invocation_stack := invocation_stack tc @ [iv], runtime_stack := runtime_stack tc @ [runtime]\<rparr>"

definition pop_invocation_stack :: "TransactionContext \<Rightarrow> TransactionContext" where
  "pop_invocation_stack tc =
     tc\<lparr>invocation_stack := butlast (invocation_stack tc), runtime_stack := butlast (runtime_stack tc)\<rparr>"

definition address_and_key :: "Address \<Rightarrow> InvariantKey \<Rightarrow> AddressAndKey" where
  "address_and_key a k = word_cat a k"

definition get_self_addr :: "TransactionContext \<Rightarrow> Address outcome" where
  "get_self_addr tc = obind (get_current_method_invocation tc) (\<lambda>iv. Ret (mi_addr iv))"

definition get_storage_key :: "InvariantKey \<Rightarrow> TransactionContext \<Rightarrow> AddressAndKey outcome" where
  "get_storage_key key tc = obind (get_current_method_invocation tc) (\<lambda>iv. Ret (address_and_key (mi_addr iv) key))"

definition get_msg_sender :: "TransactionContext \<Rightarrow> Address outcome" where
  "get_msg_sender tc =
     (if length (invocation_stack tc) \<le> 1 then Throw (HostError ''no sender on root tx'')
      else Ret (mi_addr (invocation_stack tc ! (length (invocation_stack tc) - 2))))"

definition get_num_deployable_contracts :: "TransactionContext \<Rightarrow> uint32" where
  "get_num_deployable_contracts tc = of_nat (length (contracts_to_deploy (tx_body (tc_tx tc))))"

definition get_deployable_contract :: "uint32 \<Rightarrow> TransactionContext \<Rightarrow> Contract outcome" where
  "get_deployable_contract i tc =
     (let cs = contracts_to_deploy (tx_body (tc_tx tc))
      in if length cs \<le> unat i then Throw (RuntimeError ''invalid contract access'') else Ret (cs ! unat i))"

fun find_witness :: "uint64 \<Rightarrow> WitnessEntry list \<Rightarrow> WitnessEntry outcome" where
  "find_witness i [] = Throw (HostError ''witness not found'')"
| "find_witness i (w # ws) = (if wit_key w = i then Ret w else find_witness i ws)"

definition get_witness :: "uint64 \<Rightarrow> TransactionContext \<Rightarrow> WitnessEntry outcome" where
  "get_witness i tc = find_witness i (witnesses (tc_tx tc))"

definition consume_gas :: "uint64 \<Rightarrow> TransactionContext \<Rightarrow> TransactionContext outcome" where
  "consume_gas g tc =
     (if add_overflow_uu (gas_used tc) g then Throw (HostError ''gas consumption overflow'')
      else let tc1 = tc\<lparr>gas_used := gas_used tc + g\<rparr>
           in if gas_limit (tx_body (tc_tx tc1)) \<le> gas_used tc1 then Throw (HostError ''gas limit reached'') else Ret tc1)"

section \<open>Lemmas\<close>

lemma consume_gas_Ret:
  "consume_gas g tc = Ret tc' \<longleftrightarrow>
     tc' = tc\<lparr>gas_used := gas_used tc + g\<rparr> \<and> unat (gas_used tc') = unat (gas_used tc) + unat g \<and>
     gas_used tc' < gas_limit (tx_body (tc_tx tc))"
proof -
  have u: "\<not> add_overflow_uu (gas_used tc) g \<longleftrightarrow> unat (gas_used tc) + unat g < 2 ^ 64"
    unfolding add_overflow_uu_def fits_uint64_def by (simp add: uint_nat del: of_nat_unat flip: of_nat_add of_nat_less_iff)
  have s: "unat (gas_used tc + g) = unat (gas_used tc) + unat g \<longleftrightarrow> unat (gas_used tc) + unat g < 2 ^ 64"
    using unat_add_lem[of "gas_used tc" g] by auto 
  show ?thesis using u s by (auto simp: consume_gas_def Let_def not_less not_le)
qed

lemma consume_gas_error: "\<exists>x. consume_gas g tc = Ret x \<or> (\<exists>e. consume_gas g tc = Throw (HostError e))"
  by (auto simp: consume_gas_def Let_def)

lemma address_and_key_inject [simp]: "address_and_key a k = address_and_key a' k' \<longleftrightarrow> a = a' \<and> k = k'"
proof
  assume eq: "address_and_key a k = address_and_key a' k'"
  have "word_split (address_and_key b q) = (b, q)" for b q
    by (rule word_split_cat_alt) (simp_all add: address_and_key_def word_size)
  then show "a = a' \<and> k = k'" using eq by (metis prod.inject)
qed simp

end
