(* ===== verification/SyscallHandler.thy ===== *)
theory SyscallHandler
  imports TransactionContext
begin

text \<open>
  The host side of a contract call (\<open>transaction_context/execution_context.cc\<close>): the system calls a
  contract may issue, each with its gas charge, its memory accesses and its effect on the transaction
  context, and the invocation of another contract.

  The WebAssembly engine is not part of this repository. It is the parameter \<open>wasm_ops\<close>: how a runtime is
  created from a script, how its memory is read and written, and what the code of a runtime does next
  (\<open>wr_event\<close>): return, trap, or call the host, which then resumes it with a result. The other
  parameters of \<open>exec_env\<close> are the hash functions, the signature check and the metering of scripts.
\<close>

section \<open>The engine and the environment\<close>

datatype wasm_event =
    Finished
  | Trap string
  | Syscall uint64 uint64 uint64 uint64 uint64 uint64 uint64
  | GasCall uint64
  | Memcmp uint32 uint32 uint32
  | Memset uint32 uint32 uint32
  | Memcpy uint32 uint32 uint32
  | Strnlen uint32 uint32

record 'r wasm_ops =
  wr_new :: "script_view \<Rightarrow> 'r option"
  wr_start :: "string \<Rightarrow> 'r \<Rightarrow> 'r"
  wr_event :: "'r \<Rightarrow> wasm_event"
  wr_resume :: "uint64 \<Rightarrow> 'r \<Rightarrow> 'r"
  wr_load :: "uint32 \<Rightarrow> uint32 \<Rightarrow> 'r \<Rightarrow> byte list outcome"
  wr_write :: "byte list \<Rightarrow> uint32 \<Rightarrow> 'r \<Rightarrow> 'r outcome"
  wr_memcmp :: "uint32 \<Rightarrow> uint32 \<Rightarrow> uint32 \<Rightarrow> 'r \<Rightarrow> (uint32 \<times> 'r) outcome"
  wr_memset :: "uint32 \<Rightarrow> uint32 \<Rightarrow> uint32 \<Rightarrow> 'r \<Rightarrow> (uint32 \<times> 'r) outcome"
  wr_memcpy :: "uint32 \<Rightarrow> uint32 \<Rightarrow> uint32 \<Rightarrow> 'r \<Rightarrow> (uint32 \<times> 'r) outcome"
  wr_strlen :: "uint32 \<Rightarrow> uint32 \<Rightarrow> 'r \<Rightarrow> (uint32 \<times> 'r) outcome"

record ('t, 'r) exec_env =
  env_wasm :: "'r wasm_ops"
  env_ledger :: ledger
  env_kv :: "(Address, metered, 't) kv_ops"
  env_contracts :: "'t ContractDB"
  hash_opaque :: "byte list \<Rightarrow> Hash"
  hash_tx :: "Transaction \<Rightarrow> Hash"
  hash_vec :: "byte list \<Rightarrow> Hash"
  hash_contract :: "Contract \<Rightarrow> Hash"
  meter :: "Contract \<Rightarrow> metered"
  check_sig_ed25519 :: "byte list \<Rightarrow> byte list \<Rightarrow> byte list \<Rightarrow> bool"

record 'r exec_state =
  ctx :: TransactionContext
  active_runtimes :: "(Address, 'r) omap"

text \<open>Calls that return a value and change the state of the execution.\<close>

type_synonym ('r, 'a) exec = "'r exec_state \<Rightarrow> ('a \<times> 'r exec_state) outcome"

definition sret :: "'a \<Rightarrow> ('r, 'a) exec" where "sret x st = Ret (x, st)"
definition sthrow :: "exn \<Rightarrow> ('r, 'a) exec" where "sthrow e st = Throw e"
definition sbind :: "('r, 'a) exec \<Rightarrow> ('a \<Rightarrow> ('r, 'b) exec) \<Rightarrow> ('r, 'b) exec" where
  "sbind m f st = obind (m st) (\<lambda>(x, st'). f x st')"
definition slift :: "'a outcome \<Rightarrow> ('r, 'a) exec" where "slift m st = obind m (\<lambda>x. Ret (x, st))"
definition sctx :: "(TransactionContext \<Rightarrow> ('r, 'a) exec) \<Rightarrow> ('r, 'a) exec" where "sctx f st = f (ctx st) st"

definition charge :: "uint64 \<Rightarrow> ('r, unit) exec" where
  "charge g st = obind (consume_gas g (ctx st)) (\<lambda>tc. Ret ((), st\<lparr>ctx := tc\<rparr>))"

definition find_runtime :: "Address \<Rightarrow> ('r, 'r) exec" where
  "find_runtime a st = (case map_of (active_runtimes st) a of
       None \<Rightarrow> Throw (RuntimeError ''map::at'')
     | Some r \<Rightarrow> Ret (r, st))"

definition put_runtime :: "Address \<Rightarrow> 'r \<Rightarrow> ('r, unit) exec" where
  "put_runtime a r st = Ret ((), st\<lparr>active_runtimes := omap_set a r (active_runtimes st)\<rparr>)"

definition load_from_memory :: "('t, 'r) exec_env \<Rightarrow> Address \<Rightarrow> uint32 \<Rightarrow> uint32 \<Rightarrow> ('r, byte list) exec" where
  "load_from_memory env a off len = sbind (find_runtime a) (\<lambda>r. slift (wr_load (env_wasm env) off len r))"

definition load_word :: "('t, 'r) exec_env \<Rightarrow> Address \<Rightarrow> uint32 \<Rightarrow> ('r, 256 word) exec" where
  "load_word env a off = sbind (load_from_memory env a off 32) (\<lambda>bs. sret (be_word bs))"

definition write_to_memory :: "('t, 'r) exec_env \<Rightarrow> Address \<Rightarrow> byte list \<Rightarrow> uint32 \<Rightarrow> ('r, unit) exec" where
  "write_to_memory env a bs off =
     sbind (find_runtime a) (\<lambda>r. sbind (slift (wr_write (env_wasm env) bs off r)) (put_runtime a))"

definition load_storage_key :: "('t, 'r) exec_env \<Rightarrow> Address \<Rightarrow> uint64 \<Rightarrow> ('r, AddressAndKey) exec" where
  "load_storage_key env a arg0 =
     sbind (load_word env a (ucast arg0)) (\<lambda>key. sctx (\<lambda>tc. slift (get_storage_key key tc)))"

definition proxy_read :: "('t, 'r) exec_env \<Rightarrow> AddressAndKey \<Rightarrow> ('r, StorageObject option) exec" where
  "proxy_read env k st = (case storage_get (env_ledger env) k (storage_proxy (ctx st)) of
       (v, sp) \<Rightarrow> Ret (v, st\<lparr>ctx := (ctx st)\<lparr>storage_proxy := sp\<rparr>\<rparr>))"

definition proxy_write :: "(StorageProxy \<Rightarrow> StorageProxy outcome) \<Rightarrow> ('r, unit) exec" where
  "proxy_write f st = obind (f (storage_proxy (ctx st))) (\<lambda>sp. Ret ((), st\<lparr>ctx := (ctx st)\<lparr>storage_proxy := sp\<rparr>\<rparr>))"

section \<open>The system calls\<close>

text \<open>\<open>a\<close> is the contract whose runtime made the call.\<close>

definition sys_write :: "('t, 'r) exec_env \<Rightarrow> Address \<Rightarrow> uint64 \<Rightarrow> uint64 \<Rightarrow> ('r, uint64) exec" where
  "sys_write env a arg0 arg1 = sbind (load_from_memory env a (ucast arg0) (ucast arg1)) (\<lambda>_. sret 0)"

definition sys_write_bytes :: "('t, 'r) exec_env \<Rightarrow> Address \<Rightarrow> uint64 \<Rightarrow> uint64 \<Rightarrow> ('r, uint64) exec" where
  "sys_write_bytes env a arg0 arg1 = sbind (load_from_memory env a (ucast arg0) (ucast arg1)) (\<lambda>_. sret 0)"

definition sys_log :: "('t, 'r) exec_env \<Rightarrow> Address \<Rightarrow> uint64 \<Rightarrow> uint64 \<Rightarrow> ('r, uint64) exec" where
  "sys_log env a arg0 arg1 =
     (let log_offset = ucast arg0 :: uint32; log_len = ucast arg1 :: uint32
      in sbind (charge (gas_log (ucast log_len))) (\<lambda>_.
         sbind (load_from_memory env a log_offset log_len) (\<lambda>log st.
           Ret (0, st\<lparr>ctx := (ctx st)\<lparr>tx_results := add_log log (tx_results (ctx st))\<rparr>\<rparr>))))"

definition sys_invoke :: "('t, 'r) exec_env \<Rightarrow> (MethodInvocation \<Rightarrow> ('r, unit) exec) \<Rightarrow> Address \<Rightarrow>
    uint64 \<Rightarrow> uint64 \<Rightarrow> uint64 \<Rightarrow> uint64 \<Rightarrow> uint64 \<Rightarrow> uint64 \<Rightarrow> ('r, uint64) exec" where
  "sys_invoke env invoke a arg0 arg1 arg2 arg3 arg4 arg5 =
     (let methodname = ucast arg1 :: uint32; calldata_off = ucast arg2 :: uint32; calldata_len = ucast arg3 :: uint32;
          return_addr = ucast arg4 :: uint32; return_len = ucast arg5 :: uint32
      in sbind (charge (gas_invoke (ucast (calldata_len + return_len)))) (\<lambda>_.
         sbind (load_word env a (ucast arg0)) (\<lambda>target.
         sbind (load_from_memory env a calldata_off calldata_len) (\<lambda>data.
         sbind (invoke \<lparr>mi_addr = target, method_name = methodname, calldata = data\<rparr>) (\<lambda>_.
         sctx (\<lambda>tc.
           let n = min return_len (of_nat (length (return_buf tc)))
           in sbind (if n > 0 then write_to_memory env a (take (unat n) (return_buf tc)) return_addr else sret ()) (\<lambda>_ st.
                Ret (ucast n, st\<lparr>ctx := (ctx st)\<lparr>return_buf := []\<rparr>\<rparr>))))))))"

definition sys_get_sender :: "('t, 'r) exec_env \<Rightarrow> Address \<Rightarrow> uint64 \<Rightarrow> ('r, uint64) exec" where
  "sys_get_sender env a arg0 =
     sbind (charge gas_get_msg_sender) (\<lambda>_. sctx (\<lambda>tc. sbind (slift (get_msg_sender tc)) (\<lambda>sender.
       sbind (write_to_memory env a (be_bytes 32 sender) (ucast arg0)) (\<lambda>_. sret 0))))"

definition sys_get_self_addr :: "('t, 'r) exec_env \<Rightarrow> Address \<Rightarrow> uint64 \<Rightarrow> ('r, uint64) exec" where
  "sys_get_self_addr env a arg0 =
     sbind (charge gas_get_self_addr) (\<lambda>_. sctx (\<lambda>tc. sbind (slift (get_self_addr tc)) (\<lambda>self.
       sbind (write_to_memory env a (be_bytes 32 self) (ucast arg0)) (\<lambda>_. sret 0))))"

definition sys_get_src_tx_hash :: "('t, 'r) exec_env \<Rightarrow> Address \<Rightarrow> uint64 \<Rightarrow> ('r, uint64) exec" where
  "sys_get_src_tx_hash env a arg0 =
     sbind (charge gas_get_src_tx_hash) (\<lambda>_. sctx (\<lambda>tc.
       sbind (write_to_memory env a (be_bytes 32 (tc_tx_hash tc)) (ucast arg0)) (\<lambda>_. sret 0)))"

definition sys_get_invoked_tx_hash :: "('t, 'r) exec_env \<Rightarrow> Address \<Rightarrow> uint64 \<Rightarrow> ('r, uint64) exec" where
  "sys_get_invoked_tx_hash env a arg0 =
     sbind (charge gas_get_invoked_tx_hash) (\<lambda>_. sctx (\<lambda>tc.
       sbind (write_to_memory env a (be_bytes 32 (hash_tx env (tx_body (tc_tx tc)))) (ucast arg0)) (\<lambda>_. sret 0)))"

definition sys_get_block_number :: "('r, uint64) exec" where
  "sys_get_block_number = sbind (charge gas_get_block_number) (\<lambda>_. sctx (\<lambda>tc. sret (current_block tc)))"

definition sys_has_key :: "('t, 'r) exec_env \<Rightarrow> Address \<Rightarrow> uint64 \<Rightarrow> ('r, uint64) exec" where
  "sys_has_key env a arg0 =
     sbind (charge gas_has_key) (\<lambda>_. sbind (load_storage_key env a arg0) (\<lambda>k.
       sbind (proxy_read env k) (\<lambda>res. sret (if res \<noteq> None then 1 else 0))))"

definition RAW_MEMORY_MAX_LEN :: uint32 where "RAW_MEMORY_MAX_LEN = 4096"

definition sys_raw_mem_set :: "('t, 'r) exec_env \<Rightarrow> Address \<Rightarrow> uint64 \<Rightarrow> uint64 \<Rightarrow> uint64 \<Rightarrow> ('r, uint64) exec" where
  "sys_raw_mem_set env a arg0 arg1 arg2 =
     (let mem_offset = ucast arg1 :: uint32; mem_len = ucast arg2 :: uint32
      in sbind (charge (gas_raw_memory_set (ucast mem_len))) (\<lambda>_. sbind (load_storage_key env a arg0) (\<lambda>k.
         if RAW_MEMORY_MAX_LEN < mem_len then sthrow (HostError ''mem write too long'')
         else sbind (load_from_memory env a mem_offset mem_len) (\<lambda>data.
              sbind (proxy_write (raw_memory_write (env_ledger env) k data)) (\<lambda>_. sret 0)))))"

definition sys_raw_mem_get :: "('t, 'r) exec_env \<Rightarrow> Address \<Rightarrow> uint64 \<Rightarrow> uint64 \<Rightarrow> uint64 \<Rightarrow> ('r, uint64) exec" where
  "sys_raw_mem_get env a arg0 arg1 arg2 =
     (let output_max_len = ucast arg2 :: uint32
      in sbind (charge (gas_raw_memory_get (ucast output_max_len))) (\<lambda>_. sbind (load_storage_key env a arg0) (\<lambda>k.
         sbind (proxy_read env k) (\<lambda>res. case map_option body res of
             None \<Rightarrow> sret (- 1)
           | Some (raw_memory_storage data) \<Rightarrow>
               (let n = min (of_nat (length data)) output_max_len
                in sbind (write_to_memory env a (take (unat n) data) (ucast arg1)) (\<lambda>_. sret (ucast n)))
           | Some _ \<Rightarrow> sthrow (HostError ''type mismatch in raw mem get'')))))"

definition sys_raw_mem_get_len :: "('t, 'r) exec_env \<Rightarrow> Address \<Rightarrow> uint64 \<Rightarrow> ('r, uint64) exec" where
  "sys_raw_mem_get_len env a arg0 =
     sbind (charge gas_raw_memory_get_len) (\<lambda>_. sbind (load_storage_key env a arg0) (\<lambda>k.
       sbind (proxy_read env k) (\<lambda>res. case map_option body res of
           None \<Rightarrow> sret (- 1)
         | Some (raw_memory_storage data) \<Rightarrow> sret (of_nat (length data))
         | Some _ \<Rightarrow> sthrow (HostError ''type mismatch in raw mem get''))))"

definition sys_delete_key_last :: "('t, 'r) exec_env \<Rightarrow> Address \<Rightarrow> uint64 \<Rightarrow> ('r, uint64) exec" where
  "sys_delete_key_last env a arg0 =
     sbind (charge gas_delete_key_last) (\<lambda>_. sbind (load_storage_key env a arg0) (\<lambda>k.
       sbind (proxy_write (delete_object_last (env_ledger env) k)) (\<lambda>_. sret 0)))"

definition sys_nnint_set_add :: "('t, 'r) exec_env \<Rightarrow> Address \<Rightarrow> uint64 \<Rightarrow> uint64 \<Rightarrow> uint64 \<Rightarrow> ('r, uint64) exec" where
  "sys_nnint_set_add env a arg0 arg1 arg2 =
     sbind (charge gas_nonnegative_int64_set_add) (\<lambda>_. sbind (load_storage_key env a arg0) (\<lambda>k.
       sbind (proxy_write (nonnegative_int64_set_add (env_ledger env) k arg1 arg2)) (\<lambda>_. sret 0)))"

definition sys_nnint_add :: "('t, 'r) exec_env \<Rightarrow> Address \<Rightarrow> uint64 \<Rightarrow> uint64 \<Rightarrow> ('r, uint64) exec" where
  "sys_nnint_add env a arg0 arg1 =
     sbind (charge gas_nonnegative_int64_add) (\<lambda>_. sbind (load_storage_key env a arg0) (\<lambda>k.
       sbind (proxy_write (nonnegative_int64_add (env_ledger env) k arg1)) (\<lambda>_. sret 0)))"

definition sys_nnint_get :: "('t, 'r) exec_env \<Rightarrow> Address \<Rightarrow> uint64 \<Rightarrow> ('r, uint64) exec" where
  "sys_nnint_get env a arg0 =
     sbind (charge gas_nonnegative_int64_get) (\<lambda>_. sbind (load_storage_key env a arg0) (\<lambda>k.
       sbind (proxy_read env k) (\<lambda>res. case map_option body res of
           None \<Rightarrow> sret 0
         | Some (nonnegative_int64 v) \<Rightarrow> sret v
         | Some _ \<Rightarrow> sthrow (HostError ''type mismatch in raw mem get''))))"

definition sys_hs_insert :: "('t, 'r) exec_env \<Rightarrow> Address \<Rightarrow> uint64 \<Rightarrow> uint64 \<Rightarrow> uint64 \<Rightarrow> ('r, uint64) exec" where
  "sys_hs_insert env a arg0 arg1 arg2 =
     sbind (charge gas_hashset_insert) (\<lambda>_. sbind (load_storage_key env a arg0) (\<lambda>k.
       sbind (load_word env a (ucast arg1)) (\<lambda>h.
         sbind (proxy_write (hashset_insert (env_ledger env) k h arg2)) (\<lambda>_. sret 0))))"

definition sys_hs_inc_limit :: "('t, 'r) exec_env \<Rightarrow> Address \<Rightarrow> uint64 \<Rightarrow> uint64 \<Rightarrow> ('r, uint64) exec" where
  "sys_hs_inc_limit env a arg0 arg1 =
     sbind (charge gas_hashset_increase_limit) (\<lambda>_. sbind (load_storage_key env a arg0) (\<lambda>k.
       let limit_increase = ucast arg1 :: uint32
       in sbind (proxy_write (hashset_increase_limit (env_ledger env) k limit_increase)) (\<lambda>_. sret 0)))"

definition sys_hs_clear :: "('t, 'r) exec_env \<Rightarrow> Address \<Rightarrow> uint64 \<Rightarrow> uint64 \<Rightarrow> ('r, uint64) exec" where
  "sys_hs_clear env a arg0 arg1 =
     sbind (charge gas_hashset_clear) (\<lambda>_. sbind (load_storage_key env a arg0) (\<lambda>k.
       sbind (proxy_write (hashset_clear (env_ledger env) k arg1)) (\<lambda>_. sret 0)))"

definition sys_hs_get_size :: "('t, 'r) exec_env \<Rightarrow> Address \<Rightarrow> uint64 \<Rightarrow> ('r, uint64) exec" where
  "sys_hs_get_size env a arg0 =
     sbind (charge gas_hashset_get_size) (\<lambda>_. sbind (load_storage_key env a arg0) (\<lambda>k.
       sbind (proxy_read env k) (\<lambda>res. case map_option body res of
           None \<Rightarrow> sret 0
         | Some (hash_set hs) \<Rightarrow> sret (of_nat (length (hashes hs)))
         | Some _ \<Rightarrow> sthrow (HostError ''type mismatch in hashset get_size''))))"

definition sys_hs_get_max_size :: "('t, 'r) exec_env \<Rightarrow> Address \<Rightarrow> uint64 \<Rightarrow> ('r, uint64) exec" where
  "sys_hs_get_max_size env a arg0 =
     sbind (charge gas_hashset_get_max_size) (\<lambda>_. sbind (load_storage_key env a arg0) (\<lambda>k.
       sbind (proxy_read env k) (\<lambda>res. case map_option body res of
           None \<Rightarrow> sret 0
         | Some (hash_set hs) \<Rightarrow> sret (ucast (max_size hs))
         | Some _ \<Rightarrow> sthrow (HostError ''type mismatch in hashset get_max_size''))))"

fun index_of_entry :: "uint64 \<Rightarrow> HashSetEntry list \<Rightarrow> nat \<Rightarrow> nat option" where
  "index_of_entry t [] i = None"
| "index_of_entry t (e # es) i = (if index e = t then Some i else index_of_entry t es (Suc i))"

definition sys_hs_get_index_of :: "('t, 'r) exec_env \<Rightarrow> Address \<Rightarrow> uint64 \<Rightarrow> uint64 \<Rightarrow> ('r, uint64) exec" where
  "sys_hs_get_index_of env a arg0 arg1 =
     sbind (charge gas_hashset_get_index_of) (\<lambda>_. sbind (load_storage_key env a arg0) (\<lambda>k.
       sbind (proxy_read env k) (\<lambda>res. case map_option body res of
           None \<Rightarrow> sthrow (HostError ''key nexist (no hashset)'')
         | Some (hash_set hs) \<Rightarrow> (case index_of_entry arg1 (hashes hs) 0 of
               None \<Rightarrow> sthrow (HostError ''key nexist (not found)'')
             | Some i \<Rightarrow> sret (of_nat i))
         | Some _ \<Rightarrow> sthrow (HostError ''type mismatch in hashset get_index_of''))))"

definition sys_hs_get_index :: "('t, 'r) exec_env \<Rightarrow> Address \<Rightarrow> uint64 \<Rightarrow> uint64 \<Rightarrow> uint64 \<Rightarrow> ('r, uint64) exec" where
  "sys_hs_get_index env a arg0 arg1 arg2 =
     sbind (charge gas_hashset_get_index) (\<lambda>_. sbind (load_storage_key env a arg0) (\<lambda>k.
       sbind (proxy_read env k) (\<lambda>res. case map_option body res of
           None \<Rightarrow> sthrow (HostError ''key nexist (no hashset)'')
         | Some (hash_set hs) \<Rightarrow>
             if length (hashes hs) \<le> unat arg1 then sthrow (HostError ''invalid hashset index'')
             else let e = hashes hs ! unat arg1
                  in sbind (write_to_memory env a (be_bytes 32 (hash e)) (ucast arg2)) (\<lambda>_. sret (index e))
         | Some _ \<Rightarrow> sthrow (HostError ''type mismatch in hashset get_index_of_index''))))"

definition sys_contract_create :: "('t, 'r) exec_env \<Rightarrow> Address \<Rightarrow> uint64 \<Rightarrow> uint64 \<Rightarrow> ('r, uint64) exec" where
  "sys_contract_create env a arg0 arg1 =
     (let contract_idx = ucast arg0 :: uint32
      in sctx (\<lambda>tc.
           if get_num_deployable_contracts tc \<le> contract_idx then sthrow (HostError ''Invalid deployable contract access'')
           else sbind (slift (get_deployable_contract contract_idx tc)) (\<lambda>contract.
                sbind (charge (gas_create_contract (of_nat (length contract)))) (\<lambda>_.
                sbind (\<lambda>st. case create_contract (hash_contract env) (meter env) contract (contract_db_proxy (ctx st)) of
                          (h, px) \<Rightarrow> Ret (h, st\<lparr>ctx := (ctx st)\<lparr>contract_db_proxy := px\<rparr>\<rparr>)) (\<lambda>h.
                sbind (write_to_memory env a (be_bytes 32 h) (ucast arg1)) (\<lambda>_. sret 0))))))"

definition sys_contract_deploy :: "('t, 'r) exec_env \<Rightarrow> Address \<Rightarrow> uint64 \<Rightarrow> uint64 \<Rightarrow> uint64 \<Rightarrow> ('r, uint64) exec" where
  "sys_contract_deploy env a arg0 arg1 arg2 =
     sbind (charge gas_deploy_contract) (\<lambda>_. sbind (load_word env a (ucast arg0)) (\<lambda>contract_hash.
       sctx (\<lambda>tc. sbind (slift (get_self_addr tc)) (\<lambda>self.
       sbind (\<lambda>st. case deploy_contract (hash_vec env) (env_contracts env) self contract_hash arg1 (contract_db_proxy (ctx st)) of
                 (deploy_addr, px) \<Rightarrow> Ret (deploy_addr, st\<lparr>ctx := (ctx st)\<lparr>contract_db_proxy := px\<rparr>\<rparr>)) (\<lambda>deploy_addr_opt.
       case deploy_addr_opt of
         None \<Rightarrow> sthrow (HostError ''failed to deploy contract'')
       | Some x \<Rightarrow> sbind (write_to_memory env a (be_bytes 32 x) (ucast arg2)) (\<lambda>_. sret 0))))))"

definition sys_witness_get :: "('t, 'r) exec_env \<Rightarrow> Address \<Rightarrow> uint64 \<Rightarrow> uint64 \<Rightarrow> uint64 \<Rightarrow> ('r, uint64) exec" where
  "sys_witness_get env a arg0 arg1 arg2 =
     sbind (charge (gas_get_witness arg2)) (\<lambda>_. sctx (\<lambda>tc. sbind (slift (get_witness arg0 tc)) (\<lambda>wit.
       let write_len = min (of_nat (length (wit_value wit))) (ucast arg2) :: uint32
       in sbind (write_to_memory env a (take (unat write_len) (wit_value wit)) (ucast arg1)) (\<lambda>_.
            sret (of_nat (length (wit_value wit)))))))"

definition sys_witness_get_len :: "uint64 \<Rightarrow> ('r, uint64) exec" where
  "sys_witness_get_len arg0 =
     sbind (charge gas_get_witness_len) (\<lambda>_. sctx (\<lambda>tc. sbind (slift (get_witness arg0 tc)) (\<lambda>wit.
       sret (of_nat (length (wit_value wit))))))"

definition sys_get_calldata :: "('t, 'r) exec_env \<Rightarrow> Address \<Rightarrow> uint64 \<Rightarrow> uint64 \<Rightarrow> uint64 \<Rightarrow> ('r, uint64) exec" where
  "sys_get_calldata env a arg0 arg1 arg2 =
     sctx (\<lambda>tc. sbind (slift (get_current_method_invocation tc)) (\<lambda>iv.
       let offset = ucast arg0 :: uint32; slice_start = ucast arg1 :: uint32;
           slice_end = min (ucast arg2) (of_nat (length (calldata iv))) :: uint32
       in if slice_end \<le> slice_start then sthrow (HostError ''invalid calldata params'')
          else sbind (charge (gas_get_calldata (ucast (slice_end - slice_start)))) (\<lambda>_.
               sbind (write_to_memory env a (take (unat (slice_end - slice_start)) (drop (unat slice_start) (calldata iv))) offset) (\<lambda>_.
               sret 0))))"

definition sys_get_calldata_len :: "('r, uint64) exec" where
  "sys_get_calldata_len =
     sbind (charge gas_get_calldata_len) (\<lambda>_. sctx (\<lambda>tc. sbind (slift (get_current_method_invocation tc)) (\<lambda>iv.
       sret (of_nat (length (calldata iv))))))"

definition sys_return :: "('t, 'r) exec_env \<Rightarrow> Address \<Rightarrow> uint64 \<Rightarrow> uint64 \<Rightarrow> ('r, uint64) exec" where
  "sys_return env a arg0 arg1 =
     (let len = ucast arg1 :: uint32
      in sbind (charge (gas_return (ucast len))) (\<lambda>_. sbind (load_from_memory env a (ucast arg0) len) (\<lambda>bs st.
           Ret (0, st\<lparr>ctx := (ctx st)\<lparr>return_buf := bs\<rparr>\<rparr>))))"

definition sys_gas :: "uint64 \<Rightarrow> ('r, uint64) exec" where
  "sys_gas arg0 = sbind (charge arg0) (\<lambda>_. sret (- 1))"

definition sys_hash :: "('t, 'r) exec_env \<Rightarrow> Address \<Rightarrow> uint64 \<Rightarrow> uint64 \<Rightarrow> uint64 \<Rightarrow> ('r, uint64) exec" where
  "sys_hash env a arg0 arg1 arg2 =
     sbind (charge gas_hash) (\<lambda>_. sbind (load_from_memory env a (ucast arg0) (ucast arg1)) (\<lambda>buf.
       sbind (write_to_memory env a (be_bytes 32 (hash_opaque env buf)) (ucast arg2)) (\<lambda>_. sret 0)))"

definition sys_verify_ed25519 :: "('t, 'r) exec_env \<Rightarrow> Address \<Rightarrow> uint64 \<Rightarrow> uint64 \<Rightarrow> uint64 \<Rightarrow> uint64 \<Rightarrow> ('r, uint64) exec" where
  "sys_verify_ed25519 env a arg0 arg1 arg2 arg3 =
     sbind (charge gas_check_sig_ed25519) (\<lambda>_.
     sbind (load_from_memory env a (ucast arg0) 32) (\<lambda>pk.
     sbind (load_from_memory env a (ucast arg1) 64) (\<lambda>sig.
     sbind (load_from_memory env a (ucast arg2) (ucast arg3)) (\<lambda>msg.
       sret (if check_sig_ed25519 env pk sig msg then 1 else 0)))))"

datatype SYSCALLS =
    EXIT | WRITE | WRITE_BYTES | LOG | INVOKE | GET_SENDER | GET_SELF_ADDR | GET_SRC_TX_HASH | GET_INVOKED_TX_HASH
  | GET_BLOCK_NUMBER | HAS_KEY | RAW_MEM_SET | RAW_MEM_GET | RAW_MEM_GET_LEN | DELETE_KEY_LAST | NNINT_SET_ADD | NNINT_ADD
  | NNINT_GET | HS_INSERT | HS_INC_LIMIT | HS_CLEAR | HS_GET_SIZE | HS_GET_MAX_SIZE | HS_GET_INDEX_OF | HS_GET_INDEX
  | CONTRACT_CREATE | CONTRACT_DEPLOY | WITNESS_GET | WITNESS_GET_LEN | RETURN | GET_CALLDATA | GET_CALLDATA_LEN | GAS
  | HASH | VERIFY_ED25519

definition syscall_table :: "(uint32 \<times> SYSCALLS) list" where
  "syscall_table =
     [(500, EXIT), (501, WRITE), (502, WRITE_BYTES), (600, LOG), (601, INVOKE), (602, GET_SENDER), (603, GET_SELF_ADDR),
      (604, GET_SRC_TX_HASH), (605, GET_INVOKED_TX_HASH), (606, GET_BLOCK_NUMBER), (607, HAS_KEY), (608, RAW_MEM_SET),
      (609, RAW_MEM_GET), (610, RAW_MEM_GET_LEN), (611, DELETE_KEY_LAST), (612, NNINT_SET_ADD), (613, NNINT_ADD),
      (614, NNINT_GET), (615, HS_INSERT), (616, HS_INC_LIMIT), (617, HS_CLEAR), (618, HS_GET_SIZE), (619, HS_GET_MAX_SIZE),
      (620, HS_GET_INDEX_OF), (621, HS_GET_INDEX), (622, CONTRACT_CREATE), (623, CONTRACT_DEPLOY), (624, WITNESS_GET),
      (625, WITNESS_GET_LEN), (626, RETURN), (627, GET_CALLDATA), (628, GET_CALLDATA_LEN), (629, GAS), (700, HASH),
      (701, VERIFY_ED25519)]"

text \<open>
  \<open>SYSCALLS\<close> is an unscoped enum with a 32-bit underlying type: the cast drops the upper half of the
  number. The message of an unknown call leaves the number out.
\<close>

definition syscall_of :: "uint64 \<Rightarrow> SYSCALLS option" where
  "syscall_of callno = map_of syscall_table (ucast callno)"

definition syscall_switch :: "('t, 'r) exec_env \<Rightarrow> (MethodInvocation \<Rightarrow> ('r, unit) exec) \<Rightarrow> Address \<Rightarrow> SYSCALLS \<Rightarrow>
    uint64 \<Rightarrow> uint64 \<Rightarrow> uint64 \<Rightarrow> uint64 \<Rightarrow> uint64 \<Rightarrow> uint64 \<Rightarrow> ('r, uint64) exec" where
  "syscall_switch env invoke a c arg0 arg1 arg2 arg3 arg4 arg5 = (case c of
           EXIT \<Rightarrow> sthrow (HostError ''sys exit unimplemented in Wasm3'')
         | WRITE \<Rightarrow> sys_write env a arg0 arg1
         | WRITE_BYTES \<Rightarrow> sys_write_bytes env a arg0 arg1
         | LOG \<Rightarrow> sys_log env a arg0 arg1
         | INVOKE \<Rightarrow> sys_invoke env invoke a arg0 arg1 arg2 arg3 arg4 arg5
         | GET_SENDER \<Rightarrow> sys_get_sender env a arg0
         | GET_SELF_ADDR \<Rightarrow> sys_get_self_addr env a arg0
         | GET_SRC_TX_HASH \<Rightarrow> sys_get_src_tx_hash env a arg0
         | GET_INVOKED_TX_HASH \<Rightarrow> sys_get_invoked_tx_hash env a arg0
         | GET_BLOCK_NUMBER \<Rightarrow> sys_get_block_number
         | HAS_KEY \<Rightarrow> sys_has_key env a arg0
         | RAW_MEM_SET \<Rightarrow> sys_raw_mem_set env a arg0 arg1 arg2
         | RAW_MEM_GET \<Rightarrow> sys_raw_mem_get env a arg0 arg1 arg2
         | RAW_MEM_GET_LEN \<Rightarrow> sys_raw_mem_get_len env a arg0
         | DELETE_KEY_LAST \<Rightarrow> sys_delete_key_last env a arg0
         | NNINT_SET_ADD \<Rightarrow> sys_nnint_set_add env a arg0 arg1 arg2
         | NNINT_ADD \<Rightarrow> sys_nnint_add env a arg0 arg1
         | NNINT_GET \<Rightarrow> sys_nnint_get env a arg0
         | HS_INSERT \<Rightarrow> sys_hs_insert env a arg0 arg1 arg2
         | HS_INC_LIMIT \<Rightarrow> sys_hs_inc_limit env a arg0 arg1
         | HS_CLEAR \<Rightarrow> sys_hs_clear env a arg0 arg1
         | HS_GET_SIZE \<Rightarrow> sys_hs_get_size env a arg0
         | HS_GET_MAX_SIZE \<Rightarrow> sys_hs_get_max_size env a arg0
         | HS_GET_INDEX_OF \<Rightarrow> sys_hs_get_index_of env a arg0 arg1
         | HS_GET_INDEX \<Rightarrow> sys_hs_get_index env a arg0 arg1 arg2
         | CONTRACT_CREATE \<Rightarrow> sys_contract_create env a arg0 arg1
         | CONTRACT_DEPLOY \<Rightarrow> sys_contract_deploy env a arg0 arg1 arg2
         | WITNESS_GET \<Rightarrow> sys_witness_get env a arg0 arg1 arg2
         | WITNESS_GET_LEN \<Rightarrow> sys_witness_get_len arg0
         | RETURN \<Rightarrow> sys_return env a arg0 arg1
         | GET_CALLDATA \<Rightarrow> sys_get_calldata env a arg0 arg1 arg2
         | GET_CALLDATA_LEN \<Rightarrow> sys_get_calldata_len
         | GAS \<Rightarrow> sys_gas arg0
         | HASH \<Rightarrow> sys_hash env a arg0 arg1 arg2
         | VERIFY_ED25519 \<Rightarrow> sys_verify_ed25519 env a arg0 arg1 arg2 arg3)"

definition syscall_handler :: "('t, 'r) exec_env \<Rightarrow> (MethodInvocation \<Rightarrow> ('r, unit) exec) \<Rightarrow> uint64 \<Rightarrow>
    uint64 \<Rightarrow> uint64 \<Rightarrow> uint64 \<Rightarrow> uint64 \<Rightarrow> uint64 \<Rightarrow> uint64 \<Rightarrow> ('r, uint64) exec" where
  "syscall_handler env invoke callno arg0 arg1 arg2 arg3 arg4 arg5 =
     sctx (\<lambda>tc. sbind (slift (get_current_runtime tc)) (\<lambda>a.
       case syscall_of callno of
         None \<Rightarrow> sthrow (HostError ''invalid syscall no'')
       | Some c \<Rightarrow> syscall_switch env invoke a c arg0 arg1 arg2 arg3 arg4 arg5))"

section \<open>Memory functions and the gas callback\<close>

definition env_call :: "uint64 \<Rightarrow> ('r \<Rightarrow> (uint32 \<times> 'r) outcome) \<Rightarrow> ('r, uint64) exec" where
  "env_call g f =
     sbind (charge g) (\<lambda>_. sctx (\<lambda>tc. sbind (slift (get_current_runtime tc)) (\<lambda>a.
       sbind (find_runtime a) (\<lambda>r. sbind (slift (f r)) (\<lambda>(x, r'). sbind (put_runtime a r') (\<lambda>_. sret (ucast x)))))))"

definition env_memcmp :: "('t, 'r) exec_env \<Rightarrow> uint32 \<Rightarrow> uint32 \<Rightarrow> uint32 \<Rightarrow> ('r, uint64) exec" where
  "env_memcmp env lhs rhs sz = env_call (gas_memcmp (ucast sz)) (wr_memcmp (env_wasm env) lhs rhs sz)"

definition env_memset :: "('t, 'r) exec_env \<Rightarrow> uint32 \<Rightarrow> uint32 \<Rightarrow> uint32 \<Rightarrow> ('r, uint64) exec" where
  "env_memset env ptr val len = env_call (gas_memset (ucast len)) (wr_memset (env_wasm env) ptr val len)"

definition env_memcpy :: "('t, 'r) exec_env \<Rightarrow> uint32 \<Rightarrow> uint32 \<Rightarrow> uint32 \<Rightarrow> ('r, uint64) exec" where
  "env_memcpy env dst src len = env_call (gas_memcpy (ucast len)) (wr_memcpy (env_wasm env) dst src len)"

definition env_strnlen :: "('t, 'r) exec_env \<Rightarrow> uint32 \<Rightarrow> uint32 \<Rightarrow> ('r, uint64) exec" where
  "env_strnlen env ptr max_len = env_call (gas_strnlen (ucast max_len)) (wr_strlen (env_wasm env) ptr max_len)"

definition gas_handler :: "('t, 'r) exec_env \<Rightarrow> (MethodInvocation \<Rightarrow> ('r, unit) exec) \<Rightarrow> uint64 \<Rightarrow> ('r, uint64) exec" where
  "gas_handler env invoke gas = syscall_handler env invoke 629 gas 0 0 0 0 0"

text \<open>What the host does for an event of the running code.\<close>

definition host_call :: "('t, 'r) exec_env \<Rightarrow> (MethodInvocation \<Rightarrow> ('r, unit) exec) \<Rightarrow> wasm_event \<Rightarrow> ('r, uint64) exec" where
  "host_call env invoke e = (case e of
       Finished \<Rightarrow> sret 0
     | Trap msg \<Rightarrow> sthrow (HostError msg)
     | Syscall n a0 a1 a2 a3 a4 a5 \<Rightarrow> syscall_handler env invoke n a0 a1 a2 a3 a4 a5
     | GasCall g \<Rightarrow> gas_handler env invoke g
     | Memcmp x y n \<Rightarrow> env_memcmp env x y n
     | Memset p v n \<Rightarrow> env_memset env p v n
     | Memcpy d s n \<Rightarrow> env_memcpy env d s n
     | Strnlen p n \<Rightarrow> env_strnlen env p n)"

section \<open>Invoking a contract\<close>

text \<open>The runtime of a contract is created on its first invocation in a transaction.\<close>

definition ensure_runtime :: "('t, 'r) exec_env \<Rightarrow> Address \<Rightarrow> ('r, unit) exec" where
  "ensure_runtime env a st = (case map_of (active_runtimes st) a of
       Some _ \<Rightarrow> Ret ((), st)
     | None \<Rightarrow> obind (get_script (env_kv env) (env_contracts env) a (contract_db_proxy (ctx st))) (\<lambda>script.
         case wr_new (env_wasm env) script of
           None \<Rightarrow> Throw (HostError ''cannot find target address'')
         | Some r \<Rightarrow> Ret ((), st\<lparr>active_runtimes := omap_emplace a r (active_runtimes st)\<rparr>)))"

text \<open>
  \<open>run_runtime\<close> executes the code of the current runtime event by event; \<open>invoke_subroutine\<close> wraps a
  run in a frame of the two stacks. \<open>fuel\<close> bounds the events of a run; without fuel the call does not return.
\<close>

definition invoke_with :: "('t, 'r) exec_env \<Rightarrow> (Address \<Rightarrow> ('r, unit) exec) \<Rightarrow> MethodInvocation \<Rightarrow> ('r, unit) exec" where
  "invoke_with env run iv =
     sbind (ensure_runtime env (mi_addr iv)) (\<lambda>_.
     sbind (find_runtime (mi_addr iv)) (\<lambda>r.
     sbind (\<lambda>st. Ret ((), st\<lparr>ctx := push_invocation_stack (mi_addr iv) iv (ctx st)\<rparr>)) (\<lambda>_.
     sbind (put_runtime (mi_addr iv) (wr_start (env_wasm env) (get_invocable_methodname iv) r)) (\<lambda>_.
     sbind (run (mi_addr iv)) (\<lambda>_ st. Ret ((), st\<lparr>ctx := pop_invocation_stack (ctx st)\<rparr>))))))"

fun run_runtime :: "nat \<Rightarrow> ('t, 'r) exec_env \<Rightarrow> Address \<Rightarrow> ('r, unit) exec" where
  "run_runtime 0 env a = (\<lambda>st. Diverge)"
| "run_runtime (Suc fuel) env a =
     sbind (find_runtime a) (\<lambda>r.
       let e = wr_event (env_wasm env) r
       in if e = Finished then sret ()
          else sbind (host_call env (invoke_with env (run_runtime fuel env)) e) (\<lambda>x.
               sbind (find_runtime a) (\<lambda>r1.
               sbind (put_runtime a (wr_resume (env_wasm env) x r1)) (\<lambda>_. run_runtime fuel env a))))"

definition invoke_subroutine :: "nat \<Rightarrow> ('t, 'r) exec_env \<Rightarrow> MethodInvocation \<Rightarrow> ('r, unit) exec" where
  "invoke_subroutine fuel env = invoke_with env (run_runtime fuel env)"

end
