(* ===== verification/ContractBlock.thy ===== *)
theory ContractBlock
  imports ContractDB
begin

text \<open>
  What a block of transactions does to the contract database: the scripts it makes available,
  the blocks the database refuses, and what reaches the disk.
\<close>

section \<open>Transactions of a block\<close>

definition proxy_ok :: "ContractDBProxy \<Rightarrow> bool" where
  "proxy_ok px \<longleftrightarrow> \<not> is_committed px \<and> omap_ok (new_contracts px) \<and> omap_ok (new_deployments px)"

definition metered_contracts :: "ContractDBProxy \<Rightarrow> (Hash \<times> metered) list" where
  "metered_contracts px = map (\<lambda>(h, m, c). (h, m)) (new_contracts px)"

lemma proxy_ok_operations [simp]:
  "proxy_ok contract_proxy_new"
  "proxy_ok px \<Longrightarrow> proxy_ok (snd (create_contract hx meter c px))"
  "proxy_ok px \<Longrightarrow> proxy_ok (snd (deploy_contract hv db sender h nonce px))"
  "proxy_ok px \<Longrightarrow> deploy_contract_at_specific_address db a h px = Ret px' \<Longrightarrow> proxy_ok px'"
  by (auto simp: proxy_ok_def contract_proxy_new_def create_contract_def deploy_contract_def Let_def
      deploy_contract_at_specific_address_def split: if_splits)

lemma fst_metered_contracts: "map fst (metered_contracts px) = map fst (new_contracts px)"
  by (simp add: metered_contracts_def comp_def split_def)

definition uc_ok :: "UncommittedContracts \<Rightarrow> bool" where
  "uc_ok uc \<longleftrightarrow> omap_ok (uc_contracts uc) \<and> omap_ok (uc_deployments uc)"

lemma destroy_creates_ok:
  assumes "uc_ok (uncommitted_contracts db)" "distinct (map fst hcs)"
    "\<And>h. h \<in> fst ` set hcs \<Longrightarrow> map_of (uc_contracts (uncommitted_contracts db)) h = None"
  shows "\<exists>db'. destroy_creates tid (map create_closure_commit (map push_create_contract hcs)) db = Ret db' \<and>
     addresses_to_contracts_map db' = addresses_to_contracts_map db \<and>
     hashes_to_contracts_map db' = hashes_to_contracts_map db \<and> uc_ok (uncommitted_contracts db') \<and>
     uc_deployments (uncommitted_contracts db') = uc_deployments (uncommitted_contracts db) \<and>
     map_of (uc_contracts (uncommitted_contracts db')) =
       map_of (uc_contracts (uncommitted_contracts db)) ++ map_of (map (\<lambda>(h, m, c). (h, m)) hcs)"
  using assms
proof (induction hcs arbitrary: db)
  case (Cons x hcs)
  obtain h m c where x: "x = (h, m, c)" by (cases x) auto
  let ?db = "db\<lparr>has_uncommitted_modifications := True,
      uncommitted_contracts := (uncommitted_contracts db)\<lparr>uc_contracts := omap_emplace h m (uc_contracts (uncommitted_contracts db))\<rparr>,
      persistence := log_create tid h c (persistence db)\<rparr>"
  have none: "map_of (uc_contracts (uncommitted_contracts db)) h = None" using Cons.prems(3)[of h] by (simp add: x)
  have step: "create_closure_destroy tid (create_closure_commit (push_create_contract x)) db = Ret ?db"
    using none by (simp add: x create_closure_destroy_def create_closure_commit_def push_create_contract_def
        add_new_uncommitted_contract_def uc_add_new_contract_def)
  have upd: "map_of (uc_contracts (uncommitted_contracts ?db)) = (map_of (uc_contracts (uncommitted_contracts db)))(h \<mapsto> m)"
    using none by (simp add: map_of_omap_emplace)
  have fresh: "map_of (uc_contracts (uncommitted_contracts ?db)) h' = None" if "h' \<in> fst ` set hcs" for h'
    using Cons.prems(2) Cons.prems(3)[of h'] that unfolding upd by (auto simp: x)
  have ok: "uc_ok (uncommitted_contracts ?db)" using Cons.prems(1) by (simp add: uc_ok_def)
  have dist: "distinct (map fst hcs)" using Cons.prems(2) by simp
  from Cons.IH[OF ok dist fresh, unfolded upd] obtain db' where "destroy_creates tid (map create_closure_commit (map push_create_contract hcs)) ?db = Ret db'"
     "addresses_to_contracts_map db' = addresses_to_contracts_map db"
     "hashes_to_contracts_map db' = hashes_to_contracts_map db" "uc_ok (uncommitted_contracts db')"
     "uc_deployments (uncommitted_contracts db') = uc_deployments (uncommitted_contracts db)"
     "map_of (uc_contracts (uncommitted_contracts db')) =
       (map_of (uc_contracts (uncommitted_contracts db)))(h \<mapsto> m) ++ map_of (map (\<lambda>(h, m, c). (h, m)) hcs)"
    by (auto simp del: fun_upd_apply)
  moreover have "map_of (map (\<lambda>(h, m, c). (h, m)) hcs) h = None"
    using Cons.prems(2) by (auto simp: x map_of_eq_None_iff image_image split_def)
  ultimately show ?case using step by (auto simp: x map_add_def fun_eq_iff split: option.split)
qed simp

lemma deploy_closures:
  "let db' = foldl (\<lambda>db cl. deploy_closure_commit cl db) db ds in
     addresses_to_contracts_map db' = addresses_to_contracts_map db \<and>
     hashes_to_contracts_map db' = hashes_to_contracts_map db \<and>
     uc_contracts (uncommitted_contracts db') = uc_contracts (uncommitted_contracts db) \<and>
     (uc_ok (uncommitted_contracts db) \<longrightarrow> uc_ok (uncommitted_contracts db')) \<and>
     map_of (uc_deployments (uncommitted_contracts db')) =
       map_of ds ++ map_of (uc_deployments (uncommitted_contracts db))"
proof (induction ds rule: rev_induct)
  case (snoc d ds)
  then show ?case
    by (cases d) (auto simp: Let_def deploy_closure_commit_def deploy_contract_to_address_def
        uc_deploy_contract_to_address_def uc_ok_def map_of_omap_emplace map_add_def fun_eq_iff split: option.splits)
qed simp

text \<open>A transaction adds its contracts and its deployments; of two deployments to one address the first stays.\<close>

lemma commit_tx_contracts_ok:
  assumes "proxy_ok px" "uc_ok (uncommitted_contracts db)"
    "\<And>h. h \<in> fst ` set (new_contracts px) \<Longrightarrow> map_of (uc_contracts (uncommitted_contracts db)) h = None"
  shows "\<exists>db'. commit_tx_contracts tid px db = Ret db' \<and>
     addresses_to_contracts_map db' = addresses_to_contracts_map db \<and>
     hashes_to_contracts_map db' = hashes_to_contracts_map db \<and> uc_ok (uncommitted_contracts db') \<and>
     map_of (uc_contracts (uncommitted_contracts db')) =
       map_of (uc_contracts (uncommitted_contracts db)) ++ map_of (metered_contracts px) \<and>
     map_of (uc_deployments (uncommitted_contracts db')) =
       map_of (new_deployments px) ++ map_of (uc_deployments (uncommitted_contracts db))"
proof -
  let ?db = "foldl (\<lambda>db cl. deploy_closure_commit cl db) db (new_deployments px)"
  note d = deploy_closures[of db "new_deployments px", unfolded Let_def]
  have "uc_ok (uncommitted_contracts ?db)" using d assms(2) by blast
  moreover have "map_of (uc_contracts (uncommitted_contracts ?db)) h = None" if "h \<in> fst ` set (new_contracts px)" for h
    using assms(3)[OF that] d by simp
  moreover have "distinct (map fst (new_contracts px))" using assms(1) by (simp add: proxy_ok_def omap_ok_distinct)
  ultimately obtain db' where "destroy_creates tid (map create_closure_commit (map push_create_contract (new_contracts px))) ?db = Ret db'"
     "addresses_to_contracts_map db' = addresses_to_contracts_map ?db"
     "hashes_to_contracts_map db' = hashes_to_contracts_map ?db" "uc_ok (uncommitted_contracts db')"
     "uc_deployments (uncommitted_contracts db') = uc_deployments (uncommitted_contracts ?db)"
     "map_of (uc_contracts (uncommitted_contracts db')) =
       map_of (uc_contracts (uncommitted_contracts ?db)) ++ map_of (metered_contracts px)"
    using destroy_creates_ok[of ?db "new_contracts px" tid] unfolding metered_contracts_def by blast
  then show ?thesis using d assms(1)
    by (simp add: commit_tx_contracts_def push_updates_to_db_def contract_assert_not_committed_def proxy_ok_def
        contract_rewind_commit_def contract_rewind_destroy_def)
qed

fun commit_txs :: "nat \<Rightarrow> ContractDBProxy list \<Rightarrow> 't ContractDB \<Rightarrow> 't ContractDB outcome" where
  "commit_txs tid [] db = Ret db"
| "commit_txs tid (px # pxs) db = obind (commit_tx_contracts tid px db) (commit_txs tid pxs)"

definition all_contracts :: "ContractDBProxy list \<Rightarrow> (Hash \<times> metered) list" where
  "all_contracts pxs = concat (map metered_contracts pxs)"

definition all_deployments :: "ContractDBProxy list \<Rightarrow> (Address \<times> Hash) list" where
  "all_deployments pxs = concat (map new_deployments pxs)"

lemma commit_txs_ok:
  assumes "list_all proxy_ok pxs" "uc_ok (uncommitted_contracts db)" "distinct (map fst (all_contracts pxs))"
    "\<And>h. h \<in> fst ` set (all_contracts pxs) \<Longrightarrow> map_of (uc_contracts (uncommitted_contracts db)) h = None"
  shows "\<exists>db'. commit_txs tid pxs db = Ret db' \<and>
     addresses_to_contracts_map db' = addresses_to_contracts_map db \<and>
     hashes_to_contracts_map db' = hashes_to_contracts_map db \<and> uc_ok (uncommitted_contracts db') \<and>
     map_of (uc_contracts (uncommitted_contracts db')) =
       map_of (uc_contracts (uncommitted_contracts db)) ++ map_of (all_contracts pxs) \<and>
     map_of (uc_deployments (uncommitted_contracts db')) =
       map_of (all_deployments pxs) ++ map_of (uc_deployments (uncommitted_contracts db))"
  using assms
proof (induction pxs arbitrary: db)
  case Nil
  then show ?case by (simp add: all_contracts_def all_deployments_def)
next
  case (Cons px pxs)
  have split: "all_contracts (px # pxs) = metered_contracts px @ all_contracts pxs"
    "all_deployments (px # pxs) = new_deployments px @ all_deployments pxs"
    by (simp_all add: all_contracts_def all_deployments_def)
  have keys: "fst ` set (metered_contracts px) = fst ` set (new_contracts px)"
    using fst_metered_contracts[of px] by (metis list.set_map)
  have "map_of (uc_contracts (uncommitted_contracts db)) h = None" if "h \<in> fst ` set (new_contracts px)" for h
    using Cons.prems(4)[of h] that unfolding split keys[symmetric] by (simp add: image_Un)
  then obtain db1 where db1: "commit_tx_contracts tid px db = Ret db1"
     "addresses_to_contracts_map db1 = addresses_to_contracts_map db"
     "hashes_to_contracts_map db1 = hashes_to_contracts_map db" "uc_ok (uncommitted_contracts db1)"
     "map_of (uc_contracts (uncommitted_contracts db1)) =
       map_of (uc_contracts (uncommitted_contracts db)) ++ map_of (metered_contracts px)"
     "map_of (uc_deployments (uncommitted_contracts db1)) =
       map_of (new_deployments px) ++ map_of (uc_deployments (uncommitted_contracts db))"
    using commit_tx_contracts_ok[of px db tid] Cons.prems(1,2) by auto
  have "map_of (uc_contracts (uncommitted_contracts db1)) h = None" if h: "h \<in> fst ` set (all_contracts pxs)" for h
  proof -
    have "h \<notin> fst ` set (metered_contracts px)" using h Cons.prems(3) by (auto simp: split)
    then have "map_of (metered_contracts px) h = None" by (simp add: map_of_eq_None_iff)
    then show ?thesis using Cons.prems(4)[of h] h by (simp add: db1(5) map_add_def split image_Un)
  qed
  then obtain db2 where db2: "commit_txs tid pxs db1 = Ret db2"
     "addresses_to_contracts_map db2 = addresses_to_contracts_map db1"
     "hashes_to_contracts_map db2 = hashes_to_contracts_map db1" "uc_ok (uncommitted_contracts db2)"
     "map_of (uc_contracts (uncommitted_contracts db2)) =
       map_of (uc_contracts (uncommitted_contracts db1)) ++ map_of (all_contracts pxs)"
     "map_of (uc_deployments (uncommitted_contracts db2)) =
       map_of (all_deployments pxs) ++ map_of (uc_deployments (uncommitted_contracts db1))"
    using Cons.IH[of db1] Cons.prems(1,3) db1(4) by (auto simp: split)
  have "map_of (metered_contracts px) ++ map_of (all_contracts pxs) = map_of (all_contracts pxs) ++ map_of (metered_contracts px)"
    using Cons.prems(3) by (intro map_add_comm) (auto simp: split dom_map_of_conv_image_fst)
  then have "map_of (uc_contracts (uncommitted_contracts db2)) =
      map_of (uc_contracts (uncommitted_contracts db)) ++ map_of (all_contracts (px # pxs))"
    by (metis db1(5) db2(5) map_add_assoc map_of_append split(1))
  then show ?case using db1 db2 by (simp add: split)
qed


section \<open>Committing the block\<close>

lemma commit_contracts_ok:
  assumes "distinct (map fst hcs)" "\<And>h. h \<in> fst ` set hcs \<Longrightarrow> map_of (hashes_to_contracts_map db) h = None"
  shows "\<exists>db'. commit_contracts hcs db = Ret db' \<and> addresses_to_contracts_map db' = addresses_to_contracts_map db \<and>
     map_of (hashes_to_contracts_map db') = map_of (hashes_to_contracts_map db) ++ map_of hcs"
  using assms
proof (induction hcs arbitrary: db)
  case (Cons x hcs)
  obtain h c where x: "x = (h, c)" by force
  let ?db = "db\<lparr>hashes_to_contracts_map := omap_emplace h c (hashes_to_contracts_map db)\<rparr>"
  have none: "map_of (hashes_to_contracts_map db) h = None" using Cons.prems(2)[of h] by (simp add: x)
  then have step: "commit_contract_to_db h c db = Ret ?db" by (simp add: commit_contract_to_db_def)
  have upd: "map_of (hashes_to_contracts_map ?db) = (map_of (hashes_to_contracts_map db))(h \<mapsto> c)"
    using none by (simp add: map_of_omap_emplace)
  have fresh: "map_of (hashes_to_contracts_map ?db) h' = None" if "h' \<in> fst ` set hcs" for h'
    using Cons.prems(1) Cons.prems(2)[of h'] that unfolding upd by (auto simp: x)
  have dist: "distinct (map fst hcs)" using Cons.prems(1) by simp
  from Cons.IH[OF dist fresh, unfolded upd] obtain db' where "commit_contracts hcs ?db = Ret db'"
     "addresses_to_contracts_map db' = addresses_to_contracts_map db"
     "map_of (hashes_to_contracts_map db') = (map_of (hashes_to_contracts_map db))(h \<mapsto> c) ++ map_of hcs"
    by (auto simp del: fun_upd_apply)
  moreover have "map_of hcs h = None" using Cons.prems(1) by (auto simp: x map_of_eq_None_iff)
  ultimately show ?case using step by (auto simp: x map_add_def fun_eq_iff split: option.split)
qed simp

lemma commit_registrations_ok:
  assumes "kv_laws K" "distinct (map fst ads)"
    "\<And>a h. (a, h) \<in> set ads \<Longrightarrow> map_of (hashes_to_contracts_map db) h \<noteq> None"
    "\<And>a. a \<in> fst ` set ads \<Longrightarrow> kv_get K a (addresses_to_contracts_map db) = None"
  shows "\<exists>db'. commit_registrations K tid ads db = Ret db' \<and>
     (\<forall>a. kv_get K a (addresses_to_contracts_map db') =
        (case map_of ads a of None \<Rightarrow> kv_get K a (addresses_to_contracts_map db)
         | Some h \<Rightarrow> map_of (hashes_to_contracts_map db) h)) \<and>
     hashes_to_contracts_map db' = hashes_to_contracts_map db"
  using assms(2-4)
proof (induction ads arbitrary: db)
  case (Cons x ads)
  obtain a h where x: "x = (a, h)" by force
  obtain c where c: "map_of (hashes_to_contracts_map db) h = Some c" using Cons.prems(2)[of a h] by (auto simp: x)
  let ?db = "db\<lparr>addresses_to_contracts_map := kv_put K a c (addresses_to_contracts_map db),
      persistence := log_deploy tid a h (persistence db)\<rparr>"
  have "commit_registration K tid a h db = Ret ?db"
    using Cons.prems(3)[of a] c by (simp add: x commit_registration_def)
  moreover obtain db' where "commit_registrations K tid ads ?db = Ret db'"
     "\<forall>a'. kv_get K a' (addresses_to_contracts_map db') =
        (case map_of ads a' of None \<Rightarrow> kv_get K a' (addresses_to_contracts_map ?db)
         | Some h \<Rightarrow> map_of (hashes_to_contracts_map db) h)"
     "hashes_to_contracts_map db' = hashes_to_contracts_map db"
  proof -
    have "distinct (map fst ads)" using Cons.prems(1) by simp
    moreover have "map_of (hashes_to_contracts_map ?db) h' \<noteq> None" if "(a', h') \<in> set ads" for a' h'
      using Cons.prems(2)[of a' h'] that by simp
    moreover have "kv_get K a' (addresses_to_contracts_map ?db) = None" if "a' \<in> fst ` set ads" for a'
      using Cons.prems(1) Cons.prems(3)[of a'] that by (auto simp: x kv_lawsD(2)[OF assms(1)])
    ultimately show thesis using that Cons.IH[of ?db] by (auto cong: option.case_cong)
  qed
  moreover have "map_of ads a = None" using Cons.prems(1) by (auto simp: x map_of_eq_None_iff)
  ultimately show ?case by (auto simp: x kv_lawsD(2)[OF assms(1)] c split: option.split)
qed simp

lemma contract_db_commit_ok:
  assumes "kv_laws K" "uc_ok (uncommitted_contracts db)"
    "\<And>h. map_of (uc_contracts (uncommitted_contracts db)) h \<noteq> None \<Longrightarrow> map_of (hashes_to_contracts_map db) h = None"
    "\<And>a h. map_of (uc_deployments (uncommitted_contracts db)) a = Some h \<Longrightarrow>
       (map_of (hashes_to_contracts_map db) ++ map_of (uc_contracts (uncommitted_contracts db))) h \<noteq> None \<and>
       kv_get K a (addresses_to_contracts_map db) = None"
  shows "\<exists>db'. contract_db_commit K tid ts db = Ret db' \<and> \<not> has_uncommitted_modifications db' \<and>
     uncommitted_contracts db' = uncommitted_new \<and>
     map_of (hashes_to_contracts_map db') =
       map_of (hashes_to_contracts_map db) ++ map_of (uc_contracts (uncommitted_contracts db)) \<and>
     (\<forall>a. kv_get K a (addresses_to_contracts_map db') =
        (case map_of (uc_deployments (uncommitted_contracts db)) a of
           None \<Rightarrow> kv_get K a (addresses_to_contracts_map db)
         | Some h \<Rightarrow> map_of (hashes_to_contracts_map db') h))"
proof -
  let ?hcs = "uc_contracts (uncommitted_contracts db)" and ?ads = "uc_deployments (uncommitted_contracts db)"
  have d: "distinct (map fst ?hcs)" "distinct (map fst ?ads)" using assms(2) by (simp_all add: uc_ok_def omap_ok_distinct)
  have "map_of (hashes_to_contracts_map db) h = None" if "h \<in> fst ` set ?hcs" for h
    using assms(3)[of h] that by (metis map_of_eq_None_iff)
  then obtain db1 where db1: "commit_contracts ?hcs db = Ret db1"
     "addresses_to_contracts_map db1 = addresses_to_contracts_map db"
     "map_of (hashes_to_contracts_map db1) = map_of (hashes_to_contracts_map db) ++ map_of ?hcs"
    using commit_contracts_ok[OF d(1), of db] by blast
  have "map_of (hashes_to_contracts_map db1) h \<noteq> None" if "(a, h) \<in> set ?ads" for a h
    using assms(4)[of a h] that d(2) db1(3) by simp
  moreover have "kv_get K a (addresses_to_contracts_map db1) = None" if "a \<in> fst ` set ?ads" for a
    using assms(4)[of a] that d(2) db1(2) by auto
  ultimately obtain db2 where "commit_registrations K tid ?ads db1 = Ret db2"
     "\<forall>a. kv_get K a (addresses_to_contracts_map db2) =
        (case map_of ?ads a of None \<Rightarrow> kv_get K a (addresses_to_contracts_map db1)
         | Some h \<Rightarrow> map_of (hashes_to_contracts_map db1) h)"
     "hashes_to_contracts_map db2 = hashes_to_contracts_map db1"
    using commit_registrations_ok[OF assms(1) d(2), of db1 tid] by blast
  then show ?thesis using db1
    by (simp add: contract_db_commit_def uc_commit_def uc_clear_def uncommitted_new_def cong: option.case_cong)
qed


section \<open>Properties of a block\<close>

text \<open>The script an address runs after the block: that of its first deployment in the block, or the one it had.\<close>

definition script_after :: "(Address, metered, 't) kv_ops \<Rightarrow> 't ContractDB \<Rightarrow> ContractDBProxy list \<Rightarrow> Address \<Rightarrow> metered option" where
  "script_after K db pxs a = (case map_of (all_deployments pxs) a of
       None \<Rightarrow> kv_get K a (addresses_to_contracts_map db)
     | Some h \<Rightarrow> (map_of (hashes_to_contracts_map db) ++ map_of (all_contracts pxs)) h)"

definition deployable :: "(Address, metered, 't) kv_ops \<Rightarrow> 't ContractDB \<Rightarrow> ContractDBProxy list \<Rightarrow> bool" where
  "deployable K db pxs \<longleftrightarrow>
     list_all proxy_ok pxs \<and> distinct (map fst (all_contracts pxs)) \<and>
     (\<forall>h \<in> fst ` set (all_contracts pxs). \<not> check_committed_contract_exists h db) \<and>
     (\<forall>(a, h) \<in> set (all_deployments pxs). kv_get K a (addresses_to_contracts_map db) = None \<and>
        (check_committed_contract_exists h db \<or> h \<in> fst ` set (all_contracts pxs)))"

definition idle_contract_db :: "'t ContractDB \<Rightarrow> bool" where
  "idle_contract_db db \<longleftrightarrow> uncommitted_contracts db = uncommitted_new"

definition commit_block_contracts :: "(Address, metered, 't) kv_ops \<Rightarrow> nat \<Rightarrow> uint32 \<Rightarrow> ContractDBProxy list \<Rightarrow> 't ContractDB \<Rightarrow> 't ContractDB outcome" where
  "commit_block_contracts K tid ts pxs db = obind (commit_txs tid pxs db) (contract_db_commit K tid ts)"

text \<open>
  C25: a block that creates only new contracts and deploys only to free addresses commits, and
  afterwards every address runs the script of its first deployment in the block, every other
  address what it ran before, and the database is idle again.
\<close>

theorem contract_block_commits:
  assumes "kv_laws K" "idle_contract_db db" "deployable K db pxs"
  shows "\<exists>db'. commit_block_contracts K tid ts pxs db = Ret db' \<and> idle_contract_db db' \<and>
     (\<forall>a. kv_get K a (addresses_to_contracts_map db') = script_after K db pxs a) \<and>
     (\<forall>h. check_committed_contract_exists h db' \<longleftrightarrow> check_committed_contract_exists h db \<or> h \<in> fst ` set (all_contracts pxs))"
proof -
  have idle: "uc_contracts (uncommitted_contracts db) = []" "uc_deployments (uncommitted_contracts db) = []"
    using assms(2) by (simp_all add: idle_contract_db_def uncommitted_new_def)
  obtain db1 where db1: "commit_txs tid pxs db = Ret db1"
     "addresses_to_contracts_map db1 = addresses_to_contracts_map db"
     "hashes_to_contracts_map db1 = hashes_to_contracts_map db" "uc_ok (uncommitted_contracts db1)"
     "map_of (uc_contracts (uncommitted_contracts db1)) = map_of (all_contracts pxs)"
     "map_of (uc_deployments (uncommitted_contracts db1)) = map_of (all_deployments pxs)"
  proof -
    have "list_all proxy_ok pxs" "distinct (map fst (all_contracts pxs))" using assms(3) by (simp_all add: deployable_def)
    moreover have "uc_ok (uncommitted_contracts db)" using idle by (simp add: uc_ok_def)
    moreover have "map_of (uc_contracts (uncommitted_contracts db)) h = None" for h using idle by simp
    ultimately show thesis using that commit_txs_ok[of pxs db tid] idle by (auto simp: idle)
  qed
  have c: "map_of (hashes_to_contracts_map db1) h = None" if "map_of (uc_contracts (uncommitted_contracts db1)) h \<noteq> None" for h
  proof -
    have "h \<in> fst ` set (all_contracts pxs)" using that unfolding db1(5) map_of_eq_None_iff by blast
    then show ?thesis using assms(3) unfolding deployable_def check_committed_contract_exists_def db1(3) by blast
  qed
  have d: "(map_of (hashes_to_contracts_map db1) ++ map_of (uc_contracts (uncommitted_contracts db1))) h \<noteq> None \<and>
       kv_get K a (addresses_to_contracts_map db1) = None"
    if "map_of (uc_deployments (uncommitted_contracts db1)) a = Some h" for a h
  proof -
    have "(a, h) \<in> set (all_deployments pxs)" using map_of_SomeD that unfolding db1(6) by fast
    then have "kv_get K a (addresses_to_contracts_map db) = None"
      "check_committed_contract_exists h db \<or> h \<in> fst ` set (all_contracts pxs)"
      using assms(3) unfolding deployable_def by blast+
    then show ?thesis unfolding db1 map_add_None check_committed_contract_exists_def map_of_eq_None_iff by blast
  qed
  from contract_db_commit_ok[OF assms(1) db1(4) c d, of tid ts] obtain db' where db':
     "contract_db_commit K tid ts db1 = Ret db'" "uncommitted_contracts db' = uncommitted_new"
     "map_of (hashes_to_contracts_map db') = map_of (hashes_to_contracts_map db) ++ map_of (all_contracts pxs)"
     "\<forall>a. kv_get K a (addresses_to_contracts_map db') =
        (case map_of (all_deployments pxs) a of None \<Rightarrow> kv_get K a (addresses_to_contracts_map db)
         | Some h \<Rightarrow> map_of (hashes_to_contracts_map db') h)"
    unfolding db1(2,3,5,6) by auto
  have "check_committed_contract_exists h db' \<longleftrightarrow> check_committed_contract_exists h db \<or> h \<in> fst ` set (all_contracts pxs)" for h
    unfolding check_committed_contract_exists_def db'(3) map_add_None by (metis map_of_eq_None_iff)
  moreover have "commit_block_contracts K tid ts pxs db = Ret db'"
    using db1(1) db'(1) by (simp add: commit_block_contracts_def)
  ultimately show ?thesis using db'(2,4) unfolding idle_contract_db_def script_after_def db'(3) by blast
qed

text \<open>A sample: hashes are lengths, metering is the identity, one thread.\<close>

definition sample_db :: "(Address \<times> metered) list ContractDB" where
  "sample_db = contract_db_new assoc_kv 1"

definition sample_create :: "Contract \<Rightarrow> Address \<Rightarrow> ContractDBProxy" where
  "sample_create c a = (let (h, px) = create_contract (\<lambda>c. of_nat (length c)) Some c contract_proxy_new
     in px\<lparr>new_deployments := omap_set a h (new_deployments px)\<rparr>)"

lemma sample_create_simps [simp]:
  "new_contracts (sample_create c a) = [(of_nat (length c), Some c, c)]"
  "new_deployments (sample_create c a) = [(a, of_nat (length c))]" "is_committed (sample_create c a) = False"
  by (simp_all add: sample_create_def create_contract_def contract_proxy_new_def Let_def)

lemma sample_deployable: "deployable assoc_kv sample_db [sample_create [1, 2] 10, sample_create [3] 11]"
  by (simp add: deployable_def sample_db_def contract_db_new_def assoc_kv_def proxy_ok_def omap_ok_def
      all_contracts_def metered_contracts_def all_deployments_def check_committed_contract_exists_def)

theorem contract_block_commits_witness:
  "\<exists>db'. commit_block_contracts assoc_kv 0 7 [sample_create [1, 2] 10, sample_create [3] 11] sample_db = Ret db' \<and>
     kv_get assoc_kv 10 (addresses_to_contracts_map db') = Some (Some [1, 2]) \<and>
     kv_get assoc_kv 11 (addresses_to_contracts_map db') = Some (Some [3]) \<and>
     kv_get assoc_kv 12 (addresses_to_contracts_map db') = None"
proof -
  have "idle_contract_db sample_db" by (simp add: idle_contract_db_def sample_db_def contract_db_new_def)
  from contract_block_commits[OF assoc_kv_laws this sample_deployable, of 0 7]
  show ?thesis
    by (auto simp: script_after_def all_deployments_def all_contracts_def metered_contracts_def map_add_def
        sample_db_def contract_db_new_def assoc_kv_def)
qed


section \<open>Undone and refused blocks\<close>

lemma commit_txs_frame:
  "commit_txs tid pxs db = Ret db' \<Longrightarrow>
     addresses_to_contracts_map db' = addresses_to_contracts_map db \<and> hashes_to_contracts_map db' = hashes_to_contracts_map db"
proof (induction pxs arbitrary: db)
  case (Cons px pxs)
  have destroy: "destroy_creates tid cls d = Ret d' \<Longrightarrow>
     addresses_to_contracts_map d' = addresses_to_contracts_map d \<and> hashes_to_contracts_map d' = hashes_to_contracts_map d" for cls d d'
    by (induction cls arbitrary: d) (fastforce simp: outcome_simps create_closure_destroy_def
        add_new_uncommitted_contract_def split: if_splits outcome.splits)+
  obtain db1 where db1: "commit_tx_contracts tid px db = Ret db1" "commit_txs tid pxs db1 = Ret db'"
    using Cons.prems by (auto simp: outcome_simps)
  from db1(1) obtain cls where "destroy_creates tid cls (foldl (\<lambda>db cl. deploy_closure_commit cl db) db (new_deployments px)) = Ret db1"
    by (auto simp: commit_tx_contracts_def push_updates_to_db_def outcome_simps contract_rewind_commit_def contract_rewind_destroy_def)
  from destroy[OF this] deploy_closures[of db "new_deployments px"] Cons.IH[OF db1(2)] show ?case by (simp add: Let_def)
qed simp

text \<open>
  Undoing a block leaves no trace in the scripts: whatever the transactions of the block
  created and deployed, after \<open>rewind\<close> every lookup by address or by hash answers as before the
  block and the database is idle.
\<close>

theorem contract_block_rewinds:
  assumes "commit_txs tid pxs db = Ret db'"
  shows "let db2 = contract_db_rewind db' in
     idle_contract_db db2 \<and> \<not> has_uncommitted_modifications db2 \<and>
     get_script_by_address K a db2 = get_script_by_address K a db \<and> get_script_by_hash h db2 = get_script_by_hash h db"
  using commit_txs_frame[OF assms]
  by (simp add: Let_def contract_db_rewind_def idle_contract_db_def uc_clear_def uncommitted_new_def
      get_script_by_address_def get_script_by_hash_def)

theorem contract_block_rewinds_witness:
  "\<exists>db'. commit_txs 0 [sample_create [1, 2] 10] sample_db = Ret db' \<and>
     get_script_by_address assoc_kv 10 (contract_db_rewind db') = Ret None"
proof -
  obtain db' where db': "commit_txs 0 [sample_create [1, 2] 10] sample_db = Ret db'"
    using commit_txs_ok[of "[sample_create [1, 2] 10]" sample_db 0]
    by (auto simp: proxy_ok_def omap_ok_def all_contracts_def metered_contracts_def uc_ok_def sample_db_def
        contract_db_new_def uncommitted_new_def)
  from contract_block_rewinds[OF this, of assoc_kv 10] have
    "get_script_by_address assoc_kv 10 (contract_db_rewind db') = get_script_by_address assoc_kv 10 sample_db"
    by (simp add: Let_def)
  also have "\<dots> = Ret None" by (simp add: get_script_by_address_def sample_db_def contract_db_new_def assoc_kv_def)
  finally show ?thesis using db' by blast
qed

lemma commit_contracts_known_fails:
  "h \<in> fst ` set hcs \<Longrightarrow> map_of (hashes_to_contracts_map db) h \<noteq> None \<Longrightarrow>
     commit_contracts hcs db = Throw (RuntimeError ''failed to commit contract (contract at this hash already existed)'')"
proof (induction hcs arbitrary: db)
  case (Cons x hcs)
  obtain h' c where x: "x = (h', c)" by force
  show ?case
  proof (cases "map_of (hashes_to_contracts_map db) h'")
    case None
    then have "h' \<noteq> h" using Cons.prems(2) by auto
    with Cons None show ?thesis by (auto simp: x commit_contract_to_db_def map_of_omap_emplace)
  qed (simp add: x commit_contract_to_db_def)
qed simp

text \<open>
  Re-creating a committed contract makes the block fail. \<open>create_contract\<close> does not ask whether
  the contract exists, so one transaction that creates a contract whose code is already committed
  makes the commit of the whole block throw.
\<close>

theorem recreate_fails_block:
  assumes "idle_contract_db db" "check_committed_contract_exists (hx c) db"
  shows "commit_block_contracts K tid ts [snd (create_contract hx meter c contract_proxy_new)] db =
     Throw (RuntimeError ''failed to commit contract (contract at this hash already existed)'')"
proof -
  let ?px = "snd (create_contract hx meter c contract_proxy_new)"
  have px: "new_contracts ?px = [(hx c, meter c, c)]" "proxy_ok ?px"
    by (simp_all add: create_contract_def contract_proxy_new_def Let_def proxy_ok_def omap_ok_def)
  obtain db1 where db1: "commit_tx_contracts tid ?px db = Ret db1" "hashes_to_contracts_map db1 = hashes_to_contracts_map db"
     "map_of (uc_contracts (uncommitted_contracts db1)) = map_of (metered_contracts ?px)"
    using commit_tx_contracts_ok[OF px(2), of db tid] assms(1) by (auto simp: idle_contract_db_def uncommitted_new_def uc_ok_def)
  have "hx c \<in> fst ` set (uc_contracts (uncommitted_contracts db1))"
    using db1(3) px(1) by (metis (mono_tags, lifting) fst_metered_contracts list.set_intros(1) list.set_map list.simps(9) fst_conv map_of_eq_None_iff)
  then show ?thesis using commit_contracts_known_fails[of "hx c" _ db1] assms(2) db1(1,2)
    by (simp add: commit_block_contracts_def contract_db_commit_def uc_commit_def check_committed_contract_exists_def)
qed

theorem recreate_fails_block_witness:
  "commit_block_contracts assoc_kv 0 8 [snd (create_contract (\<lambda>c. of_nat (length c)) Some [9, 9] contract_proxy_new)]
     (sample_db\<lparr>hashes_to_contracts_map := [(2, Some [1, 2])]\<rparr>) =
     Throw (RuntimeError ''failed to commit contract (contract at this hash already existed)'')"
  by (rule recreate_fails_block) (simp_all add: idle_contract_db_def sample_db_def contract_db_new_def check_committed_contract_exists_def)

text \<open>
  Two transactions of one block that create the same contract end the process: the second
  creation throws inside the destructor of its closure.
\<close>

theorem double_create_terminates:
  assumes "idle_contract_db db"
  shows "commit_txs tid [snd (create_contract hx meter c contract_proxy_new), snd (create_contract hx meter c contract_proxy_new)] db =
     Throw (Terminate ''exception in ~ContractCreateClosure'')"
  using assms
  by (simp add: create_contract_def contract_proxy_new_def Let_def commit_tx_contracts_def push_updates_to_db_def
      contract_assert_not_committed_def contract_rewind_commit_def contract_rewind_destroy_def push_create_contract_def
      create_closure_commit_def create_closure_destroy_def add_new_uncommitted_contract_def uc_add_new_contract_def
      idle_contract_db_def uncommitted_new_def omap_emplace_def)

theorem double_create_terminates_witness:
  "commit_txs 0 [snd (create_contract (\<lambda>c. of_nat (length c)) Some [9, 9] contract_proxy_new),
     snd (create_contract (\<lambda>c. of_nat (length c)) Some [9, 9] contract_proxy_new)] sample_db =
     Throw (Terminate ''exception in ~ContractCreateClosure'')"
  by (rule double_create_terminates) (simp add: idle_contract_db_def sample_db_def contract_db_new_def)

section \<open>What reaches the disk\<close>

text \<open>
  The disk lags by one block and keeps contracts of undone blocks. The worker writes its work
  item before it swaps in the data of the block it was woken for. So after a block was undone, the
  worker that is woken for the next block writes the creations of the undone block, and the round
  file of that next block lists none of the deployments it has just committed.
\<close>

theorem undone_contracts_reach_disk:
  "snd (persist_run (persist_write ts (log_deploy tid a h (persist_nowrite p)), fs)) =
     fs\<lparr>deploy_files := (deploy_files fs)(ts \<mapsto> concat (map deployments (cache_objs p))),
        contract_file := foldl (\<lambda>m (h, c). m(h \<mapsto> c)) (contract_file fs) (concat (map creations (cache_objs p)))\<rparr>"
  by (simp add: persist_run_def persist_write_def log_deploy_def persist_nowrite_def swap_data_def save_data_def)

end
