(* ===== verification/HostInvariants.thy ===== *)
theory HostInvariants
  imports SyscallHandler ContractBlock
begin

text \<open>
  What the system calls keep. \<open>hoare P m Q\<close> states that every returning run of \<open>m\<close> from a state in
  \<open>P\<close> ends in \<open>Q\<close>; the rules in \<open>exec_rules\<close> take a call apart. The locale \<open>host_invariant\<close> asks of a state
  predicate that the few primitive effects of the host keep it, and concludes that every host call keeps it;
  \<open>run_invariant\<close> adds the frames of an invocation and concludes it for whole executions. It is interpreted for
  the gas account, for the isolation of storage between contracts, and for the reads of the ledger.
\<close>

named_theorems exec_rules

definition hoare :: "('r exec_state \<Rightarrow> bool) \<Rightarrow> ('r, 'a) exec \<Rightarrow> ('a \<Rightarrow> 'r exec_state \<Rightarrow> bool) \<Rightarrow> bool" where
  "hoare P m Q \<longleftrightarrow> (\<forall>st x st'. P st \<longrightarrow> m st = Ret (x, st') \<longrightarrow> Q x st')"

lemma hoareI: "(\<And>st x st'. P st \<Longrightarrow> m st = Ret (x, st') \<Longrightarrow> Q x st') \<Longrightarrow> hoare P m Q"
  by (simp add: hoare_def)

lemma hoareD: "hoare P m Q \<Longrightarrow> P st \<Longrightarrow> m st = Ret (x, st') \<Longrightarrow> Q x st'"
  by (simp add: hoare_def)

lemma hoare_sbind: "hoare P m R \<Longrightarrow> (\<And>x. hoare (R x) (f x) Q) \<Longrightarrow> hoare P (sbind m f) Q"
  by (fastforce simp: hoare_def sbind_def outcome_simps)

text \<open>Invariants of the calls.\<close>

abbreviation keeps :: "('r exec_state \<Rightarrow> bool) \<Rightarrow> ('r, 'a) exec \<Rightarrow> bool" where
  "keeps P m \<equiv> hoare P m (\<lambda>_. P)"

lemma keeps_sbind [exec_rules]: "keeps P m \<Longrightarrow> (\<And>x. keeps P (f x)) \<Longrightarrow> keeps P (sbind m f)"
  by (rule hoare_sbind)

lemma keeps_simple [exec_rules]: "keeps P (sret x)" "keeps P (sthrow e)" "keeps P (slift m)" "keeps P (find_runtime a)"
  by (auto simp: hoare_def sret_def sthrow_def slift_def find_runtime_def outcome_simps split: option.splits)

lemma keeps_sctx [exec_rules]: "(\<And>tc. keeps P (f tc)) \<Longrightarrow> keeps P (sctx f)"
  by (auto simp: hoare_def sctx_def)

lemma keeps_if [exec_rules]: "keeps P m \<Longrightarrow> keeps P m' \<Longrightarrow> keeps P (if b then m else m')"
  by simp

lemma keeps_loads [exec_rules]: "keeps P (load_from_memory env a off len)" "keeps P (load_word env a off)"
  by (auto simp: load_word_def load_from_memory_def intro!: exec_rules)

definition own :: "AddressAndKey \<Rightarrow> 'r exec_state \<Rightarrow> bool" where
  "own k st \<longleftrightarrow> (\<exists>key. get_storage_key key (ctx st) = Ret k)"

lemma load_storage_key_own: "keeps P (load_storage_key env a arg0)"
  "hoare P (load_storage_key env a arg0) (\<lambda>k st. P st \<and> own k st)"
proof -
  show "keeps P (load_storage_key env a arg0)" unfolding load_storage_key_def by (intro exec_rules)
  have "hoare P (sctx (\<lambda>tc. slift (get_storage_key key tc))) (\<lambda>k st. P st \<and> own k st)" for key
    by (auto simp: hoare_def sctx_def slift_def own_def outcome_simps)
  with keeps_loads(2) show "hoare P (load_storage_key env a arg0) (\<lambda>k st. P st \<and> own k st)"
    unfolding load_storage_key_def by (rule hoare_sbind)
qed

section \<open>Host calls\<close>

text \<open>What creating or deploying a contract may do to the contract proxy of the transaction.\<close>

inductive contract_step :: "ContractDBProxy \<Rightarrow> ContractDBProxy \<Rightarrow> bool" where
  created: "contract_step px (px\<lparr>new_contracts := omap_set h mc (new_contracts px)\<rparr>)"
| deployed: "contract_step px (px\<lparr>new_deployments := omap_set a h (new_deployments px)\<rparr>)"
| unchanged: "contract_step px px"

lemma contract_calls_step:
  "create_contract hx mt c px = (h, px') \<Longrightarrow> contract_step px px'"
  "deploy_contract hv db s h' n px = (r, px') \<Longrightarrow> contract_step px px'"
  by (auto simp: create_contract_def deploy_contract_def Let_def contract_step.intros split: if_splits)

locale host_invariant =
  fixes I :: "'r exec_state \<Rightarrow> bool" and L :: ledger
  assumes I_gas: "I st \<Longrightarrow> consume_gas g (ctx st) = Ret tc \<Longrightarrow> I (st\<lparr>ctx := tc\<rparr>)"
    and I_runtime: "I st \<Longrightarrow> map_of (active_runtimes st) a = Some r \<Longrightarrow> I (st\<lparr>active_runtimes := omap_set a r' (active_runtimes st)\<rparr>)"
    and I_storage: "I st \<Longrightarrow> own k st \<Longrightarrow> storage_step L k (storage_proxy (ctx st)) sp \<Longrightarrow>
      I (st\<lparr>ctx := (ctx st)\<lparr>storage_proxy := sp\<rparr>\<rparr>)"
    and I_results: "I st \<Longrightarrow> I (st\<lparr>ctx := (ctx st)\<lparr>tx_results := f\<rparr>\<rparr>)"
    and I_return: "I st \<Longrightarrow> I (st\<lparr>ctx := (ctx st)\<lparr>return_buf := b\<rparr>\<rparr>)"
    and I_contracts: "I st \<Longrightarrow> contract_step (contract_db_proxy (ctx st)) px \<Longrightarrow> I (st\<lparr>ctx := (ctx st)\<lparr>contract_db_proxy := px\<rparr>\<rparr>)"
begin

lemma keeps_charge [exec_rules]: "keeps I (charge g)"
  by (auto simp: hoare_def charge_def outcome_simps I_gas)

lemma keeps_write_to_memory [exec_rules]: "keeps I (write_to_memory env a bs off)"
  by (auto simp: hoare_def write_to_memory_def sbind_def slift_def find_runtime_def put_runtime_def outcome_simps I_runtime
      split: option.splits)

lemma keeps_effects [exec_rules]:
  "keeps I (\<lambda>st. Ret (x, st\<lparr>ctx := (ctx st)\<lparr>tx_results := f st\<rparr>\<rparr>))"
  "keeps I (\<lambda>st. Ret (x, st\<lparr>ctx := (ctx st)\<lparr>return_buf := b\<rparr>\<rparr>))"
  "keeps I (\<lambda>st. case create_contract hx mt c (contract_db_proxy (ctx st)) of
      (h, px) \<Rightarrow> Ret (h, st\<lparr>ctx := (ctx st)\<lparr>contract_db_proxy := px\<rparr>\<rparr>))"
  "keeps I (\<lambda>st. case deploy_contract hv db s h' n (contract_db_proxy (ctx st)) of
      (r, px) \<Rightarrow> Ret (r, st\<lparr>ctx := (ctx st)\<lparr>contract_db_proxy := px\<rparr>\<rparr>))"
  by (auto simp: hoare_def I_results I_return split: prod.splits intro: I_contracts contract_calls_step)

lemma read_own: "env_ledger env = L \<Longrightarrow> hoare (\<lambda>st. I st \<and> own k st) (proxy_read env k) (\<lambda>_. I)"
  by (auto simp: hoare_def proxy_read_def I_storage step_get split: prod.splits)

lemma write_own:
  assumes "\<And>sp sp'. f sp = Ret sp' \<Longrightarrow> storage_step L k sp sp'"
  shows "hoare (\<lambda>st. I st \<and> own k st) (proxy_write f) (\<lambda>_. I)"
  using assms by (auto simp: hoare_def proxy_write_def I_storage outcome_simps)

lemma keyed_read: "env_ledger env = L \<Longrightarrow> (\<And>res. keeps I (f res)) \<Longrightarrow>
  keeps I (sbind (load_storage_key env a arg0) (\<lambda>k. sbind (proxy_read env k) f))"
  by (rule hoare_sbind[OF load_storage_key_own(2)], rule hoare_sbind[OF read_own])

lemma keyed_write: "(\<And>k sp sp'. f k sp = Ret sp' \<Longrightarrow> storage_step L k sp sp') \<Longrightarrow>
  keeps I (sbind (load_storage_key env a arg0) (\<lambda>k. sbind (proxy_write (f k)) (\<lambda>_. sret x)))"
  by (rule hoare_sbind[OF load_storage_key_own(2)], rule hoare_sbind[OF write_own keeps_simple(1)])

lemma keyed_load_write:
  assumes "\<And>k y sp sp'. f k y sp = Ret sp' \<Longrightarrow> storage_step L k sp sp'" "\<And>P. keeps P m"
  shows "keeps I (sbind (load_storage_key env a arg0) (\<lambda>k. sbind m (\<lambda>y. sbind (proxy_write (f k y)) (\<lambda>_. sret x))))"
  by (rule hoare_sbind[OF load_storage_key_own(2)], rule hoare_sbind[OF assms(2)], rule hoare_sbind[OF write_own keeps_simple(1)])
    (rule assms(1))

lemma keyed_guard_load_write:
  assumes "\<And>k y sp sp'. f k y sp = Ret sp' \<Longrightarrow> storage_step L k sp sp'" "\<And>P. keeps P m"
  shows "keeps I (sbind (load_storage_key env a arg0) (\<lambda>k. if c then sthrow e else sbind m (\<lambda>y. sbind (proxy_write (f k y)) (\<lambda>_. sret x))))"
proof (cases c)
  case True
  then show ?thesis using keeps_sbind[OF load_storage_key_own(1)[of I env a arg0] keeps_simple(2)] by simp
next
  case False
  then show ?thesis using keyed_load_write[of f m env a arg0 x] assms by simp
qed

lemma keeps_body_case:
  assumes "keeps I n" "\<And>x. keeps I (r x)" "\<And>x. keeps I (i x)" "\<And>x. keeps I (h x)" "\<And>x. keeps I (u x)" "\<And>x. keeps I (s x)"
  shows "keeps I (case b of None \<Rightarrow> n | Some (raw_memory_storage x) \<Rightarrow> r x | Some (nonnegative_int64 x) \<Rightarrow> i x
     | Some (hash_set x) \<Rightarrow> h x | Some (unconstrained_int64 x) \<Rightarrow> u x | Some (asset x) \<Rightarrow> s x)"
  using assms by (cases b) (auto split: ObjectBody.split)

lemma keeps_option_case: "keeps I n \<Longrightarrow> (\<And>x. keeps I (s x)) \<Longrightarrow> keeps I (case b of None \<Rightarrow> n | Some x \<Rightarrow> s x)"
  by (cases b) auto

lemmas call_rules = exec_rules keyed_read keyed_write keyed_load_write keyed_guard_load_write keeps_body_case keeps_option_case

lemma simple_calls [exec_rules]:
  "keeps I (sys_write env a x y)" "keeps I (sys_write_bytes env a x y)" "keeps I (sys_log env a x y)"
  "keeps I (sys_get_sender env a x)" "keeps I (sys_get_self_addr env a x)" "keeps I (sys_get_src_tx_hash env a x)"
  "keeps I (sys_get_invoked_tx_hash env a x)" "keeps I sys_get_block_number" "keeps I (sys_contract_create env a x y)"
  "keeps I (sys_contract_deploy env a x y z)" "keeps I (sys_witness_get env a x y z)" "keeps I (sys_witness_get_len x)"
  "keeps I (sys_get_calldata env a x y z)" "keeps I sys_get_calldata_len" "keeps I (sys_return env a x y)" "keeps I (sys_gas x)"
  "keeps I (sys_hash env a x y z)" "keeps I (sys_verify_ed25519 env a x y z w)"
  unfolding sys_write_def sys_write_bytes_def sys_log_def sys_get_sender_def sys_get_self_addr_def sys_get_src_tx_hash_def
    sys_get_invoked_tx_hash_def sys_get_block_number_def sys_contract_create_def sys_contract_deploy_def sys_witness_get_def
    sys_witness_get_len_def sys_get_calldata_def sys_get_calldata_len_def sys_return_def sys_gas_def sys_hash_def
    sys_verify_ed25519_def Let_def
  by (intro exec_rules keeps_option_case)+

lemma storage_calls [exec_rules]:
  assumes "env_ledger env = L"
  shows "keeps I (sys_has_key env a x)" "keeps I (sys_raw_mem_set env a x y z)" "keeps I (sys_raw_mem_get env a x y z)"
    "keeps I (sys_raw_mem_get_len env a x)" "keeps I (sys_delete_key_last env a x)" "keeps I (sys_nnint_set_add env a x y z)"
    "keeps I (sys_nnint_add env a x y)" "keeps I (sys_nnint_get env a x)" "keeps I (sys_hs_insert env a x y z)"
    "keeps I (sys_hs_inc_limit env a x y)" "keeps I (sys_hs_clear env a x y)" "keeps I (sys_hs_get_size env a x)"
    "keeps I (sys_hs_get_max_size env a x)" "keeps I (sys_hs_get_index_of env a x y)" "keeps I (sys_hs_get_index env a x y z)"
  unfolding sys_has_key_def sys_raw_mem_set_def sys_raw_mem_get_def sys_raw_mem_get_len_def sys_delete_key_last_def
    sys_nnint_set_add_def sys_nnint_add_def sys_nnint_get_def sys_hs_insert_def sys_hs_inc_limit_def sys_hs_clear_def
    sys_hs_get_size_def sys_hs_get_max_size_def sys_hs_get_index_of_def sys_hs_get_index_def Let_def assms
  by ((rule keeps_sbind[OF keeps_charge] keyed_read keyed_write keyed_load_write keyed_guard_load_write keeps_body_case keeps_option_case
        exec_rules storage_step.intros assms | assumption)+)

lemma keeps_sys_invoke:
  assumes "\<And>iv. keeps I (invoke iv)"
  shows "keeps I (sys_invoke env invoke a x y z w u v)"
  unfolding sys_invoke_def Let_def by (intro exec_rules assms)

lemma keeps_syscall_handler:
  assumes "env_ledger env = L" "syscall_of n \<noteq> Some INVOKE \<or> (\<forall>iv. keeps I (invoke iv))"
  shows "keeps I (syscall_handler env invoke n x y z w u v)"
proof -
  have "keeps I (syscall_switch env invoke a c x y z w u v)" if "syscall_of n = Some c" for a c
  proof -
    have "c = INVOKE \<Longrightarrow> keeps I (sys_invoke env invoke a x y z w u v)" using assms(2) that keeps_sys_invoke by blast
    then show ?thesis by (cases c) (simp_all add: syscall_switch_def simple_calls storage_calls[OF assms(1)] keeps_simple)
  qed
  then have "keeps I (case syscall_of n of None \<Rightarrow> sthrow e | Some c \<Rightarrow> syscall_switch env invoke a c x y z w u v)" for a e
    by (cases "syscall_of n") (simp_all add: keeps_simple)
  then show ?thesis unfolding syscall_handler_def by (intro keeps_sctx keeps_sbind keeps_simple)
qed

lemma keeps_env_call: "keeps I (env_call g f)"
  by (auto simp: hoare_def env_call_def sbind_def sctx_def slift_def charge_def find_runtime_def put_runtime_def sret_def
      outcome_simps split: option.splits prod.splits intro!: I_runtime dest: I_gas)

lemma keeps_host_call:
  assumes "env_ledger env = L" "\<And>iv. keeps I (invoke iv)"
  shows "keeps I (host_call env invoke e)"
  using keeps_syscall_handler[OF assms(1)] assms(2) keeps_simple[of I] keeps_env_call
  by (cases e) (simp_all add: host_call_def gas_handler_def env_memcmp_def env_memset_def env_memcpy_def env_strnlen_def)

end

section \<open>Whole executions\<close>

locale run_invariant = host_invariant +
  assumes I_push: "I st \<Longrightarrow> map_of (active_runtimes st) (mi_addr iv) = Some r \<Longrightarrow>
      I (st\<lparr>ctx := push_invocation_stack (mi_addr iv) iv (ctx st)\<rparr>)"
    and I_pop: "I st \<Longrightarrow> I (st\<lparr>ctx := pop_invocation_stack (ctx st)\<rparr>)"
    and I_new: "I st \<Longrightarrow> map_of (active_runtimes st) a = None \<Longrightarrow> I (st\<lparr>active_runtimes := omap_emplace a r (active_runtimes st)\<rparr>)"
begin

lemma keeps_invoke_with:
  assumes "\<And>a. keeps I (run a)"
  shows "keeps I (invoke_with env run iv)"
proof -
  have "keeps I (ensure_runtime env a)" for a
    by (auto simp: hoare_def ensure_runtime_def outcome_simps I_new split: option.splits)
  moreover have "keeps I (sbind (find_runtime (mi_addr iv)) (\<lambda>r.
     sbind (\<lambda>st. Ret ((), st\<lparr>ctx := push_invocation_stack (mi_addr iv) iv (ctx st)\<rparr>)) (\<lambda>_.
     sbind (put_runtime (mi_addr iv) (f r)) (\<lambda>_. sbind (run (mi_addr iv)) (\<lambda>_ st. Ret ((), st\<lparr>ctx := pop_invocation_stack (ctx st)\<rparr>))))))" for f
  proof -
    have "keeps I (\<lambda>st. Ret ((), st\<lparr>ctx := pop_invocation_stack (ctx st)\<rparr>))" by (auto simp: hoare_def I_pop)
    with assms have rest: "keeps I (sbind (run (mi_addr iv)) (\<lambda>_ st. Ret ((), st\<lparr>ctx := pop_invocation_stack (ctx st)\<rparr>)))"
      by (rule keeps_sbind)
    let ?J = "\<lambda>r st. I st \<and> map_of (active_runtimes st) (mi_addr iv) = Some r"
    have 1: "hoare I (find_runtime (mi_addr iv)) ?J" by (auto simp: hoare_def find_runtime_def split: option.splits)
    have 2: "hoare (?J r) (\<lambda>st. Ret ((), st\<lparr>ctx := push_invocation_stack (mi_addr iv) iv (ctx st)\<rparr>)) (\<lambda>_. ?J r)" for r
      by (auto simp: hoare_def I_push)
    have 3: "hoare (?J r) (put_runtime (mi_addr iv) (f r)) (\<lambda>_. I)" for r by (auto simp: hoare_def put_runtime_def I_runtime)
    show ?thesis by (rule hoare_sbind[OF 1], rule hoare_sbind[OF 2], rule hoare_sbind[OF 3], rule rest)
  qed
  ultimately show ?thesis unfolding invoke_with_def by (rule keeps_sbind)
qed

lemma keeps_resume: "keeps I (sbind (find_runtime a) (\<lambda>r. put_runtime a (f r)))"
  by (auto simp: hoare_def sbind_def find_runtime_def put_runtime_def outcome_simps I_runtime split: option.splits)

lemma keeps_run_runtime:
  assumes "env_ledger env = L"
  shows "keeps I (run_runtime fuel env a)"
proof (induction fuel arbitrary: a)
  case (Suc fuel)
  have resume: "keeps I (sbind (find_runtime a) (\<lambda>r1. sbind (put_runtime a (wr_resume (env_wasm env) x r1)) (\<lambda>_. run_runtime fuel env a)))" for x
  proof -
    have eq: "sbind (find_runtime a) (\<lambda>r1. sbind (put_runtime a (wr_resume (env_wasm env) x r1)) (\<lambda>_. run_runtime fuel env a)) =
        sbind (sbind (find_runtime a) (\<lambda>r1. put_runtime a (wr_resume (env_wasm env) x r1))) (\<lambda>_. run_runtime fuel env a)"
      by (rule ext) (simp add: sbind_def obind_assoc split_def)
    show ?thesis unfolding eq by (rule keeps_sbind[OF keeps_resume Suc.IH])
  qed
  show ?case unfolding run_runtime.simps Let_def
    by (intro keeps_sbind keeps_if keeps_simple keeps_host_call[OF assms] keeps_invoke_with Suc.IH resume)
qed (simp add: hoare_def)

lemma keeps_invoke_subroutine: "env_ledger env = L \<Longrightarrow> keeps I (invoke_subroutine fuel env iv)"
  unfolding invoke_subroutine_def by (intro keeps_invoke_with keeps_run_runtime)

end


section \<open>Interpretations\<close>

text \<open>The gas account: it never decreases, and what was charged stays below the limit of the transaction.\<close>

definition gas_account :: "SignedTransaction \<Rightarrow> uint64 \<Rightarrow> 'r exec_state \<Rightarrow> bool" where
  "gas_account tx g st \<longleftrightarrow> tc_tx (ctx st) = tx \<and> g \<le> gas_used (ctx st) \<and>
     (gas_used (ctx st) = g \<or> gas_used (ctx st) < gas_limit (tx_body tx))"

lemma consume_gas_account:
  "gas_account tx g st \<Longrightarrow> consume_gas c (ctx st) = Ret tc \<Longrightarrow> gas_account tx g (st\<lparr>ctx := tc\<rparr>)"
  by (auto simp: gas_account_def consume_gas_Ret word_le_nat_alt)

interpretation gas: run_invariant "gas_account tx g" L for tx g L
proof unfold_locales
  fix st :: "'r exec_state" and c tc
  assume "gas_account tx g st" "consume_gas c (ctx st) = Ret tc"
  then show "gas_account tx g (st\<lparr>ctx := tc\<rparr>)" by (rule consume_gas_account)
qed (auto simp: gas_account_def push_invocation_stack_def pop_invocation_stack_def)

text \<open>The storage of the contracts: an entry of the cache belongs to a contract that runs in this transaction.\<close>

definition storage_owned :: "'r exec_state \<Rightarrow> bool" where
  "storage_owned st \<longleftrightarrow> (\<forall>iv \<in> set (invocation_stack (ctx st)). map_of (active_runtimes st) (mi_addr iv) \<noteq> None) \<and>
     (\<forall>a key. map_of (cache (storage_proxy (ctx st))) (address_and_key a key) \<noteq> None \<longrightarrow> map_of (active_runtimes st) a \<noteq> None)"

lemma get_local_cache:
  "get_local m k sp = (v, sp') \<Longrightarrow> map_of (cache sp') k' = (if k' = k then Some v else map_of (cache sp) k')"
  by (auto simp: get_local_def Let_def map_of_omap_emplace split: option.splits)

lemma apply_to_key_cache: "apply_to_key m k d e sp = Ret sp' \<Longrightarrow> k' \<noteq> k \<Longrightarrow> map_of (cache sp') k' = map_of (cache sp) k'"
  by (cases "get_local m k sp") (auto simp: apply_to_key_def Let_def outcome_simps get_local_cache split: if_splits)

lemma storage_step_cache: "storage_step m k sp sp' \<Longrightarrow> k' \<noteq> k \<Longrightarrow> map_of (cache sp') k' = map_of (cache sp) k'"
proof (induction rule: storage_step.induct)
  case (step_get sp v sp')
  then show ?case by (cases "get_local m k sp") (auto simp: storage_get_def get_local_cache)
next
  case (step_nn_add d sp sp')
  then show ?case by (cases "get_local m k sp")
    (auto simp: nonnegative_int64_add_def Let_def get_local_cache apply_to_key_cache split: option.splits)
next
  case (step_limit l sp sp')
  then show ?case by (cases "get_local m k sp")
    (auto simp: hashset_increase_limit_def Let_def get_local_cache apply_to_key_cache split: if_splits)
qed (auto simp: storage_op_defs apply_to_key_cache)

lemma storage_owned_step:
  assumes "storage_owned st" "own k st" "storage_step L k (storage_proxy (ctx st)) sp"
  shows "storage_owned (st\<lparr>ctx := (ctx st)\<lparr>storage_proxy := sp\<rparr>\<rparr>)"
proof -
  obtain key where k: "get_storage_key key (ctx st) = Ret k" using assms(2) by (auto simp: own_def)
  then obtain iv where iv: "iv \<in> set (invocation_stack (ctx st))" "k = address_and_key (mi_addr iv) key"
    by (cases "invocation_stack (ctx st) = []")
      (auto simp: get_storage_key_def get_current_method_invocation_def intro: that[of "last (invocation_stack (ctx st))"])
  have "map_of (active_runtimes st) a \<noteq> None" if "map_of (cache sp) (address_and_key a key') \<noteq> None" for a key'
  proof (cases "address_and_key a key' = k")
    case True
    then show ?thesis using iv assms(1) by (simp add: storage_owned_def)
  next
    case False
    then show ?thesis using storage_step_cache[OF assms(3) False] that assms(1) unfolding storage_owned_def by metis
  qed
  then show ?thesis using assms(1) unfolding storage_owned_def by simp
qed

lemma consume_gas_frame: "consume_gas g tc = Ret tc' \<Longrightarrow> invocation_stack tc' = invocation_stack tc \<and> storage_proxy tc' = storage_proxy tc"
  by (simp add: consume_gas_Ret)

interpretation owned: run_invariant storage_owned L for L
proof unfold_locales
  fix st :: "'r exec_state" and g tc
  assume "storage_owned st" "consume_gas g (ctx st) = Ret tc"
  then show "storage_owned (st\<lparr>ctx := tc\<rparr>)" using consume_gas_frame[of g "ctx st" tc] by (simp add: storage_owned_def)
next
  fix st :: "'r exec_state" and iv :: MethodInvocation and r
  assume "storage_owned st" "map_of (active_runtimes st) (mi_addr iv) = Some r"
  then show "storage_owned (st\<lparr>ctx := push_invocation_stack (mi_addr iv) iv (ctx st)\<rparr>)"
    by (auto simp: storage_owned_def push_invocation_stack_def)
next
  fix st :: "'r exec_state"
  assume "storage_owned st"
  then show "storage_owned (st\<lparr>ctx := pop_invocation_stack (ctx st)\<rparr>)"
    by (auto simp: storage_owned_def pop_invocation_stack_def dest: in_set_butlastD)
next
  fix st :: "'r exec_state" and a r
  assume "storage_owned st" "map_of (active_runtimes st) a = None"
  then show "storage_owned (st\<lparr>active_runtimes := omap_emplace a r (active_runtimes st)\<rparr>)"
    by (auto simp: storage_owned_def map_of_omap_emplace)
next
  fix st :: "'r exec_state" and k sp L
  assume "storage_owned st" "own k st" "storage_step L k (storage_proxy (ctx st)) sp"
  then show "storage_owned (st\<lparr>ctx := (ctx st)\<lparr>storage_proxy := sp\<rparr>\<rparr>)" by (rule storage_owned_step)
qed (auto simp: storage_owned_def)

text \<open>The proxy of the transaction is built by storage operations over the ledger the execution reads.\<close>

interpretation proxied: run_invariant "\<lambda>st. storage_reach L (storage_proxy (ctx st))" L for L
  by unfold_locales (auto simp: push_invocation_stack_def pop_invocation_stack_def dest: consume_gas_frame intro: reach_step)

text \<open>Until its deltas are pushed, a context is uncommitted, and its contract proxy is well formed.\<close>

definition uncommitted_ctx :: "'r exec_state \<Rightarrow> bool" where
  "uncommitted_ctx st \<longleftrightarrow> \<not> committed_to_statedb (ctx st) \<and> proxy_ok (contract_db_proxy (ctx st))"

lemma consume_gas_contracts:
  "consume_gas g tc = Ret tc' \<Longrightarrow> contract_db_proxy tc' = contract_db_proxy tc \<and> committed_to_statedb tc' = committed_to_statedb tc"
  by (simp add: consume_gas_Ret)

lemma contract_step_ok: "contract_step px px' \<Longrightarrow> proxy_ok px \<Longrightarrow> proxy_ok px'"
  by (auto simp: proxy_ok_def elim!: contract_step.cases)

interpretation uncommitted: run_invariant uncommitted_ctx L for L
  by unfold_locales (auto simp: uncommitted_ctx_def push_invocation_stack_def pop_invocation_stack_def dest: consume_gas_contracts contract_step_ok)

section \<open>The charge of a host call\<close>

text \<open>
  A call that charges: under a precondition that the first charge turns into the invariant, it ends in the
  invariant. The costs of these calls are never zero: the lengths they are computed from have 32 bits.
\<close>

lemma linear_cost_nonzero: "b < 2 ^ 32 \<Longrightarrow> 0 < b \<Longrightarrow> c < 2 ^ 16 \<Longrightarrow> of_nat b + (ucast (n :: uint32) :: uint64) * of_nat c \<noteq> 0"
proof -
  assume a: "b < 2 ^ 32" "0 < b" "c < 2 ^ 16"
  have n: "unat n < 2 ^ 32" using unsigned_less[of n] by simp
  have "unat n * c \<le> (2 ^ 32 - 1) * (2 ^ 16 - 1)" using n a(3) by (intro mult_le_mono) simp_all
  then have lt: "b + unat n * c < 2 ^ 64" using a(1) by simp
  have "(of_nat b + ucast n * of_nat c :: uint64) = of_nat (b + unat n * c)" by simp
  moreover have "unat (of_nat (b + unat n * c) :: uint64) = b + unat n * c"
    using lt by (simp only: unat_of_nat) (simp add: take_bit_nat_eq_self mod_less)
  ultimately show ?thesis using a(2) by (metis add_gr_0 not_gr_zero unat_0)
qed

lemma costs_nonzero:
  "gas_log (ucast n) \<noteq> 0" "gas_return (ucast n) \<noteq> 0" "gas_get_calldata (ucast n) \<noteq> 0" "gas_invoke (ucast n) \<noteq> 0"
  "gas_raw_memory_set (ucast n) \<noteq> 0" "gas_raw_memory_get (ucast n) \<noteq> 0" "gas_create_contract (ucast n) \<noteq> 0"
  "gas_memcmp (ucast n) \<noteq> 0" "gas_memset (ucast n) \<noteq> 0" "gas_memcpy (ucast n) \<noteq> 0" "gas_strnlen (ucast n) \<noteq> 0"
  for n :: uint32
  using linear_cost_nonzero[of 50 1 n] linear_cost_nonzero[of 50 2 n] linear_cost_nonzero[of 10000 2 n]
    linear_cost_nonzero[of 10000 100 n] linear_cost_nonzero[of 10 1 n] linear_cost_nonzero[of 10 2 n]
  by (simp_all add: gas_log_def gas_return_def gas_get_calldata_def gas_invoke_def gas_raw_memory_set_def gas_raw_memory_get_def
      gas_create_contract_def gas_memcmp_def gas_memset_def gas_memcpy_def gas_strnlen_def)

lemmas static_costs = gas_get_msg_sender_def gas_get_self_addr_def gas_get_block_number_def gas_get_src_tx_hash_def
  gas_get_invoked_tx_hash_def gas_has_key_def gas_raw_memory_get_len_def gas_delete_key_last_def
  gas_nonnegative_int64_set_add_def gas_nonnegative_int64_add_def gas_nonnegative_int64_get_def gas_hashset_insert_def
  gas_hashset_increase_limit_def gas_hashset_clear_def gas_hashset_get_size_def gas_hashset_get_max_size_def
  gas_hashset_get_index_of_def gas_hashset_get_index_def gas_hash_def gas_check_sig_ed25519_def gas_deploy_contract_def
  gas_get_witness_len_def gas_get_calldata_len_def

text \<open>
  The calls that may cost nothing: printing, an explicit charge of zero, a witness read whose 64-bit
  length makes the cost wrap to zero.
\<close>

fun charges_gas :: "wasm_event \<Rightarrow> bool" where
  "charges_gas (Syscall n a0 a1 a2 a3 a4 a5) \<longleftrightarrow>
     syscall_of n \<noteq> Some WRITE \<and> syscall_of n \<noteq> Some WRITE_BYTES \<and> (syscall_of n = Some GAS \<longrightarrow> a0 \<noteq> 0) \<and>
     (syscall_of n = Some WITNESS_GET \<longrightarrow> gas_get_witness a2 \<noteq> 0)"
| "charges_gas (GasCall g) \<longleftrightarrow> g \<noteq> 0"
| "charges_gas _ \<longleftrightarrow> True"

text \<open>A script of a transaction has a 32-bit length in its XDR encoding.\<close>

definition contracts_small :: "SignedTransaction \<Rightarrow> bool" where
  "contracts_small tx \<longleftrightarrow> (\<forall>c \<in> set (contracts_to_deploy (tx_body tx)). length c < 2 ^ 32)"

context host_invariant
begin

lemma charged_first: "hoare P (charge c) (\<lambda>_. I) \<Longrightarrow> keeps I m \<Longrightarrow> hoare P (sbind (charge c) (\<lambda>_. m)) (\<lambda>_. I)"
  by (rule hoare_sbind)

lemma charged_simple_calls:
  assumes "\<And>c. c \<noteq> 0 \<Longrightarrow> hoare P (charge c) (\<lambda>_. I)"
  shows "hoare P (sys_log env a x y) (\<lambda>_. I)" "hoare P (sys_get_sender env a x) (\<lambda>_. I)" "hoare P (sys_get_self_addr env a x) (\<lambda>_. I)"
    "hoare P (sys_get_src_tx_hash env a x) (\<lambda>_. I)" "hoare P (sys_get_invoked_tx_hash env a x) (\<lambda>_. I)"
    "hoare P sys_get_block_number (\<lambda>_. I)" "hoare P (sys_contract_deploy env a x y z) (\<lambda>_. I)"
    "gas_get_witness z \<noteq> 0 \<Longrightarrow> hoare P (sys_witness_get env a x y z) (\<lambda>_. I)" "hoare P (sys_witness_get_len x) (\<lambda>_. I)"
    "hoare P sys_get_calldata_len (\<lambda>_. I)" "hoare P (sys_return env a x y) (\<lambda>_. I)" "x \<noteq> 0 \<Longrightarrow> hoare P (sys_gas x) (\<lambda>_. I)"
    "hoare P (sys_hash env a x y z) (\<lambda>_. I)" "hoare P (sys_verify_ed25519 env a x y z w) (\<lambda>_. I)"
  unfolding sys_log_def sys_get_sender_def sys_get_self_addr_def sys_get_src_tx_hash_def
    sys_get_invoked_tx_hash_def sys_get_block_number_def sys_contract_deploy_def sys_witness_get_def
    sys_witness_get_len_def sys_get_calldata_len_def sys_return_def sys_gas_def sys_hash_def
    sys_verify_ed25519_def Let_def
  by (rule charged_first, rule assms, (simp add: costs_nonzero static_costs; fail), intro exec_rules keeps_option_case)+

lemma charged_storage_calls:
  assumes "\<And>c. c \<noteq> 0 \<Longrightarrow> hoare P (charge c) (\<lambda>_. I)" "env_ledger env = L"
  shows "hoare P (sys_has_key env a x) (\<lambda>_. I)" "hoare P (sys_raw_mem_set env a x y z) (\<lambda>_. I)" "hoare P (sys_raw_mem_get env a x y z) (\<lambda>_. I)"
    "hoare P (sys_raw_mem_get_len env a x) (\<lambda>_. I)" "hoare P (sys_delete_key_last env a x) (\<lambda>_. I)" "hoare P (sys_nnint_set_add env a x y z) (\<lambda>_. I)"
    "hoare P (sys_nnint_add env a x y) (\<lambda>_. I)" "hoare P (sys_nnint_get env a x) (\<lambda>_. I)" "hoare P (sys_hs_insert env a x y z) (\<lambda>_. I)"
    "hoare P (sys_hs_inc_limit env a x y) (\<lambda>_. I)" "hoare P (sys_hs_clear env a x y) (\<lambda>_. I)" "hoare P (sys_hs_get_size env a x) (\<lambda>_. I)"
    "hoare P (sys_hs_get_max_size env a x) (\<lambda>_. I)" "hoare P (sys_hs_get_index_of env a x y) (\<lambda>_. I)" "hoare P (sys_hs_get_index env a x y z) (\<lambda>_. I)"
  unfolding sys_has_key_def sys_raw_mem_set_def sys_raw_mem_get_def sys_raw_mem_get_len_def sys_delete_key_last_def
    sys_nnint_set_add_def sys_nnint_add_def sys_nnint_get_def sys_hs_insert_def sys_hs_inc_limit_def sys_hs_clear_def
    sys_hs_get_size_def sys_hs_get_max_size_def sys_hs_get_index_of_def sys_hs_get_index_def Let_def assms(2)
  by (rule charged_first, rule assms(1), (simp add: costs_nonzero static_costs; fail),
      ((rule keyed_read keyed_write keyed_load_write keyed_guard_load_write keeps_body_case keeps_option_case
        exec_rules storage_step.intros assms(2) | assumption)+; fail))+

lemma charged_get_calldata:
  assumes "\<And>c. c \<noteq> 0 \<Longrightarrow> hoare P (charge c) (\<lambda>_. I)"
  shows "hoare P (sys_get_calldata env a x y z) (\<lambda>_. I)"
proof (rule hoareI)
  fix st v st'
  assume P: "P st" and "sys_get_calldata env a x y z st = Ret (v, st')"
  then obtain n :: uint32 and bs off where r: "sbind (charge (gas_get_calldata (ucast n))) (\<lambda>_. sbind (write_to_memory env a bs off) (\<lambda>_. sret 0)) st = Ret (v, st')"
    by (auto simp: sys_get_calldata_def Let_def sctx_def sbind_def[of "slift _"] slift_def sthrow_def outcome_simps split: if_splits)
  have "hoare P (sbind (charge (gas_get_calldata (ucast n))) (\<lambda>_. sbind (write_to_memory env a bs off) (\<lambda>_. sret 0))) (\<lambda>_. I)"
    by (intro charged_first assms costs_nonzero exec_rules)
  then show "I st'" using P r by (rule hoareD)
qed

lemma charged_contract_create:
  assumes "\<And>c. c \<noteq> 0 \<Longrightarrow> hoare P (charge c) (\<lambda>_. I)" "\<And>st. P st \<Longrightarrow> contracts_small (tc_tx (ctx st))"
  shows "hoare P (sys_contract_create env a x y) (\<lambda>_. I)"
proof (rule hoareI)
  fix st v st'
  let ?rest = "\<lambda>contract. sbind (charge (gas_create_contract (of_nat (length contract)))) (\<lambda>_.
      sbind (\<lambda>st. case create_contract (hash_contract env) (meter env) contract (contract_db_proxy (ctx st)) of
          (h, px) \<Rightarrow> Ret (h, st\<lparr>ctx := (ctx st)\<lparr>contract_db_proxy := px\<rparr>\<rparr>)) (\<lambda>h.
      sbind (write_to_memory env a (be_bytes 32 h) (ucast y)) (\<lambda>_. sret 0)))"
  assume P: "P st" and "sys_contract_create env a x y st = Ret (v, st')"
  then obtain contract where c: "get_deployable_contract (ucast x) (ctx st) = Ret contract" "?rest contract st = Ret (v, st')"
    by (auto simp: sys_contract_create_def Let_def sctx_def sbind_def[of "slift _"] slift_def sthrow_def outcome_simps split: if_splits)
  have "contract \<in> set (contracts_to_deploy (tx_body (tc_tx (ctx st))))"
    using c(1) by (auto simp: get_deployable_contract_def Let_def split: if_splits)
  then have len: "length contract < 2 ^ 32" using assms(2)[OF P] by (simp add: contracts_small_def)
  have "(of_nat (length contract) :: uint64) = ucast (of_nat (length contract) :: uint32)"
    using len by (simp add: word_unat_eq_iff unsigned_ucast_eq unat_of_nat take_bit_nat_eq_self)
  then have "gas_create_contract (of_nat (length contract)) \<noteq> 0" using costs_nonzero(7) by metis
  then have "hoare P (?rest contract) (\<lambda>_. I)" using charged_first[OF assms(1)] by (intro charged_first assms(1) exec_rules)
  then show "I st'" using P c(2) by (rule hoareD)
qed

lemma charged_syscall:
  assumes chg: "\<And>c. c \<noteq> 0 \<Longrightarrow> hoare P (charge c) (\<lambda>_. I)" and small: "\<And>st. P st \<Longrightarrow> contracts_small (tc_tx (ctx st))"
    and env: "env_ledger env = L" and invoke: "\<And>iv. keeps I (invoke iv)" and e: "charges_gas (Syscall n x y z w u v)"
  shows "hoare P (syscall_handler env invoke n x y z w u v) (\<lambda>_. I)"
proof (rule hoareI)
  fix st r st'
  assume P: "P st" and "syscall_handler env invoke n x y z w u v st = Ret (r, st')"
  then obtain a c where c: "syscall_of n = Some c" and run: "syscall_switch env invoke a c x y z w u v st = Ret (r, st')"
    by (auto simp: syscall_handler_def sctx_def sbind_def slift_def sthrow_def outcome_simps split: option.splits)
  have inv: "hoare P (sys_invoke env invoke a x y z w u v) (\<lambda>_. I)"
    unfolding sys_invoke_def Let_def by (intro charged_first chg costs_nonzero exec_rules invoke)
  have throw: "hoare P (sthrow ex) (\<lambda>_. I)" for ex :: exn by (simp add: hoare_def sthrow_def)
  have "hoare P (syscall_switch env invoke a c x y z w u v) (\<lambda>_. I)"
    using e c inv throw by (cases c) (simp_all add: syscall_switch_def charged_simple_calls[OF chg] charged_storage_calls[OF chg env]
        charged_get_calldata[OF chg] charged_contract_create[OF chg small])
  then show "I st'" using P run by (rule hoareD)
qed

lemma charged_env_call: "hoare P (charge c) (\<lambda>_. I) \<Longrightarrow> hoare P (env_call c f) (\<lambda>_. I)"
  unfolding env_call_def
proof (rule charged_first)
  show "keeps I (sctx (\<lambda>tc. sbind (slift (get_current_runtime tc)) (\<lambda>a. sbind (find_runtime a) (\<lambda>r. sbind (slift (f r)) (\<lambda>(x, r').
      sbind (put_runtime a r') (\<lambda>_. sret (ucast x)))))))"
    by (auto simp: hoare_def sbind_def sctx_def slift_def find_runtime_def put_runtime_def sret_def
      outcome_simps I_runtime split: option.splits prod.splits)
qed

lemma charged_host_call:
  assumes chg: "\<And>c. c \<noteq> 0 \<Longrightarrow> hoare P (charge c) (\<lambda>_. I)" and "\<And>st. P st \<Longrightarrow> contracts_small (tc_tx (ctx st))"
    "env_ledger env = L" "\<And>iv. keeps I (invoke iv)" "charges_gas e" "e \<noteq> Finished"
  shows "hoare P (host_call env invoke e) (\<lambda>_. I)"
proof -
  have gas: "charges_gas (Syscall 629 g 0 0 0 0 0)" if "g \<noteq> 0" for g using that by (simp add: syscall_of_def syscall_table_def)
  have throw: "hoare P (sthrow ex) (\<lambda>_. I)" for ex :: exn by (simp add: hoare_def sthrow_def)
  show ?thesis
    using charged_syscall[OF assms(1-4)] gas assms(5,6) throw charged_env_call[OF chg] costs_nonzero
    by (cases e) (simp_all add: host_call_def gas_handler_def env_memcmp_def env_memset_def env_memcpy_def env_strnlen_def)
qed

end

end
