(* ===== verification/BlockExecution.thy ===== *)
theory BlockExecution
  imports StorageProxy
begin

text \<open>
  The concurrent execution of a block. Worker threads execute transactions in parallel
  (\<open>block_assembly/assembly_worker.cc\<close>, \<open>vm/base_vm.cc\<close>); what they share is the state database.
  A transaction reads and writes through its own \<open>StorageProxy\<close>, then pushes its deltas one by one
  (\<open>StorageProxy::push_deltas_to_statedb\<close>), and then commits its rewinds one by one or destroys them
  (\<open>ExecutionContext::execute\<close>, \<open>RewindVector::commit\<close>). \<open>block_step\<close> is the interleaving of
  these steps, one shared-memory operation per step, in any order the threads may take.
\<close>

section \<open>Definitions\<close>

text \<open>
  Where a transaction is: its contract runs, its deltas are pushed (with the ones still to push),
  its rewinds are committed or destroyed (with the ones left), or it is over.
\<close>

datatype tx_phase =
    Executing StorageProxy
  | Pushing StorageProxy "(AddressAndKey \<times> StorageDelta) list" TransactionRewind
  | Committing StorageProxy TransactionRewind
  | Aborting TransactionRewind
  | Committed StorageProxy
  | Aborted

record 'db block_state =
  shared_db :: 'db
  phases :: "tx_phase list"
  thread_uid :: "nat \<Rightarrow> uid"
  modified_keys :: "AddressAndKey list"

fun live_rewinds :: "tx_phase \<Rightarrow> TransactionRewind" where
  "live_rewinds (Pushing _ _ rws) = rws"
| "live_rewinds (Committing _ rws) = rws"
| "live_rewinds (Aborting rws) = rws"
| "live_rewinds _ = []"

definition rewinds_at :: "AddressAndKey \<Rightarrow> tx_phase \<Rightarrow> DeltaRewind multiset" where
  "rewinds_at k p = mset (map snd (filter (\<lambda>x. fst x = k) (live_rewinds p)))"

definition live_of :: "tx_phase multiset \<Rightarrow> live" where
  "live_of P = (\<lambda>k. sum_mset (image_mset (rewinds_at k) P))"

type_synonym 'db commit_fn = "AddressAndKey \<Rightarrow> DeltaRewind \<Rightarrow> 'db \<Rightarrow> ('db \<times> DeltaRewind) outcome"
type_synonym 'db destroy_fn = "uid \<Rightarrow> AddressAndKey \<Rightarrow> DeltaRewind \<Rightarrow> 'db \<Rightarrow> ('db \<times> uid) outcome"

text \<open>
  Transaction \<open>i\<close> runs on thread \<open>thr i\<close>, whose identifier counter it uses. A transaction may be
  given up while its contract runs (a \<open>HostError\<close>) and after its last delta was accepted (an unused
  RPC result, or a transaction set that refuses it). A delta is pushed only while fewer than 255 rewinds of its key
  are live, the capacity of the writer count.
\<close>

inductive block_step :: "(AddressAndKey \<Rightarrow> 'db \<Rightarrow> StorageObject option) \<Rightarrow> 'db apply_fn \<Rightarrow> 'db commit_fn \<Rightarrow> 'db destroy_fn \<Rightarrow>
    (nat \<Rightarrow> nat) \<Rightarrow> 'db block_state \<Rightarrow> 'db block_state \<Rightarrow> bool"
  for getv apply_d commit_r destroy_r thr where
  exec_step: "i < length (phases s) \<Longrightarrow> phases s ! i = Executing sp \<Longrightarrow>
     storage_step (\<lambda>k. getv k (shared_db s)) k sp sp' \<Longrightarrow>
     block_step getv apply_d commit_r destroy_r thr s (s\<lparr>phases := (phases s)[i := Executing sp']\<rparr>)"
| exec_fail: "i < length (phases s) \<Longrightarrow> phases s ! i = Executing sp \<Longrightarrow>
     block_step getv apply_d commit_r destroy_r thr s (s\<lparr>phases := (phases s)[i := Aborted]\<rparr>)"
| exec_done: "i < length (phases s) \<Longrightarrow> phases s ! i = Executing sp \<Longrightarrow>
     block_step getv apply_d commit_r destroy_r thr s
       (s\<lparr>phases := (phases s)[i := Pushing sp (proxy_deltas (cache sp)) []]\<rparr>)"
| push_accepted: "i < length (phases s) \<Longrightarrow> phases s ! i = Pushing sp ((k, d) # kds) rws \<Longrightarrow>
     size (live_of (mset (phases s)) k) < 255 \<Longrightarrow>
     apply_d (thread_uid s (thr i)) k d (shared_db s) = Ret (Some rw, db', u') \<Longrightarrow>
     block_step getv apply_d commit_r destroy_r thr s
       (s\<lparr>shared_db := db', thread_uid := (thread_uid s)(thr i := u'),
          phases := (phases s)[i := Pushing sp kds (rws @ [(k, rw)])]\<rparr>)"
| push_refused: "i < length (phases s) \<Longrightarrow> phases s ! i = Pushing sp ((k, d) # kds) rws \<Longrightarrow>
     size (live_of (mset (phases s)) k) < 255 \<Longrightarrow>
     apply_d (thread_uid s (thr i)) k d (shared_db s) = Ret (None, db', u') \<Longrightarrow>
     block_step getv apply_d commit_r destroy_r thr s
       (s\<lparr>shared_db := db', thread_uid := (thread_uid s)(thr i := u'), phases := (phases s)[i := Aborting rws]\<rparr>)"
| push_commit: "i < length (phases s) \<Longrightarrow> phases s ! i = Pushing sp [] rws \<Longrightarrow>
     block_step getv apply_d commit_r destroy_r thr s (s\<lparr>phases := (phases s)[i := Committing sp rws]\<rparr>)"
| push_giveup: "i < length (phases s) \<Longrightarrow> phases s ! i = Pushing sp [] rws \<Longrightarrow>
     block_step getv apply_d commit_r destroy_r thr s (s\<lparr>phases := (phases s)[i := Aborting rws]\<rparr>)"
| commit_one: "i < length (phases s) \<Longrightarrow> phases s ! i = Committing sp ((k, rw) # rws) \<Longrightarrow>
     commit_r k rw (shared_db s) = Ret (db', rw') \<Longrightarrow>
     block_step getv apply_d commit_r destroy_r thr s
       (s\<lparr>shared_db := db', phases := (phases s)[i := Committing sp rws]\<rparr>)"
| commit_done: "i < length (phases s) \<Longrightarrow> phases s ! i = Committing sp [] \<Longrightarrow>
     log_modified_keys (modified_keys s) sp = Ret (ks, sp') \<Longrightarrow>
     block_step getv apply_d commit_r destroy_r thr s
       (s\<lparr>modified_keys := ks, phases := (phases s)[i := Committed sp']\<rparr>)"
| destroy_one: "i < length (phases s) \<Longrightarrow> phases s ! i = Aborting ((k, rw) # rws) \<Longrightarrow>
     destroy_r (thread_uid s (thr i)) k rw (shared_db s) = Ret (db', u') \<Longrightarrow>
     block_step getv apply_d commit_r destroy_r thr s
       (s\<lparr>shared_db := db', thread_uid := (thread_uid s)(thr i := u'), phases := (phases s)[i := Aborting rws]\<rparr>)"
| destroy_done: "i < length (phases s) \<Longrightarrow> phases s ! i = Aborting [] \<Longrightarrow>
     block_step getv apply_d commit_r destroy_r thr s (s\<lparr>phases := (phases s)[i := Aborted]\<rparr>)"

inductive block_reach :: "(AddressAndKey \<Rightarrow> 'db \<Rightarrow> StorageObject option) \<Rightarrow> 'db apply_fn \<Rightarrow> 'db commit_fn \<Rightarrow> 'db destroy_fn \<Rightarrow>
    (nat \<Rightarrow> nat) \<Rightarrow> 'db block_state \<Rightarrow> 'db block_state \<Rightarrow> bool"
  for getv apply_d commit_r destroy_r thr s0 where
  block_start: "block_reach getv apply_d commit_r destroy_r thr s0 s0"
| block_next: "block_reach getv apply_d commit_r destroy_r thr s0 s \<Longrightarrow> block_step getv apply_d commit_r destroy_r thr s s' \<Longrightarrow>
    block_reach getv apply_d commit_r destroy_r thr s0 s'"

definition block_init :: "nat \<Rightarrow> (nat \<Rightarrow> uid) \<Rightarrow> 'db \<Rightarrow> 'db block_state" where
  "block_init n us db = \<lparr>shared_db = db, phases = replicate n (Executing storage_proxy_new), thread_uid = us, modified_keys = []\<rparr>"

fun is_final :: "tx_phase \<Rightarrow> bool" where
  "is_final (Committed _) = True"
| "is_final Aborted = True"
| "is_final _ = False"

fun committed_proxy :: "tx_phase \<Rightarrow> StorageProxy list" where
  "committed_proxy (Committed sp) = [sp]"
| "committed_proxy _ = []"

definition committed_proxies :: "'db block_state \<Rightarrow> StorageProxy list" where
  "committed_proxies s = concat (map committed_proxy (phases s))"

text \<open>The reference: the deltas of the given transactions, one transaction after the other.\<close>

definition serial_deltas :: "StorageProxy list \<Rightarrow> commits" where
  "serial_deltas sps = add_commits no_commits (concat (map (\<lambda>sp. proxy_deltas (cache sp)) sps))"

definition serial_ledger :: "ledger \<Rightarrow> StorageProxy list \<Rightarrow> ledger" where
  "serial_ledger m sps = ledger_after m (serial_deltas sps)"

section \<open>The invariant of a block\<close>

lemma mset_split_at:
  assumes "i < length ps" "ps ! i = p"
  shows "\<exists>P. mset ps = add_mset p P \<and> (\<forall>q. mset (ps[i := q]) = add_mset q P)"
proof (intro exI conjI allI)
  show "mset ps = add_mset p (mset ps - {#p#})" using assms nth_mem_mset by fastforce
  show "mset (ps[i := q]) = add_mset q (mset ps - {#p#})" for q using assms by (simp add: mset_update)
qed

lemma live_of_add: "live_of (add_mset p P) k = rewinds_at k p + live_of P k"
  by (simp add: live_of_def)

lemma live_of_same: "live_rewinds p = live_rewinds q \<Longrightarrow> live_of (add_mset p P) = live_of (add_mset q P)"
  by (rule ext) (simp add: live_of_add rewinds_at_def)

lemma live_of_more:
  assumes "mset (live_rewinds q) = add_mset (k, rw) (mset (live_rewinds p))"
  shows "live_of (add_mset q P) = (live_of (add_mset p P))(k := add_mset rw (live_of (add_mset p P) k))"
proof (rule ext)
  have "mset (map snd (filter (\<lambda>x. fst x = k') xs)) = image_mset snd (filter_mset (\<lambda>x. fst x = k') (mset xs))" for k' and xs :: TransactionRewind
    by simp
  then show "live_of (add_mset q P) k' = ((live_of (add_mset p P))(k := add_mset rw (live_of (add_mset p P) k))) k'" for k'
    using assms by (simp add: live_of_add rewinds_at_def)
qed

fun committed_deltas :: "tx_phase \<Rightarrow> (AddressAndKey \<times> StorageDelta) multiset" where
  "committed_deltas (Committing sp rws) = mset (proxy_deltas (cache sp)) - mset (rewind_deltas rws)"
| "committed_deltas (Committed sp) = mset (proxy_deltas (cache sp))"
| "committed_deltas _ = {#}"

fun touched :: "tx_phase \<Rightarrow> AddressAndKey set" where
  "touched (Pushing sp _ rws) = fst ` set (rewind_deltas rws)"
| "touched (Committing sp _) = fst ` set (proxy_deltas (cache sp))"
| "touched (Committed sp) = fst ` set (proxy_deltas (cache sp))"
| "touched _ = {}"

text \<open>Every transaction reads the ledger before the block, and its deltas are those of its proxy.\<close>

fun phase_ok :: "ledger \<Rightarrow> tx_phase \<Rightarrow> bool" where
  "phase_ok m (Executing sp) \<longleftrightarrow> storage_reach m sp"
| "phase_ok m (Pushing sp kds rws) \<longleftrightarrow> storage_reach m sp \<and> rewind_deltas rws @ kds = proxy_deltas (cache sp)"
| "phase_ok m (Committing sp rws) \<longleftrightarrow> storage_reach m sp \<and> mset (rewind_deltas rws) \<subseteq># mset (proxy_deltas (cache sp))"
| "phase_ok m (Aborting rws) \<longleftrightarrow> True"
| "phase_ok m (Committed sp) \<longleftrightarrow> storage_reach m (sp\<lparr>committed_local_values := False\<rparr>)"
| "phase_ok m Aborted \<longleftrightarrow> True"

fun logged :: "tx_phase \<Rightarrow> AddressAndKey set" where
  "logged (Committed sp) = fst ` set (cache sp)"
| "logged _ = {}"

lemma proxy_deltas_keys: "(k, d) \<in> set (proxy_deltas kvs) \<Longrightarrow> k \<in> fst ` set kvs"
  by (force simp: proxy_deltas_def)

lemma log_modified_keys_Ret:
  "\<not> committed_local_values sp \<Longrightarrow> distinct keys \<Longrightarrow>
   \<exists>ks. log_modified_keys keys sp = Ret (ks, sp\<lparr>committed_local_values := True\<rparr>) \<and> distinct ks \<and>
     set ks = set keys \<union> fst ` set (cache sp)"
proof -
  have "distinct (foldl (\<lambda>ks (k, _). if k \<in> set ks then ks else ks @ [k]) keys kvs) \<and>
        set (foldl (\<lambda>ks (k, _). if k \<in> set ks then ks else ks @ [k]) keys kvs) = set keys \<union> fst ` set kvs"
    if "distinct keys" for kvs :: "(AddressAndKey \<times> ProxyApplicator) list"
    using that
  proof (induction kvs arbitrary: keys)
    case (Cons kv kvs)
    define ks1 where "ks1 = (if fst kv \<in> set keys then keys else keys @ [fst kv])"
    have "distinct ks1" "set ks1 = insert (fst kv) (set keys)" using Cons.prems by (auto simp: ks1_def)
    then show ?case using Cons.IH[of ks1] by (simp add: split_beta flip: ks1_def)
  qed simp
  then show "\<not> committed_local_values sp \<Longrightarrow> distinct keys \<Longrightarrow> ?thesis"
    by (simp add: log_modified_keys_def assert_not_committed_local_values_def)
qed

lemma mset_minus_step: "add_mset x N \<subseteq># M \<Longrightarrow> M - N = add_mset x (M - add_mset x N)"
proof -
  assume "add_mset x N \<subseteq># M"
  then obtain R where "M = add_mset x N + R" by (metis subset_mset.le_iff_add)
  then show ?thesis by simp
qed

definition same_commits :: "commits \<Rightarrow> commits \<Rightarrow> bool" where
  "same_commits C C' \<longleftrightarrow> (\<forall>k. mset (C k) = mset (C' k))"

lemma same_commits_add: "mset xs = mset ys \<Longrightarrow> same_commits (add_commits C xs) (add_commits C ys)"
proof -
  assume "mset xs = mset ys"
  then have "mset (map snd (filter (\<lambda>x. fst x = k) xs)) = mset (map snd (filter (\<lambda>x. fst x = k) ys))" for k
    by simp
  then show ?thesis by (simp add: same_commits_def add_commits_def)
qed

lemma add_commits_snoc: "add_commits C (xs @ [(k, d)]) = (add_commits C xs)(k := add_commits C xs k @ [d])"
  by (rule ext) (simp add: add_commits_def)

lemma mset_concat_map: "mset (concat (map f xs)) = sum_mset (image_mset (\<lambda>x. mset (f x)) (mset xs))"
  by (induction xs) simp_all

lemma serial_deltas_keys:
  "serial_deltas sps k \<noteq> [] \<Longrightarrow> \<exists>sp \<in> set sps. k \<in> fst ` set (cache sp)"
  by (force simp: serial_deltas_def add_commits_def no_commits_def filter_empty_conv dest: proxy_deltas_keys)

lemma committed_proxy_iff: "sp \<in> set (committed_proxy p) \<longleftrightarrow> p = Committed sp"
  by (cases p) auto

lemma logged_iff: "k \<in> logged p \<longleftrightarrow> (\<exists>sp. p = Committed sp \<and> k \<in> fst ` set (cache sp))"
  by (cases p) auto

text \<open>A key of the log can be committed when it was written or already existed.\<close>

definition writes_or_exists :: "ledger \<Rightarrow> StorageProxy \<Rightarrow> bool" where
  "writes_or_exists m sp \<longleftrightarrow> (\<forall>k v. (k, v) \<in> set (cache sp) \<longrightarrow> get_deltas v \<noteq> [] \<or> m k \<noteq> None)"

text \<open>How much a transaction has still to do once its contract has run.\<close>

fun tx_work :: "tx_phase \<Rightarrow> nat" where
  "tx_work (Executing sp) = 3 + 2 * length (proxy_deltas (cache sp))"
| "tx_work (Pushing sp kds rws) = 2 + 2 * length kds + length rws"
| "tx_work (Committing sp rws) = 1 + length rws"
| "tx_work (Aborting rws) = 1 + length rws"
| "tx_work (Committed sp) = 0"
| "tx_work Aborted = 0"

text \<open>The proxy of a contract that writes two bytes under key 7 of an empty ledger.\<close>

definition sample_write :: StorageProxy where
  "sample_write = (case raw_memory_write (\<lambda>_. None) 7 [1, 2] storage_proxy_new of Ret sp \<Rightarrow> sp | _ \<Rightarrow> storage_proxy_new)"

lemmas sample_write_defs = sample_write_def raw_memory_write_def apply_to_key_def get_local_def storage_proxy_new_def
  make_raw_memory_write_def try_apply_def proxy_applicator_new_def delta_apply_type_guard.simps omap_emplace_def Let_def
  make_current_def set_body_def get_deltas_def proxy_deltas_def

lemma sample_write_step: "raw_memory_write (\<lambda>_. None) 7 [1, 2] storage_proxy_new = Ret sample_write"
  by (simp add: sample_write_defs)

lemma sample_write_deltas: "proxy_deltas (cache sample_write) = [(7, RAW_MEMORY_WRITE [1, 2])]"
  by (simp add: sample_write_defs)

text \<open>
  What the block needs of a database beyond the contract of one key: the order in which deltas
  were committed does not matter, and a key of the ledger can be committed.
\<close>

locale block_db = ledger_db +
  assumes order_law: "inv m L C db \<Longrightarrow> same_commits C C' \<Longrightarrow> inv m L C' db"
    and present_law: "inv m L C db \<Longrightarrow> m k \<noteq> None \<Longrightarrow> known k db"
begin

definition block_inv :: "ledger \<Rightarrow> tx_phase multiset \<Rightarrow> AddressAndKey list \<Rightarrow> (nat \<Rightarrow> uid) \<Rightarrow> 'a \<Rightarrow> bool" where
  "block_inv m P ks us db \<longleftrightarrow>
     (\<exists>D. inv m (live_of P) (add_commits no_commits D) db \<and> mset D = sum_mset (image_mset committed_deltas P)) \<and>
     (\<forall>t. uid_ok (us t)) \<and> (\<forall>p \<in># P. phase_ok m p \<and> (\<forall>k \<in> touched p. known k db)) \<and>
     distinct ks \<and> set ks = (\<Union>p \<in> set_mset P. logged p)"

lemma block_inv_local:
  assumes "block_inv m (add_mset p P) ks us db" "phase_ok m q" "live_rewinds p = live_rewinds q"
    "committed_deltas p = committed_deltas q" "touched q \<subseteq> touched p" "logged p = logged q"
  shows "block_inv m (add_mset q P) ks us db"
  using assms live_of_same[OF assms(3), of P] unfolding block_inv_def by auto

lemma block_inv_push:
  assumes "block_inv m (add_mset (Pushing sp ((k, d) # kds) rws) P) ks us db"
    "size (live_of (add_mset (Pushing sp ((k, d) # kds) rws) P) k) < 255"
  shows "\<exists>res db' u'. apply_d (us t) k d db = Ret (res, db', u') \<and>
     block_inv m (add_mset (case res of None \<Rightarrow> Aborting rws | Some rw \<Rightarrow> Pushing sp kds (rws @ [(k, rw)])) P) ks (us(t := u')) db'"
proof -
  let ?p = "Pushing sp ((k, d) # kds) rws"
  obtain D where D: "inv m (live_of (add_mset ?p P)) (add_commits no_commits D) db"
    "mset D = sum_mset (image_mset committed_deltas (add_mset ?p P))" using assms(1) unfolding block_inv_def by blast
  have r: "storage_reach m sp" "rewind_deltas rws @ (k, d) # kds = proxy_deltas (cache sp)" "uid_ok (us t)"
    using assms(1) by (simp_all add: block_inv_def)
  have "(k, d) \<in> set (proxy_deltas (cache sp))" using r(2)[symmetric] by simp
  then have "supported d" using proxy_deltas_supported[of "cache sp"] by (auto simp: list_all_iff)
  from apply_law[OF D(1) r(3) this assms(2)] obtain res db' u' where
    a: "apply_d (us t) k d db = Ret (res, db', u')" "uid_ok u'" "known k db'" "\<forall>k'. known k' db \<longrightarrow> known k' db'"
      "case res of None \<Rightarrow> inv m (live_of (add_mset ?p P)) (add_commits no_commits D) db'
       | Some rw \<Rightarrow> rw_delta rw = d \<and> inv m ((live_of (add_mset ?p P))(k := add_mset rw (live_of (add_mset ?p P) k)))
            (add_commits no_commits D) db'" by blast
  show ?thesis
  proof (cases res)
    case None
    then have "inv m (live_of (add_mset (Aborting rws) P)) (add_commits no_commits D) db'"
      using a(5) live_of_same[of ?p "Aborting rws" P] by simp
    then have "block_inv m (add_mset (Aborting rws) P) ks (us(t := u')) db'"
      using assms(1) D(2) a(2,4) by (auto simp: block_inv_def)
    then show ?thesis using a(1) None by simp
  next
    case (Some rw)
    let ?q = "Pushing sp kds (rws @ [(k, rw)])"
    have "inv m (live_of (add_mset ?q P)) (add_commits no_commits D) db'"
      using a(5) Some live_of_more[of ?q k rw ?p P] by simp
    then have "block_inv m (add_mset ?q P) ks (us(t := u')) db'"
      using assms(1) D(2) a(2-5) r(2) Some by (auto simp: block_inv_def)
    then show ?thesis using a(1) Some by simp
  qed
qed

lemma block_inv_commit:
  assumes "block_inv m (add_mset (Committing sp ((k, rw) # rws)) P) ks us db"
  shows "\<exists>db' rw'. commit_r k rw db = Ret (db', rw') \<and> block_inv m (add_mset (Committing sp rws) P) ks us db'"
proof -
  let ?p = "Committing sp ((k, rw) # rws)" and ?q = "Committing sp rws"
  obtain D where D: "inv m (live_of (add_mset ?p P)) (add_commits no_commits D) db"
    "mset D = sum_mset (image_mset committed_deltas (add_mset ?p P))" using assms unfolding block_inv_def by blast
  have sub: "add_mset (k, rw_delta rw) (mset (rewind_deltas rws)) \<subseteq># mset (proxy_deltas (cache sp))"
    using assms by (simp add: block_inv_def)
  have "live_of (add_mset ?p P) = (live_of (add_mset ?q P))(k := add_mset rw (live_of (add_mset ?q P) k))"
    by (rule live_of_more) simp
  with D(1) obtain db' rw' where c: "commit_r k rw db = Ret (db', rw')"
    "inv m (live_of (add_mset ?q P)) (add_commits no_commits (D @ [(k, rw_delta rw)])) db'" "\<forall>k'. known k' db \<longrightarrow> known k' db'"
    using commit_law[of m "live_of (add_mset ?q P)" k rw] unfolding add_commits_snoc by metis
  have "committed_deltas ?q = add_mset (k, rw_delta rw) (committed_deltas ?p)"
    using mset_minus_step[OF sub] by simp
  then have "mset (D @ [(k, rw_delta rw)]) = sum_mset (image_mset committed_deltas (add_mset ?q P))"
    using D(2) by (simp del: committed_deltas.simps)
  then have "block_inv m (add_mset ?q P) ks us db'"
    using assms c(2,3) subset_mset.order_trans[OF _ sub, of "mset (rewind_deltas rws)"] unfolding block_inv_def by auto
  then show ?thesis using c(1) by blast
qed

lemma block_inv_destroy:
  assumes "block_inv m (add_mset (Aborting ((k, rw) # rws)) P) ks us db"
  shows "\<exists>db' u'. destroy_r (us t) k rw db = Ret (db', u') \<and> block_inv m (add_mset (Aborting rws) P) ks (us(t := u')) db'"
proof -
  let ?p = "Aborting ((k, rw) # rws)" and ?q = "Aborting rws"
  obtain D where D: "inv m (live_of (add_mset ?p P)) (add_commits no_commits D) db"
    "mset D = sum_mset (image_mset committed_deltas (add_mset ?p P))" using assms unfolding block_inv_def by blast
  have "live_of (add_mset ?p P) = (live_of (add_mset ?q P))(k := add_mset rw (live_of (add_mset ?q P) k))"
    by (rule live_of_more) simp
  with D(1) obtain db' u' where c: "destroy_r (us t) k rw db = Ret (db', u')" "uid_ok u'"
    "inv m (live_of (add_mset ?q P)) (add_commits no_commits D) db'" "\<forall>k'. known k' db \<longrightarrow> known k' db'"
    using destroy_law[of m "live_of (add_mset ?q P)" k rw _ db "us t"] assms unfolding block_inv_def by metis
  then have "block_inv m (add_mset ?q P) ks (us(t := u')) db'" using assms D(2) unfolding block_inv_def by auto
  then show ?thesis using c(1) by blast
qed

definition state_inv :: "ledger \<Rightarrow> 'a block_state \<Rightarrow> bool" where
  "state_inv m s \<longleftrightarrow> block_inv m (mset (phases s)) (modified_keys s) (thread_uid s) (shared_db s)"

lemma state_inv_init:
  assumes "inv m no_live no_commits db" "\<forall>t. uid_ok (us t)"
  shows "state_inv m (block_init n us db)"
proof -
  have p: "p = Executing storage_proxy_new" if "p \<in># mset (replicate n (Executing storage_proxy_new))" for p
    using that by (auto split: if_splits)
  have "live_of (mset (replicate n (Executing storage_proxy_new))) = no_live"
    by (rule ext) (simp add: live_of_def no_live_def rewinds_at_def)
  then show ?thesis using assms reach_new[of m] unfolding state_inv_def block_init_def block_inv_def
    by (auto intro!: exI[of _ "[]"])
qed

lemma ledger_read: "block_inv m P ks us db \<Longrightarrow> (\<lambda>k. get k db) = m"
proof (rule ext)
  assume "block_inv m P ks us db"
  then obtain D where "inv m (live_of P) (add_commits no_commits D) db" unfolding block_inv_def by blast
  then show "get k db = m k" for k by (rule get_law)
qed

lemma block_inv_log:
  assumes "block_inv m (add_mset (Committing sp []) P) ks us db"
  shows "\<exists>ks'. log_modified_keys ks sp = Ret (ks', sp\<lparr>committed_local_values := True\<rparr>) \<and>
     block_inv m (add_mset (Committed (sp\<lparr>committed_local_values := True\<rparr>)) P) ks' us db"
proof -
  let ?p = "Committing sp []" and ?q = "Committed (sp\<lparr>committed_local_values := True\<rparr>)"
  have "phase_ok m ?p" "distinct ks" using assms unfolding block_inv_def by simp_all
  then have sp: "storage_reach m sp" "distinct ks" by simp_all
  from log_modified_keys_Ret[OF storage_reach_flag[OF sp(1)] sp(2)] obtain ks' where
    l: "log_modified_keys ks sp = Ret (ks', sp\<lparr>committed_local_values := True\<rparr>)" "distinct ks'" "set ks' = set ks \<union> fst ` set (cache sp)"
    by blast
  have sp': "storage_reach m (sp\<lparr>committed_local_values := False\<rparr>)"
    using storage_reach_flag[OF sp(1)] sp(1) by (cases sp) simp
  have "block_inv m (add_mset ?q P) ks' us db"
    using assms l(2,3) sp' live_of_same[of ?p ?q P] by (simp add: block_inv_def Un_commute)
  then show ?thesis using l(1) by blast
qed

lemma block_step_inv:
  assumes "block_step get apply_d commit_r destroy_r thr s s'" "state_inv m s"
  shows "state_inv m s'"
  using assms
proof (induction rule: block_step.induct)
  case (exec_step i s sp k sp')
  from mset_split_at[OF exec_step(1,2)] obtain P where P: "mset (phases s) = add_mset (Executing sp) P"
    "\<forall>q. mset ((phases s)[i := q]) = add_mset q P" by blast
  have I: "block_inv m (add_mset (Executing sp) P) (modified_keys s) (thread_uid s) (shared_db s)"
    using exec_step.prems P(1) by (simp add: state_inv_def)
  have "storage_reach m sp'"
    using exec_step(3) I reach_step[of m sp k sp'] unfolding ledger_read[OF I] by (simp add: block_inv_def)
  then show ?case using block_inv_local[OF I, of "Executing sp'"] P(2) by (simp add: state_inv_def)
next
  case (exec_fail i s sp)
  from mset_split_at[OF exec_fail(1,2)] obtain P where P: "mset (phases s) = add_mset (Executing sp) P"
    "\<forall>q. mset ((phases s)[i := q]) = add_mset q P" by blast
  then show ?case using exec_fail.prems block_inv_local[of m "Executing sp" P _ _ _ Aborted] by (simp add: state_inv_def)
next
  case (exec_done i s sp)
  from mset_split_at[OF exec_done(1,2)] obtain P where P: "mset (phases s) = add_mset (Executing sp) P"
    "\<forall>q. mset ((phases s)[i := q]) = add_mset q P" by blast
  then have "storage_reach m sp" using exec_done.prems by (simp add: state_inv_def block_inv_def)
  then show ?case using exec_done.prems P block_inv_local[of m "Executing sp" P _ _ _ "Pushing sp (proxy_deltas (cache sp)) []"]
    by (simp add: state_inv_def)
next
  case (push_accepted i s sp k d kds rws rw db' u')
  from mset_split_at[OF push_accepted(1,2)] obtain P where P: "mset (phases s) = add_mset (Pushing sp ((k, d) # kds) rws) P"
    "\<forall>q. mset ((phases s)[i := q]) = add_mset q P" by blast
  show ?case using block_inv_push[of m sp k d kds rws P "modified_keys s" "thread_uid s" "shared_db s" "thr i"]
    push_accepted.prems push_accepted(3,4) P by (auto simp: state_inv_def)
next
  case (push_refused i s sp k d kds rws db' u')
  from mset_split_at[OF push_refused(1,2)] obtain P where P: "mset (phases s) = add_mset (Pushing sp ((k, d) # kds) rws) P"
    "\<forall>q. mset ((phases s)[i := q]) = add_mset q P" by blast
  show ?case using block_inv_push[of m sp k d kds rws P "modified_keys s" "thread_uid s" "shared_db s" "thr i"]
    push_refused.prems push_refused(3,4) P by (auto simp: state_inv_def)
next
  case (push_commit i s sp rws)
  from mset_split_at[OF push_commit(1,2)] obtain P where P: "mset (phases s) = add_mset (Pushing sp [] rws) P"
    "\<forall>q. mset ((phases s)[i := q]) = add_mset q P" by blast
  have I: "block_inv m (add_mset (Pushing sp [] rws) P) (modified_keys s) (thread_uid s) (shared_db s)"
    using push_commit.prems P(1) by (simp add: state_inv_def)
  then have "storage_reach m sp" "rewind_deltas rws = proxy_deltas (cache sp)" by (simp_all add: block_inv_def)
  then show ?case using block_inv_local[OF I, of "Committing sp rws"] P(2) by (simp add: state_inv_def)
next
  case (push_giveup i s sp rws)
  from mset_split_at[OF push_giveup(1,2)] obtain P where P: "mset (phases s) = add_mset (Pushing sp [] rws) P"
    "\<forall>q. mset ((phases s)[i := q]) = add_mset q P" by blast
  then show ?case using push_giveup.prems block_inv_local[of m "Pushing sp [] rws" P _ _ _ "Aborting rws"] by (simp add: state_inv_def)
next
  case (commit_one i s sp k rw rws db' rw')
  from mset_split_at[OF commit_one(1,2)] obtain P where P: "mset (phases s) = add_mset (Committing sp ((k, rw) # rws)) P"
    "\<forall>q. mset ((phases s)[i := q]) = add_mset q P" by blast
  then show ?case using commit_one.prems commit_one(3) block_inv_commit[of m sp k rw rws P] by (fastforce simp: state_inv_def)
next
  case (commit_done i s sp ks sp')
  from mset_split_at[OF commit_done(1,2)] obtain P where P: "mset (phases s) = add_mset (Committing sp []) P"
    "\<forall>q. mset ((phases s)[i := q]) = add_mset q P" by blast
  then show ?case using commit_done.prems commit_done(3) block_inv_log[of m sp P] by (fastforce simp: state_inv_def)
next
  case (destroy_one i s k rw rws db' u')
  from mset_split_at[OF destroy_one(1,2)] obtain P where P: "mset (phases s) = add_mset (Aborting ((k, rw) # rws)) P"
    "\<forall>q. mset ((phases s)[i := q]) = add_mset q P" by blast
  then show ?case using destroy_one.prems destroy_one(3)
      block_inv_destroy[of m k rw rws P "modified_keys s" "thread_uid s" "shared_db s" "thr i"] by (auto simp: state_inv_def)
next
  case (destroy_done i s)
  from mset_split_at[OF destroy_done(1,2)] obtain P where P: "mset (phases s) = add_mset (Aborting []) P"
    "\<forall>q. mset ((phases s)[i := q]) = add_mset q P" by blast
  then show ?case using destroy_done.prems block_inv_local[of m "Aborting []" P _ _ _ Aborted] by (simp add: state_inv_def)
qed

lemma block_reach_inv:
  "block_reach get apply_d commit_r destroy_r thr s0 s \<Longrightarrow> state_inv m s0 \<Longrightarrow> state_inv m s"
  by (induction rule: block_reach.induct) (auto intro: block_step_inv)

text \<open>When every transaction is over, the database holds the deltas of the committed ones, in any order.\<close>

lemma final_commits:
  assumes "state_inv m s" "list_all is_final (phases s)" "mset sps = mset (committed_proxies s)"
  shows "inv m no_live (serial_deltas sps) (shared_db s)"
proof -
  obtain D where D: "inv m (live_of (mset (phases s))) (add_commits no_commits D) (shared_db s)"
    "mset D = sum_mset (image_mset committed_deltas (mset (phases s)))"
    using assms(1) unfolding state_inv_def block_inv_def by blast
  have nolive: "live_of (mset (phases s)) = no_live"
  proof (rule ext)
    have "rewinds_at k p = {#}" if "p \<in> set (phases s)" for k p
      using assms(2) that by (cases p) (auto simp: list_all_iff rewinds_at_def)
    then have "image_mset (rewinds_at k) (mset (phases s)) = image_mset (\<lambda>_. {#}) (mset (phases s))" for k
      by (intro image_mset_cong) simp
    then show "live_of (mset (phases s)) k = no_live k" for k by (simp add: live_of_def no_live_def)
  qed
  have "sum_mset (image_mset committed_deltas (mset ps)) = mset (concat (map (\<lambda>sp. proxy_deltas (cache sp)) (concat (map committed_proxy ps))))"
    if "list_all is_final ps" for ps
    using that
  proof (induction ps)
    case (Cons p ps)
    then show ?case by (cases p) auto
  qed simp
  then have "mset D = sum_mset (image_mset (\<lambda>sp. mset (proxy_deltas (cache sp))) (mset (committed_proxies s)))"
    using D(2) assms(2) unfolding committed_proxies_def mset_concat_map by metis
  also have "\<dots> = mset (concat (map (\<lambda>sp. proxy_deltas (cache sp)) sps))"
    unfolding mset_concat_map assms(3) ..
  finally have "same_commits (add_commits no_commits D) (serial_deltas sps)"
    unfolding serial_deltas_def by (rule same_commits_add)
  then show ?thesis using D(1) order_law unfolding nolive by blast
qed

lemma final_keys:
  assumes "state_inv m s" "list_all is_final (phases s)" "mset sps = mset (committed_proxies s)"
  shows "distinct (modified_keys s)" "set (modified_keys s) = (\<Union>sp \<in> set sps. fst ` set (cache sp))"
    "\<forall>k. serial_deltas sps k \<noteq> [] \<longrightarrow> k \<in> set (modified_keys s)"
    "\<forall>sp \<in> set sps. storage_reach m (sp\<lparr>committed_local_values := False\<rparr>)"
    "\<forall>sp \<in> set sps. \<forall>k \<in> fst ` set (proxy_deltas (cache sp)). known k (shared_db s)"
proof -
  have I: "distinct (modified_keys s)" "set (modified_keys s) = (\<Union>p \<in> set (phases s). logged p)"
    "\<forall>p \<in> set (phases s). phase_ok m p \<and> (\<forall>k \<in> touched p. known k (shared_db s))"
    using assms(1) unfolding state_inv_def block_inv_def by auto
  have "set sps = set (committed_proxies s)" using assms(3) by (rule mset_eq_setD)
  also have "\<dots> = {sp. Committed sp \<in> set (phases s)}" by (auto simp: committed_proxies_def committed_proxy_iff)
  finally have sps: "set sps = {sp. Committed sp \<in> set (phases s)}" .
  show "distinct (modified_keys s)" by (rule I(1))
  show keys: "set (modified_keys s) = (\<Union>sp \<in> set sps. fst ` set (cache sp))"
    unfolding I(2) sps by (rule set_eqI) (simp, metis logged_iff)
  show "\<forall>k. serial_deltas sps k \<noteq> [] \<longrightarrow> k \<in> set (modified_keys s)"
    unfolding keys by (auto dest!: serial_deltas_keys)
  show "\<forall>sp \<in> set sps. storage_reach m (sp\<lparr>committed_local_values := False\<rparr>)"
    "\<forall>sp \<in> set sps. \<forall>k \<in> fst ` set (proxy_deltas (cache sp)). known k (shared_db s)"
    using I(3) unfolding sps by fastforce+
qed

lemma block_commits:
  assumes "state_inv m s" "list_all is_final (phases s)" "mset sps = mset (committed_proxies s)"
    "small_block (serial_deltas sps)" "\<forall>k \<in> set (modified_keys s). known k (shared_db s)"
  shows "\<exists>db'. commit_b (modified_keys s) (shared_db s) = Ret db' \<and> inv (serial_ledger m sps) no_live no_commits db'"
  using commit_block_law[OF final_commits[OF assms(1-3)] final_keys(1)[OF assms(1-3)] assms(4) final_keys(3)[OF assms(1-3)] assms(5)]
  by (simp add: serial_ledger_def)

lemma block_rewinds:
  assumes "state_inv m s" "list_all is_final (phases s)" "\<forall>k \<in> set (modified_keys s). known k (shared_db s)"
  shows "\<exists>db'. rewind_b (modified_keys s) (shared_db s) = Ret db' \<and> inv m no_live no_commits db'"
  using rewind_block_law[OF final_commits[OF assms(1,2) refl] final_keys(1)[OF assms(1,2) refl] _ assms(3)]
    final_keys(3)[OF assms(1,2) refl] by (simp add: no_live_def)

lemma logged_keys_known:
  assumes "state_inv m s" "list_all is_final (phases s)" "mset sps = mset (committed_proxies s)"
    "\<forall>sp \<in> set sps. writes_or_exists m sp"
  shows "\<forall>k \<in> set (modified_keys s). known k (shared_db s)"
proof
  fix k assume "k \<in> set (modified_keys s)"
  then obtain sp v where kv: "sp \<in> set sps" "(k, v) \<in> set (cache sp)"
    using final_keys(2)[OF assms(1-3)] by force
  consider "get_deltas v \<noteq> []" | "m k \<noteq> None" using kv assms(4) unfolding writes_or_exists_def by blast
  then show "known k (shared_db s)"
  proof cases
    case 1
    then have "k \<in> fst ` set (proxy_deltas (cache sp))" using kv(2) by (force simp: proxy_deltas_def neq_Nil_conv)
    then show ?thesis using final_keys(5)[OF assms(1-3)] kv(1) by blast
  next
    case 2
    then show ?thesis using present_law[OF final_commits[OF assms(1-3)]] by blast
  qed
qed

text \<open>No transaction gets stuck: whatever it does next returns.\<close>

lemma tx_progress:
  assumes "state_inv m s" "i < length (phases s)" "\<not> is_final (phases s ! i)"
    "\<And>sp k d kds rws. phases s ! i = Pushing sp ((k, d) # kds) rws \<Longrightarrow> size (live_of (mset (phases s)) k) < 255"
  shows "\<exists>q s'. block_step get apply_d commit_r destroy_r thr s s' \<and> phases s' = (phases s)[i := q] \<and> tx_work q < tx_work (phases s ! i)"
proof -
  obtain P where P: "mset (phases s) = add_mset (phases s ! i) P" using mset_split_at[OF assms(2) refl] by blast
  have I: "block_inv m (add_mset (phases s ! i) P) (modified_keys s) (thread_uid s) (shared_db s)"
    using assms(1) P by (simp add: state_inv_def)
  show ?thesis
  proof (cases "phases s ! i")
    case (Executing sp)
    from exec_fail[OF assms(2) this] show ?thesis using Executing by fastforce
  next
    case (Pushing sp kds rws)
    show ?thesis
    proof (cases kds)
      case Nil
      from push_commit[OF assms(2) Pushing[unfolded Nil]] show ?thesis using Pushing Nil by fastforce
    next
      case (Cons kd kds')
      obtain k d where kd: "kd = (k, d)" by force
      note ph = Pushing[unfolded Cons kd]
      from block_inv_push[OF I[unfolded ph], of "thr i"] assms(4)[OF ph] P[unfolded ph] obtain res db' u' where
        a: "apply_d (thread_uid s (thr i)) k d (shared_db s) = Ret (res, db', u')" by auto
      show ?thesis
      proof (cases res)
        case None
        from push_refused[where apply_d = apply_d and thr = thr, OF assms(2) ph assms(4)[OF ph] a[unfolded None]] show ?thesis using ph by fastforce
      next
        case (Some rw)
        from push_accepted[where apply_d = apply_d and thr = thr, OF assms(2) ph assms(4)[OF ph] a[unfolded Some]] show ?thesis using ph by fastforce
      qed
    qed
  next
    case (Committing sp rws)
    show ?thesis
    proof (cases rws)
      case Nil
      note ph = Committing[unfolded Nil]
      from block_inv_log[OF I[unfolded ph]] obtain ks where "log_modified_keys (modified_keys s) sp = Ret (ks, sp\<lparr>committed_local_values := True\<rparr>)" by blast
      from commit_done[OF assms(2) ph this] show ?thesis using ph by fastforce
    next
      case (Cons x rws')
      obtain k rw where x: "x = (k, rw)" by force
      note ph = Committing[unfolded Cons x]
      from block_inv_commit[OF I[unfolded ph]] obtain db' rw' where "commit_r k rw (shared_db s) = Ret (db', rw')" by blast
      from commit_one[where commit_r = commit_r, OF assms(2) ph this] show ?thesis using ph by fastforce
    qed
  next
    case (Aborting rws)
    show ?thesis
    proof (cases rws)
      case Nil
      from destroy_done[OF assms(2) Aborting[unfolded Nil]] show ?thesis using Aborting Nil by fastforce
    next
      case (Cons x rws')
      obtain k rw where x: "x = (k, rw)" by force
      note ph = Aborting[unfolded Cons x]
      from block_inv_destroy[OF I[unfolded ph], of "thr i"] obtain db' u' where
        "destroy_r (thread_uid s (thr i)) k rw (shared_db s) = Ret (db', u')" by blast
      from destroy_one[where destroy_r = destroy_r and thr = thr, OF assms(2) ph this] show ?thesis using ph by fastforce
    qed
  qed (use assms(3) in simp_all)
qed

lemma commit_run:
  assumes "block_reach get apply_d commit_r destroy_r thr s0 s" "state_inv m s" "phases s = [Committing sp rws]"
  shows "\<exists>s'. block_reach get apply_d commit_r destroy_r thr s0 s' \<and> phases s' = [Committed (sp\<lparr>committed_local_values := True\<rparr>)]"
  using assms
proof (induction rws arbitrary: s)
  case Nil
  from block_inv_log[of m sp "{#}" "modified_keys s" "thread_uid s" "shared_db s"] Nil.prems(2,3) obtain ks where
    l: "log_modified_keys (modified_keys s) sp = Ret (ks, sp\<lparr>committed_local_values := True\<rparr>)" by (auto simp: state_inv_def)
  have "block_step get apply_d commit_r destroy_r thr s
      (s\<lparr>modified_keys := ks, phases := (phases s)[0 := Committed (sp\<lparr>committed_local_values := True\<rparr>)]\<rparr>)"
    by (rule commit_done[OF _ _ l]) (simp_all add: Nil.prems(3))
  from block_next[OF Nil.prems(1) this] show ?case
    by (auto simp: Nil.prems(3) intro!: exI[of _ "s\<lparr>modified_keys := ks, phases := [Committed (sp\<lparr>committed_local_values := True\<rparr>)]\<rparr>"])
next
  case (Cons x rws)
  obtain k rw where x: "x = (k, rw)" by force
  from block_inv_commit[of m sp k rw rws "{#}" "modified_keys s" "thread_uid s" "shared_db s"] Cons.prems(2,3) obtain db' rw' where
    c: "commit_r k rw (shared_db s) = Ret (db', rw')" by (auto simp: state_inv_def x)
  have st: "block_step get apply_d commit_r destroy_r thr s (s\<lparr>shared_db := db', phases := (phases s)[0 := Committing sp rws]\<rparr>)"
    by (rule commit_one[where k = k and rw = rw and rw' = rw']) (simp_all add: Cons.prems(3) x c)
  show ?case using Cons.IH[OF block_next[OF Cons.prems(1) st] block_step_inv[OF st Cons.prems(2)]] Cons.prems(3) by simp
qed

text \<open>The run of a single transaction that writes two bytes, used to instantiate the properties.\<close>

lemma sample_run:
  assumes "inv (\<lambda>_. None) no_live no_commits db" "\<forall>t. uid_ok (us t)"
    "apply_d (us 0) 7 (RAW_MEMORY_WRITE [1, 2]) db = Ret (Some rw, db', u')"
  shows "\<exists>s. block_reach get apply_d commit_r destroy_r (\<lambda>_. 0) (block_init 1 us db) s \<and>
     phases s = [Committed (sample_write\<lparr>committed_local_values := True\<rparr>)]"
proof -
  define s0 where "s0 = block_init 1 us db"
  define s1 where "s1 = s0\<lparr>phases := [Executing sample_write]\<rparr>"
  define s2 where "s2 = s0\<lparr>phases := [Pushing sample_write [(7, RAW_MEMORY_WRITE [1, 2])] []]\<rparr>"
  define s3 where "s3 = s0\<lparr>shared_db := db', thread_uid := us(0 := u'), phases := [Pushing sample_write [] [(7, rw)]]\<rparr>"
  let ?step = "block_step get apply_d commit_r destroy_r (\<lambda>_. 0)" and ?reach = "block_reach get apply_d commit_r destroy_r (\<lambda>_. 0) s0"
  have I0: "state_inv (\<lambda>_. None) s0" unfolding s0_def by (rule state_inv_init[OF assms(1,2)])
  have rd: "(\<lambda>k. get k db) = (\<lambda>_. None)" using get_law[OF assms(1)] by blast
  have "storage_step (\<lambda>_. None) 7 storage_proxy_new sample_write" by (rule step_raw[OF sample_write_step])
  then have 1: "?step s0 s1"
    using exec_step[of 0 s0 storage_proxy_new get 7 sample_write apply_d commit_r destroy_r "\<lambda>_. 0"]
    by (simp add: s0_def s1_def block_init_def rd)
  have 2: "?step s1 s2"
    using exec_done[of 0 s1 sample_write get apply_d commit_r destroy_r "\<lambda>_. 0"] by (simp add: s1_def s2_def sample_write_deltas)
  have "live_of (mset (phases s2)) 7 = {#}" by (simp add: s2_def live_of_def rewinds_at_def)
  then have 3: "?step s2 s3"
    using push_accepted[of 0 s2 sample_write 7 "RAW_MEMORY_WRITE [1, 2]" "[]" "[]" apply_d "\<lambda>_. 0" rw db' u' get commit_r destroy_r] assms(3)
    by (simp add: s2_def s3_def s0_def block_init_def)
  have 4: "?step s3 (s3\<lparr>phases := [Committing sample_write [(7, rw)]]\<rparr>)"
    using push_commit[of 0 s3 sample_write "[(7, rw)]" get apply_d commit_r destroy_r "\<lambda>_. 0"] by (simp add: s3_def)
  note r = block_next[OF block_next[OF block_next[OF block_next[OF block_start 1] 2] 3] 4]
  show ?thesis using commit_run[OF r block_reach_inv[OF r I0]] unfolding s0_def by simp
qed

end

section \<open>Both databases meet the contract of a block\<close>

lemma key_open_order: "key_open sh cb L C x \<Longrightarrow> mset C = mset C' \<Longrightarrow> key_open sh cb L C' x"
  by (cases x) auto

interpretation v1b: block_db "statedb_inv T sh" "get_committed_value T" "try_apply_delta T sh"
    "statedb_rewind_commit T" "statedb_rewind_destroy T sh" statedb_known "commit_modifications T kh"
    "\<lambda>ks db. Ret (rewind_modifications T kh ks db)" for T sh kh
proof unfold_locales
  fix m L C db C'
  assume "statedb_inv T sh m L C db" "same_commits C C'"
  then show "statedb_inv T sh m L C' db" unfolding statedb_inv_def same_commits_def using key_open_order by blast
qed (simp add: statedb_known_def)

interpretation v2b: block_db "v2_inv T sh" "v2_get_committed_value T" "v2_try_apply_delta T sh"
    "v2_rewind_commit T" "v2_rewind_destroy T sh" "v2_known T" "v2_commit_modifications T"
    "v2_rewind_modifications T" for T sh
proof unfold_locales
  fix m L C t C'
  assume "v2_inv T sh m L C t" "same_commits C C'"
  then show "v2_inv T sh m L C' t" unfolding v2_inv_def same_commits_def using key_open_order by blast
next
  fix m L C t k
  assume "v2_inv T sh m L C t" "m k \<noteq> None"
  then have "key_open sh (m k) (L k) (C k) (trie_get T k t)" by (simp add: v2_inv_def)
  with \<open>m k \<noteq> None\<close> show "v2_known T k t" by (cases "trie_get T k t") (simp_all add: v2_known_def)
qed

text \<open>A fresh database is the empty ledger.\<close>

definition state_db_new :: "'t \<Rightarrow> (AddressAndKey \<Rightarrow> uint64) \<Rightarrow> 't StateDB" where
  "state_db_new t kh = \<lparr>state_db = t, new_key_cache = new_key_cache_new kh, has_uncommitted_deltas = False\<rparr>"

lemma state_db_new_inv:
  "trie_laws T \<Longrightarrow> \<forall>k. trie_get T k t = None \<Longrightarrow> statedb_inv T sh (\<lambda>_. None) no_live no_commits (state_db_new t kh)"
  by (simp add: statedb_inv_def state_db_new_def statedb_find_def no_live_def no_commits_def)
    (simp add: new_key_cache_new_def)

lemma v2_new_inv:
  "trie_laws T \<Longrightarrow> \<forall>k. trie_get T k t = None \<Longrightarrow> v2_inv T sh (\<lambda>_. None) no_live no_commits t"
  by (simp add: v2_inv_def no_live_def no_commits_def)

text \<open>The empty database accepts the delta of the sample transaction, and runs it to its end.\<close>

lemma new_object_accepts:
  "uid_ok u \<Longrightarrow> \<exists>rw ro' u'. try_add_delta sh u (RAW_MEMORY_WRITE x) RevertableObject_new = Ret (Some rw, ro', u')"
  using round_add[OF round_inv_new, of u "RAW_MEMORY_WRITE x" sh]
  by (auto simp: admits_def class_admitted_def same_class_def RevertableObject_new_def split: option.splits)

abbreviation empty_db :: "(AddressAndKey, RevertableObject) omap StateDB" where
  "empty_db \<equiv> state_db_new [] (\<lambda>_. 0)"

lemma omap_trie_empty: "\<forall>k. trie_get omap_trie k [] = None"
  by (simp add: omap_trie_def)

lemma uid_ok_0: "uid_ok 0"
  by (simp add: uid_ok_def)

lemma sample_uids: "\<forall>t. uid_ok ((\<lambda>_. 0) t)"
  by (simp add: uid_ok_def)

lemma sample_run_v1:
  "\<exists>s. block_reach (get_committed_value omap_trie) (try_apply_delta omap_trie sh) (statedb_rewind_commit omap_trie)
       (statedb_rewind_destroy omap_trie sh) (\<lambda>_. 0) (block_init 1 (\<lambda>_. 0) empty_db) s \<and>
     phases s = [Committed (sample_write\<lparr>committed_local_values := True\<rparr>)]"
proof -
  obtain rw ro' u' where "try_add_delta sh 0 (RAW_MEMORY_WRITE [1, 2]) RevertableObject_new = Ret (Some rw, ro', u')"
    using new_object_accepts[of 0 sh "[1, 2]"] uid_ok_0 by blast
  then have "\<exists>db'. try_apply_delta omap_trie sh 0 7 (RAW_MEMORY_WRITE [1, 2]) empty_db = Ret (Some rw, db', u')"
    using cache_try_reserve_eq[of "new_key_cache_new (\<lambda>_. 0)" sh 0 7 "RAW_MEMORY_WRITE [1, 2]"]
    by (simp add: try_apply_delta_def omap_trie_def state_db_new_def) (simp add: new_key_cache_new_def)
  then show ?thesis using v1b.sample_run[OF state_db_new_inv[OF omap_trie_laws omap_trie_empty] sample_uids] by blast
qed

lemma sample_run_v2:
  "\<exists>s. block_reach (v2_get_committed_value omap_trie) (v2_try_apply_delta omap_trie sh) (v2_rewind_commit omap_trie)
       (v2_rewind_destroy omap_trie sh) (\<lambda>_. 0) (block_init 1 (\<lambda>_. 0) []) s \<and>
     phases s = [Committed (sample_write\<lparr>committed_local_values := True\<rparr>)]"
proof -
  obtain rw ro' u' where "try_add_delta sh 0 (RAW_MEMORY_WRITE [1, 2]) RevertableObject_new = Ret (Some rw, ro', u')"
    using new_object_accepts[of 0 sh "[1, 2]"] uid_ok_0 by blast
  then have "\<exists>db'. v2_try_apply_delta omap_trie sh 0 7 (RAW_MEMORY_WRITE [1, 2]) [] = Ret (Some rw, db', u')"
    by (simp add: v2_try_apply_delta_def omap_trie_def)
  then show ?thesis using v2b.sample_run[OF v2_new_inv[OF omap_trie_laws omap_trie_empty] sample_uids] by blast
qed

lemma sample_ledger:
  assumes "phases s = [Committed (sample_write\<lparr>committed_local_values := True\<rparr>)]"
  shows "list_all is_final (phases s)" "committed_proxies s = [sample_write\<lparr>committed_local_values := True\<rparr>]"
    "small_block (serial_deltas (committed_proxies s))" "\<forall>sp \<in> set (committed_proxies s). writes_or_exists m sp"
    "serial_ledger (\<lambda>_. None) (committed_proxies s) 7 = Some \<lparr>body = raw_memory_storage [1, 2], escrowed_fee = 0\<rparr>"
proof -
  have d: "serial_deltas [sample_write\<lparr>committed_local_values := True\<rparr>] = (\<lambda>k. if k = 7 then [RAW_MEMORY_WRITE [1, 2]] else [])"
    by (rule ext) (simp add: serial_deltas_def sample_write_deltas add_commits_def no_commits_def)
  show f: "list_all is_final (phases s)" "committed_proxies s = [sample_write\<lparr>committed_local_values := True\<rparr>]"
    using assms by (simp_all add: committed_proxies_def)
  show "small_block (serial_deltas (committed_proxies s))" by (simp add: f d small_block_def)
  show "\<forall>sp \<in> set (committed_proxies s). writes_or_exists m sp" by (simp add: f writes_or_exists_def sample_write_defs)
  show "serial_ledger (\<lambda>_. None) (committed_proxies s) 7 = Some \<lparr>body = raw_memory_storage [1, 2], escrowed_fee = 0\<rparr>"
    by (simp add: f d serial_ledger_def ledger_after_def spec_commit_def start_object_def object_from_delta_class_def)
qed

section \<open>Properties\<close>

text \<open>
  C1: a block is serializable, whatever the interleaving. Take any run of any number of transactions
  over the shared database, one shared-memory operation at a time, in which every transaction has ended.
  Then committing the block does not throw, and the new ledger is the one obtained by applying the deltas of the
  successful transactions one transaction after the other, in any order \<open>sps\<close>; failed transactions
  leave no trace. Every successful transaction has read only the ledger before the block and its own
  writes. The database is ready for the next block.
\<close>

theorem block_serializable:
  assumes "statedb_inv T sh m no_live no_commits db" "\<forall>t. uid_ok (us t)"
    "block_reach (get_committed_value T) (try_apply_delta T sh) (statedb_rewind_commit T) (statedb_rewind_destroy T sh) thr
       (block_init n us db) s"
    "list_all is_final (phases s)" "mset sps = mset (committed_proxies s)" "small_block (serial_deltas sps)"
  shows "\<exists>db'. commit_modifications T kh (modified_keys s) (shared_db s) = Ret db' \<and>
     (\<forall>k. get_committed_value T k db' = serial_ledger m sps k) \<and>
     (\<forall>sp \<in> set sps. storage_reach m (sp\<lparr>committed_local_values := False\<rparr>)) \<and>
     statedb_inv T sh (serial_ledger m sps) no_live no_commits db'"
proof -
  note I = v1b.block_reach_inv[OF assms(3) v1b.state_inv_init[OF assms(1,2)]]
  obtain db' where "commit_modifications T kh (modified_keys s) (shared_db s) = Ret db'"
    "statedb_inv T sh (serial_ledger m sps) no_live no_commits db'"
    using v1b.block_commits[OF I assms(4-6)] by (auto simp: statedb_known_def)
  then show ?thesis using v1b.final_keys(4)[OF I assms(4,5)] v1.get_law by blast
qed

theorem block_serializable_witness:
  "\<exists>(s :: (AddressAndKey, RevertableObject) omap StateDB block_state) db'. phases s = [Committed (sample_write\<lparr>committed_local_values := True\<rparr>)] \<and>
     commit_modifications omap_trie (\<lambda>_. 0) (modified_keys s) (shared_db s) = Ret db' \<and>
     get_committed_value omap_trie 7 db' = Some \<lparr>body = raw_memory_storage [1, 2], escrowed_fee = 0\<rparr>"
proof -
  obtain s where s: "block_reach (get_committed_value omap_trie) (try_apply_delta omap_trie (\<lambda>_. 0)) (statedb_rewind_commit omap_trie)
      (statedb_rewind_destroy omap_trie (\<lambda>_. 0)) (\<lambda>_. 0) (block_init 1 (\<lambda>_. 0) empty_db) s"
    "phases s = [Committed (sample_write\<lparr>committed_local_values := True\<rparr>)]" using sample_run_v1 by blast
  from block_serializable[OF state_db_new_inv[OF omap_trie_laws omap_trie_empty] sample_uids s(1) sample_ledger(1)[OF s(2)] refl
      sample_ledger(3)[OF s(2)], of "\<lambda>_. 0"] obtain db' where
    "commit_modifications omap_trie (\<lambda>_. 0) (modified_keys s) (shared_db s) = Ret db'"
    "\<forall>k. get_committed_value omap_trie k db' = serial_ledger (\<lambda>_. None) (committed_proxies s) k" by blast
  then show ?thesis using s(2) sample_ledger(5)[OF s(2)] by (intro exI[of _ s] exI[of _ db']) simp
qed

text \<open>
  The same for the databases that keep new keys in the trie, provided no successful transaction
  merely looked at a key that does not exist.
\<close>

theorem v2_block_serializable:
  assumes "v2_inv T sh m no_live no_commits db" "\<forall>t. uid_ok (us t)"
    "block_reach (v2_get_committed_value T) (v2_try_apply_delta T sh) (v2_rewind_commit T) (v2_rewind_destroy T sh) thr
       (block_init n us db) s"
    "list_all is_final (phases s)" "mset sps = mset (committed_proxies s)" "small_block (serial_deltas sps)"
    "\<forall>sp \<in> set sps. writes_or_exists m sp"
  shows "\<exists>db'. v2_commit_modifications T (modified_keys s) (shared_db s) = Ret db' \<and>
     (\<forall>k. v2_get_committed_value T k db' = serial_ledger m sps k) \<and>
     (\<forall>sp \<in> set sps. storage_reach m (sp\<lparr>committed_local_values := False\<rparr>)) \<and>
     v2_inv T sh (serial_ledger m sps) no_live no_commits db'"
proof -
  note I = v2b.block_reach_inv[OF assms(3) v2b.state_inv_init[OF assms(1,2)]]
  obtain db' where c: "v2_commit_modifications T (modified_keys s) (shared_db s) = Ret db'"
    "v2_inv T sh (serial_ledger m sps) no_live no_commits db'"
    using v2b.block_commits[OF I assms(4-6) v2b.logged_keys_known[OF I assms(4,5,7)]] by blast
  then show ?thesis using v2b.final_keys(4)[OF I assms(4,5)] v2.get_law[OF c(2)] by blast
qed

theorem v2_block_serializable_witness:
  "\<exists>(s :: (AddressAndKey, RevertableObject) omap block_state) db'. phases s = [Committed (sample_write\<lparr>committed_local_values := True\<rparr>)] \<and>
     v2_commit_modifications omap_trie (modified_keys s) (shared_db s) = Ret db' \<and>
     v2_get_committed_value omap_trie 7 db' = Some \<lparr>body = raw_memory_storage [1, 2], escrowed_fee = 0\<rparr>"
proof -
  obtain s where s: "block_reach (v2_get_committed_value omap_trie) (v2_try_apply_delta omap_trie (\<lambda>_. 0)) (v2_rewind_commit omap_trie)
      (v2_rewind_destroy omap_trie (\<lambda>_. 0)) (\<lambda>_. 0) (block_init 1 (\<lambda>_. 0) []) s"
    "phases s = [Committed (sample_write\<lparr>committed_local_values := True\<rparr>)]" using sample_run_v2 by blast
  from v2_block_serializable[OF v2_new_inv[OF omap_trie_laws omap_trie_empty] sample_uids s(1) sample_ledger(1)[OF s(2)] refl
      sample_ledger(3,4)[OF s(2)]] obtain db' where
    "v2_commit_modifications omap_trie (modified_keys s) (shared_db s) = Ret db'"
    "\<forall>k. v2_get_committed_value omap_trie k db' = serial_ledger (\<lambda>_. None) (committed_proxies s) k" by blast
  then show ?thesis using s(2) sample_ledger(5)[OF s(2)] by (intro exI[of _ s] exI[of _ db']) simp
qed







text \<open>
  C38: in the databases that keep new keys in the trie, one transaction that only looks at a key that does
  not exist makes the whole block impossible to commit and impossible to rewind: the key is logged as
  modified, and both loops over the log throw at it.
\<close>

theorem v2_absent_read_breaks_block:
  assumes "trie_get T k t = None"
  shows "\<exists>s. block_reach (v2_get_committed_value T) (v2_try_apply_delta T sh) (v2_rewind_commit T) (v2_rewind_destroy T sh) thr
       (block_init 1 us t) s \<and> list_all is_final (phases s) \<and>
     v2_commit_modifications T (modified_keys s) (shared_db s) = Throw (RuntimeError ''should never happen'') \<and>
     v2_rewind_modifications T (modified_keys s) (shared_db s) = Throw (RuntimeError ''invalid nonsense'')"
proof -
  define s0 where "s0 = block_init 1 us t"
  define sp where "sp = \<lparr>cache = [(k, proxy_applicator_new None)], committed_local_values = False\<rparr>"
  define s4 where "s4 = s0\<lparr>modified_keys := [k], phases := [Committed (sp\<lparr>committed_local_values := True\<rparr>)]\<rparr>"
  let ?step = "block_step (v2_get_committed_value T) (v2_try_apply_delta T sh) (v2_rewind_commit T) (v2_rewind_destroy T sh) thr"
  have "v2_get_committed_value T k t = None" using assms by (simp add: v2_get_committed_value_def)
  then have "storage_get (\<lambda>k. v2_get_committed_value T k t) k storage_proxy_new = (None, sp)"
    by (simp add: storage_get_def get_local_def storage_proxy_new_def omap_emplace_def Let_def sp_def proxy_get_def proxy_applicator_new_def)
  then have 1: "?step s0 (s0\<lparr>phases := [Executing sp]\<rparr>)"
    using exec_step[of 0 s0 storage_proxy_new "v2_get_committed_value T" k sp] step_get by (fastforce simp: s0_def block_init_def)
  have "proxy_deltas (cache sp) = []" by (simp add: sp_def proxy_deltas_def get_deltas_def proxy_applicator_new_def)
  then have 2: "?step (s0\<lparr>phases := [Executing sp]\<rparr>) (s0\<lparr>phases := [Pushing sp [] []]\<rparr>)"
    using exec_done[of 0 "s0\<lparr>phases := [Executing sp]\<rparr>" sp] by simp
  have 3: "?step (s0\<lparr>phases := [Pushing sp [] []]\<rparr>) (s0\<lparr>phases := [Committing sp []]\<rparr>)"
    using push_commit[of 0 "s0\<lparr>phases := [Pushing sp [] []]\<rparr>" sp "[]"] by simp
  have "log_modified_keys [] sp = Ret ([k], sp\<lparr>committed_local_values := True\<rparr>)"
    by (simp add: log_modified_keys_def assert_not_committed_local_values_def sp_def)
  then have 4: "?step (s0\<lparr>phases := [Committing sp []]\<rparr>) s4"
    using commit_done[of 0 "s0\<lparr>phases := [Committing sp []]\<rparr>" sp] by (simp add: s4_def s0_def block_init_def)
  note r = block_next[OF block_next[OF block_next[OF block_next[OF block_start 1] 2] 3] 4]
  show ?thesis using r[unfolded s0_def] assms
    by (intro exI[of _ s4]) (simp add: s4_def s0_def block_init_def v2_commit_modifications_def v2_update_key_def v2_rewind_modifications_def)
qed

theorem v2_absent_read_breaks_block_witness:
  "\<exists>s. block_reach (v2_get_committed_value omap_trie) (v2_try_apply_delta omap_trie (\<lambda>_. 0)) (v2_rewind_commit omap_trie)
       (v2_rewind_destroy omap_trie (\<lambda>_. 0)) id (block_init 1 (\<lambda>_. 0) []) s \<and>
     v2_commit_modifications omap_trie (modified_keys s) (shared_db s) = Throw (RuntimeError ''should never happen'')"
  using v2_absent_read_breaks_block[of omap_trie 5 "[]" "\<lambda>_. 0" id "\<lambda>_. 0"] by (auto simp: omap_trie_empty)

end
