(* ===== verification/ExecutionProofs.thy ===== *)
theory ExecutionProofs
  imports HostInvariants BlockExecution
begin

text \<open>
  Properties of the execution of a contract (\<open>transaction_context/execution_context.cc\<close>): the gas
  account, termination of metered code, and the isolation of storage.
\<close>

section \<open>Calls that return\<close>

text \<open>\<open>returns P m\<close>: from a state in \<open>P\<close> the call returns or throws.\<close>

definition returns :: "('r exec_state \<Rightarrow> bool) \<Rightarrow> ('r, 'a) exec \<Rightarrow> bool" where
  "returns P m \<longleftrightarrow> (\<forall>st. P st \<longrightarrow> m st \<noteq> Diverge)"

named_theorems return_rules

abbreviation "always \<equiv> returns (\<lambda>_. True)"

lemma obind_Diverge: "obind m f = Diverge \<longleftrightarrow> m = Diverge \<or> (\<exists>x. m = Ret x \<and> f x = Diverge)"
  by (cases m) auto

lemma returns_sbind: "returns P m \<Longrightarrow> hoare P m R \<Longrightarrow> (\<And>x. returns (R x) (f x)) \<Longrightarrow> returns P (sbind m f)"
  by (fastforce simp: returns_def hoare_def sbind_def obind_Diverge)

lemma returns_weaken: "always m \<Longrightarrow> returns P m"
  by (simp add: returns_def)

lemma always_sbind [return_rules]: "always m \<Longrightarrow> (\<And>x. always (f x)) \<Longrightarrow> always (sbind m f)"
  by (auto simp: returns_def sbind_def obind_Diverge)

lemma always_simple [return_rules]: "always (sret x)" "always (sthrow e)" "always (find_runtime a)" "always (put_runtime a r)"
  "always (charge g)" "always (proxy_read env k)"
  by (auto simp: returns_def sret_def sthrow_def find_runtime_def put_runtime_def charge_def consume_gas_def proxy_read_def Let_def
      obind_Diverge split: option.splits if_splits prod.splits)

lemma always_slift [return_rules]: "m \<noteq> Diverge \<Longrightarrow> always (slift m)"
  by (auto simp: returns_def slift_def obind_Diverge)

lemma always_sctx [return_rules]: "(\<And>tc. always (f tc)) \<Longrightarrow> always (sctx f)"
  by (auto simp: returns_def sctx_def)

lemma always_if [return_rules]: "always m \<Longrightarrow> always m' \<Longrightarrow> always (if b then m else m')"
  by simp

lemma always_option [return_rules]: "always n \<Longrightarrow> (\<And>x. always (s x)) \<Longrightarrow> always (case b of None \<Rightarrow> n | Some x \<Rightarrow> s x)"
  by (cases b) auto

lemma always_body [return_rules]:
  assumes "always n" "\<And>x. always (r x)" "\<And>x. always (i x)" "\<And>x. always (h x)" "\<And>x. always (u x)" "\<And>x. always (s x)"
  shows "always (case b of None \<Rightarrow> n | Some (raw_memory_storage x) \<Rightarrow> r x | Some (nonnegative_int64 x) \<Rightarrow> i x
     | Some (hash_set x) \<Rightarrow> h x | Some (unconstrained_int64 x) \<Rightarrow> u x | Some (asset x) \<Rightarrow> s x)"
  using assms by (cases b) (auto split: ObjectBody.split)

lemma always_effects [return_rules]: "always (\<lambda>st. Ret (f st, g st))"
  "always (\<lambda>st. case h st of (y, px) \<Rightarrow> Ret (k st y px, g2 st y px))"
  by (auto simp: returns_def split: prod.splits)

lemma context_returns [return_rules]:
  "get_current_runtime tc \<noteq> Diverge" "get_current_method_invocation tc \<noteq> Diverge" "get_msg_sender tc \<noteq> Diverge"
  "get_self_addr tc \<noteq> Diverge" "get_storage_key key tc \<noteq> Diverge" "get_deployable_contract i tc \<noteq> Diverge"
  by (simp_all add: get_current_runtime_def get_current_method_invocation_def get_msg_sender_def get_self_addr_def
      get_storage_key_def get_deployable_contract_def Let_def)

lemma get_witness_returns [return_rules]: "get_witness i tc \<noteq> Diverge"
proof -
  have "find_witness i ws \<noteq> Diverge" for ws by (induction ws) auto
  then show ?thesis by (simp add: get_witness_def)
qed

lemma make_current_returns: "make_current T p \<noteq> Diverge" "make_current_nnint64 r p \<noteq> Diverge"
proof -
  have "default_body T \<noteq> Diverge" for T by (cases T) simp_all
  then show m: "make_current T p \<noteq> Diverge" for T by (auto simp: make_current_def obind_Diverge split: option.splits)
  show "make_current_nnint64 r p \<noteq> Diverge"
    using m by (auto simp: make_current_nnint64_def Let_def obind_Diverge split: prod.splits if_splits)
qed

lemma make_nnint64_delta_returns: "make_nnint64_delta b x y \<noteq> Diverge"
  by (simp add: make_nnint64_delta_def Let_def)

lemma apply_delta_returns: "apply_delta d p \<noteq> Diverge"
  using make_current_returns make_nnint64_delta_returns
  by (cases d) (auto simp: obind_Diverge Let_def split: option.splits if_splits prod.splits)

lemma try_apply_returns: "try_apply d p \<noteq> Diverge"
proof -
  have "delta_apply_type_guard d p \<noteq> Diverge"
    by (auto simp: delta_apply_type_guard.simps split: option.splits StorageDelta.splits)
  then show ?thesis using apply_delta_returns by (auto simp: try_apply_def obind_Diverge split: if_splits)
qed

lemma apply_to_key_returns [return_rules]: "apply_to_key m k d e sp \<noteq> Diverge"
  using try_apply_returns by (auto simp: apply_to_key_def Let_def obind_Diverge split: prod.splits if_splits)

lemma always_proxy_write [return_rules]: "(\<And>sp. f sp \<noteq> Diverge) \<Longrightarrow> always (proxy_write f)"
  by (auto simp: returns_def proxy_write_def obind_Diverge)

lemma storage_ops_return [return_rules]:
  "raw_memory_write m k b sp \<noteq> Diverge" "nonnegative_int64_set_add m k s d sp \<noteq> Diverge" "nonnegative_int64_add m k d sp \<noteq> Diverge"
  "delete_object_last m k sp \<noteq> Diverge" "hashset_insert m k h t sp \<noteq> Diverge" "hashset_increase_limit m k l sp \<noteq> Diverge"
  "hashset_clear m k t sp \<noteq> Diverge"
  using apply_to_key_returns
  by (simp_all add: storage_op_defs nonnegative_int64_add_def hashset_increase_limit_def Let_def split_beta split: option.split)

text \<open>The engine: memory accesses return or throw.\<close>

definition engine_returns :: "'r wasm_ops \<Rightarrow> bool" where
  "engine_returns W \<longleftrightarrow> (\<forall>x y r. wr_load W x y r \<noteq> Diverge) \<and> (\<forall>b x r. wr_write W b x r \<noteq> Diverge) \<and>
     (\<forall>x y z r. wr_memcmp W x y z r \<noteq> Diverge \<and> wr_memset W x y z r \<noteq> Diverge \<and> wr_memcpy W x y z r \<noteq> Diverge) \<and>
     (\<forall>x y r. wr_strlen W x y r \<noteq> Diverge)"

lemma get_script_returns: "get_script K db a px \<noteq> Diverge"
  by (auto simp: get_script_def get_script_by_address_def split: option.splits)

lemma always_ensure_runtime: "always (ensure_runtime env a)"
  using get_script_returns by (auto simp: returns_def ensure_runtime_def obind_Diverge split: option.splits)

lemma always_memory:
  assumes "engine_returns (env_wasm env)"
  shows "always (load_from_memory env a x y)" "always (load_word env a x)" "always (write_to_memory env a b x)" "always (load_storage_key env a k)"
  using assms unfolding load_from_memory_def load_word_def write_to_memory_def load_storage_key_def
  by (intro return_rules; simp add: engine_returns_def)+

lemma always_env_call: "(\<And>r. f r \<noteq> Diverge) \<Longrightarrow> always (env_call g f)"
proof -
  assume f: "\<And>r. f r \<noteq> Diverge"
  have "always (case v of (x, r') \<Rightarrow> sbind (put_runtime a r') (\<lambda>_. sret (ucast x)))" for v a
    by (cases v) (auto intro!: return_rules)
  then show ?thesis unfolding env_call_def by (intro return_rules f)
qed

lemma always_switch:
  assumes "engine_returns (env_wasm env)" "c \<noteq> INVOKE"
  shows "always (syscall_switch env invoke a c x y z w u v)"
proof -
  note mem = always_memory[OF assms(1)]
  show ?thesis
    using assms(2) unfolding syscall_switch_def sys_write_def sys_write_bytes_def sys_log_def sys_get_sender_def sys_get_self_addr_def sys_get_src_tx_hash_def
      sys_get_invoked_tx_hash_def sys_get_block_number_def sys_contract_create_def sys_contract_deploy_def sys_witness_get_def
      sys_witness_get_len_def sys_get_calldata_def sys_get_calldata_len_def sys_return_def sys_gas_def sys_hash_def
      sys_verify_ed25519_def sys_has_key_def sys_raw_mem_set_def sys_raw_mem_get_def sys_raw_mem_get_len_def sys_delete_key_last_def
      sys_nnint_set_add_def sys_nnint_add_def sys_nnint_get_def sys_hs_insert_def sys_hs_inc_limit_def sys_hs_clear_def
      sys_hs_get_size_def sys_hs_get_max_size_def sys_hs_get_index_of_def sys_hs_get_index_def Let_def
    by (cases c) (simp_all only: SYSCALLS.case simp_thms, (intro return_rules mem)+)
qed

text \<open>What was spent beyond \<open>g\<close>: an invariant of whole executions.\<close>

definition spent :: "SignedTransaction \<Rightarrow> nat \<Rightarrow> 'r exec_state \<Rightarrow> bool" where
  "spent tx g st \<longleftrightarrow> tc_tx (ctx st) = tx \<and> g < unat (gas_used (ctx st)) \<and> gas_used (ctx st) < gas_limit (tx_body tx)"

interpretation spent: run_invariant "spent tx g" L for tx g L
proof unfold_locales
  fix st :: "'r exec_state" and c tc
  assume "spent tx g st" "consume_gas c (ctx st) = Ret tc"
  then show "spent tx g (st\<lparr>ctx := tc\<rparr>)" by (auto simp: spent_def consume_gas_Ret)
qed (auto simp: spent_def push_invocation_stack_def pop_invocation_stack_def)

lemma charge_spent:
  "c \<noteq> 0 \<Longrightarrow> hoare (\<lambda>st. tc_tx (ctx st) = tx \<and> g \<le> unat (gas_used (ctx st))) (charge c) (\<lambda>_. spent tx g)"
proof -
  assume "c \<noteq> 0"
  then have "0 < unat c" by (simp add: unat_gt_0)
  then show ?thesis by (auto simp: hoare_def charge_def spent_def outcome_simps consume_gas_Ret)
qed

lemma returns_sys_invoke:
  assumes "engine_returns (env_wasm env)" "\<And>iv. returns (spent tx g) (invoke iv)" "\<And>iv. keeps (spent tx g) (invoke iv)"
  shows "returns (\<lambda>st. tc_tx (ctx st) = tx \<and> g \<le> unat (gas_used (ctx st))) (sys_invoke env invoke a x y z w u v)"
proof -
  note mem = always_memory[OF assms(1)]
  have tail: "always (sctx (\<lambda>tc. sbind (if (n tc :: uint32) > 0 then write_to_memory env a (bs tc) off else sret ()) (\<lambda>_ st.
      Ret (r tc, st\<lparr>ctx := (ctx st)\<lparr>return_buf := []\<rparr>\<rparr>))))" for n bs off and r :: "TransactionContext \<Rightarrow> uint64"
    by (intro always_sctx always_sbind always_if mem(3) always_simple(1) always_effects(1))
  show ?thesis unfolding sys_invoke_def Let_def
    apply (rule returns_sbind[OF returns_weaken[OF always_simple(5)] charge_spent[OF costs_nonzero(4)]])
    apply (rule returns_sbind[OF returns_weaken[OF mem(2)] keeps_loads(2)])
    apply (rule returns_sbind[OF returns_weaken[OF mem(1)] keeps_loads(1)])
    apply (rule returns_sbind[OF assms(2,3)])
    apply (rule returns_weaken[OF tail])
    done
qed

lemma returns_host_call:
  assumes "engine_returns (env_wasm env)" "\<And>iv. returns (spent tx g) (invoke iv)" "\<And>iv. keeps (spent tx g) (invoke iv)"
  shows "returns (\<lambda>st. tc_tx (ctx st) = tx \<and> g \<le> unat (gas_used (ctx st))) (host_call env invoke e)"
proof -
  have sw: "returns (\<lambda>st. tc_tx (ctx st) = tx \<and> g \<le> unat (gas_used (ctx st))) (syscall_switch env invoke a c x y z w u v)" for a c x y z w u v
    using returns_sys_invoke[OF assms] returns_weaken[OF always_switch[OF assms(1)]] by (cases "c = INVOKE") (simp_all add: syscall_switch_def)
  have sys: "returns (\<lambda>st. tc_tx (ctx st) = tx \<and> g \<le> unat (gas_used (ctx st))) (syscall_handler env invoke n x y z w u v)" for n x y z w u v
    using sw by (auto simp: returns_def syscall_handler_def sctx_def sbind_def slift_def sthrow_def obind_Diverge get_current_runtime_def split: option.splits if_splits)
  have mem: "always (env_memcmp env p q n)" "always (env_memset env p q n)" "always (env_memcpy env p q n)" "always (env_strnlen env p q)" for p q n
    using assms(1) unfolding env_memcmp_def env_memset_def env_memcpy_def env_strnlen_def engine_returns_def by (intro always_env_call; blast)+
  show ?thesis using sys returns_weaken[OF always_simple(1)] returns_weaken[OF always_simple(2)] returns_weaken[OF mem(1)]
      returns_weaken[OF mem(2)] returns_weaken[OF mem(3)] returns_weaken[OF mem(4)]
    by (cases e) (simp_all add: host_call_def gas_handler_def)
qed

section \<open>Metered code terminates\<close>

definition metered :: "'r wasm_ops \<Rightarrow> bool" where
  "metered W \<longleftrightarrow> (\<forall>r. charges_gas (wr_event W r))"

definition fuel_left :: "SignedTransaction \<Rightarrow> nat \<Rightarrow> 'r exec_state \<Rightarrow> bool" where
  "fuel_left tx n st \<longleftrightarrow> tc_tx (ctx st) = tx \<and> unat (gas_used (ctx st)) \<le> unat (gas_limit (tx_body tx)) \<and>
     unat (gas_limit (tx_body tx)) < unat (gas_used (ctx st)) + n"

lemma fuel_left_frames:
  "keeps (fuel_left tx n) (ensure_runtime env a)" "keeps (fuel_left tx n) (find_runtime a)" "keeps (fuel_left tx n) (put_runtime a r)"
  "keeps (fuel_left tx n) (\<lambda>st. Ret ((), st\<lparr>ctx := push_invocation_stack a iv (ctx st)\<rparr>))"
  by (auto simp: hoare_def fuel_left_def ensure_runtime_def find_runtime_def put_runtime_def push_invocation_stack_def outcome_simps
      split: option.splits)

lemma returns_invoke_with:
  assumes "\<And>a. returns (fuel_left tx n) (run a)"
  shows "returns (fuel_left tx n) (invoke_with env run iv)"
proof -
  have "returns (fuel_left tx n) (sbind (run a) (\<lambda>_ st. Ret ((), st\<lparr>ctx := pop_invocation_stack (ctx st)\<rparr>)))" for a
    using assms by (auto simp: returns_def sbind_def obind_Diverge)
  then show ?thesis unfolding invoke_with_def
    by (intro returns_sbind[OF returns_weaken[OF always_ensure_runtime] fuel_left_frames(1)]
        returns_sbind[OF returns_weaken[OF always_simple(3)] fuel_left_frames(2)]
        returns_sbind[OF returns_weaken[OF always_effects(1)] fuel_left_frames(4)]
        returns_sbind[OF returns_weaken[OF always_simple(4)] fuel_left_frames(3)])
qed

lemma run_returns:
  assumes "engine_returns (env_wasm env)" "metered (env_wasm env)" "contracts_small tx"
  shows "returns (fuel_left tx fuel) (run_runtime fuel env a)"
proof (induction fuel arbitrary: a)
  case 0
  then show ?case by (simp add: returns_def fuel_left_def)
next
  case (Suc fuel)
  show ?case unfolding returns_def
  proof (intro allI impI)
    fix st :: "'a exec_state"
    assume st: "fuel_left tx (Suc fuel) st"
    define g where "g = unat (gas_used (ctx st))"
    have step: "spent tx g st1 \<Longrightarrow> fuel_left tx fuel st1" for st1 :: "'a exec_state"
      using st by (auto simp: spent_def fuel_left_def g_def word_less_nat_alt)
    let ?inv = "invoke_with env (run_runtime fuel env)" and ?pre = "\<lambda>st. tc_tx (ctx st) = tx \<and> g \<le> unat (gas_used (ctx st))"
    have "returns (fuel_left tx fuel) (?inv iv)" for iv by (rule returns_invoke_with[OF Suc.IH])
    then have ret_inv: "returns (spent tx g) (?inv iv)" for iv using step unfolding returns_def by blast
    have keep_inv: "keeps (spent tx g) (?inv iv)" for iv
      by (rule spent.keeps_invoke_with) (rule spent.keeps_run_runtime[OF refl])
    have pre: "?pre st" using st by (simp add: fuel_left_def g_def)
    show "run_runtime (Suc fuel) env a st \<noteq> Diverge"
    proof (cases "map_of (active_runtimes st) a")
      case None
      then show ?thesis by (simp add: sbind_def find_runtime_def)
    next
      case (Some r)
      define e where "e = wr_event (env_wasm env) r"
      show ?thesis
      proof (cases "e = Finished")
        case True
        then show ?thesis using Some by (simp add: sbind_def find_runtime_def sret_def flip: e_def)
      next
        case False
        have ret: "host_call env ?inv e st \<noteq> Diverge"
          using returns_host_call[where invoke = ?inv and e = e, OF assms(1) ret_inv keep_inv] pre unfolding returns_def by blast
        have "hoare ?pre (host_call env ?inv e) (\<lambda>_. spent tx g)"
          using assms(2,3) False keep_inv by (intro spent.charged_host_call[OF charge_spent]) (auto simp: metered_def e_def)
        then have "host_call env ?inv e st = Ret (x, st1) \<Longrightarrow> spent tx g st1" for x st1 using pre by (rule hoareD)
        then have post: "host_call env ?inv e st = Ret (x, st1) \<Longrightarrow> fuel_left tx fuel st1" for x st1 using step by blast
        have "returns (fuel_left tx fuel) (sbind (find_runtime a) (\<lambda>r1. sbind (put_runtime a (wr_resume (env_wasm env) x r1)) (\<lambda>_. run_runtime fuel env a)))" for x
          by (rule returns_sbind[OF returns_weaken[OF always_simple(3)] fuel_left_frames(2)],
              rule returns_sbind[OF returns_weaken[OF always_simple(4)] fuel_left_frames(3)], rule Suc.IH)
        then have rest: "sbind (find_runtime a) (\<lambda>r1. sbind (put_runtime a (wr_resume (env_wasm env) x r1)) (\<lambda>_. run_runtime fuel env a)) st1 \<noteq> Diverge"
          if "fuel_left tx fuel st1" for x and st1 :: "'a exec_state"
          using that unfolding returns_def by blast
        show ?thesis using Some False ret post rest by (auto simp: sbind_def[of "find_runtime a"] sbind_def[of "host_call _ _ _"] find_runtime_def obind_Diverge simp flip: e_def)
      qed
    qed
  qed
qed

section \<open>Properties\<close>

text \<open>The state in which a transaction starts to execute.\<close>

definition exec_start :: "SignedTransaction \<Rightarrow> Hash \<Rightarrow> uint64 \<Rightarrow> NondeterministicResults option \<Rightarrow> 'r exec_state" where
  "exec_start tx h block res = \<lparr>ctx = transaction_context_new tx h block res, active_runtimes = []\<rparr>"

lemma exec_start_ctx [simp]: "tc_tx (ctx (exec_start tx h b res)) = tx" "gas_used (ctx (exec_start tx h b res)) = 0"
  "storage_proxy (ctx (exec_start tx h b res)) = storage_proxy_new" "invocation_stack (ctx (exec_start tx h b res)) = []"
  by (simp_all add: exec_start_def transaction_context_new_def)

text \<open>
  A small engine to instantiate the properties: every script is the program that charges 7 gas, adds 5 to a
  nonnegative integer and returns.
\<close>

definition sample_engine :: "nat wasm_ops" where
  "sample_engine =
     \<lparr>wr_new = (\<lambda>_. Some 0), wr_start = (\<lambda>_ _. 0),
      wr_event = (\<lambda>pc. if pc = 0 then GasCall 7 else if pc = 1 then Syscall 613 0 5 0 0 0 0 else Finished),
      wr_resume = (\<lambda>_ pc. Suc pc), wr_load = (\<lambda>off len _. Ret (replicate (unat len) 1)), wr_write = (\<lambda>_ _ pc. Ret pc),
      wr_memcmp = (\<lambda>_ _ _ pc. Ret (0, pc)), wr_memset = (\<lambda>_ _ _ pc. Ret (0, pc)), wr_memcpy = (\<lambda>_ _ _ pc. Ret (0, pc)),
      wr_strlen = (\<lambda>_ _ pc. Ret (0, pc))\<rparr>"

definition sample_env :: "((Address \<times> metered) list, nat) exec_env" where
  "sample_env =
     \<lparr>env_wasm = sample_engine, env_ledger = (\<lambda>_. None), env_kv = assoc_kv, env_contracts = contract_db_new assoc_kv 1,
      hash_opaque = (\<lambda>_. 0), hash_tx = (\<lambda>_. 0), hash_vec = (\<lambda>_. 0), hash_contract = (\<lambda>_. 0), meter = Some,
      check_sig_ed25519 = (\<lambda>_ _ _. False)\<rparr>"

definition sample_call :: MethodInvocation where
  "sample_call = \<lparr>mi_addr = 3, method_name = 0, calldata = []\<rparr>"

definition sample_exec_tx :: SignedTransaction where
  "sample_exec_tx = \<lparr>tx_body = \<lparr>invocation = \<lparr>invokedAddress = 3, ti_method_name = 0, ti_calldata = []\<rparr>, gas_limit = 100, gas_rate_bid = 1,
      contracts_to_deploy = []\<rparr>, witnesses = []\<rparr>"

lemma sample_engine_ok: "engine_returns sample_engine" "metered sample_engine" "contracts_small sample_exec_tx"
  by (simp_all add: engine_returns_def metered_def sample_engine_def syscall_of_def syscall_table_def contracts_small_def sample_exec_tx_def)

definition sample_key :: InvariantKey where "sample_key = be_word (replicate 32 1)"

lemma sample_add:
  "\<exists>v. nonnegative_int64_add (\<lambda>_. None) k 5 storage_proxy_new = Ret \<lparr>cache = [(k, v)], committed_local_values = False\<rparr> \<and>
     get_deltas v = [NONNEGATIVE_INT64_SET_ADD 0 5]"
  by (simp add: get_deltas_def nonnegative_int64_add_def get_local_def apply_to_key_def storage_proxy_new_def get_base_nnint64_set_value_def
      proxy_applicator_new_def try_apply_def delta_apply_type_guard.simps make_nnint64_delta_def make_current_nnint64_def make_current_def
      set_body_def make_nonnegative_int64_set_add_def omap_emplace_def overflow_defs Let_def)

text \<open>The states of the run: after the charge, after the addition.\<close>

definition sample_state :: "Hash \<Rightarrow> uint64 \<Rightarrow> NondeterministicResults option \<Rightarrow> uint64 \<Rightarrow> nat \<Rightarrow> StorageProxy \<Rightarrow> nat exec_state" where
  "sample_state h b res g pc sp = \<lparr>ctx = (transaction_context_new sample_exec_tx h b res)\<lparr>invocation_stack := [sample_call], runtime_stack := [3],
      gas_used := g, storage_proxy := sp\<rparr>, active_runtimes = [(3, pc)]\<rparr>"

lemma sample_runtime: "find_runtime 3 (sample_state h b res g pc sp) = Ret (pc, sample_state h b res g pc sp)"
  "put_runtime 3 pc' (sample_state h b res g pc sp) = Ret ((), sample_state h b res g pc' sp)"
  by (simp_all add: find_runtime_def put_runtime_def sample_state_def)

lemma sample_charge: "unat g + unat c < 100 \<Longrightarrow> charge c (sample_state h b res g pc sp) = Ret ((), sample_state h b res (g + c) pc sp)"
proof -
  assume a: "unat g + unat c < 100"
  then have "unat (g + c) = unat g + unat c" by (simp add: unat_word_ariths)
  then have "consume_gas c (ctx (sample_state h b res g pc sp)) = Ret ((ctx (sample_state h b res g pc sp))\<lparr>gas_used := g + c\<rparr>)"
    using a by (simp add: consume_gas_Ret sample_state_def transaction_context_new_def sample_exec_tx_def word_less_nat_alt)
  then show ?thesis by (simp add: charge_def sample_state_def)
qed

lemma sample_env_simps [simp]: "env_wasm sample_env = sample_engine" "env_ledger sample_env = (\<lambda>_. None)"
  by (simp_all add: sample_env_def)

lemma sample_syscall:
  "syscall_handler sample_env ik n x y z w u v (sample_state h b res g pc sp) = (case syscall_of n of
     None \<Rightarrow> Throw (HostError ''invalid syscall no'') | Some c \<Rightarrow> syscall_switch sample_env ik 3 c x y z w u v (sample_state h b res g pc sp))"
  by (simp add: syscall_handler_def sctx_def sbind_def slift_def get_current_runtime_def sample_state_def transaction_context_new_def sthrow_def
      split: option.split)

lemma sample_load_key: "load_storage_key sample_env 3 x (sample_state h b res g pc sp) = Ret (address_and_key 3 sample_key, sample_state h b res g pc sp)"
  by (simp add: load_storage_key_def load_word_def load_from_memory_def sbind_def sctx_def slift_def sret_def sample_runtime)
    (simp add: sample_engine_def sample_state_def transaction_context_new_def get_storage_key_def get_current_method_invocation_def sample_call_def sample_key_def)

lemma sample_execution:
  "\<exists>st. invoke_subroutine 3 sample_env sample_call (exec_start sample_exec_tx h b res) = Ret ((), st) \<and> gas_used (ctx st) = 57 \<and>
     map_of (cache (storage_proxy (ctx st))) (address_and_key 3 sample_key) \<noteq> None \<and> contract_db_proxy (ctx st) = contract_proxy_new \<and>
     proxy_deltas (cache (storage_proxy (ctx st))) = [(address_and_key 3 sample_key, NONNEGATIVE_INT64_SET_ADD 0 5)]"
proof -
  obtain v where add: "nonnegative_int64_add (\<lambda>_. None) (address_and_key 3 sample_key) 5 storage_proxy_new =
      Ret \<lparr>cache = [(address_and_key 3 sample_key, v)], committed_local_values = False\<rparr>"
    and v: "get_deltas v = [NONNEGATIVE_INT64_SET_ADD 0 5]" using sample_add by blast
  let ?sp = "\<lparr>cache = [(address_and_key 3 sample_key, v)], committed_local_values = False\<rparr>"
  have s1: "syscall_of 629 = Some GAS" "syscall_of 613 = Some NNINT_ADD" by (simp_all add: syscall_of_def syscall_table_def)
  have c1: "charge 7 (sample_state h b res 0 pc sp) = Ret ((), sample_state h b res 7 pc sp)" "charge 50 (sample_state h b res 7 pc sp) = Ret ((), sample_state h b res 57 pc sp)" for pc sp
    using sample_charge[of 0 7] sample_charge[of 7 50] by simp_all
  have e0: "host_call sample_env ik (GasCall 7) (sample_state h b res 0 0 storage_proxy_new) = Ret (- 1, sample_state h b res 7 0 storage_proxy_new)" for ik
    by (simp add: host_call_def gas_handler_def sample_syscall s1 syscall_switch_def sys_gas_def sbind_def c1 sret_def)
  have w: "proxy_write (nonnegative_int64_add (\<lambda>_. None) (address_and_key 3 sample_key) 5) (sample_state h b res 57 pc storage_proxy_new) =
      Ret ((), sample_state h b res 57 pc ?sp)" for pc
    by (simp add: proxy_write_def sample_state_def transaction_context_new_def add)
  have e1: "host_call sample_env ik (Syscall 613 0 5 0 0 0 0) (sample_state h b res 7 1 storage_proxy_new) = Ret (0, sample_state h b res 57 1 ?sp)" for ik
    by (simp add: host_call_def sample_syscall s1 syscall_switch_def sys_nnint_add_def sbind_def c1 sret_def sample_load_key w gas_nonnegative_int64_add_def)
  have ev: "wr_event sample_engine 0 = GasCall 7" "wr_event sample_engine 1 = Syscall 613 0 5 0 0 0 0" "wr_event sample_engine 2 = Finished"
    "wr_resume sample_engine x pc = Suc pc" "wr_start sample_engine nm pc = 0" for x pc nm by (simp_all add: sample_engine_def)
  have step: "run_runtime (Suc k) sample_env 3 (sample_state h b res g pc sp) = run_runtime k sample_env 3 (sample_state h b res g' (Suc pc) sp')"
    if "wr_event sample_engine pc = e" "e \<noteq> Finished" "\<And>ik. host_call sample_env ik e (sample_state h b res g pc sp) = Ret (x, sample_state h b res g' pc sp')"
    for k g pc sp g' sp' e x
    using that by (simp add: sbind_def sample_runtime ev Let_def)
  have r0: "run_runtime 3 sample_env 3 (sample_state h b res 0 0 storage_proxy_new) = run_runtime 1 sample_env 3 (sample_state h b res 57 2 ?sp)"
    using step[OF ev(1) _ e0, of 2] step[OF ev(2) _ e1, of 1] by (simp add: numeral_3_eq_3 numeral_2_eq_2 del: run_runtime.simps)
  have r: "run_runtime 3 sample_env 3 (sample_state h b res 0 0 storage_proxy_new) = Ret ((), sample_state h b res 57 2 ?sp)"
    unfolding r0 by (simp add: sbind_def sample_runtime ev sret_def numeral_2_eq_2 flip: numeral_2_eq_2)
  have "ensure_runtime sample_env 3 (exec_start sample_exec_tx h b res) =
      Ret ((), \<lparr>ctx = transaction_context_new sample_exec_tx h b res, active_runtimes = [(3, 0)]\<rparr>)"
    by (simp add: ensure_runtime_def exec_start_def get_script_def transaction_context_new_def contract_proxy_new_def sample_env_def assoc_kv_def
        get_script_by_address_def contract_db_new_def sample_engine_def omap_emplace_def)
  moreover have "\<lparr>ctx = push_invocation_stack 3 sample_call (transaction_context_new sample_exec_tx h b res), active_runtimes = [(3, 0)]\<rparr> =
      sample_state h b res 0 0 storage_proxy_new"
    by (simp add: sample_state_def push_invocation_stack_def transaction_context_new_def)
  ultimately have "invoke_subroutine 3 sample_env sample_call (exec_start sample_exec_tx h b res) =
      Ret ((), (sample_state h b res 57 2 ?sp)\<lparr>ctx := pop_invocation_stack (ctx (sample_state h b res 57 2 ?sp))\<rparr>)"
    by (simp add: invoke_subroutine_def invoke_with_def sbind_def sample_call_def find_runtime_def sample_runtime ev r)
  then show ?thesis by (simp add: sample_state_def pop_invocation_stack_def transaction_context_new_def proxy_deltas_def v)
qed



text \<open>
  C26: no execution uses more gas than its transaction allows: after every call that returns, the gas used is below
  the limit (or nothing was charged at all), and the count never wrapped.
\<close>

theorem gas_limit_respected:
  assumes "invoke_subroutine fuel env iv (exec_start tx h block res) = Ret ((), st)"
  shows "tc_tx (ctx st) = tx \<and> (gas_used (ctx st) = 0 \<or> gas_used (ctx st) < gas_limit (tx_body tx))"
  using hoareD[OF gas.keeps_invoke_subroutine[where tx = tx and g = 0 and env = env and fuel = fuel and iv = iv, OF refl] _ assms] by (simp add: gas_account_def)

theorem gas_limit_respected_witness:
  "\<exists>st. invoke_subroutine 3 sample_env sample_call (exec_start sample_exec_tx 9 1 None) = Ret ((), st) \<and>
     gas_used (ctx st) = 57 \<and> gas_used (ctx st) < gas_limit (tx_body sample_exec_tx)"
proof -
  obtain st where "invoke_subroutine 3 sample_env sample_call (exec_start sample_exec_tx 9 1 None) = Ret ((), st)" "gas_used (ctx st) = 57"
    using sample_execution by blast
  then show ?thesis using gas_limit_respected[of 3 sample_env sample_call sample_exec_tx 9 1 None st] by auto
qed

text \<open>
  C8: contracts are isolated from each other. Whatever the code of a transaction does, an entry of its storage
  cache belongs to the address of a contract that was invoked in the transaction: no contract reads or writes
  under the address of another one.
\<close>

theorem storage_isolation:
  assumes "invoke_subroutine fuel env iv (exec_start tx h block res) = Ret ((), st)"
    "map_of (cache (storage_proxy (ctx st))) (address_and_key a key) \<noteq> None"
  shows "map_of (active_runtimes st) a \<noteq> None"
proof -
  have "storage_owned (exec_start tx h block res)" by (simp add: storage_owned_def storage_proxy_new_def)
  from hoareD[OF owned.keeps_invoke_subroutine[where env = env and fuel = fuel and iv = iv, OF refl] this assms(1)] assms(2)
  show ?thesis unfolding storage_owned_def by blast
qed

theorem storage_isolation_witness:
  "\<exists>st. invoke_subroutine 3 sample_env sample_call (exec_start sample_exec_tx 9 1 None) = Ret ((), st) \<and>
     map_of (cache (storage_proxy (ctx st))) (address_and_key 3 sample_key) \<noteq> None \<and> map_of (active_runtimes st) 3 \<noteq> None"
  using sample_execution storage_isolation[of 3 sample_env sample_call sample_exec_tx 9 1 None _ 3 sample_key] by blast

text \<open>
  C27: the storage a contract leaves behind is the result of storage operations over the ledger before the block and
  the transaction's own writes, which is what the theorem on whole blocks assumes of a transaction.
\<close>

theorem execution_builds_proxy:
  assumes "invoke_subroutine fuel env iv (exec_start tx h block res) = Ret ((), st)"
  shows "storage_reach (env_ledger env) (storage_proxy (ctx st))"
  using hoareD[OF proxied.keeps_invoke_subroutine[where env = env and fuel = fuel and iv = iv, OF refl] _ assms] by (simp add: reach_new)

theorem execution_builds_proxy_witness:
  "\<exists>st. invoke_subroutine 3 sample_env sample_call (exec_start sample_exec_tx 9 1 None) = Ret ((), st) \<and>
     map_of (cache (storage_proxy (ctx st))) (address_and_key 3 sample_key) \<noteq> None \<and> storage_reach (\<lambda>_. None) (storage_proxy (ctx st))"
proof -
  obtain st where "invoke_subroutine 3 sample_env sample_call (exec_start sample_exec_tx 9 1 None) = Ret ((), st)"
    "map_of (cache (storage_proxy (ctx st))) (address_and_key 3 sample_key) \<noteq> None"
    using sample_execution by blast
  then show ?thesis using execution_builds_proxy[of 3 sample_env sample_call sample_exec_tx 9 1 None st] by auto
qed

text \<open>
  Reading a witness can be free. Its cost is computed from a 64-bit length that the contract chooses, without
  an overflow check, so there is a length for which the call charges nothing.
\<close>

theorem witness_read_can_be_free: "gas_get_witness (2 ^ 63 - 25) = 0"
  by (simp add: gas_get_witness_def)

end
