(* ===== verification/TxBlock.thy ===== *)
theory TxBlock
  imports Transactions
begin

text \<open>
  The transactions of a block: \<open>TxSet\<close> (\<open>tx_block/tx_set.cc\<close>), where a transaction may occur
  several times, each time with its own nondeterministic results, and \<open>UniqueTxSet\<close>
  (\<open>tx_block/unique_tx_set.cc\<close>), where it occurs once.

  Inserting into the trie applies \<open>value_insert\<close> to the stored entry, or to a fresh one when the
  key is new, and tells whether it was new.
\<close>

section \<open>Definitions\<close>

record TxSetEntry =
  entry_tx :: "SignedTransaction option"
  nondeterministic_results :: "NondeterministicResults list"

definition new_entry :: TxSetEntry where
  "new_entry = \<lparr>entry_tx = None, nondeterministic_results = []\<rparr>"

definition kv_insert :: "('k, 'v, 't) kv_ops \<Rightarrow> 'k \<Rightarrow> 'v \<Rightarrow> ('v \<Rightarrow> 'v outcome) \<Rightarrow> 't \<Rightarrow> (bool \<times> 't) outcome" where
  "kv_insert K k fresh ins t = (case kv_get K k t of
       None \<Rightarrow> obind (ins fresh) (\<lambda>v. Ret (True, kv_put K k v t))
     | Some v0 \<Rightarrow> obind (ins v0) (\<lambda>v. Ret (False, kv_put K k v t)))"

definition result_list_insert :: "TxSetEntry \<Rightarrow> TxSetEntry \<Rightarrow> TxSetEntry outcome" where
  "result_list_insert other main =
     (let m1 = (if nondeterministic_results main = [] then main\<lparr>entry_tx := entry_tx other\<rparr> else main)
      in if nondeterministic_results other \<noteq> [] \<and> entry_tx m1 \<noteq> entry_tx other
         then Throw (RuntimeError ''tx mismatch'')
         else Ret (m1\<lparr>nondeterministic_results := nondeterministic_results m1 @ nondeterministic_results other\<rparr>))"

definition unique_insert :: "TxSetEntry \<Rightarrow> TxSetEntry \<Rightarrow> TxSetEntry outcome" where
  "unique_insert other main =
     (let m1 = (if nondeterministic_results main = [] then other else main)
      in if nondeterministic_results m1 = [] then Throw (RuntimeError ''invalid insert in unique tx set'')
         else Ret m1)"

record 't TxSet =
  txs :: 't
  txs_merged :: bool

type_synonym 't tx_trie = "(Hash, TxSetEntry, 't) kv_ops"

definition tx_set_new :: "'t tx_trie \<Rightarrow> 't TxSet" where
  "tx_set_new K = \<lparr>txs = kv_empty K, txs_merged = False\<rparr>"

definition assert_txs_merged :: "'t TxSet \<Rightarrow> unit outcome" where
  "assert_txs_merged s = (if \<not> txs_merged s then Throw (RuntimeError ''txs not merged'') else Ret ())"

definition assert_txs_not_merged :: "'t TxSet \<Rightarrow> unit outcome" where
  "assert_txs_not_merged s = (if txs_merged s then Throw (RuntimeError ''txs already merged'') else Ret ())"

definition tx_set_clear :: "'t tx_trie \<Rightarrow> 't TxSet \<Rightarrow> 't TxSet" where
  "tx_set_clear K s = s\<lparr>txs := kv_empty K, txs_merged := False\<rparr>"

definition try_add_transaction :: "'t tx_trie \<Rightarrow> Hash \<Rightarrow> SignedTransaction \<Rightarrow> NondeterministicResults \<Rightarrow> 't TxSet \<Rightarrow>
    (bool \<times> 't TxSet) outcome" where
  "try_add_transaction K h tx nres s =
     obind (assert_txs_not_merged s) (\<lambda>_.
     obind (kv_insert K h new_entry (result_list_insert \<lparr>entry_tx = Some tx, nondeterministic_results = [nres]\<rparr>) (txs s))
       (\<lambda>(_, t). Ret (True, s\<lparr>txs := t\<rparr>)))"

definition tx_set_finalize :: "'t TxSet \<Rightarrow> 't TxSet outcome" where
  "tx_set_finalize s = obind (assert_txs_not_merged s) (\<lambda>_. Ret (s\<lparr>txs_merged := True\<rparr>))"

definition serialize_block :: "'t tx_trie \<Rightarrow> 't TxSet \<Rightarrow> TxSetEntry list outcome" where
  "serialize_block K s = obind (assert_txs_merged s) (\<lambda>_. Ret (map snd (kv_entries K (txs s))))"

definition tx_set_hash :: "'t tx_trie \<Rightarrow> 't TxSet \<Rightarrow> Hash outcome" where
  "tx_set_hash K s = obind (assert_txs_merged s) (\<lambda>_. Ret (kv_hash K (txs s)))"

definition contains_tx :: "'t tx_trie \<Rightarrow> Hash \<Rightarrow> 't TxSet \<Rightarrow> nat" where
  "contains_tx K h s = (case kv_get K h (txs s) of None \<Rightarrow> 0 | Some e \<Rightarrow> length (nondeterministic_results e))"

text \<open>The unique set has the same state and the same phases.\<close>

definition unique_try_add_transaction :: "'t tx_trie \<Rightarrow> Hash \<Rightarrow> SignedTransaction \<Rightarrow> NondeterministicResults \<Rightarrow> 't TxSet \<Rightarrow>
    (bool \<times> 't TxSet) outcome" where
  "unique_try_add_transaction K h tx nres s =
     obind (assert_txs_not_merged s) (\<lambda>_.
     obind (kv_insert K h new_entry (unique_insert \<lparr>entry_tx = Some tx, nondeterministic_results = [nres]\<rparr>) (txs s))
       (\<lambda>(fresh, t). Ret (fresh, s\<lparr>txs := t\<rparr>)))"

definition unique_tx_set_clear :: "'t tx_trie \<Rightarrow> 't TxSet \<Rightarrow> 't TxSet" where
  "unique_tx_set_clear K s = s\<lparr>txs := kv_empty K, txs_merged := False\<rparr>"

definition unique_tx_set_finalize :: "'t TxSet \<Rightarrow> 't TxSet outcome" where
  "unique_tx_set_finalize s = obind (assert_txs_not_merged s) (\<lambda>_. Ret (s\<lparr>txs_merged := True\<rparr>))"

definition unique_serialize_block :: "'t tx_trie \<Rightarrow> 't TxSet \<Rightarrow> TxSetEntry list outcome" where
  "unique_serialize_block K s = obind (assert_txs_merged s) (\<lambda>_. Ret (map snd (kv_entries K (txs s))))"

definition unique_tx_set_hash :: "'t tx_trie \<Rightarrow> 't TxSet \<Rightarrow> Hash outcome" where
  "unique_tx_set_hash K s = obind (assert_txs_merged s) (\<lambda>_. Ret (kv_hash K (txs s)))"

definition unique_contains_tx :: "'t tx_trie \<Rightarrow> Hash \<Rightarrow> 't TxSet \<Rightarrow> bool" where
  "unique_contains_tx K h s \<longleftrightarrow> kv_get K h (txs s) \<noteq> None"

section \<open>What a set holds after a block of additions\<close>

type_synonym addition = "Hash \<times> SignedTransaction \<times> NondeterministicResults"

fun add_all :: "'t tx_trie \<Rightarrow> addition list \<Rightarrow> 't TxSet \<Rightarrow> 't TxSet outcome" where
  "add_all K [] s = Ret s"
| "add_all K ((h, tx, nres) # xs) s = obind (try_add_transaction K h tx nres s) (\<lambda>(_, s'). add_all K xs s')"

text \<open>The entry of a hash: its transaction with the results of all its additions, in their order.\<close>

definition expected_entry :: "addition list \<Rightarrow> Hash \<Rightarrow> TxSetEntry option" where
  "expected_entry xs h = (case filter (\<lambda>x. fst x = h) xs of
       [] \<Rightarrow> None
     | x # ys \<Rightarrow> Some \<lparr>entry_tx = Some (fst (snd x)), nondeterministic_results = map (snd \<circ> snd) (x # ys)\<rparr>)"

definition consistent :: "addition list \<Rightarrow> bool" where
  "consistent xs \<longleftrightarrow> (\<forall>x \<in> set xs. \<forall>y \<in> set xs. fst x = fst y \<longrightarrow> fst (snd x) = fst (snd y))"

lemma expected_entry_snoc:
  "expected_entry (xs @ [(h, tx, nres)]) h' =
     (if h' = h then (case expected_entry xs h of
         None \<Rightarrow> Some \<lparr>entry_tx = Some tx, nondeterministic_results = [nres]\<rparr>
       | Some e \<Rightarrow> Some (e\<lparr>nondeterministic_results := nondeterministic_results e @ [nres]\<rparr>))
      else expected_entry xs h')"
  by (auto simp: expected_entry_def split: list.splits)

lemma expected_entry_tx:
  assumes "consistent (xs @ [(h, tx, nres)])" "expected_entry xs h = Some e"
  shows "entry_tx e = Some tx \<and> nondeterministic_results e \<noteq> []"
proof -
  obtain x ys where f: "filter (\<lambda>x. fst x = h) xs = x # ys"
    and e: "e = \<lparr>entry_tx = Some (fst (snd x)), nondeterministic_results = map (snd \<circ> snd) (x # ys)\<rparr>"
    using assms(2) unfolding expected_entry_def by (cases "filter (\<lambda>x. fst x = h) xs") simp_all
  have "x \<in> set (filter (\<lambda>x. fst x = h) xs)" using f by simp
  then have "x \<in> set xs" "fst x = h" by simp_all
  moreover have "fst (snd y) = fst (snd (h, tx, nres))" if "y \<in> set xs" "fst y = fst (h, tx, nres)" for y
    using assms(1) that unfolding consistent_def by (metis Un_iff list.set_intros(1) set_append)
  ultimately have "fst (snd x) = tx" by simp
  then show ?thesis using e by simp
qed

lemma try_add_transaction_entry:
  assumes "kv_laws K" "\<not> txs_merged s" "\<And>h'. kv_get K h' (txs s) = expected_entry xs h'"
    "consistent (xs @ [(h, tx, nres)])"
  shows "\<exists>s'. try_add_transaction K h tx nres s = Ret (True, s') \<and> \<not> txs_merged s' \<and>
     (\<forall>h'. kv_get K h' (txs s') = expected_entry (xs @ [(h, tx, nres)]) h')"
proof (cases "expected_entry xs h")
  case None
  then show ?thesis using assms
    by (simp add: try_add_transaction_def assert_txs_not_merged_def kv_insert_def result_list_insert_def new_entry_def
        kv_lawsD(2)[OF assms(1)] expected_entry_snoc)
next
  case (Some e)
  then have "entry_tx e = Some tx" "nondeterministic_results e \<noteq> []" using expected_entry_tx[OF assms(4)] by auto
  with Some show ?thesis using assms
    by (simp add: try_add_transaction_def assert_txs_not_merged_def kv_insert_def result_list_insert_def
        kv_lawsD(2)[OF assms(1)] expected_entry_snoc)
qed

lemma add_all_entries:
  assumes "kv_laws K" "\<not> txs_merged s" "\<And>h'. kv_get K h' (txs s) = expected_entry ys h'" "consistent (ys @ xs)"
  shows "\<exists>s'. add_all K xs s = Ret s' \<and> \<not> txs_merged s' \<and> (\<forall>h'. kv_get K h' (txs s') = expected_entry (ys @ xs) h')"
  using assms(2-4)
proof (induction xs arbitrary: s ys)
  case (Cons x xs)
  obtain h tx nres where x: "x = (h, tx, nres)" by (cases x) auto
  have "consistent (ys @ [(h, tx, nres)])" using Cons.prems(3) by (auto simp: x consistent_def)
  from try_add_transaction_entry[OF assms(1) Cons.prems(1,2) this] obtain s' where
    "try_add_transaction K h tx nres s = Ret (True, s')" "\<not> txs_merged s'"
    "\<forall>h'. kv_get K h' (txs s') = expected_entry (ys @ [(h, tx, nres)]) h'" by auto
  with Cons.IH[of s' "ys @ [x]"] Cons.prems(3) show ?case by (simp add: x)
qed simp

text \<open>
  C34: the block lists every execution. When the hash identifies the transaction, adding executed
  transactions never fails; afterwards the set counts each transaction as often as it was added,
  and the serialised block has, for each transaction, one entry with the results of all its
  executions in order, so a validator repeats exactly the executions of the proposer.
\<close>

theorem tx_set_records_executions:
  assumes "kv_laws K" "consistent xs"
  shows "\<exists>s s' es. add_all K xs (tx_set_new K) = Ret s \<and> tx_set_finalize s = Ret s' \<and> serialize_block K s' = Ret es \<and>
     (\<forall>h. contains_tx K h s' = length (filter (\<lambda>x. fst x = h) xs)) \<and>
     set es = {e. \<exists>h. expected_entry xs h = Some e}"
proof -
  have "kv_get K h (txs (tx_set_new K)) = expected_entry [] h" for h
    by (simp add: tx_set_new_def kv_lawsD(1)[OF assms(1)] expected_entry_def)
  with add_all_entries[OF assms(1), of "tx_set_new K" "[]" xs] assms(2) obtain s where
    s: "add_all K xs (tx_set_new K) = Ret s" "\<not> txs_merged s" "\<forall>h. kv_get K h (txs s) = expected_entry xs h"
    by (auto simp: tx_set_new_def)
  let ?s = "s\<lparr>txs_merged := True\<rparr>"
  have "contains_tx K h ?s = length (filter (\<lambda>x. fst x = h) xs)" for h
    using s(3) by (simp add: contains_tx_def expected_entry_def split: list.splits option.splits)
  moreover have "set (map snd (kv_entries K (txs ?s))) = {e. \<exists>h. expected_entry xs h = Some e}"
    using s(3) kv_entries_iff[OF assms(1), of _ _ "txs s"] by (force simp: image_iff)
  ultimately show ?thesis using s(1,2)
    by (simp add: tx_set_finalize_def assert_txs_not_merged_def serialize_block_def assert_txs_merged_def)
qed

definition sample_tx :: "uint64 \<Rightarrow> SignedTransaction" where
  "sample_tx g = \<lparr>tx_body = \<lparr>invocation = \<lparr>invokedAddress = 1, ti_method_name = 0, ti_calldata = []\<rparr>,
     gas_limit = g, gas_rate_bid = 1, contracts_to_deploy = []\<rparr>, witnesses = []\<rparr>"

theorem tx_set_records_executions_witness:
  "\<exists>s s' es. add_all assoc_kv [(5, sample_tx 10, [[1]]), (6, sample_tx 20, []), (5, sample_tx 10, [[2]])] (tx_set_new assoc_kv) = Ret s \<and>
     tx_set_finalize s = Ret s' \<and> serialize_block assoc_kv s' = Ret es \<and> contains_tx assoc_kv 5 s' = 2 \<and> contains_tx assoc_kv 7 s' = 0"
  using tx_set_records_executions[OF assoc_kv_laws, of "[(5, sample_tx 10, [[1]]), (6, sample_tx 20, []), (5, sample_tx 10, [[2]])]"]
  by (auto simp: consistent_def)

text \<open>
  The unique set admits a transaction once: adding succeeds with \<open>True\<close> exactly when the hash
  was not in the set, a repeated addition answers \<open>False\<close> and leaves the stored entry as it is, and
  every other hash is untouched.
\<close>

theorem unique_tx_set_once:
  assumes "kv_laws K" "\<not> txs_merged s" "\<forall>h e. kv_get K h (txs s) = Some e \<longrightarrow> nondeterministic_results e \<noteq> []"
  shows "\<exists>s'. unique_try_add_transaction K h tx nres s = Ret (\<not> unique_contains_tx K h s, s') \<and>
     unique_contains_tx K h s' \<and>
     (unique_contains_tx K h s \<longrightarrow> (\<forall>h'. kv_get K h' (txs s') = kv_get K h' (txs s))) \<and>
     (\<forall>h'. h' \<noteq> h \<longrightarrow> kv_get K h' (txs s') = kv_get K h' (txs s)) \<and>
     (\<forall>h e. kv_get K h (txs s') = Some e \<longrightarrow> nondeterministic_results e \<noteq> [])"
  using assms
  by (auto simp: unique_try_add_transaction_def unique_contains_tx_def assert_txs_not_merged_def kv_insert_def
      unique_insert_def new_entry_def Let_def kv_lawsD(2)[OF assms(1)] split: option.splits)

theorem unique_tx_set_once_witness:
  "\<exists>s1 s2. unique_try_add_transaction assoc_kv 5 (sample_tx 10) [] (tx_set_new assoc_kv) = Ret (True, s1) \<and>
     unique_try_add_transaction assoc_kv 5 (sample_tx 10) [] s1 = Ret (False, s2)"
proof -
  have e: "\<not> txs_merged (tx_set_new assoc_kv)" "\<forall>h. kv_get assoc_kv h (txs (tx_set_new assoc_kv)) = None"
    by (simp_all add: tx_set_new_def assoc_kv_def)
  obtain s1 where s1: "unique_try_add_transaction assoc_kv 5 (sample_tx 10) [] (tx_set_new assoc_kv) = Ret (True, s1)"
      "unique_contains_tx assoc_kv 5 s1" "\<forall>h e. kv_get assoc_kv h (txs s1) = Some e \<longrightarrow> nondeterministic_results e \<noteq> []"
    using unique_tx_set_once[OF assoc_kv_laws e(1), of 5 "sample_tx 10" "[]"] e(2) by (auto simp: unique_contains_tx_def)
  moreover from s1(1) e(1) have "\<not> txs_merged s1"
    by (auto simp: unique_try_add_transaction_def outcome_simps)
  ultimately show ?thesis using unique_tx_set_once[OF assoc_kv_laws, of s1 5 "sample_tx 10" "[]"] by auto
qed

end
