(* ===== verification/Execution.thy ===== *)
theory Execution
  imports ExecutionProofs TxBlock
begin

text \<open>
  One transaction from its invocation to its commit (\<open>ExecutionContext::execute\<close>,
  \<open>TransactionContext::push_storage_deltas\<close>, \<open>StorageCommitment::commit\<close>) against the global and the block
  context of a virtual machine (\<open>transaction_context/global_context.h\<close>).

  The code is a template over three pairs of contexts. What they differ in is the record \<open>context_ops\<close>: the state
  database, the set of transactions and the log of modifications.
\<close>

section \<open>Definitions\<close>

record ('db, 's, 'l) context_ops =
  cx_get :: "AddressAndKey \<Rightarrow> 'db \<Rightarrow> StorageObject option"
  cx_apply :: "'db apply_fn"
  cx_commit :: "'db commit_fn"
  cx_destroy :: "'db destroy_fn"
  cx_add_tx :: "Hash \<Rightarrow> SignedTransaction \<Rightarrow> NondeterministicResults \<Rightarrow> 's \<Rightarrow> (bool \<times> 's) outcome"
  cx_log :: "StorageProxy \<Rightarrow> Hash \<Rightarrow> 'l \<Rightarrow> ('l \<times> StorageProxy) outcome"
  cx_set_clear :: "'s \<Rightarrow> 's"
  cx_log_clear :: "'l \<Rightarrow> 'l"

record ('t, 'db) GlobalContext =
  gc_contract_db :: "'t ContractDB"
  gc_state_db :: 'db

record ('s, 'l) BlockContext =
  bc_tx_set :: 's
  bc_modified_keys_list :: 'l
  bc_block_number :: uint64

definition block_context_new :: "'s \<Rightarrow> 'l \<Rightarrow> uint64 \<Rightarrow> ('s, 'l) BlockContext" where
  "block_context_new s l n = \<lparr>bc_tx_set = s, bc_modified_keys_list = l, bc_block_number = n\<rparr>"

definition reset_context :: "('db, 's, 'l) context_ops \<Rightarrow> uint64 \<Rightarrow> ('s, 'l) BlockContext \<Rightarrow> ('s, 'l) BlockContext" where
  "reset_context ops n B =
     B\<lparr>bc_block_number := n, bc_tx_set := cx_set_clear ops (bc_tx_set B), bc_modified_keys_list := cx_log_clear ops (bc_modified_keys_list B)\<rparr>"

text \<open>\<open>StorageProxy::log_modified_keys\<close> into the list of keys and into the typed index.\<close>

fun log_cache_keys :: "(AddressAndKey, unit, 'k) kv_ops \<Rightarrow> (AddressAndKey \<times> ProxyApplicator) list \<Rightarrow> 'k ModifiedKeysList \<Rightarrow>
    'k ModifiedKeysList outcome" where
  "log_cache_keys K [] l = Ret l"
| "log_cache_keys K ((k, _) # kvs) l = obind (log_key K k l) (log_cache_keys K kvs)"

definition log_modified_keys_list :: "(AddressAndKey, unit, 'k) kv_ops \<Rightarrow> StorageProxy \<Rightarrow> Hash \<Rightarrow> 'k ModifiedKeysList \<Rightarrow>
    ('k ModifiedKeysList \<times> StorageProxy) outcome" where
  "log_modified_keys_list K sp src_hash l =
     obind (assert_not_committed_local_values sp) (\<lambda>_.
     obind (log_cache_keys K (cache sp) l) (\<lambda>l'. Ret (l', sp\<lparr>committed_local_values := True\<rparr>)))"

fun log_deltas :: "(byte list, StorageDelta, 'i) kv_ops \<Rightarrow> (byte list \<Rightarrow> Hash) \<Rightarrow> Hash \<Rightarrow> AddressAndKey \<Rightarrow> StorageDelta list \<Rightarrow>
    'i \<Rightarrow> 'i outcome" where
  "log_deltas K hr src_hash k [] idx = Ret idx"
| "log_deltas K hr src_hash k (d # ds) idx = obind (log_modification K hr k d src_hash idx) (log_deltas K hr src_hash k ds)"

fun log_cache_deltas :: "(byte list, StorageDelta, 'i) kv_ops \<Rightarrow> (byte list \<Rightarrow> Hash) \<Rightarrow> Hash \<Rightarrow>
    (AddressAndKey \<times> ProxyApplicator) list \<Rightarrow> 'i \<Rightarrow> 'i outcome" where
  "log_cache_deltas K hr src_hash [] idx = Ret idx"
| "log_cache_deltas K hr src_hash ((k, v) # kvs) idx =
     obind (log_deltas K hr src_hash k (get_deltas v) idx) (log_cache_deltas K hr src_hash kvs)"

definition log_modified_keys_typed :: "(byte list, StorageDelta, 'i) kv_ops \<Rightarrow> (byte list \<Rightarrow> Hash) \<Rightarrow> StorageProxy \<Rightarrow> Hash \<Rightarrow> 'i \<Rightarrow>
    ('i \<times> StorageProxy) outcome" where
  "log_modified_keys_typed K hr sp src_hash idx =
     obind (assert_not_committed_local_values sp) (\<lambda>_.
     obind (log_cache_deltas K hr src_hash (cache sp) idx) (\<lambda>idx'. Ret (idx', sp\<lparr>committed_local_values := True\<rparr>)))"

text \<open>The rewinds of a transaction: those of its deltas, and those of its contracts.\<close>

record StorageCommitment =
  sc_deltas :: TransactionRewind
  sc_contracts :: contract_rewind

text \<open>On a refusal the commitment dies with its rewinds.\<close>

definition push_storage_deltas :: "('db, 's, 'l) context_ops \<Rightarrow> TransactionContext \<Rightarrow> 'db \<Rightarrow> uid \<Rightarrow>
    (StorageCommitment option \<times> TransactionContext \<times> 'db \<times> uid) outcome" where
  "push_storage_deltas ops tc db u =
     (if committed_to_statedb tc then Throw (RuntimeError ''double push deltas'')
      else let tc1 = tc\<lparr>committed_to_statedb := True\<rparr>
           in obind (push_deltas_to_statedb (cx_apply ops) (storage_proxy tc1) [] db u) (\<lambda>(ok, rws, db1, u1).
                if \<not> ok then obind (rewind_destroy_all (cx_destroy ops) rws db1 u1) (\<lambda>(db2, u2). Ret (None, tc1, db2, u2))
                else obind (push_updates_to_db (contract_db_proxy tc1)) (\<lambda>(crw, px).
                       Ret (Some \<lparr>sc_deltas = rws, sc_contracts = crw\<rparr>, tc1\<lparr>contract_db_proxy := px\<rparr>, db1, u1))))"

definition commitment_commit :: "('db, 's, 'l) context_ops \<Rightarrow> StorageCommitment \<Rightarrow> StorageProxy \<Rightarrow> Hash \<Rightarrow> ('t, 'db) GlobalContext \<Rightarrow> 'l \<Rightarrow>
    (StorageCommitment \<times> ('t, 'db) GlobalContext \<times> 'l) outcome" where
  "commitment_commit ops sc sp src_hash G l =
     obind (rewind_commit_all (cx_commit ops) (sc_deltas sc) (gc_state_db G)) (\<lambda>db1.
       case contract_rewind_commit (sc_contracts sc) (gc_contract_db G) of (crw, cdb1) \<Rightarrow>
         obind (cx_log ops sp src_hash l) (\<lambda>(l1, _).
           Ret (\<lparr>sc_deltas = [], sc_contracts = crw\<rparr>, G\<lparr>gc_state_db := db1, gc_contract_db := cdb1\<rparr>, l1)))"

text \<open>The destructor: rewinds that were not committed are undone, marked contracts are created.\<close>

definition commitment_destroy :: "('db, 's, 'l) context_ops \<Rightarrow> nat \<Rightarrow> uid \<Rightarrow> StorageCommitment \<Rightarrow> ('t, 'db) GlobalContext \<Rightarrow>
    (('t, 'db) GlobalContext \<times> uid) outcome" where
  "commitment_destroy ops tid u sc G =
     obind (rewind_destroy_all (cx_destroy ops) (sc_deltas sc) (gc_state_db G) u) (\<lambda>(db1, u1).
     obind (contract_rewind_destroy tid (sc_contracts sc) (gc_contract_db G)) (\<lambda>cdb1.
       Ret (G\<lparr>gc_state_db := db1, gc_contract_db := cdb1\<rparr>, u1)))"

text \<open>The environment of the host calls reads the databases of the global context.\<close>

definition host_env :: "('db, 's, 'l) context_ops \<Rightarrow> ('t, 'r) exec_env \<Rightarrow> ('t, 'db) GlobalContext \<Rightarrow> ('t, 'r) exec_env" where
  "host_env ops env G = env\<lparr>env_ledger := (\<lambda>k. cx_get ops k (gc_state_db G)), env_contracts := gc_contract_db G\<rparr>"

record ExecutionContext =
  tx_context :: "TransactionContext option"

definition execution_context_new :: ExecutionContext where
  "execution_context_new = \<lparr>tx_context = None\<rparr>"

type_synonym ('t, 'db, 's, 'l) exec_result = "(TransactionStatus \<times> ('t, 'db) GlobalContext \<times> ('s, 'l) BlockContext \<times> uid \<times> ExecutionContext) outcome"

text \<open>The end of \<open>execute\<close>, after the contract has returned.\<close>

definition finish_execution :: "('db, 's, 'l) context_ops \<Rightarrow> nat \<Rightarrow> uid \<Rightarrow> Hash \<Rightarrow> SignedTransaction \<Rightarrow> ('t, 'db) GlobalContext \<Rightarrow>
    ('s, 'l) BlockContext \<Rightarrow> TransactionContext \<Rightarrow> (TransactionStatus \<times> ('t, 'db) GlobalContext \<times> ('s, 'l) BlockContext \<times> uid) outcome" where
  "finish_execution ops tid u h tx G B tc =
     obind (push_storage_deltas ops tc (gc_state_db G) u) (\<lambda>(sco, tc1, db1, u1).
       let G1 = G\<lparr>gc_state_db := db1\<rparr>
       in case sco of
            None \<Rightarrow> Ret (FAILURE, G1, B, u1)
          | Some sc \<Rightarrow>
              if \<not> validating_check_all_rpc_results_used (tx_results tc1)
              then obind (commitment_destroy ops tid u1 sc G1) (\<lambda>(G2, u2). Ret (FAILURE, G2, B, u2))
              else obind (cx_add_tx ops h tx (rpc_results (results (tx_results tc1))) (bc_tx_set B)) (\<lambda>(added, s1).
                let B1 = B\<lparr>bc_tx_set := s1\<rparr>
                in if \<not> added
                   then obind (commitment_destroy ops tid u1 sc G1) (\<lambda>(G2, u2). Ret (FAILURE, G2, B1, u2))
                   else obind (commitment_commit ops sc (storage_proxy tc1) h G1 (bc_modified_keys_list B1)) (\<lambda>(sc1, G2, l1).
                        obind (commitment_destroy ops tid u1 sc1 G2) (\<lambda>(G3, u2).
                          Ret (SUCCESS, G3, B1\<lparr>bc_modified_keys_list := l1\<rparr>, u2)))))"

definition execute :: "nat \<Rightarrow> ('db, 's, 'l) context_ops \<Rightarrow> ('t, 'r) exec_env \<Rightarrow> nat \<Rightarrow> uid \<Rightarrow> Hash \<Rightarrow> SignedTransaction \<Rightarrow>
    ('t, 'db) GlobalContext \<Rightarrow> ('s, 'l) BlockContext \<Rightarrow> NondeterministicResults option \<Rightarrow> ExecutionContext \<Rightarrow>
    ('t, 'db, 's, 'l) exec_result" where
  "execute fuel ops env tid u h tx G B nres ec =
     (if tx_context ec \<noteq> None then Throw (RuntimeError ''one execution at one time'')
      else case invoke_subroutine fuel (host_env ops env G) (method_invocation_root (invocation (tx_body tx)))
                  (exec_start tx h (bc_block_number B) nres) of
             Diverge \<Rightarrow> Diverge
           | Throw (HostError _) \<Rightarrow> Ret (FAILURE, G, B, u, ec\<lparr>tx_context := None\<rparr>)
           | Throw _ \<Rightarrow> Throw (Terminate ''unrecoverable error!'')
           | Ret (_, st) \<Rightarrow> obind (finish_execution ops tid u h tx G B (ctx st)) (\<lambda>(status, G1, B1, u1).
               Ret (status, G1, B1, u1, ec\<lparr>tx_context := None\<rparr>)))"

section \<open>What a context promises\<close>

text \<open>The entry of a transaction in a set after one more execution.\<close>

definition add_result :: "SignedTransaction \<Rightarrow> NondeterministicResults \<Rightarrow> TxSetEntry option \<Rightarrow> TxSetEntry" where
  "add_result tx r eo = (case eo of None \<Rightarrow> \<lparr>entry_tx = Some tx, nondeterministic_results = [r]\<rparr>
     | Some e \<Rightarrow> e\<lparr>nondeterministic_results := nondeterministic_results e @ [r]\<rparr>)"

definition written_keys :: "StorageProxy \<Rightarrow> AddressAndKey set" where
  "written_keys sp = fst ` set (proxy_deltas (cache sp))"

definition same_tx :: "SignedTransaction \<Rightarrow> TxSetEntry option \<Rightarrow> bool" where
  "same_tx tx eo \<longleftrightarrow> (\<forall>e. eo = Some e \<longrightarrow> entry_tx e = Some tx)"

text \<open>
  How a call may end: it returns, with few enough live rewinds on the keys it writes and no contract that another
  transaction of the block creates, or it fails with a host error. Any other exception ends the process.
\<close>

definition clean_run :: "live \<Rightarrow> 't ContractDB \<Rightarrow> (unit \<times> 'r exec_state) outcome \<Rightarrow> bool" where
  "clean_run L cdb run = (case run of
       Ret (_, st) \<Rightarrow> room_for L (proxy_deltas (cache (storage_proxy (ctx st)))) \<and>
         (\<forall>c \<in> fst ` set (new_contracts (contract_db_proxy (ctx st))). map_of (uc_contracts (uncommitted_contracts cdb)) c = None)
     | Throw (HostError _) \<Rightarrow> True
     | _ \<Rightarrow> False)"

abbreviation run_tx where
  "run_tx fuel ops env h tx G B nres \<equiv> invoke_subroutine fuel (host_env ops env G) (method_invocation_root (invocation (tx_body tx)))
     (exec_start tx h (bc_block_number B) nres)"

locale exec_contexts = ledger_db +
  fixes ops :: "('a, 's, 'l) context_ops" and tries_ok :: bool
    and set_open :: "'s \<Rightarrow> bool" and entry :: "'s \<Rightarrow> Hash \<Rightarrow> TxSetEntry option"
    and log_open :: "'l \<Rightarrow> bool" and keys_of :: "'l \<Rightarrow> AddressAndKey set" and touch :: "StorageProxy \<Rightarrow> AddressAndKey set"
  assumes ops_db: "cx_get ops = get" "cx_apply ops = apply_d" "cx_commit ops = commit_r" "cx_destroy ops = destroy_r"
    and add_law: "set_open s \<Longrightarrow> same_tx tx (entry s h) \<Longrightarrow>
      \<exists>b s'. cx_add_tx ops h tx r s = Ret (b, s') \<and> set_open s' \<and>
        entry s' = (if b then (entry s)(h \<mapsto> add_result tx r (entry s h)) else entry s)"
    and log_law: "log_open l \<Longrightarrow> \<not> committed_local_values sp \<Longrightarrow>
      \<exists>l' sp'. cx_log ops sp h l = Ret (l', sp') \<and> log_open l' \<and> keys_of l' = keys_of l \<union> touch sp"
    and touch_law: "written_keys sp \<subseteq> touch sp" "touch sp \<subseteq> fst ` set (cache sp)"
    and clear_law: "tries_ok \<Longrightarrow> set_open (cx_set_clear ops s)" "tries_ok \<Longrightarrow> entry (cx_set_clear ops s) h = None"
      "tries_ok \<Longrightarrow> log_open (cx_log_clear ops l)" "tries_ok \<Longrightarrow> keys_of (cx_log_clear ops l) = {}"
begin

lemma push_storage_deltas_ok:
  assumes "inv m L C db" "uid_ok u" "\<not> committed_to_statedb tc" "proxy_ok (contract_db_proxy tc)" "storage_reach m (storage_proxy tc)"
    "room_for L (proxy_deltas (cache (storage_proxy tc)))"
  shows "\<exists>sco tc' db' u'. push_storage_deltas ops tc db u = Ret (sco, tc', db', u') \<and> uid_ok u' \<and>
     storage_proxy tc' = storage_proxy tc \<and> tx_results tc' = tx_results tc \<and> (\<forall>k. known k db \<longrightarrow> known k db') \<and>
     (case sco of None \<Rightarrow> inv m L C db'
      | Some sc \<Rightarrow> inv m (add_live L (sc_deltas sc)) C db' \<and> rewind_deltas (sc_deltas sc) = proxy_deltas (cache (storage_proxy tc)) \<and>
          (\<forall>k \<in> written_keys (storage_proxy tc). known k db') \<and>
          sc_contracts sc = \<lparr>rw_creates = map push_create_contract (new_contracts (contract_db_proxy tc)),
             rw_deploys = new_deployments (contract_db_proxy tc)\<rparr>)"
proof -
  let ?sp = "storage_proxy tc"
  have sup: "list_all (\<lambda>(k, v). list_all supported (get_deltas v)) (cache ?sp)"
    using proxy_deltas_supported[of "cache ?sp"] by (fastforce simp: list_all_iff proxy_deltas_def)
  have "inv m (add_live L []) C db" using assms(1) by simp
  from push_keys_ok[OF this assms(2) sup] assms(6) obtain ok rws db1 u1 where
    p: "push_keys apply_d (cache ?sp) [] db u = Ret (ok, rws, db1, u1)" "uid_ok u1" "inv m (add_live L rws) C db1"
      "\<forall>k'. known k' db \<longrightarrow> known k' db1"
      "ok \<longrightarrow> rewind_deltas rws = proxy_deltas (cache ?sp) \<and> (\<forall>kd \<in> set (proxy_deltas (cache ?sp)). known (fst kd) db1)"
    by (auto simp: rewind_deltas_def)
  have push: "push_deltas_to_statedb apply_d ?sp [] db u = Ret (ok, rws, db1, u1)"
    using p(1) storage_reach_flag[OF assms(5)] by (simp add: push_deltas_to_statedb_def assert_not_committed_local_values_def)
  show ?thesis
  proof (cases ok)
    case False
    from rewind_destroy_all_ok[OF p(3,2)] obtain db2 u2 where
      "rewind_destroy_all destroy_r rws db1 u1 = Ret (db2, u2)" "uid_ok u2" "inv m L C db2" "\<forall>k'. known k' db1 \<longrightarrow> known k' db2" by blast
    then show ?thesis using False push p(4) assms(3) by (simp add: push_storage_deltas_def ops_db Let_def)
  next
    case True
    then show ?thesis using push p assms(3,4)
      by (simp add: push_storage_deltas_def ops_db Let_def push_updates_to_db_def contract_assert_not_committed_def proxy_ok_def written_keys_def)
  qed
qed

lemma destroy_creates_unmarked: "destroy_creates tid (map push_create_contract hcs) cdb = Ret cdb"
  by (induction hcs) (auto simp: push_create_contract_def create_closure_destroy_def split: prod.splits)

lemma commitment_destroy_ok:
  assumes "inv m (add_live L (sc_deltas sc)) C (gc_state_db G)" "uid_ok u" "rw_creates (sc_contracts sc) = map push_create_contract hcs"
  shows "\<exists>db' u'. commitment_destroy ops tid u sc G = Ret (G\<lparr>gc_state_db := db'\<rparr>, u') \<and> uid_ok u' \<and> inv m L C db' \<and>
     (\<forall>k. known k (gc_state_db G) \<longrightarrow> known k db')"
proof -
  from rewind_destroy_all_ok[OF assms(1,2)] obtain db' u' where
    "rewind_destroy_all destroy_r (sc_deltas sc) (gc_state_db G) u = Ret (db', u')" "uid_ok u'" "inv m L C db'"
    "\<forall>k'. known k' (gc_state_db G) \<longrightarrow> known k' db'" by blast
  then show ?thesis using assms(3)
    by (intro exI[of _ db'] exI[of _ u']) (simp add: commitment_destroy_def ops_db contract_rewind_destroy_def destroy_creates_unmarked)
qed

lemma commitment_commit_ok:
  assumes "inv m (add_live L (sc_deltas sc)) C (gc_state_db G)" "log_open l" "\<not> committed_local_values sp"
    "sc_contracts sc = \<lparr>rw_creates = map push_create_contract (new_contracts px), rw_deploys = new_deployments px\<rparr>"
    "commit_tx_contracts tid px (gc_contract_db G) = Ret cdb" "\<not> is_committed px"
  shows "\<exists>db' l'. obind (commitment_commit ops sc sp h G l) (\<lambda>(sc1, G2, l1). obind (commitment_destroy ops tid u sc1 G2) (\<lambda>(G3, u2). Ret (G3, u2, l1))) =
       Ret (G\<lparr>gc_state_db := db', gc_contract_db := cdb\<rparr>, u, l') \<and>
     inv m L (add_commits C (rewind_deltas (sc_deltas sc))) db' \<and> log_open l' \<and> keys_of l' = keys_of l \<union> touch sp \<and>
     (\<forall>k. known k (gc_state_db G) \<longrightarrow> known k db')"
proof -
  from rewind_commit_all_ok[OF assms(1)] obtain db' where
    d: "rewind_commit_all commit_r (sc_deltas sc) (gc_state_db G) = Ret db'" "inv m L (add_commits C (rewind_deltas (sc_deltas sc))) db'"
      "\<forall>k'. known k' (gc_state_db G) \<longrightarrow> known k' db'" by blast
  from log_law[OF assms(2,3)] obtain l' sp' where l: "cx_log ops sp h l = Ret (l', sp')" "log_open l'" "keys_of l' = keys_of l \<union> touch sp"
    by blast
  obtain crw cdb1 where c: "contract_rewind_commit (sc_contracts sc) (gc_contract_db G) = (crw, cdb1)" by force
  have "contract_rewind_destroy tid crw cdb1 = Ret cdb"
    using assms(4-6) c by (simp add: commit_tx_contracts_def push_updates_to_db_def contract_assert_not_committed_def)
  then show ?thesis using d l c
    by (intro exI[of _ db'] exI[of _ l']) (simp add: commitment_commit_def commitment_destroy_def ops_db)
qed

text \<open>What a transaction may assume of the contexts when it ends.\<close>

definition contexts_ok :: "ledger \<Rightarrow> live \<Rightarrow> commits \<Rightarrow> uid \<Rightarrow> ('t, 'a) GlobalContext \<Rightarrow> ('s, 'l) BlockContext \<Rightarrow> bool" where
  "contexts_ok m L C u G B \<longleftrightarrow> inv m L C (gc_state_db G) \<and> uid_ok u \<and> uc_ok (uncommitted_contracts (gc_contract_db G)) \<and>
     set_open (bc_tx_set B) \<and> log_open (bc_modified_keys_list B)"

definition unchanged_by :: "ledger \<Rightarrow> live \<Rightarrow> commits \<Rightarrow> ('t, 'a) GlobalContext \<Rightarrow> ('s, 'l) BlockContext \<Rightarrow> ('t, 'a) GlobalContext \<Rightarrow>
    ('s, 'l) BlockContext \<Rightarrow> bool" where
  "unchanged_by m L C G B G' B' \<longleftrightarrow> inv m L C (gc_state_db G') \<and> gc_contract_db G' = gc_contract_db G \<and>
     entry (bc_tx_set B') = entry (bc_tx_set B) \<and> bc_modified_keys_list B' = bc_modified_keys_list B"

definition committed_by :: "ledger \<Rightarrow> live \<Rightarrow> commits \<Rightarrow> nat \<Rightarrow> Hash \<Rightarrow> SignedTransaction \<Rightarrow> TransactionContext \<Rightarrow> ('t, 'a) GlobalContext \<Rightarrow>
    ('s, 'l) BlockContext \<Rightarrow> ('t, 'a) GlobalContext \<Rightarrow> ('s, 'l) BlockContext \<Rightarrow> bool" where
  "committed_by m L C tid h tx tc G B G' B' \<longleftrightarrow>
     inv m L (add_commits C (proxy_deltas (cache (storage_proxy tc)))) (gc_state_db G') \<and>
     commit_tx_contracts tid (contract_db_proxy tc) (gc_contract_db G) = Ret (gc_contract_db G') \<and>
     entry (bc_tx_set B') = (entry (bc_tx_set B))(h \<mapsto> add_result tx (rpc_results (results (tx_results tc))) (entry (bc_tx_set B) h)) \<and>
     keys_of (bc_modified_keys_list B') = keys_of (bc_modified_keys_list B) \<union> touch (storage_proxy tc) \<and>
     (\<forall>k \<in> written_keys (storage_proxy tc). known k (gc_state_db G'))"

lemma finish_execution_ok:
  assumes ok: "contexts_ok m L C u G B" and tc: "\<not> committed_to_statedb tc" "proxy_ok (contract_db_proxy tc)" "storage_reach m (storage_proxy tc)"
    and room: "room_for L (proxy_deltas (cache (storage_proxy tc)))"
    and fresh: "\<forall>c \<in> fst ` set (new_contracts (contract_db_proxy tc)). map_of (uc_contracts (uncommitted_contracts (gc_contract_db G))) c = None"
    and same: "same_tx tx (entry (bc_tx_set B) h)"
  shows "\<exists>status G' B' u'. finish_execution ops tid u h tx G B tc = Ret (status, G', B', u') \<and>
     (\<exists>C'. contexts_ok m L C' u' G' B') \<and> bc_block_number B' = bc_block_number B \<and> (\<forall>k. known k (gc_state_db G) \<longrightarrow> known k (gc_state_db G')) \<and>
     (if status = SUCCESS then committed_by m L C tid h tx tc G B G' B' else unchanged_by m L C G B G' B')"
proof -
  note o = ok[unfolded contexts_ok_def]
  let ?sp = "storage_proxy tc" and ?px = "contract_db_proxy tc"
  obtain sco tc1 db1 u1 where p: "push_storage_deltas ops tc (gc_state_db G) u = Ret (sco, tc1, db1, u1)" "uid_ok u1"
     "storage_proxy tc1 = ?sp" "tx_results tc1 = tx_results tc" "\<forall>k. known k (gc_state_db G) \<longrightarrow> known k db1"
     "case sco of None \<Rightarrow> inv m L C db1
      | Some sc \<Rightarrow> inv m (add_live L (sc_deltas sc)) C db1 \<and> rewind_deltas (sc_deltas sc) = proxy_deltas (cache ?sp) \<and>
          (\<forall>k \<in> written_keys ?sp. known k db1) \<and>
          sc_contracts sc = \<lparr>rw_creates = map push_create_contract (new_contracts ?px), rw_deploys = new_deployments ?px\<rparr>"
    using push_storage_deltas_ok[of m L C "gc_state_db G" u tc] o tc room by auto
  let ?G1 = "G\<lparr>gc_state_db := db1\<rparr>"
  show ?thesis
  proof (cases sco)
    case None
    then have "finish_execution ops tid u h tx G B tc = Ret (FAILURE, ?G1, B, u1)" using p(1) by (simp add: finish_execution_def Let_def)
    then show ?thesis using None p o by (auto simp: contexts_ok_def unchanged_by_def)
  next
    case (Some sc)
    then have s: "inv m (add_live L (sc_deltas sc)) C (gc_state_db ?G1)" "rewind_deltas (sc_deltas sc) = proxy_deltas (cache ?sp)"
      "\<forall>k \<in> written_keys ?sp. known k db1"
      "sc_contracts sc = \<lparr>rw_creates = map push_create_contract (new_contracts ?px), rw_deploys = new_deployments ?px\<rparr>" using p(6) by auto
    from commitment_destroy_ok[OF s(1) p(2), of "new_contracts ?px" tid] s(4) obtain db2 u2 where
      d: "commitment_destroy ops tid u1 sc ?G1 = Ret (G\<lparr>gc_state_db := db2\<rparr>, u2)" "uid_ok u2" "inv m L C db2" "\<forall>k. known k db1 \<longrightarrow> known k db2"
      by auto
    show ?thesis
    proof (cases "validating_check_all_rpc_results_used (tx_results tc)")
      case False
      then have "finish_execution ops tid u h tx G B tc = Ret (FAILURE, G\<lparr>gc_state_db := db2\<rparr>, B, u2)"
        using p(1,4) Some d(1) by (simp add: finish_execution_def Let_def)
      then show ?thesis using d o p(5) by (auto simp: contexts_ok_def unchanged_by_def)
    next
      case True
      let ?r = "rpc_results (results (tx_results tc))"
      obtain b s1 where a: "cx_add_tx ops h tx ?r (bc_tx_set B) = Ret (b, s1)" "set_open s1"
        "entry s1 = (if b then (entry (bc_tx_set B))(h \<mapsto> add_result tx ?r (entry (bc_tx_set B) h)) else entry (bc_tx_set B))"
        using add_law[of "bc_tx_set B" tx h ?r] o same by blast
      show ?thesis
      proof (cases b)
        case False
        then have "finish_execution ops tid u h tx G B tc = Ret (FAILURE, G\<lparr>gc_state_db := db2\<rparr>, B\<lparr>bc_tx_set := s1\<rparr>, u2)"
          using p(1,4) Some d(1) True a(1) by (simp add: finish_execution_def Let_def)
        then show ?thesis using d o p(5) a(2,3) False by (auto simp: contexts_ok_def unchanged_by_def)
      next
        case b: True
        obtain cdb where c: "commit_tx_contracts tid ?px (gc_contract_db G) = Ret cdb" "uc_ok (uncommitted_contracts cdb)"
          using commit_tx_contracts_ok[OF tc(2), of "gc_contract_db G" tid] o fresh by auto
        obtain db3 l1 where e: "obind (commitment_commit ops sc ?sp h ?G1 (bc_modified_keys_list B)) (\<lambda>(sc1, G2, l1).
              obind (commitment_destroy ops tid u1 sc1 G2) (\<lambda>(G3, u2). Ret (G3, u2, l1))) =
            Ret (?G1\<lparr>gc_state_db := db3, gc_contract_db := cdb\<rparr>, u1, l1)"
          "inv m L (add_commits C (rewind_deltas (sc_deltas sc))) db3" "log_open l1"
          "keys_of l1 = keys_of (bc_modified_keys_list B) \<union> touch ?sp" "\<forall>k. known k db1 \<longrightarrow> known k db3"
          using commitment_commit_ok[OF s(1) _ _ s(4), of "bc_modified_keys_list B" ?sp tid cdb h u1] o c(1) storage_reach_flag[OF tc(3)] tc(2)
          by (auto simp: proxy_ok_def)
        have "finish_execution ops tid u h tx G B tc =
            Ret (SUCCESS, G\<lparr>gc_state_db := db3, gc_contract_db := cdb\<rparr>, B\<lparr>bc_tx_set := s1, bc_modified_keys_list := l1\<rparr>, u1)"
          using p(1,3,4) Some True a(1) b e(1) by (auto simp: finish_execution_def Let_def outcome_simps split_def)
        then show ?thesis using e c o p(2,5) a(2,3) b s(2,3) by (auto simp: contexts_ok_def committed_by_def)
      qed
    qed
  qed
qed

lemma execute_ok:
  assumes ok: "contexts_ok m L C u G B" and idle: "tx_context ec = None" and run: "clean_run L (gc_contract_db G) (run_tx fuel ops env h tx G B nres)"
    and same: "same_tx tx (entry (bc_tx_set B) h)"
  shows "\<exists>status G' B' u'. execute fuel ops env tid u h tx G B nres ec = Ret (status, G', B', u', ec) \<and>
     (\<exists>C'. contexts_ok m L C' u' G' B') \<and> bc_block_number B' = bc_block_number B \<and> (\<forall>k. known k (gc_state_db G) \<longrightarrow> known k (gc_state_db G')) \<and>
     (if status = SUCCESS then \<exists>st. run_tx fuel ops env h tx G B nres = Ret ((), st) \<and> storage_reach m (storage_proxy (ctx st)) \<and>
            proxy_ok (contract_db_proxy (ctx st)) \<and> committed_by m L C tid h tx (ctx st) G B G' B'
      else unchanged_by m L C G B G' B')"
proof -
  let ?run = "run_tx fuel ops env h tx G B nres"
  have ec: "ec\<lparr>tx_context := None\<rparr> = ec" using idle by (cases ec) simp
  have led: "env_ledger (host_env ops env G) = m"
    using get_law ok by (auto simp: host_env_def ops_db contexts_ok_def)
  show ?thesis
  proof (cases ?run)
    case (Ret x)
    then obtain st where st: "?run = Ret ((), st)" by (cases x) auto
    have reach: "storage_reach m (storage_proxy (ctx st))"
      using hoareD[OF proxied.keeps_invoke_subroutine[where env = "host_env ops env G" and L = m and fuel = fuel, OF led] _ st] by (simp add: reach_new)
    have un: "\<not> committed_to_statedb (ctx st)" "proxy_ok (contract_db_proxy (ctx st))"
      using hoareD[OF uncommitted.keeps_invoke_subroutine[where env = "host_env ops env G" and L = m and fuel = fuel, OF led] _ st]
      by (simp_all add: uncommitted_ctx_def exec_start_def transaction_context_new_def)
    have c: "room_for L (proxy_deltas (cache (storage_proxy (ctx st))))"
      "\<forall>c \<in> fst ` set (new_contracts (contract_db_proxy (ctx st))). map_of (uc_contracts (uncommitted_contracts (gc_contract_db G))) c = None"
      using run by (simp_all add: clean_run_def st)
    from finish_execution_ok[OF ok un reach c same, of tid] obtain status G' B' u' where
      f: "finish_execution ops tid u h tx G B (ctx st) = Ret (status, G', B', u')"
     "\<exists>C'. contexts_ok m L C' u' G' B'" "bc_block_number B' = bc_block_number B" "\<forall>k. known k (gc_state_db G) \<longrightarrow> known k (gc_state_db G')"
     "if status = SUCCESS then committed_by m L C tid h tx (ctx st) G B G' B' else unchanged_by m L C G B G' B'" by blast
    have "execute fuel ops env tid u h tx G B nres ec = Ret (status, G', B', u', ec)"
      using f(1) idle by (simp add: execute_def st ec)
    then show ?thesis using f(2-5) st reach un(2) by (intro exI[of _ status] exI[of _ G'] exI[of _ B'] exI[of _ u']) auto
  next
    case (Throw e)
    then obtain msg where "?run = Throw (HostError msg)" using run by (auto simp: clean_run_def split: exn.splits)
    then have "execute fuel ops env tid u h tx G B nres ec = Ret (FAILURE, G, B, u, ec)" using idle by (simp add: execute_def ec)
    then show ?thesis using ok by (auto simp: unchanged_by_def contexts_ok_def)
  next
    case Diverge
    then show ?thesis using run by (simp add: clean_run_def)
  qed
qed

end

section \<open>The contexts of \<open>VirtualMachine\<close>\<close>

definition vm_context_ops :: "'t trie_ops \<Rightarrow> (Hash \<Rightarrow> uint64) \<Rightarrow> 's tx_trie \<Rightarrow> (AddressAndKey, unit, 'k) kv_ops \<Rightarrow>
    ('t StateDB, 's TxSet, 'k ModifiedKeysList) context_ops" where
  "vm_context_ops T sh KS KL =
     \<lparr>cx_get = get_committed_value T, cx_apply = try_apply_delta T sh, cx_commit = statedb_rewind_commit T,
      cx_destroy = statedb_rewind_destroy T sh, cx_add_tx = try_add_transaction KS, cx_log = log_modified_keys_list KL,
      cx_set_clear = tx_set_clear KS, cx_log_clear = mkl_clear KL\<rparr>"

definition tx_set_open :: "'s tx_trie \<Rightarrow> 's TxSet \<Rightarrow> bool" where
  "tx_set_open KS s \<longleftrightarrow> kv_laws KS \<and> \<not> txs_merged s \<and> (\<forall>h e. kv_get KS h (txs s) = Some e \<longrightarrow> nondeterministic_results e \<noteq> [])"

definition tx_entry :: "'s tx_trie \<Rightarrow> 's TxSet \<Rightarrow> Hash \<Rightarrow> TxSetEntry option" where
  "tx_entry KS s h = kv_get KS h (txs s)"

definition key_log_open :: "(AddressAndKey, unit, 'k) kv_ops \<Rightarrow> 'k ModifiedKeysList \<Rightarrow> bool" where
  "key_log_open KL l \<longleftrightarrow> kv_laws KL \<and> \<not> logs_merged l"

lemma tx_set_add_law:
  assumes "tx_set_open KS s" "same_tx tx (tx_entry KS s h)"
  shows "\<exists>s'. try_add_transaction KS h tx r s = Ret (True, s') \<and> tx_set_open KS s' \<and>
     tx_entry KS s' = (tx_entry KS s)(h \<mapsto> add_result tx r (tx_entry KS s h))"
proof (cases "kv_get KS h (txs s)")
  case None
  then show ?thesis using assms by (auto simp: try_add_transaction_def assert_txs_not_merged_def kv_insert_def tx_set_open_def tx_entry_def
        result_list_insert_def new_entry_def add_result_def Let_def kv_lawsD fun_eq_iff)
next
  case (Some e)
  then have "nondeterministic_results e \<noteq> []" "entry_tx e = Some tx" using assms by (auto simp: tx_set_open_def same_tx_def tx_entry_def)
  then show ?thesis using Some assms by (auto simp: try_add_transaction_def assert_txs_not_merged_def kv_insert_def tx_set_open_def tx_entry_def
        result_list_insert_def add_result_def Let_def kv_lawsD fun_eq_iff)
qed

lemma log_cache_keys_law:
  "key_log_open KL l \<Longrightarrow> \<exists>l'. log_cache_keys KL kvs l = Ret l' \<and> key_log_open KL l' \<and> logged_keys KL l' = logged_keys KL l \<union> fst ` set kvs"
proof (induction kvs arbitrary: l)
  case (Cons kv kvs)
  let ?l = "l\<lparr>mk_keys := kv_put KL (fst kv) () (mk_keys l)\<rparr>"
  have "key_log_open KL ?l" using Cons.prems by (simp add: key_log_open_def)
  from Cons.IH[OF this] obtain l' where "log_cache_keys KL kvs ?l = Ret l'" "key_log_open KL l'" "logged_keys KL l' = logged_keys KL ?l \<union> fst ` set kvs" by blast
  moreover have "log_key KL (fst kv) l = Ret ?l" using Cons.prems by (simp add: key_log_open_def mkl_defs)
  ultimately show ?case using Cons.prems by (cases kv) (auto simp: key_log_open_def)
qed simp

interpretation v1x: exec_contexts "statedb_inv T sh" "get_committed_value T" "try_apply_delta T sh" "statedb_rewind_commit T"
    "statedb_rewind_destroy T sh" statedb_known "commit_modifications T kh" "\<lambda>ks db. Ret (rewind_modifications T kh ks db)"
    "vm_context_ops T sh KS KL" "kv_laws KS \<and> kv_laws KL" "tx_set_open KS" "tx_entry KS" "key_log_open KL" "logged_keys KL" "\<lambda>sp. fst ` set (cache sp)"
  for T sh kh KS KL
proof unfold_locales
  show "\<exists>b s'. cx_add_tx (vm_context_ops T sh KS KL) h tx r s = Ret (b, s') \<and> tx_set_open KS s' \<and>
      tx_entry KS s' = (if b then (tx_entry KS s)(h \<mapsto> add_result tx r (tx_entry KS s h)) else tx_entry KS s)"
    if "tx_set_open KS s" "same_tx tx (tx_entry KS s h)" for s tx h r
    using tx_set_add_law[OF that, of r] by (auto simp: vm_context_ops_def)
  show "\<exists>l' sp'. cx_log (vm_context_ops T sh KS KL) sp h l = Ret (l', sp') \<and> key_log_open KL l' \<and>
      logged_keys KL l' = logged_keys KL l \<union> fst ` set (cache sp)"
    if "key_log_open KL l" "\<not> committed_local_values sp" for l sp h
    using log_cache_keys_law[OF that(1), of "cache sp"] that(2)
    by (auto simp: vm_context_ops_def log_modified_keys_list_def assert_not_committed_local_values_def)
  show "written_keys sp \<subseteq> fst ` set (cache sp)" for sp by (force simp: written_keys_def proxy_deltas_def)
qed (auto simp: vm_context_ops_def tx_set_open_def tx_entry_def key_log_open_def tx_set_clear_def mkl_clear_def kv_lawsD logged_keys_def)

section \<open>Properties\<close>

text \<open>A global context with an empty ledger, and an open block.\<close>

abbreviation sample_ops where
  "sample_ops \<equiv> vm_context_ops omap_trie (\<lambda>_. 0) assoc_kv assoc_kv"

definition sample_global :: "((Address \<times> metered) list, (AddressAndKey, RevertableObject) omap StateDB) GlobalContext" where
  "sample_global = \<lparr>gc_contract_db = contract_db_new assoc_kv 1, gc_state_db = empty_db\<rparr>"

definition sample_block :: "((Hash \<times> TxSetEntry) list TxSet, (AddressAndKey \<times> unit) list ModifiedKeysList) BlockContext" where
  "sample_block = block_context_new (tx_set_new assoc_kv) (mkl_new assoc_kv) 1"

lemma sample_host_env: "host_env sample_ops sample_env sample_global = sample_env"
  by (simp add: host_env_def sample_env_def sample_global_def vm_context_ops_def get_committed_value_def state_db_new_def omap_trie_def)

lemma sample_contexts:
  "statedb_inv omap_trie (\<lambda>_. 0) (\<lambda>_. None) no_live no_commits (gc_state_db sample_global)"
  "uc_ok (uncommitted_contracts (gc_contract_db sample_global))"
  "tx_set_open assoc_kv (bc_tx_set sample_block)" "key_log_open assoc_kv (bc_modified_keys_list sample_block)"
  "tx_entry assoc_kv (bc_tx_set sample_block) h = None"
proof -
  show "statedb_inv omap_trie (\<lambda>_. 0) (\<lambda>_. None) no_live no_commits (gc_state_db sample_global)"
    using state_db_new_inv[OF omap_trie_laws omap_trie_empty, of "\<lambda>_. 0" "\<lambda>_. 0"] by (simp add: sample_global_def)
qed (simp_all add: sample_global_def sample_block_def block_context_new_def contract_db_new_def uncommitted_new_def uc_ok_def omap_ok_def
    tx_set_open_def tx_set_new_def assoc_kv_laws key_log_open_def mkl_new_def tx_entry_def kv_lawsD[OF assoc_kv_laws])

lemma sample_tx_run:
  assumes "host_env ops sample_env G = sample_env" "bc_block_number B = 1"
  shows "\<exists>st. run_tx 3 ops sample_env h sample_exec_tx G B nres = Ret ((), st) \<and> contract_db_proxy (ctx st) = contract_proxy_new \<and>
     clean_run no_live cdb (run_tx 3 ops sample_env h sample_exec_tx G B nres)"
proof -
  have iv: "method_invocation_root (invocation (tx_body sample_exec_tx)) = sample_call"
    by (simp add: method_invocation_root_def sample_exec_tx_def sample_call_def)
  obtain st where "invoke_subroutine 3 sample_env sample_call (exec_start sample_exec_tx h 1 nres) = Ret ((), st)"
    "contract_db_proxy (ctx st) = contract_proxy_new"
    "proxy_deltas (cache (storage_proxy (ctx st))) = [(address_and_key 3 sample_key, NONNEGATIVE_INT64_SET_ADD 0 5)]"
    using sample_execution by blast
  then show ?thesis by (simp add: clean_run_def iv assms room_for_def no_live_def contract_proxy_new_def)
qed

lemma sample_block_number: "bc_block_number sample_block = 1"
  by (simp add: sample_block_def block_context_new_def)

text \<open>
  C3: transactions are atomic. Executing a transaction against an open block returns a status. On failure (a host
  error, a delta the database refuses, unused RPC results) the ledger, the contracts, the transaction set
  and the log are as before. On success all deltas of its storage are committed, its contracts are
  registered, the transaction set has the execution with its RPC results, and every key it touched is in the log.
\<close>

theorem execute_atomic:
  assumes "statedb_inv T sh m L C (gc_state_db G)" "uid_ok u" "uc_ok (uncommitted_contracts (gc_contract_db G))"
    "tx_set_open KS (bc_tx_set B)" "key_log_open KL (bc_modified_keys_list B)" "tx_context ec = None"
    "same_tx tx (tx_entry KS (bc_tx_set B) h)"
    "clean_run L (gc_contract_db G) (run_tx fuel (vm_context_ops T sh KS KL) env h tx G B nres)"
  shows "\<exists>status G' B' u'. execute fuel (vm_context_ops T sh KS KL) env tid u h tx G B nres ec = Ret (status, G', B', u', ec) \<and>
     (case status of
        FAILURE \<Rightarrow> statedb_inv T sh m L C (gc_state_db G') \<and> gc_contract_db G' = gc_contract_db G \<and>
          tx_entry KS (bc_tx_set B') = tx_entry KS (bc_tx_set B) \<and> bc_modified_keys_list B' = bc_modified_keys_list B
      | SUCCESS \<Rightarrow> \<exists>st. run_tx fuel (vm_context_ops T sh KS KL) env h tx G B nres = Ret ((), st) \<and>
          statedb_inv T sh m L (add_commits C (proxy_deltas (cache (storage_proxy (ctx st))))) (gc_state_db G') \<and>
          commit_tx_contracts tid (contract_db_proxy (ctx st)) (gc_contract_db G) = Ret (gc_contract_db G') \<and>
          tx_entry KS (bc_tx_set B') =
            (tx_entry KS (bc_tx_set B))(h \<mapsto> add_result tx (rpc_results (results (tx_results (ctx st)))) (tx_entry KS (bc_tx_set B) h)) \<and>
          logged_keys KL (bc_modified_keys_list B') = logged_keys KL (bc_modified_keys_list B) \<union> fst ` set (cache (storage_proxy (ctx st))))"
proof -
  have "v1x.contexts_ok T sh KS KL m L C u G B" using assms(1-5) by (simp add: v1x.contexts_ok_def)
  from v1x.execute_ok[OF this assms(6,8,7), of tid] obtain status G' B' u' where
    e: "execute fuel (vm_context_ops T sh KS KL) env tid u h tx G B nres ec = Ret (status, G', B', u', ec)"
      "if status = SUCCESS then \<exists>st. run_tx fuel (vm_context_ops T sh KS KL) env h tx G B nres = Ret ((), st) \<and>
            storage_reach m (storage_proxy (ctx st)) \<and> proxy_ok (contract_db_proxy (ctx st)) \<and>
            v1x.committed_by T sh KS KL m L C tid h tx (ctx st) G B G' B'
       else v1x.unchanged_by T sh KS m L C G B G' B'" by blast
  then show ?thesis
    by (intro exI[of _ status] exI[of _ G'] exI[of _ B'] exI[of _ u'])
      (cases status, auto simp: v1x.committed_by_def v1x.unchanged_by_def)
qed

theorem execute_atomic_witness:
  "\<exists>status G' B' u'. execute 3 sample_ops sample_env 0 0 9 sample_exec_tx sample_global sample_block None execution_context_new =
       Ret (status, G', B', u', execution_context_new) \<and>
     (status = FAILURE \<longrightarrow> tx_entry assoc_kv (bc_tx_set B') 9 = None) \<and>
     (status = SUCCESS \<longrightarrow> tx_entry assoc_kv (bc_tx_set B') 9 \<noteq> None)"
proof -
  have init: "tx_context execution_context_new = None" "same_tx sample_exec_tx (tx_entry assoc_kv (bc_tx_set sample_block) 9)"
    by (simp_all add: execution_context_new_def same_tx_def sample_contexts)
  have "clean_run no_live (gc_contract_db sample_global) (run_tx 3 sample_ops sample_env 9 sample_exec_tx sample_global sample_block None)"
    using sample_tx_run[OF sample_host_env sample_block_number] by blast
  from execute_atomic[OF sample_contexts(1) uid_ok_0 sample_contexts(2-4) init this, of 0] show ?thesis
    by (elim exE conjE) (rule exI, rule exI, rule exI, rule exI, rule conjI, assumption, auto simp: sample_contexts(5) split: TransactionStatus.splits)
qed

end
