(* ===== verification/PersistentStateDB.thy ===== *)
theory PersistentStateDB
  imports Execution
begin

text \<open>
  The databases of the two persistent virtual machines: \<open>GroundhogPersistentStateDB\<close> and
  \<open>SisyphusStateDB\<close> (\<open>state_db/\<close>), and the thread that writes the trie nodes to disk
  (\<open>state_db/async_keys_to_disk.h\<close>).

  Both hold a trie whose nodes may live on disk, and the timestamp of the current round. They are shown to
  behave as \<open>StateDBv2\<close> on their trie; they differ from it in the log that tells which keys to commit.
  Sisyphus walks the typed index of modifications, cut to the length of a key, so each address is
  visited once however many modifications it has.
\<close>

section \<open>Definitions\<close>

record 't PersistentStateDB =
  ps_trie :: 't
  current_timestamp :: uint32

definition persistent_db_new :: "'t \<Rightarrow> 't PersistentStateDB" where
  "persistent_db_new t = \<lparr>ps_trie = t, current_timestamp = 0\<rparr>"

definition set_timestamp :: "uint32 \<Rightarrow> 't PersistentStateDB \<Rightarrow> 't PersistentStateDB" where
  "set_timestamp ts db = db\<lparr>current_timestamp := ts\<rparr>"

definition groundhog_get_committed_value :: "'t trie_ops \<Rightarrow> AddressAndKey \<Rightarrow> 't PersistentStateDB \<Rightarrow> StorageObject option" where
  "groundhog_get_committed_value T a db = (case trie_get T a (ps_trie db) of
       Some res \<Rightarrow> get_committed_object res
     | None \<Rightarrow> None)"

definition groundhog_try_apply_delta :: "'t trie_ops \<Rightarrow> (Hash \<Rightarrow> uint64) \<Rightarrow> uid \<Rightarrow> AddressAndKey \<Rightarrow> StorageDelta \<Rightarrow>
    't PersistentStateDB \<Rightarrow> (DeltaRewind option \<times> 't PersistentStateDB \<times> uid) outcome" where
  "groundhog_try_apply_delta T sh u a d db =
     (let db1 = (if trie_get T a (ps_trie db) = None then db\<lparr>ps_trie := trie_put T a RevertableObject_new (ps_trie db)\<rparr> else db)
      in case trie_get T a (ps_trie db1) of
           None \<Rightarrow> Throw (RuntimeError ''should be impossible'')
         | Some ro \<Rightarrow> obind (try_add_delta sh u d ro) (\<lambda>(res, ro', u').
             Ret (res, db1\<lparr>ps_trie := trie_put T a ro' (ps_trie db1)\<rparr>, u')))"

definition groundhog_update_key :: "'t trie_ops \<Rightarrow> AddressAndKey \<Rightarrow> 't PersistentStateDB \<Rightarrow> 't PersistentStateDB outcome" where
  "groundhog_update_key T addrkey db = (case trie_get T addrkey (ps_trie db) of
       Some main_db_value \<Rightarrow> obind (commit_round main_db_value) (\<lambda>ro.
         let t = trie_put T addrkey ro (ps_trie db)
         in Ret (db\<lparr>ps_trie := (if get_committed_object ro = None then trie_delete T addrkey t else t)\<rparr>))
     | None \<Rightarrow> Throw (RuntimeError ''should never happen''))"

fun groundhog_update_keys :: "'t trie_ops \<Rightarrow> AddressAndKey list \<Rightarrow> 't PersistentStateDB \<Rightarrow> 't PersistentStateDB outcome" where
  "groundhog_update_keys T [] db = Ret db"
| "groundhog_update_keys T (k # ks) db = obind (groundhog_update_key T k db) (groundhog_update_keys T ks)"

definition groundhog_commit_modifications :: "'t trie_ops \<Rightarrow> (AddressAndKey, unit, 'k) kv_ops \<Rightarrow> 'k ModifiedKeysList \<Rightarrow>
    't PersistentStateDB \<Rightarrow> 't PersistentStateDB outcome" where
  "groundhog_commit_modifications T KL l db =
     obind (get_keys KL l) (\<lambda>ks.
     obind (groundhog_update_keys T ks db) (\<lambda>db1. Ret (db1\<lparr>ps_trie := hash_and_normalize T (ps_trie db1)\<rparr>)))"

fun groundhog_rewind_keys :: "'t trie_ops \<Rightarrow> AddressAndKey list \<Rightarrow> 't PersistentStateDB \<Rightarrow> 't PersistentStateDB outcome" where
  "groundhog_rewind_keys T [] db = Ret db"
| "groundhog_rewind_keys T (k # ks) db = (case trie_get T k (ps_trie db) of
       Some main_db_value \<Rightarrow> groundhog_rewind_keys T ks (db\<lparr>ps_trie := trie_put T k (rewind_round main_db_value) (ps_trie db)\<rparr>)
     | None \<Rightarrow> Throw (RuntimeError ''invalid nonsense''))"

definition groundhog_rewind_modifications :: "'t trie_ops \<Rightarrow> (AddressAndKey, unit, 'k) kv_ops \<Rightarrow> 'k ModifiedKeysList \<Rightarrow>
    't PersistentStateDB \<Rightarrow> 't PersistentStateDB outcome" where
  "groundhog_rewind_modifications T KL l db =
     obind (get_keys KL l) (\<lambda>ks.
     obind (groundhog_rewind_keys T ks db) (\<lambda>db1. Ret (db1\<lparr>ps_trie := hash_and_normalize T (ps_trie db1)\<rparr>)))"

definition groundhog_hash :: "'t trie_ops \<Rightarrow> ('t \<Rightarrow> Hash) \<Rightarrow> 't PersistentStateDB \<Rightarrow> Hash \<times> 't PersistentStateDB" where
  "groundhog_hash T root_hash db =
     (let t = hash_and_normalize T (ps_trie db) in (root_hash t, db\<lparr>ps_trie := t\<rparr>))"

definition sisyphus_get_committed_value :: "'t trie_ops \<Rightarrow> AddressAndKey \<Rightarrow> 't PersistentStateDB \<Rightarrow> StorageObject option" where
  "sisyphus_get_committed_value T a db = (case trie_get T a (ps_trie db) of
       Some res \<Rightarrow> get_committed_object res
     | None \<Rightarrow> None)"

definition sisyphus_try_apply_delta :: "'t trie_ops \<Rightarrow> (Hash \<Rightarrow> uint64) \<Rightarrow> uid \<Rightarrow> AddressAndKey \<Rightarrow> StorageDelta \<Rightarrow>
    't PersistentStateDB \<Rightarrow> (DeltaRewind option \<times> 't PersistentStateDB \<times> uid) outcome" where
  "sisyphus_try_apply_delta T sh u a d db =
     (let db1 = (if trie_get T a (ps_trie db) = None then db\<lparr>ps_trie := trie_put T a RevertableObject_new (ps_trie db)\<rparr> else db)
      in case trie_get T a (ps_trie db1) of
           None \<Rightarrow> Throw (RuntimeError ''should be impossible'')
         | Some ro \<Rightarrow> obind (try_add_delta sh u d ro) (\<lambda>(res, ro', u').
             Ret (res, db1\<lparr>ps_trie := trie_put T a ro' (ps_trie db1)\<rparr>, u')))"

text \<open>The keys \<open>apply_to_keys\<close> visits when the index keys are cut to the length of an address and key.\<close>

definition index_key_list :: "(byte list, StorageDelta, 'i) kv_ops \<Rightarrow> 'i \<Rightarrow> AddressAndKey list" where
  "index_key_list KI idx = remdups (map (\<lambda>(key, _). be_word (take 64 key)) (kv_entries KI idx))"

definition sisyphus_update_key :: "'t trie_ops \<Rightarrow> AddressAndKey \<Rightarrow> 't PersistentStateDB \<Rightarrow> 't PersistentStateDB outcome" where
  "sisyphus_update_key T addrkey db = (case trie_get T addrkey (ps_trie db) of
       Some main_db_value \<Rightarrow> obind (commit_round main_db_value) (\<lambda>ro.
         let t = trie_put T addrkey ro (ps_trie db)
         in Ret (db\<lparr>ps_trie := (if get_committed_object ro = None then trie_delete T addrkey t else t)\<rparr>))
     | None \<Rightarrow> Throw (RuntimeError ''should never happen''))"

fun sisyphus_update_keys :: "'t trie_ops \<Rightarrow> AddressAndKey list \<Rightarrow> 't PersistentStateDB \<Rightarrow> 't PersistentStateDB outcome" where
  "sisyphus_update_keys T [] db = Ret db"
| "sisyphus_update_keys T (k # ks) db = obind (sisyphus_update_key T k db) (sisyphus_update_keys T ks)"

definition sisyphus_commit_modifications :: "'t trie_ops \<Rightarrow> (byte list, StorageDelta, 'i) kv_ops \<Rightarrow> 'i \<Rightarrow>
    't PersistentStateDB \<Rightarrow> 't PersistentStateDB outcome" where
  "sisyphus_commit_modifications T KI idx db =
     obind (sisyphus_update_keys T (index_key_list KI idx) db) (\<lambda>db1. Ret (db1\<lparr>ps_trie := hash_and_normalize T (ps_trie db1)\<rparr>))"

fun sisyphus_rewind_keys :: "'t trie_ops \<Rightarrow> AddressAndKey list \<Rightarrow> 't PersistentStateDB \<Rightarrow> 't PersistentStateDB outcome" where
  "sisyphus_rewind_keys T [] db = Ret db"
| "sisyphus_rewind_keys T (k # ks) db = (case trie_get T k (ps_trie db) of
       Some main_db_value \<Rightarrow> sisyphus_rewind_keys T ks (db\<lparr>ps_trie := trie_put T k (rewind_round main_db_value) (ps_trie db)\<rparr>)
     | None \<Rightarrow> Throw (RuntimeError ''invalid nonsense''))"

definition sisyphus_rewind_modifications :: "'t trie_ops \<Rightarrow> (byte list, StorageDelta, 'i) kv_ops \<Rightarrow> 'i \<Rightarrow>
    't PersistentStateDB \<Rightarrow> 't PersistentStateDB outcome" where
  "sisyphus_rewind_modifications T KI idx db =
     obind (sisyphus_rewind_keys T (index_key_list KI idx) db) (\<lambda>db1. Ret (db1\<lparr>ps_trie := hash_and_normalize T (ps_trie db1)\<rparr>))"

definition sisyphus_hash :: "'t trie_ops \<Rightarrow> ('t \<Rightarrow> Hash) \<Rightarrow> 't PersistentStateDB \<Rightarrow> Hash \<times> 't PersistentStateDB" where
  "sisyphus_hash T root_hash db =
     (let t = hash_and_normalize T (ps_trie db) in (root_hash t, db\<lparr>ps_trie := t\<rparr>))"

text \<open>A rewind handle points into the trie.\<close>

definition ps_rewind_commit :: "'t trie_ops \<Rightarrow> 't PersistentStateDB commit_fn" where
  "ps_rewind_commit T k rw db = obind (v2_rewind_commit T k rw (ps_trie db)) (\<lambda>(t, rw'). Ret (db\<lparr>ps_trie := t\<rparr>, rw'))"

definition ps_rewind_destroy :: "'t trie_ops \<Rightarrow> (Hash \<Rightarrow> uint64) \<Rightarrow> 't PersistentStateDB destroy_fn" where
  "ps_rewind_destroy T sh u k rw db = obind (v2_rewind_destroy T sh u k rw (ps_trie db)) (\<lambda>(t, u'). Ret (db\<lparr>ps_trie := t\<rparr>, u'))"

section \<open>Both behave as \<open>StateDBv2\<close> on their trie\<close>

definition ps_lift :: "'t outcome \<Rightarrow> 't PersistentStateDB \<Rightarrow> 't PersistentStateDB outcome" where
  "ps_lift m db = obind m (\<lambda>t. Ret (db\<lparr>ps_trie := t\<rparr>))"

lemma ps_update_same: "db\<lparr>ps_trie := ps_trie db\<rparr> = db"
  by simp

lemma groundhog_update_keys_v2: "groundhog_update_keys T ks db = ps_lift (v2_update_keys T ks (ps_trie db)) db"
proof (induction ks arbitrary: db)
  case (Cons k ks)
  have "groundhog_update_key T k db = ps_lift (v2_update_key T k (ps_trie db)) db"
    by (auto simp: groundhog_update_key_def v2_update_key_def ps_lift_def obind_assoc Let_def split: option.split intro!: arg_cong2[where f = obind])
  then show ?case using Cons.IH by (cases "v2_update_key T k (ps_trie db)") (simp_all add: ps_lift_def)
qed (simp add: ps_lift_def)

lemma groundhog_rewind_keys_v2: "groundhog_rewind_keys T ks db = ps_lift (v2_rewind_keys T ks (ps_trie db)) db"
proof (induction ks arbitrary: db)
  case (Cons k ks)
  then show ?case by (cases "trie_get T k (ps_trie db)") (simp_all add: ps_lift_def)
qed (simp add: ps_lift_def)

lemma sisyphus_update_keys_groundhog: "sisyphus_update_keys T ks db = groundhog_update_keys T ks db"
proof (induction ks arbitrary: db)
  case (Cons k ks)
  then have "sisyphus_update_keys T ks = groundhog_update_keys T ks" by blast
  then show ?case by (simp add: sisyphus_update_key_def groundhog_update_key_def)
qed simp

lemma sisyphus_rewind_keys_groundhog: "sisyphus_rewind_keys T ks db = groundhog_rewind_keys T ks db"
  by (induction T ks db rule: groundhog_rewind_keys.induct) (simp_all split: option.split)

lemma ps_apply_v2:
  "groundhog_try_apply_delta T sh u a d db = obind (v2_try_apply_delta T sh u a d (ps_trie db)) (\<lambda>(res, t, u'). Ret (res, db\<lparr>ps_trie := t\<rparr>, u'))"
  "sisyphus_try_apply_delta T sh u a d db = obind (v2_try_apply_delta T sh u a d (ps_trie db)) (\<lambda>(res, t, u'). Ret (res, db\<lparr>ps_trie := t\<rparr>, u'))"
  by (auto simp: groundhog_try_apply_delta_def sisyphus_try_apply_delta_def v2_try_apply_delta_def Let_def obind_assoc split_def split: option.split)

lemma ps_commit_v2: "obind (groundhog_update_keys T ks db) (\<lambda>db1. Ret (db1\<lparr>ps_trie := hash_and_normalize T (ps_trie db1)\<rparr>)) =
    ps_lift (v2_commit_modifications T ks (ps_trie db)) db"
  by (simp add: groundhog_update_keys_v2 ps_lift_def v2_commit_modifications_def obind_assoc)

lemma ps_rewind_v2: "obind (groundhog_rewind_keys T ks db) (\<lambda>db1. Ret (db1\<lparr>ps_trie := hash_and_normalize T (ps_trie db1)\<rparr>)) =
    ps_lift (v2_rewind_modifications T ks (ps_trie db)) db"
  by (simp add: groundhog_rewind_keys_v2 ps_lift_def v2_rewind_modifications_def obind_assoc)

lemma ps_get_v2: "groundhog_get_committed_value T a db = v2_get_committed_value T a (ps_trie db)"
  "sisyphus_get_committed_value T a db = v2_get_committed_value T a (ps_trie db)"
  by (simp_all add: groundhog_get_committed_value_def sisyphus_get_committed_value_def v2_get_committed_value_def)

definition ps_inv :: "'t trie_ops \<Rightarrow> (Hash \<Rightarrow> uint64) \<Rightarrow> ledger \<Rightarrow> live \<Rightarrow> commits \<Rightarrow> 't PersistentStateDB \<Rightarrow> bool" where
  "ps_inv T sh m L C db \<longleftrightarrow> v2_inv T sh m L C (ps_trie db)"

definition ps_known :: "'t trie_ops \<Rightarrow> AddressAndKey \<Rightarrow> 't PersistentStateDB \<Rightarrow> bool" where
  "ps_known T k db \<longleftrightarrow> v2_known T k (ps_trie db)"

definition ps_commit_keys :: "'t trie_ops \<Rightarrow> AddressAndKey list \<Rightarrow> 't PersistentStateDB \<Rightarrow> 't PersistentStateDB outcome" where
  "ps_commit_keys T ks db = obind (groundhog_update_keys T ks db) (\<lambda>db1. Ret (db1\<lparr>ps_trie := hash_and_normalize T (ps_trie db1)\<rparr>))"

definition ps_rewind_keys :: "'t trie_ops \<Rightarrow> AddressAndKey list \<Rightarrow> 't PersistentStateDB \<Rightarrow> 't PersistentStateDB outcome" where
  "ps_rewind_keys T ks db = obind (groundhog_rewind_keys T ks db) (\<lambda>db1. Ret (db1\<lparr>ps_trie := hash_and_normalize T (ps_trie db1)\<rparr>))"

interpretation ps: block_db "ps_inv T sh" "groundhog_get_committed_value T" "groundhog_try_apply_delta T sh"
    "ps_rewind_commit T" "ps_rewind_destroy T sh" "ps_known T" "ps_commit_keys T" "ps_rewind_keys T" for T :: "'t trie_ops" and sh
proof unfold_locales
  fix m L C and db :: "'t PersistentStateDB" and k
  assume "ps_inv T sh m L C db"
  then show "groundhog_get_committed_value T k db = m k" using v2.get_law by (simp add: ps_inv_def ps_get_v2)
next
  fix m L C and db :: "'t PersistentStateDB" and u d k
  assume "ps_inv T sh m L C db" "uid_ok u" "supported d" "size (L k) < 255"
  from v2.apply_law[OF this(1)[unfolded ps_inv_def] this(2-4)] obtain res t u' where
    "v2_try_apply_delta T sh u k d (ps_trie db) = Ret (res, t, u')" "uid_ok u'" "v2_known T k t"
    "\<forall>k'. v2_known T k' (ps_trie db) \<longrightarrow> v2_known T k' t"
    "case res of None \<Rightarrow> v2_inv T sh m L C t | Some rw \<Rightarrow> rw_delta rw = d \<and> v2_inv T sh m (L(k := add_mset rw (L k))) C t" by blast
  then show "\<exists>res db' u'. groundhog_try_apply_delta T sh u k d db = Ret (res, db', u') \<and> uid_ok u' \<and> ps_known T k db' \<and>
      (\<forall>k'. ps_known T k' db \<longrightarrow> ps_known T k' db') \<and>
      (case res of None \<Rightarrow> ps_inv T sh m L C db' | Some rw \<Rightarrow> rw_delta rw = d \<and> ps_inv T sh m (L(k := add_mset rw (L k))) C db')"
    by (intro exI[of _ res] exI[of _ "db\<lparr>ps_trie := t\<rparr>"] exI[of _ u'])
      (simp add: ps_apply_v2 ps_known_def ps_inv_def split: option.splits)
next
  fix m L k rw C and db :: "'t PersistentStateDB"
  assume "ps_inv T sh m (L(k := add_mset rw (L k))) C db"
  from v2.commit_law[OF this[unfolded ps_inv_def]] show "\<exists>db' rw'. ps_rewind_commit T k rw db = Ret (db', rw') \<and>
      ps_inv T sh m L (C(k := C k @ [rw_delta rw])) db' \<and> (\<forall>k'. ps_known T k' db \<longrightarrow> ps_known T k' db')"
    by (auto simp: ps_rewind_commit_def ps_inv_def ps_known_def)
next
  fix m L k rw C and db :: "'t PersistentStateDB" and u
  assume "ps_inv T sh m (L(k := add_mset rw (L k))) C db" "uid_ok u"
  from v2.destroy_law[OF this(1)[unfolded ps_inv_def] this(2)] show "\<exists>db' u'. ps_rewind_destroy T sh u k rw db = Ret (db', u') \<and> uid_ok u' \<and>
      ps_inv T sh m L C db' \<and> (\<forall>k'. ps_known T k' db \<longrightarrow> ps_known T k' db')"
    by (auto simp: ps_rewind_destroy_def ps_inv_def ps_known_def)
next
  fix m C ks and db :: "'t PersistentStateDB"
  assume "ps_inv T sh m no_live C db" "distinct ks" "small_block C" "\<forall>k. C k \<noteq> [] \<longrightarrow> k \<in> set ks" "\<forall>k \<in> set ks. ps_known T k db"
  with v2.commit_block_law[of T sh m C "ps_trie db" ks] show "\<exists>db'. ps_commit_keys T ks db = Ret db' \<and> ps_inv T sh (ledger_after m C) no_live no_commits db'"
    by (auto simp: ps_inv_def ps_known_def ps_commit_keys_def ps_commit_v2 ps_lift_def)
next
  fix m L C ks and db :: "'t PersistentStateDB"
  assume "ps_inv T sh m L C db" "distinct ks" "\<forall>k. L k \<noteq> {#} \<or> C k \<noteq> [] \<longrightarrow> k \<in> set ks" "\<forall>k \<in> set ks. ps_known T k db"
  with v2.rewind_block_law[of T sh m L C "ps_trie db" ks] show "\<exists>db'. ps_rewind_keys T ks db = Ret db' \<and> ps_inv T sh m no_live no_commits db'"
    by (auto simp: ps_inv_def ps_known_def ps_rewind_keys_def ps_rewind_v2 ps_lift_def)
next
  fix m L C and db :: "'t PersistentStateDB" and C'
  assume "ps_inv T sh m L C db" "same_commits C C'"
  then show "ps_inv T sh m L C' db" using v2b.order_law by (auto simp: ps_inv_def)
next
  fix m L C and db :: "'t PersistentStateDB" and k
  assume "ps_inv T sh m L C db" "m k \<noteq> None"
  then show "ps_known T k db" using v2b.present_law[of T sh m L C "ps_trie db" k] by (simp add: ps_inv_def ps_known_def)
qed

section \<open>The contexts of the persistent machines\<close>

definition groundhog_context_ops :: "'t trie_ops \<Rightarrow> (Hash \<Rightarrow> uint64) \<Rightarrow> 's tx_trie \<Rightarrow> (AddressAndKey, unit, 'k) kv_ops \<Rightarrow>
    ('t PersistentStateDB, 's TxSet, 'k ModifiedKeysList) context_ops" where
  "groundhog_context_ops T sh KS KL =
     \<lparr>cx_get = groundhog_get_committed_value T, cx_apply = groundhog_try_apply_delta T sh, cx_commit = ps_rewind_commit T,
      cx_destroy = ps_rewind_destroy T sh, cx_add_tx = try_add_transaction KS, cx_log = log_modified_keys_list KL,
      cx_set_clear = tx_set_clear KS, cx_log_clear = mkl_clear KL\<rparr>"

definition sisyphus_context_ops :: "'t trie_ops \<Rightarrow> (Hash \<Rightarrow> uint64) \<Rightarrow> (byte list \<Rightarrow> Hash) \<Rightarrow> 's tx_trie \<Rightarrow> (byte list, StorageDelta, 'i) kv_ops \<Rightarrow>
    ('t PersistentStateDB, 's TxSet, 'i) context_ops" where
  "sisyphus_context_ops T sh hr KS KI =
     \<lparr>cx_get = sisyphus_get_committed_value T, cx_apply = sisyphus_try_apply_delta T sh, cx_commit = ps_rewind_commit T,
      cx_destroy = ps_rewind_destroy T sh, cx_add_tx = unique_try_add_transaction KS, cx_log = log_modified_keys_typed KI hr,
      cx_set_clear = unique_tx_set_clear KS, cx_log_clear = tmi_clear KI\<rparr>"

interpretation gx: exec_contexts "ps_inv T sh" "groundhog_get_committed_value T" "groundhog_try_apply_delta T sh"
    "ps_rewind_commit T" "ps_rewind_destroy T sh" "ps_known T" "ps_commit_keys T" "ps_rewind_keys T"
    "groundhog_context_ops T sh KS KL" "kv_laws KS \<and> kv_laws KL" "tx_set_open KS" "tx_entry KS" "key_log_open KL" "logged_keys KL" "\<lambda>sp. fst ` set (cache sp)"
  for T sh KS KL
proof unfold_locales
  show "\<exists>b s'. cx_add_tx (groundhog_context_ops T sh KS KL) h tx r s = Ret (b, s') \<and> tx_set_open KS s' \<and>
      tx_entry KS s' = (if b then (tx_entry KS s)(h \<mapsto> add_result tx r (tx_entry KS s h)) else tx_entry KS s)"
    if "tx_set_open KS s" "same_tx tx (tx_entry KS s h)" for s tx h r
    using tx_set_add_law[OF that, of r] by (auto simp: groundhog_context_ops_def)
  show "\<exists>l' sp'. cx_log (groundhog_context_ops T sh KS KL) sp h l = Ret (l', sp') \<and> key_log_open KL l' \<and>
      logged_keys KL l' = logged_keys KL l \<union> fst ` set (cache sp)"
    if "key_log_open KL l" "\<not> committed_local_values sp" for l sp h
    using log_cache_keys_law[OF that(1), of "cache sp"] that(2)
    by (auto simp: groundhog_context_ops_def log_modified_keys_list_def assert_not_committed_local_values_def)
  show "written_keys sp \<subseteq> fst ` set (cache sp)" for sp by (force simp: written_keys_def proxy_deltas_def)
qed (auto simp: groundhog_context_ops_def tx_set_open_def tx_entry_def key_log_open_def tx_set_clear_def mkl_clear_def kv_lawsD logged_keys_def)

text \<open>The typed index: its keys are those of the modifications, and only written keys are in it.\<close>

definition index_open :: "(byte list, StorageDelta, 'i) kv_ops \<Rightarrow> 'i \<Rightarrow> bool" where
  "index_open KI idx \<longleftrightarrow> kv_laws KI"

definition index_keys :: "(byte list, StorageDelta, 'i) kv_ops \<Rightarrow> 'i \<Rightarrow> AddressAndKey set" where
  "index_keys KI idx = {k. \<exists>key d. kv_get KI key idx = Some d \<and> k = be_word (take 64 key)}"

lemma index_key_list_keys: "kv_laws KI \<Longrightarrow> distinct (index_key_list KI idx) \<and> set (index_key_list KI idx) = index_keys KI idx"
  by (force simp: index_key_list_def index_keys_def kv_entries_iff)

lemma make_index_key_addr: "make_index_key hr k d h = Ret key \<Longrightarrow> be_word (take 64 key) = k"
  using indexed_modification_key[of hr k d h key] by (simp add: indexed_modification_def)

lemma log_deltas_law:
  "kv_laws KI \<Longrightarrow> list_all supported ds \<Longrightarrow>
   \<exists>idx'. log_deltas KI hr h k ds idx = Ret idx' \<and> index_keys KI idx' = index_keys KI idx \<union> (if ds = [] then {} else {k})"
proof (induction ds arbitrary: idx)
  case (Cons d ds)
  obtain key where key: "make_index_key hr k d h = Ret key" using make_index_key_Ret[of d hr k h] Cons.prems(2) by auto
  obtain idx' where "log_deltas KI hr h k ds (kv_put KI key d idx) = Ret idx'"
    "index_keys KI idx' = index_keys KI (kv_put KI key d idx) \<union> (if ds = [] then {} else {k})" using Cons by auto
  moreover have "index_keys KI (kv_put KI key d idx) = insert k (index_keys KI idx)"
  proof -
    have "index_keys KI (kv_put KI key d idx) = insert (be_word (take 64 key)) (index_keys KI idx)"
      using Cons.prems(1) by (auto simp: index_keys_def kv_lawsD split: if_splits)
    then show ?thesis by (simp add: make_index_key_addr[OF key])
  qed
  ultimately show ?case by (simp add: log_modification_def key)
qed simp

lemma log_cache_deltas_law:
  "kv_laws KI \<Longrightarrow> list_all (\<lambda>(k, d). supported d) (proxy_deltas kvs) \<Longrightarrow>
   \<exists>idx'. log_cache_deltas KI hr h kvs idx = Ret idx' \<and> index_keys KI idx' = index_keys KI idx \<union> fst ` set (proxy_deltas kvs)"
proof (induction kvs arbitrary: idx)
  case (Cons kv kvs)
  obtain k v where kv: "kv = (k, v)" by force
  have pd: "proxy_deltas (kv # kvs) = map (Pair k) (get_deltas v) @ proxy_deltas kvs" by (simp add: proxy_deltas_def kv)
  have sup: "list_all supported (get_deltas v)" "list_all (\<lambda>(k, d). supported d) (proxy_deltas kvs)"
    using Cons.prems(2) unfolding pd by (auto simp: list_all_iff)
  from log_deltas_law[OF Cons.prems(1) sup(1), of hr h k idx] obtain idx1 where
    1: "log_deltas KI hr h k (get_deltas v) idx = Ret idx1" "index_keys KI idx1 = index_keys KI idx \<union> (if get_deltas v = [] then {} else {k})" by blast
  from Cons.IH[OF Cons.prems(1) sup(2), of idx1] obtain idx2 where
    2: "log_cache_deltas KI hr h kvs idx1 = Ret idx2" "index_keys KI idx2 = index_keys KI idx1 \<union> fst ` set (proxy_deltas kvs)" by blast
  have "fst ` set (proxy_deltas (kv # kvs)) = (if get_deltas v = [] then {} else {k}) \<union> fst ` set (proxy_deltas kvs)"
    unfolding pd by (cases "get_deltas v") (auto simp: image_image image_Un)
  then show ?case using 1 2 by (simp add: kv Un_assoc)
qed (simp add: proxy_deltas_def)

lemma unique_add_law:
  assumes "tx_set_open KS s" "same_tx tx (tx_entry KS s h)"
  shows "\<exists>b s'. unique_try_add_transaction KS h tx r s = Ret (b, s') \<and> tx_set_open KS s' \<and>
     tx_entry KS s' = (if b then (tx_entry KS s)(h \<mapsto> add_result tx r (tx_entry KS s h)) else tx_entry KS s)"
proof (cases "kv_get KS h (txs s)")
  case None
  then show ?thesis using assms by (auto simp: unique_try_add_transaction_def assert_txs_not_merged_def kv_insert_def tx_set_open_def tx_entry_def
        unique_insert_def new_entry_def add_result_def Let_def kv_lawsD fun_eq_iff)
next
  case (Some e)
  then have "nondeterministic_results e \<noteq> []" using assms by (auto simp: tx_set_open_def)
  then show ?thesis using Some assms by (auto simp: unique_try_add_transaction_def assert_txs_not_merged_def kv_insert_def tx_set_open_def tx_entry_def
        unique_insert_def Let_def kv_lawsD fun_eq_iff)
qed

lemma sisyphus_ops_same:
  "sisyphus_get_committed_value T = groundhog_get_committed_value T" "sisyphus_try_apply_delta T sh = groundhog_try_apply_delta T sh"
  by (intro ext, simp add: ps_get_v2 ps_apply_v2)+

interpretation sx: exec_contexts "ps_inv T sh" "groundhog_get_committed_value T" "groundhog_try_apply_delta T sh"
    "ps_rewind_commit T" "ps_rewind_destroy T sh" "ps_known T" "ps_commit_keys T" "ps_rewind_keys T"
    "sisyphus_context_ops T sh hr KS KI" "kv_laws KS \<and> kv_laws KI" "tx_set_open KS" "tx_entry KS" "index_open KI" "index_keys KI" written_keys
  for T sh hr KS KI
proof unfold_locales
  show "\<exists>b s'. cx_add_tx (sisyphus_context_ops T sh hr KS KI) h tx r s = Ret (b, s') \<and> tx_set_open KS s' \<and>
      tx_entry KS s' = (if b then (tx_entry KS s)(h \<mapsto> add_result tx r (tx_entry KS s h)) else tx_entry KS s)"
    if "tx_set_open KS s" "same_tx tx (tx_entry KS s h)" for s tx h r
    using unique_add_law[OF that, of r] by (simp add: sisyphus_context_ops_def)
  show "\<exists>l' sp'. cx_log (sisyphus_context_ops T sh hr KS KI) sp h l = Ret (l', sp') \<and> index_open KI l' \<and>
      index_keys KI l' = index_keys KI l \<union> written_keys sp"
    if "index_open KI l" "\<not> committed_local_values sp" for l sp h
    using log_cache_deltas_law[of KI "cache sp" hr h l] proxy_deltas_supported that
    by (auto simp: index_open_def sisyphus_context_ops_def log_modified_keys_typed_def assert_not_committed_local_values_def written_keys_def)
  show "written_keys sp \<subseteq> fst ` set (cache sp)" for sp by (force simp: written_keys_def proxy_deltas_def)
qed (auto simp: sisyphus_context_ops_def sisyphus_ops_same tx_set_open_def tx_entry_def index_open_def unique_tx_set_clear_def tmi_clear_def
    kv_lawsD index_keys_def)

end
