(* ===== verification/VirtualMachine.thy ===== *)
theory VirtualMachine
  imports PersistentStateDB
begin

text \<open>
  The virtual machines: the phases that end a block (\<open>phase/phases.cc\<close>), the validation of a proposed block
  (\<open>vm/base_vm.cc\<close>, \<open>vm/validate_reduce.h\<close>), the end of a proposal (\<open>vm/vm.cc\<close>, \<open>vm/groundhog_vm.cc\<close>,
  \<open>sisyphus_vm/vm.cc\<close>) and the genesis block (\<open>vm/genesis.cc\<close>).

  The phases are overloaded on the contexts; what the machine template needs of them is the record \<open>vm_ops\<close>.
  Validation runs the transactions of a block in parallel ranges chosen by TBB; here the ranges
  (\<open>split\<close>) are executed one after the other, in the order given. The interleaving of their memory operations is
  the subject of the theory on block execution. \<open>hsx\<close> and \<open>hbx\<close> are the hash of the XDR encoding
  of a signed transaction and of a header, \<open>root_hash\<close> the root hash of a trie.
\<close>

section \<open>The end of a block\<close>

definition state_db_hash :: "'t trie_ops \<Rightarrow> ('t \<Rightarrow> Hash) \<Rightarrow> 't StateDB \<Rightarrow> (Hash \<times> 't StateDB) outcome" where
  "state_db_hash T root_hash db =
     (if has_uncommitted_deltas db then Throw (RuntimeError ''assert not uncommitted deltas fail'')
      else let t = hash_and_normalize T (state_db db) in Ret (root_hash t, db\<lparr>state_db := t\<rparr>))"

type_synonym ('c, 'db, 's, 'l) phase = "('c, 'db) GlobalContext \<Rightarrow> ('s, 'l) BlockContext \<Rightarrow> (('c, 'db) GlobalContext \<times> ('s, 'l) BlockContext) outcome"

definition phase_finish_block :: "'t trie_ops \<Rightarrow> (AddressAndKey \<Rightarrow> uint64) \<Rightarrow> (AddressAndKey, unit, 'k) kv_ops \<Rightarrow> (Address, metered, 'c) kv_ops \<Rightarrow> nat \<Rightarrow>
    ('c, 't StateDB, 's TxSet, 'k ModifiedKeysList) phase" where
  "phase_finish_block T kh KL KC tid G B =
     obind (merge_logs (bc_modified_keys_list B)) (\<lambda>l.
     obind (tx_set_finalize (bc_tx_set B)) (\<lambda>s.
     obind (contract_db_commit KC tid (ucast (bc_block_number B)) (gc_contract_db G)) (\<lambda>cdb.
     obind (get_keys KL l) (\<lambda>ks.
     obind (commit_modifications T kh ks (gc_state_db G)) (\<lambda>db.
       Ret (G\<lparr>gc_contract_db := cdb, gc_state_db := db\<rparr>, B\<lparr>bc_tx_set := s, bc_modified_keys_list := l\<rparr>))))))"

definition phase_undo_block :: "'t trie_ops \<Rightarrow> (AddressAndKey \<Rightarrow> uint64) \<Rightarrow> (AddressAndKey, unit, 'k) kv_ops \<Rightarrow>
    ('c, 't StateDB, 's TxSet, 'k ModifiedKeysList) phase" where
  "phase_undo_block T kh KL G B =
     obind (merge_logs (bc_modified_keys_list B)) (\<lambda>l.
     obind (get_keys KL l) (\<lambda>ks.
       Ret (G\<lparr>gc_contract_db := contract_db_rewind (gc_contract_db G), gc_state_db := rewind_modifications T kh ks (gc_state_db G)\<rparr>,
            B\<lparr>bc_modified_keys_list := l\<rparr>)))"

definition groundhog_phase_finish_block :: "'t trie_ops \<Rightarrow> (AddressAndKey, unit, 'k) kv_ops \<Rightarrow> (Address, metered, 'c) kv_ops \<Rightarrow> nat \<Rightarrow>
    ('c, 't PersistentStateDB, 's TxSet, 'k ModifiedKeysList) phase" where
  "groundhog_phase_finish_block T KL KC tid G B =
     obind (merge_logs (bc_modified_keys_list B)) (\<lambda>l.
     obind (tx_set_finalize (bc_tx_set B)) (\<lambda>s.
     obind (contract_db_commit KC tid (ucast (bc_block_number B)) (gc_contract_db G)) (\<lambda>cdb.
     obind (groundhog_commit_modifications T KL l (gc_state_db G)) (\<lambda>db.
       Ret (G\<lparr>gc_contract_db := cdb, gc_state_db := db\<rparr>, B\<lparr>bc_tx_set := s, bc_modified_keys_list := l\<rparr>)))))"

definition groundhog_phase_undo_block :: "'t trie_ops \<Rightarrow> (AddressAndKey, unit, 'k) kv_ops \<Rightarrow>
    ('c, 't PersistentStateDB, 's TxSet, 'k ModifiedKeysList) phase" where
  "groundhog_phase_undo_block T KL G B =
     obind (merge_logs (bc_modified_keys_list B)) (\<lambda>l.
     obind (groundhog_rewind_modifications T KL l (gc_state_db G)) (\<lambda>db.
       Ret (G\<lparr>gc_contract_db := contract_db_rewind (gc_contract_db G), gc_state_db := db\<rparr>, B\<lparr>bc_modified_keys_list := l\<rparr>)))"

text \<open>The typed index has no merge step.\<close>

definition sisyphus_phase_finish_block :: "'t trie_ops \<Rightarrow> (byte list, StorageDelta, 'i) kv_ops \<Rightarrow> (Address, metered, 'c) kv_ops \<Rightarrow> nat \<Rightarrow>
    ('c, 't PersistentStateDB, 's TxSet, 'i) phase" where
  "sisyphus_phase_finish_block T KI KC tid G B =
     obind (unique_tx_set_finalize (bc_tx_set B)) (\<lambda>s.
     obind (contract_db_commit KC tid (ucast (bc_block_number B)) (gc_contract_db G)) (\<lambda>cdb.
     obind (sisyphus_commit_modifications T KI (bc_modified_keys_list B) (gc_state_db G)) (\<lambda>db.
       Ret (G\<lparr>gc_contract_db := cdb, gc_state_db := db\<rparr>, B\<lparr>bc_tx_set := s\<rparr>))))"

definition sisyphus_phase_undo_block :: "'t trie_ops \<Rightarrow> (byte list, StorageDelta, 'i) kv_ops \<Rightarrow>
    ('c, 't PersistentStateDB, 's TxSet, 'i) phase" where
  "sisyphus_phase_undo_block T KI G B =
     obind (sisyphus_rewind_modifications T KI (bc_modified_keys_list B) (gc_state_db G)) (\<lambda>db.
       Ret (G\<lparr>gc_contract_db := contract_db_rewind (gc_contract_db G), gc_state_db := db\<rparr>, B))"

section \<open>The machine\<close>

record BlockHeader =
  hd_block_number :: uint64
  prev_header_hash :: Hash
  hd_tx_set_hash :: Hash
  modified_keys_hash :: Hash
  hd_state_db_hash :: Hash
  hd_contract_db_hash :: Hash

text \<open>A block: its transactions, each with the RPC results of its executions.\<close>

type_synonym Block = "(SignedTransaction \<times> NondeterministicResults list) list"

record ('c, 'db, 's, 'l) vm_ops =
  vo_ctx :: "('db, 's, 'l) context_ops"
  vo_finish :: "nat \<Rightarrow> ('c, 'db, 's, 'l) phase"
  vo_undo :: "('c, 'db, 's, 'l) phase"
  vo_set_hash :: "'s \<Rightarrow> Hash outcome"
  vo_log_hash :: "'l \<Rightarrow> Hash outcome"
  vo_db_hash :: "'db \<Rightarrow> (Hash \<times> 'db) outcome"

record ('c, 'db, 's, 'l) VirtualMachine =
  global_context :: "('c, 'db) GlobalContext"
  current_block_context :: "('s, 'l) BlockContext option"
  prev_block_hash :: Hash

definition assert_initialized :: "('c, 'db, 's, 'l) VirtualMachine \<Rightarrow> ('s, 'l) BlockContext outcome" where
  "assert_initialized vm = (case current_block_context vm of
       None \<Rightarrow> Throw (RuntimeError ''uninitialized'')
     | Some B \<Rightarrow> Ret B)"

text \<open>The executions of an entry stop at its first failure, a range goes on with its other entries.\<close>

type_synonym 'st exec_fn = "Hash \<Rightarrow> SignedTransaction \<Rightarrow> NondeterministicResults \<Rightarrow> 'st \<Rightarrow> (TransactionStatus \<times> 'st) outcome"

fun validate_results :: "'st exec_fn \<Rightarrow> Hash \<Rightarrow> SignedTransaction \<Rightarrow> NondeterministicResults list \<Rightarrow> 'st \<Rightarrow> (bool \<times> 'st) outcome" where
  "validate_results exec h tx [] st = Ret (False, st)"
| "validate_results exec h tx (r # rs) st =
     obind (exec h tx r st) (\<lambda>(status, st'). if status \<noteq> SUCCESS then Ret (True, st') else validate_results exec h tx rs st')"

fun validate_entries :: "'st exec_fn \<Rightarrow> (SignedTransaction \<Rightarrow> Hash) \<Rightarrow> Block \<Rightarrow> bool \<Rightarrow> 'st \<Rightarrow> (bool \<times> 'st) outcome" where
  "validate_entries exec hsx [] local_found_error st = Ret (local_found_error, st)"
| "validate_entries exec hsx ((tx, rs) # es) local_found_error st =
     obind (validate_results exec (hsx tx) tx rs st) (\<lambda>(b, st'). validate_entries exec hsx es (local_found_error \<or> b) st')"

definition validate_reduce :: "'st exec_fn \<Rightarrow> (SignedTransaction \<Rightarrow> Hash) \<Rightarrow> Block \<Rightarrow> bool \<Rightarrow> 'st \<Rightarrow> (bool \<times> 'st) outcome" where
  "validate_reduce exec hsx r found_error st =
     (if found_error then Ret (found_error, st)
      else obind (validate_entries exec hsx r False st) (\<lambda>(b, st'). Ret (found_error \<or> b, st')))"

fun parallel_reduce :: "'st exec_fn \<Rightarrow> (SignedTransaction \<Rightarrow> Hash) \<Rightarrow> Block list \<Rightarrow> bool \<Rightarrow> 'st \<Rightarrow> (bool \<times> 'st) outcome" where
  "parallel_reduce exec hsx [] found_error st = Ret (found_error, st)"
| "parallel_reduce exec hsx (r # rs) found_error st =
     obind (validate_reduce exec hsx r found_error st) (\<lambda>(b, st'). parallel_reduce exec hsx rs b st')"

definition vm_exec :: "nat \<Rightarrow> ('db, 's, 'l) context_ops \<Rightarrow> ('c, 'r) exec_env \<Rightarrow> nat \<Rightarrow>
    (('c, 'db) GlobalContext \<times> ('s, 'l) BlockContext \<times> uid) exec_fn" where
  "vm_exec fuel ops env tid h tx r st = (case st of (G, B, u) \<Rightarrow>
     obind (execute fuel ops env tid u h tx G B (Some r) execution_context_new) (\<lambda>(status, G', B', u', _). Ret (status, G', B', u')))"

definition validate_tx_block :: "nat \<Rightarrow> ('c, 'db, 's, 'l) vm_ops \<Rightarrow> ('c, 'r) exec_env \<Rightarrow> nat \<Rightarrow> (SignedTransaction \<Rightarrow> Hash) \<Rightarrow> (Block \<Rightarrow> Block list) \<Rightarrow>
    Block \<Rightarrow> ('c, 'db) GlobalContext \<times> ('s, 'l) BlockContext \<times> uid \<Rightarrow> (bool \<times> ('c, 'db) GlobalContext \<times> ('s, 'l) BlockContext \<times> uid) outcome" where
  "validate_tx_block fuel vo env tid hsx split block st =
     obind (parallel_reduce (vm_exec fuel (vo_ctx vo) env tid) hsx (split block) False st) (\<lambda>(found_error, st'). Ret (\<not> found_error, st'))"

definition advance_block_number :: "('c, 'db, 's, 'l) vm_ops \<Rightarrow> ('s, 'l) BlockContext \<Rightarrow> ('s, 'l) BlockContext" where
  "advance_block_number vo B = reset_context (vo_ctx vo) (bc_block_number B + 1) B"

definition make_block_header :: "('c, 'db, 's, 'l) vm_ops \<Rightarrow> (Address, metered, 'c) kv_ops \<Rightarrow> Hash \<Rightarrow> ('c, 'db) GlobalContext \<Rightarrow> ('s, 'l) BlockContext \<Rightarrow>
    (BlockHeader \<times> ('c, 'db) GlobalContext) outcome" where
  "make_block_header vo KC prev G B =
     obind (vo_set_hash vo (bc_tx_set B)) (\<lambda>sh.
     obind (vo_log_hash vo (bc_modified_keys_list B)) (\<lambda>lh.
     obind (vo_db_hash vo (gc_state_db G)) (\<lambda>(dh, db).
     obind (contract_db_hash KC (gc_contract_db G)) (\<lambda>ch.
       Ret (\<lparr>hd_block_number = bc_block_number B, prev_header_hash = prev, hd_tx_set_hash = sh, modified_keys_hash = lh,
             hd_state_db_hash = dh, hd_contract_db_hash = ch\<rparr>, G\<lparr>gc_state_db := db\<rparr>)))))"

definition try_exec_tx_block :: "nat \<Rightarrow> ('c, 'db, 's, 'l) vm_ops \<Rightarrow> ('c, 'r) exec_env \<Rightarrow> nat \<Rightarrow> (SignedTransaction \<Rightarrow> Hash) \<Rightarrow> (BlockHeader \<Rightarrow> Hash) \<Rightarrow>
    (Block \<Rightarrow> Block list) \<Rightarrow> Block \<Rightarrow> uid \<Rightarrow> ('c, 'db, 's, 'l) VirtualMachine \<Rightarrow> (BlockHeader option \<times> ('c, 'db, 's, 'l) VirtualMachine \<times> uid) outcome" where
  "try_exec_tx_block fuel vo env tid hsx hbx split block u vm =
     obind (assert_initialized vm) (\<lambda>B.
     obind (validate_tx_block fuel vo env tid hsx split block (global_context vm, B, u)) (\<lambda>(res, G1, B1, u1).
       if \<not> res
       then obind (vo_undo vo G1 B1) (\<lambda>(G2, B2).
              Ret (None, vm\<lparr>global_context := G2, current_block_context := Some (advance_block_number vo B2)\<rparr>, u1))
       else obind (vo_finish vo tid G1 B1) (\<lambda>(G2, B2).
            obind (make_block_header vo (env_kv env) (prev_block_hash vm) G2 B2) (\<lambda>(out, G3).
              Ret (Some out, vm\<lparr>global_context := G3, prev_block_hash := hbx out,
                                 current_block_context := Some (advance_block_number vo B2)\<rparr>, u1)))))"

section \<open>The executions of a block\<close>

definition block_execs :: "(SignedTransaction \<Rightarrow> Hash) \<Rightarrow> Block \<Rightarrow> addition list" where
  "block_execs hsx block = concat (map (\<lambda>(tx, rs). map (\<lambda>r. (hsx tx, tx, r)) rs) block)"

text \<open>
  The states a machine may reach while it executes the given transactions: each is executed at most once, in any
  order. The list holds the successful ones.
\<close>

inductive exec_reach :: "'st exec_fn \<Rightarrow> addition multiset \<Rightarrow> 'st \<Rightarrow> addition multiset \<Rightarrow> addition list \<Rightarrow> 'st \<Rightarrow> bool"
  for exec X0 st0 where
  reach_start: "exec_reach exec X0 st0 X0 [] st0"
| reach_exec: "exec_reach exec X0 st0 (add_mset (h, tx, r) X) S st \<Longrightarrow> exec h tx r st = Ret (status, st') \<Longrightarrow>
    exec_reach exec X0 st0 X (if status = SUCCESS then S @ [(h, tx, r)] else S) st'"
| reach_skip: "exec_reach exec X0 st0 (add_mset x X) S st \<Longrightarrow> exec_reach exec X0 st0 X S st"

lemma reach_skips: "exec_reach exec X0 st0 (Y + X) S st \<Longrightarrow> exec_reach exec X0 st0 X S st"
  by (induction Y arbitrary: X) (auto intro: reach_skip)

lemma reach_subset: "exec_reach exec X0 st0 X S st \<Longrightarrow> X + mset S \<subseteq># X0"
proof (induction rule: exec_reach.induct)
  case (reach_exec h tx r X S st status st')
  have "add_mset (h, tx, r) (X + mset S) \<subseteq># X0" using reach_exec.IH by simp
  then show ?case using subset_mset.less_imp_le[OF mset_subset_eq_insertD[THEN conjunct2]] by (auto dest: mset_subset_eq_insertD)
next
  case (reach_skip x X S st)
  then show ?case by (metis mset_subset_eq_insertD subset_mset.less_imp_le union_mset_add_mset_left)
qed simp

lemma reach_full:
  assumes "exec_reach exec X0 st0 X S st" "size X = size X0"
  shows "X = X0 \<and> st = st0"
  using assms
proof (induction rule: exec_reach.induct)
  case (reach_exec h tx r X S st status st')
  then show ?case using size_mset_mono[OF reach_subset[OF reach_exec.hyps(1)]] by simp
next
  case (reach_skip x X S st)
  then show ?case using size_mset_mono[OF reach_subset[OF reach_skip.hyps(1)]] by simp
qed simp

lemma reach_single:
  "exec_reach exec {#(h, tx, r)#} st0 X S st \<Longrightarrow> st = st0 \<or> (\<exists>status. exec h tx r st0 = Ret (status, st))"
proof (induction rule: exec_reach.induct)
  case (reach_exec h' tx' r' X S st status st')
  have "size (add_mset (h', tx', r') X) \<le> 1" using size_mset_mono[OF reach_subset[OF reach_exec.hyps(1)]] by simp
  then show ?case using reach_full[OF reach_exec.hyps(1)] reach_exec.hyps(2) by auto
qed simp_all

text \<open>No execution of the block throws, in any state the block may reach.\<close>

definition progress :: "'st exec_fn \<Rightarrow> addition multiset \<Rightarrow> 'st \<Rightarrow> bool" where
  "progress exec X0 st0 \<longleftrightarrow> (\<forall>h tx r X S st. exec_reach exec X0 st0 (add_mset (h, tx, r) X) S st \<longrightarrow>
     (\<exists>status st'. exec h tx r st = Ret (status, st')))"

lemma validate_results_reach:
  assumes "progress exec X0 st0" "exec_reach exec X0 st0 (mset (map (\<lambda>r. (h, tx, r)) rs) + X) S st"
  shows "\<exists>b S' st'. validate_results exec h tx rs st = Ret (b, st') \<and> exec_reach exec X0 st0 X S' st' \<and>
     (\<not> b \<longrightarrow> S' = S @ map (\<lambda>r. (h, tx, r)) rs)"
  using assms(2)
proof (induction rs arbitrary: S st)
  case (Cons r rs)
  let ?Y = "mset (map (\<lambda>r. (h, tx, r)) rs) + X"
  have e: "exec_reach exec X0 st0 (add_mset (h, tx, r) ?Y) S st" using Cons.prems by simp
  with assms(1) obtain status st' where st': "exec h tx r st = Ret (status, st')" unfolding progress_def by blast
  note n = reach_exec[OF e st']
  show ?case
  proof (cases "status = SUCCESS")
    case True
    then have "exec_reach exec X0 st0 ?Y (S @ [(h, tx, r)]) st'" using n by simp
    from Cons.IH[OF this] show ?thesis using st' True by auto
  next
    case False
    then have "exec_reach exec X0 st0 X S st'" using n by (auto intro: reach_skips)
    then show ?thesis using st' False by auto
  qed
qed auto

lemma validate_entries_reach:
  assumes "progress exec X0 st0" "exec_reach exec X0 st0 (mset (block_execs hsx es) + X) S st"
  shows "\<exists>b S' st'. validate_entries exec hsx es err st = Ret (b, st') \<and> exec_reach exec X0 st0 X S' st' \<and>
     (\<not> b \<longrightarrow> \<not> err \<and> S' = S @ block_execs hsx es)"
  using assms(2)
proof (induction es arbitrary: S st err)
  case (Cons e es)
  obtain tx rs where e: "e = (tx, rs)" by force
  have "exec_reach exec X0 st0 (mset (map (\<lambda>r. (hsx tx, tx, r)) rs) + (mset (block_execs hsx es) + X)) S st"
    using Cons.prems by (simp add: block_execs_def e union_assoc)
  from validate_results_reach[OF assms(1) this] obtain b S' st' where
    1: "validate_results exec (hsx tx) tx rs st = Ret (b, st')" "exec_reach exec X0 st0 (mset (block_execs hsx es) + X) S' st'"
      "\<not> b \<longrightarrow> S' = S @ map (\<lambda>r. (hsx tx, tx, r)) rs" by blast
  from Cons.IH[OF 1(2), of "err \<or> b"] obtain b2 S2 st2 where
    2: "validate_entries exec hsx es (err \<or> b) st' = Ret (b2, st2)" "exec_reach exec X0 st0 X S2 st2"
      "\<not> b2 \<longrightarrow> \<not> (err \<or> b) \<and> S2 = S' @ block_execs hsx es" by blast
  show ?case using 1 2 by (auto simp: e block_execs_def)
qed (auto simp: block_execs_def)

lemma parallel_reduce_reach:
  assumes "progress exec X0 st0" "exec_reach exec X0 st0 (mset (block_execs hsx (concat rs)) + X) S st"
  shows "\<exists>b S' st'. parallel_reduce exec hsx rs err st = Ret (b, st') \<and> exec_reach exec X0 st0 X S' st' \<and>
     (\<not> b \<longrightarrow> \<not> err \<and> S' = S @ block_execs hsx (concat rs))"
  using assms(2)
proof (induction rs arbitrary: S st err)
  case (Cons r rs)
  have split: "block_execs hsx (concat (r # rs)) = block_execs hsx r @ block_execs hsx (concat rs)" by (simp add: block_execs_def)
  have prem: "exec_reach exec X0 st0 (mset (block_execs hsx r) + (mset (block_execs hsx (concat rs)) + X)) S st"
    using Cons.prems unfolding split by (simp add: union_assoc)
  show ?case
  proof (cases err)
    case True
    then show ?thesis using Cons.IH[OF reach_skips[OF prem], of True] by (auto simp: validate_reduce_def)
  next
    case False
    from validate_entries_reach[OF assms(1) prem, of False] obtain b S' st' where
      1: "validate_entries exec hsx r False st = Ret (b, st')" "exec_reach exec X0 st0 (mset (block_execs hsx (concat rs)) + X) S' st'"
        "\<not> b \<longrightarrow> S' = S @ block_execs hsx r" by blast
    from Cons.IH[OF 1(2), of b] obtain b2 S2 st2 where
      2: "parallel_reduce exec hsx rs b st' = Ret (b2, st2)" "exec_reach exec X0 st0 X S2 st2"
        "\<not> b2 \<longrightarrow> \<not> b \<and> S2 = S' @ block_execs hsx (concat rs)" by blast
    show ?thesis unfolding split using 1 2 False by (auto simp: validate_reduce_def)
  qed
qed (auto simp: block_execs_def)

definition one_tx_per_hash :: "addition multiset \<Rightarrow> bool" where
  "one_tx_per_hash X \<longleftrightarrow> (\<forall>h tx r tx' r'. (h, tx, r) \<in># X \<longrightarrow> (h, tx', r') \<in># X \<longrightarrow> tx = tx')"

text \<open>Every execution ends cleanly, in every state the block may reach.\<close>

definition clean_block :: "nat \<Rightarrow> ('db, 's, 'l) context_ops \<Rightarrow> ('c, 'r) exec_env \<Rightarrow> nat \<Rightarrow> addition multiset \<Rightarrow>
    ('c, 'db) GlobalContext \<times> ('s, 'l) BlockContext \<times> uid \<Rightarrow> bool" where
  "clean_block fuel ops env tid X0 st0 \<longleftrightarrow> (\<forall>h tx r X S G B u.
     exec_reach (vm_exec fuel ops env tid) X0 st0 (add_mset (h, tx, r) X) S (G, B, u) \<longrightarrow>
     clean_run no_live (gc_contract_db G) (run_tx fuel ops env h tx G B (Some r)))"

text \<open>The contracts of the block can be registered, whichever of its transactions succeed.\<close>

definition contracts_commit :: "nat \<Rightarrow> ('db, 's, 'l) context_ops \<Rightarrow> ('c, 'r) exec_env \<Rightarrow> nat \<Rightarrow> addition multiset \<Rightarrow>
    ('c, 'db) GlobalContext \<times> ('s, 'l) BlockContext \<times> uid \<Rightarrow> bool" where
  "contracts_commit fuel ops env tid X0 st0 \<longleftrightarrow> (\<forall>S G B u. exec_reach (vm_exec fuel ops env tid) X0 st0 {#} S (G, B, u) \<longrightarrow>
     (\<exists>cdb. contract_db_commit (env_kv env) tid (ucast (bc_block_number B)) (gc_contract_db G) = Ret cdb))"

lemma commit_txs_snoc: "commit_txs tid (pxs @ [px]) db = obind (commit_txs tid pxs db) (commit_tx_contracts tid px)"
proof (induction pxs arbitrary: db)
  case Nil
  then show ?case by (cases "commit_tx_contracts tid px db") simp_all
next
  case (Cons p pxs)
  then show ?case by (cases "commit_tx_contracts tid p db") simp_all
qed

lemma add_commits_append: "add_commits C (xs @ ys) = add_commits (add_commits C xs) ys"
  by (rule ext) (simp add: add_commits_def)

lemma serial_deltas_snoc: "serial_deltas (sps @ [sp]) = add_commits (serial_deltas sps) (proxy_deltas (cache sp))"
  by (simp add: serial_deltas_def add_commits_append)

lemma serial_deltas_small:
  assumes "\<forall>sp \<in> set sps. room_for no_live (proxy_deltas (cache sp))" "length sps < 2 ^ 23"
  shows "small_block (serial_deltas sps)"
proof -
  have "length (serial_deltas sps k) \<le> 255 * length sps" for k
    using assms(1)
  proof (induction sps rule: rev_induct)
    case (snoc sp sps)
    then have "length (filter (\<lambda>x. fst x = k) (proxy_deltas (cache sp))) \<le> 255" by (auto simp: room_for_def no_live_def)
    then show ?case using snoc by (simp add: serial_deltas_snoc add_commits_def)
  qed (simp add: serial_deltas_def no_commits_def)
  moreover have "255 * length sps < 2 ^ 31" using assms(2) by simp
  ultimately have "length (serial_deltas sps k) < 2 ^ 31" for k by (rule order.strict_trans1)
  then show ?thesis by (simp add: small_block_def)
qed

context exec_contexts
begin

text \<open>The state of a block in which the contexts \<open>tcs\<close> have committed.\<close>

definition block_progress :: "ledger \<Rightarrow> addition multiset \<Rightarrow> nat \<Rightarrow> ('t, 'a) GlobalContext \<Rightarrow> ('s, 'l) BlockContext \<Rightarrow> TransactionContext list \<Rightarrow>
    ('t, 'a) GlobalContext \<Rightarrow> ('s, 'l) BlockContext \<Rightarrow> uid \<Rightarrow> bool" where
  "block_progress m X0 tid G0 B0 tcs G B u \<longleftrightarrow>
     contexts_ok m no_live (serial_deltas (map storage_proxy tcs)) u G B \<and> bc_block_number B = bc_block_number B0 \<and>
     (\<forall>tc \<in> set tcs. storage_reach m (storage_proxy tc) \<and> proxy_ok (contract_db_proxy tc) \<and>
        room_for no_live (proxy_deltas (cache (storage_proxy tc))) \<and> (\<forall>k \<in> written_keys (storage_proxy tc). known k (gc_state_db G))) \<and>
     keys_of (bc_modified_keys_list B) = (\<Union>tc \<in> set tcs. touch (storage_proxy tc)) \<and>
     commit_txs tid (map contract_db_proxy tcs) (gc_contract_db G0) = Ret (gc_contract_db G) \<and>
     (\<forall>h e. entry (bc_tx_set B) h = Some e \<longrightarrow> (\<exists>tx r. (h, tx, r) \<in># X0 \<and> entry_tx e = Some tx))"

lemma block_progress_step:
  assumes bp: "block_progress m X0 tid G0 B0 tcs G B u" and x: "(h, tx, r) \<in># X0" and X0: "one_tx_per_hash X0"
    and run: "clean_run no_live (gc_contract_db G) (run_tx fuel ops env h tx G B (Some r))"
  shows "\<exists>status G' B' u'. vm_exec fuel ops env tid h tx r (G, B, u) = Ret (status, G', B', u') \<and>
     (if status = SUCCESS then \<exists>tc. block_progress m X0 tid G0 B0 (tcs @ [tc]) G' B' u' else block_progress m X0 tid G0 B0 tcs G' B' u')"
proof -
  let ?C = "serial_deltas (map storage_proxy tcs)"
  have ok: "contexts_ok m no_live ?C u G B" using bp by (simp add: block_progress_def)
  have same: "same_tx tx (entry (bc_tx_set B) h)" unfolding same_tx_def
  proof (intro allI impI)
    fix e
    assume "entry (bc_tx_set B) h = Some e"
    then obtain tx' r' where "(h, tx', r') \<in># X0" "entry_tx e = Some tx'" using bp unfolding block_progress_def by blast
    then show "entry_tx e = Some tx" using x X0 unfolding one_tx_per_hash_def by metis
  qed
  have idle: "tx_context execution_context_new = None" by (simp add: execution_context_new_def)
  from execute_ok[OF ok idle run same, of tid] obtain status G' B' u' where
    e: "execute fuel ops env tid u h tx G B (Some r) execution_context_new = Ret (status, G', B', u', execution_context_new)"
      "\<exists>C'. contexts_ok m no_live C' u' G' B'" "bc_block_number B' = bc_block_number B" "\<forall>k. known k (gc_state_db G) \<longrightarrow> known k (gc_state_db G')"
      "if status = SUCCESS then \<exists>st. run_tx fuel ops env h tx G B (Some r) = Ret ((), st) \<and> storage_reach m (storage_proxy (ctx st)) \<and>
            proxy_ok (contract_db_proxy (ctx st)) \<and> committed_by m no_live ?C tid h tx (ctx st) G B G' B'
       else unchanged_by m no_live ?C G B G' B'" by blast
  have v: "vm_exec fuel ops env tid h tx r (G, B, u) = Ret (status, G', B', u')" by (simp add: vm_exec_def e(1))
  show ?thesis
  proof (cases "status = SUCCESS")
    case True
    then obtain st where st: "run_tx fuel ops env h tx G B (Some r) = Ret ((), st)" "storage_reach m (storage_proxy (ctx st))"
      "proxy_ok (contract_db_proxy (ctx st))" "committed_by m no_live ?C tid h tx (ctx st) G B G' B'" using e(5) by auto
    have "room_for no_live (proxy_deltas (cache (storage_proxy (ctx st))))" using run st(1) by (simp add: clean_run_def)
    moreover have "contexts_ok m no_live (serial_deltas (map storage_proxy (tcs @ [ctx st]))) u' G' B'"
      using e(2) st(4) by (auto simp: contexts_ok_def committed_by_def serial_deltas_snoc)
    moreover have "\<exists>tx r. (h', tx, r) \<in># X0 \<and> entry_tx e' = Some tx" if "entry (bc_tx_set B') h' = Some e'" for h' e'
    proof (cases "h' = h")
      case True
      then have "e' = add_result tx (rpc_results (results (tx_results (ctx st)))) (entry (bc_tx_set B) h)"
        using that st(4) by (simp add: committed_by_def)
      then have "entry_tx e' = Some tx" using same by (auto simp: add_result_def same_tx_def split: option.splits)
      then show ?thesis using x True by blast
    next
      case False
      then show ?thesis using that st(4) bp by (simp add: committed_by_def block_progress_def)
    qed
    ultimately have "block_progress m X0 tid G0 B0 (tcs @ [ctx st]) G' B' u'"
      using bp st(2-4) e(3,4) by (auto simp: block_progress_def committed_by_def commit_txs_snoc)
    then show ?thesis using v True by auto
  next
    case False
    then have "block_progress m X0 tid G0 B0 tcs G' B' u'"
      using bp e(2-5) by (auto simp: block_progress_def unchanged_by_def contexts_ok_def)
    then show ?thesis using v False by auto
  qed
qed

lemma exec_reach_progress:
  assumes bp: "block_progress m X0 tid G0 B0 [] G0 B0 u0" and X0: "one_tx_per_hash X0" and clean: "clean_block fuel ops env tid X0 (G0, B0, u0)"
    and reach: "exec_reach (vm_exec fuel ops env tid) X0 (G0, B0, u0) X S (G, B, u)"
  shows "\<exists>tcs. length tcs = length S \<and> block_progress m X0 tid G0 B0 tcs G B u"
  using reach
proof (induction X S "(G, B, u)" arbitrary: G B u rule: exec_reach.induct)
  case reach_start
  then show ?case using bp by (intro exI[of _ "[]"]) simp
next
  case (reach_exec h tx r X S st status)
  obtain G1 B1 u1 where st: "st = (G1, B1, u1)" by (cases st) auto
  obtain tcs where tcs: "length tcs = length S" "block_progress m X0 tid G0 B0 tcs G1 B1 u1" using reach_exec.hyps(2)[OF st] by blast
  have "(h, tx, r) \<in># X0" using reach_subset[OF reach_exec.hyps(1)] by (auto dest!: mset_subset_eqD)
  moreover have "clean_run no_live (gc_contract_db G1) (run_tx fuel ops env h tx G1 B1 (Some r))"
    using clean reach_exec.hyps(1) unfolding clean_block_def st by blast
  ultimately have "if status = SUCCESS then \<exists>tc. block_progress m X0 tid G0 B0 (tcs @ [tc]) G B u else block_progress m X0 tid G0 B0 tcs G B u"
    using block_progress_step[OF tcs(2) _ X0, of h tx r fuel env] reach_exec.hyps(3) unfolding st by auto
  then show ?case
  proof (cases "status = SUCCESS")
    case True
    with \<open>if status = SUCCESS then _ else _\<close> obtain tc where "block_progress m X0 tid G0 B0 (tcs @ [tc]) G B u" by auto
    then show ?thesis using True tcs(1) by (intro exI[of _ "tcs @ [tc]"]) simp
  next
    case False
    then show ?thesis using \<open>if status = SUCCESS then _ else _\<close> tcs(1) by (intro exI[of _ tcs]) simp
  qed
next
  case (reach_skip x X S)
  then show ?case by blast
qed

lemma clean_block_progress:
  assumes "block_progress m X0 tid G0 B0 [] G0 B0 u0" "one_tx_per_hash X0" "clean_block fuel ops env tid X0 (G0, B0, u0)"
  shows "progress (vm_exec fuel ops env tid) X0 (G0, B0, u0)"
  unfolding progress_def
proof (intro allI impI)
  fix h tx r X S st
  assume reach: "exec_reach (vm_exec fuel ops env tid) X0 (G0, B0, u0) (add_mset (h, tx, r) X) S st"
  obtain G B u where st: "st = (G, B, u)" by (cases st) auto
  obtain tcs where "block_progress m X0 tid G0 B0 tcs G B u" using exec_reach_progress[OF assms reach[unfolded st]] by blast
  moreover have "(h, tx, r) \<in># X0" using reach_subset[OF reach] by (auto dest!: mset_subset_eqD)
  moreover have "clean_run no_live (gc_contract_db G) (run_tx fuel ops env h tx G B (Some r))"
    using assms(3) reach unfolding clean_block_def st by blast
  ultimately show "\<exists>status st'. vm_exec fuel ops env tid h tx r st = Ret (status, st')"
    using block_progress_step[OF _ _ assms(2), of m tid G0 B0 tcs G B u h tx r fuel env] unfolding st by blast
qed

text \<open>A block of one transaction that creates no contract meets the conditions of a block.\<close>

lemma single_block:
  assumes "contexts_ok m no_live no_commits u G B" "same_tx tx (entry (bc_tx_set B) h)" "uncommitted_contracts (gc_contract_db G) = uncommitted_new"
    "run_tx fuel ops env h tx G B (Some r) = Ret ((), st)" "contract_db_proxy (ctx st) = contract_proxy_new"
    "clean_run no_live (gc_contract_db G) (run_tx fuel ops env h tx G B (Some r))"
  shows "clean_block fuel ops env tid {#(h, tx, r)#} (G, B, u)" "contracts_commit fuel ops env tid {#(h, tx, r)#} (G, B, u)"
proof -
  let ?exec = "vm_exec fuel ops env tid"
  show "clean_block fuel ops env tid {#(h, tx, r)#} (G, B, u)" unfolding clean_block_def
  proof (intro allI impI)
    fix h' tx' r' X S G1 B1 u1
    assume reach: "exec_reach ?exec {#(h, tx, r)#} (G, B, u) (add_mset (h', tx', r') X) S (G1, B1, u1)"
    have "size (add_mset (h', tx', r') X) \<le> 1" using size_mset_mono[OF reach_subset[OF reach]] by simp
    then show "clean_run no_live (gc_contract_db G1) (run_tx fuel ops env h' tx' G1 B1 (Some r'))"
      using reach_full[OF reach] assms(6) by auto
  qed
  have same: "gc_contract_db G1 = gc_contract_db G" if "?exec h tx r (G, B, u) = Ret (status, G1, B1, u1)" for status G1 B1 u1
  proof -
    have "tx_context execution_context_new = None" by (simp add: execution_context_new_def)
    from execute_ok[OF assms(1) this assms(6,2), of tid] obtain status' G' B' u' where
      e: "execute fuel ops env tid u h tx G B (Some r) execution_context_new = Ret (status', G', B', u', execution_context_new)"
        "if status' = SUCCESS then \<exists>st. run_tx fuel ops env h tx G B (Some r) = Ret ((), st) \<and> storage_reach m (storage_proxy (ctx st)) \<and>
            proxy_ok (contract_db_proxy (ctx st)) \<and> committed_by m no_live no_commits tid h tx (ctx st) G B G' B'
         else unchanged_by m no_live no_commits G B G' B'" by blast
    have "G1 = G'" using that e(1) by (simp add: vm_exec_def)
    moreover have "commit_tx_contracts tid contract_proxy_new (gc_contract_db G) = Ret (gc_contract_db G)"
      by (simp add: contract_proxy_new_def commit_tx_contracts_def push_updates_to_db_def contract_assert_not_committed_def
          contract_rewind_commit_def contract_rewind_destroy_def)
    ultimately show ?thesis using e(2) assms(4,5) by (cases "status' = SUCCESS") (auto simp: unchanged_by_def committed_by_def)
  qed
  have "\<exists>cdb. contract_db_commit (env_kv env) tid n (gc_contract_db G) = Ret cdb" for n
    by (simp add: contract_db_commit_def uc_commit_def assms(3) uncommitted_new_def)
  then show "contracts_commit fuel ops env tid {#(h, tx, r)#} (G, B, u)"
    unfolding contracts_commit_def using same reach_single[of ?exec h tx r "(G, B, u)" "{#}"] by (metis prod.inject)
qed

end

section \<open>A machine on its contexts\<close>

locale vm_contexts = exec_contexts +
  fixes vo :: "('d, 'a, 'b, 'c) vm_ops" and KC :: "(Address, metered, 'd) kv_ops"
  assumes vo_ctx: "vo_ctx vo = ops"
    and finish_law: "inv m no_live C (gc_state_db G) \<Longrightarrow> set_open (bc_tx_set B) \<Longrightarrow> log_open (bc_modified_keys_list B) \<Longrightarrow> small_block C \<Longrightarrow>
      \<forall>k. C k \<noteq> [] \<longrightarrow> k \<in> keys_of (bc_modified_keys_list B) \<Longrightarrow> \<forall>k \<in> keys_of (bc_modified_keys_list B). known k (gc_state_db G) \<Longrightarrow>
      contract_db_commit KC tid (ucast (bc_block_number B)) (gc_contract_db G) = Ret cdb \<Longrightarrow>
      \<exists>db B' sh lh dh db'. vo_finish vo tid G B = Ret (G\<lparr>gc_contract_db := cdb, gc_state_db := db\<rparr>, B') \<and>
        bc_block_number B' = bc_block_number B \<and> vo_set_hash vo (bc_tx_set B') = Ret sh \<and> vo_log_hash vo (bc_modified_keys_list B') = Ret lh \<and>
        vo_db_hash vo db = Ret (dh, db') \<and> inv (ledger_after m C) no_live no_commits db'"
    and undo_law: "inv m no_live C (gc_state_db G) \<Longrightarrow> log_open (bc_modified_keys_list B) \<Longrightarrow>
      \<forall>k. C k \<noteq> [] \<longrightarrow> k \<in> keys_of (bc_modified_keys_list B) \<Longrightarrow> \<forall>k \<in> keys_of (bc_modified_keys_list B). known k (gc_state_db G) \<Longrightarrow>
      \<exists>db B'. vo_undo vo G B = Ret (G\<lparr>gc_contract_db := contract_db_rewind (gc_contract_db G), gc_state_db := db\<rparr>, B') \<and>
        bc_block_number B' = bc_block_number B \<and> inv m no_live no_commits db"
begin

text \<open>A block about to start.\<close>

definition fresh_block :: "('b, 'c) BlockContext \<Rightarrow> bool" where
  "fresh_block B \<longleftrightarrow> set_open (bc_tx_set B) \<and> (\<forall>h. entry (bc_tx_set B) h = None) \<and> log_open (bc_modified_keys_list B) \<and>
     keys_of (bc_modified_keys_list B) = {}"

definition vm_ready :: "ledger \<Rightarrow> uid \<Rightarrow> ('d, 'a, 'b, 'c) VirtualMachine \<Rightarrow> ('b, 'c) BlockContext \<Rightarrow> bool" where
  "vm_ready m u vm B \<longleftrightarrow> current_block_context vm = Some B \<and> fresh_block B \<and> inv m no_live no_commits (gc_state_db (global_context vm)) \<and>
     uid_ok u \<and> uncommitted_contracts (gc_contract_db (global_context vm)) = uncommitted_new"

lemma fresh_advance: "tries_ok \<Longrightarrow> fresh_block (advance_block_number vo B) \<and> bc_block_number (advance_block_number vo B) = bc_block_number B + 1"
  using clear_law by (simp add: fresh_block_def advance_block_number_def reset_context_def vo_ctx)

lemma vm_ready_progress: "vm_ready m u vm B \<Longrightarrow> block_progress m X0 tid (global_context vm) B [] (global_context vm) B u"
  by (simp add: vm_ready_def fresh_block_def block_progress_def contexts_ok_def uncommitted_new_def uc_ok_def serial_deltas_def omap_ok_def)

lemma progress_keys:
  assumes "block_progress m X0 tid G0 B0 tcs G B u"
  shows "\<forall>k. serial_deltas (map storage_proxy tcs) k \<noteq> [] \<longrightarrow> k \<in> keys_of (bc_modified_keys_list B)"
proof (intro allI impI)
  fix k
  assume "serial_deltas (map storage_proxy tcs) k \<noteq> []"
  then obtain tc where "tc \<in> set tcs" "k \<in> written_keys (storage_proxy tc)"
    by (force simp: serial_deltas_def add_commits_def no_commits_def filter_empty_conv written_keys_def)
  then show "k \<in> keys_of (bc_modified_keys_list B)" using assms touch_law(1) by (auto simp: block_progress_def)
qed

lemma try_exec_ok:
  assumes ready: "vm_ready m u vm B" and tries: "tries_ok" and kc: "env_kv env = KC"
    and split: "concat (split block) = block" and one: "one_tx_per_hash (mset (block_execs hsx block))"
    and few: "length (block_execs hsx block) < 2 ^ 23"
    and clean: "clean_block fuel ops env tid (mset (block_execs hsx block)) (global_context vm, B, u)"
    and keys: "\<forall>tcs G1 B1 u1. block_progress m (mset (block_execs hsx block)) tid (global_context vm) B tcs G1 B1 u1 \<longrightarrow>
       (\<forall>k \<in> keys_of (bc_modified_keys_list B1). known k (gc_state_db G1))"
    and contracts: "contracts_commit fuel ops env tid (mset (block_execs hsx block)) (global_context vm, B, u)"
  shows "\<exists>res vm' u' B'. try_exec_tx_block fuel vo env tid hsx hbx split block u vm = Ret (res, vm', u') \<and>
     current_block_context vm' = Some B' \<and> bc_block_number B' = bc_block_number B + 1 \<and> fresh_block B' \<and> uid_ok u' \<and>
     (case res of
        None \<Rightarrow> prev_block_hash vm' = prev_block_hash vm \<and> inv m no_live no_commits (gc_state_db (global_context vm')) \<and>
          addresses_to_contracts_map (gc_contract_db (global_context vm')) = addresses_to_contracts_map (gc_contract_db (global_context vm)) \<and>
          hashes_to_contracts_map (gc_contract_db (global_context vm')) = hashes_to_contracts_map (gc_contract_db (global_context vm))
      | Some out \<Rightarrow> hd_block_number out = bc_block_number B \<and> prev_header_hash out = prev_block_hash vm \<and> prev_block_hash vm' = hbx out \<and>
          (\<exists>(tcs :: TransactionContext list) cdb. length tcs = length (block_execs hsx block) \<and> (\<forall>tc \<in> set tcs. storage_reach m (storage_proxy tc)) \<and>
             inv (serial_ledger m (map storage_proxy tcs)) no_live no_commits (gc_state_db (global_context vm')) \<and>
             commit_txs tid (map contract_db_proxy tcs) (gc_contract_db (global_context vm)) = Ret cdb \<and>
             contract_db_commit KC tid (ucast (bc_block_number B)) cdb = Ret (gc_contract_db (global_context vm'))))"
proof -
  let ?X = "mset (block_execs hsx block)" and ?G = "global_context vm" and ?exec = "vm_exec fuel ops env tid"
  note bp = vm_ready_progress[OF ready, of ?X tid]
  note prog = clean_block_progress[OF bp one clean]
  have "exec_reach ?exec ?X (?G, B, u) (mset (block_execs hsx (concat (split block))) + {#}) [] (?G, B, u)"
    by (simp add: assms(4) reach_start)
  from parallel_reduce_reach[OF prog this, of False] obtain b S G1 B1 u1 where
    r: "parallel_reduce ?exec hsx (split block) False (?G, B, u) = Ret (b, G1, B1, u1)" "exec_reach ?exec ?X (?G, B, u) {#} S (G1, B1, u1)"
      "\<not> b \<longrightarrow> S = block_execs hsx block" by (auto simp: assms(4))
  from exec_reach_progress[OF bp one clean r(2)] obtain tcs where tcs: "length tcs = length S" "block_progress m ?X tid ?G B tcs G1 B1 u1" by blast
  note t = tcs(2)[unfolded block_progress_def contexts_ok_def]
  have v: "validate_tx_block fuel vo env tid hsx split block (?G, B, u) = Ret (\<not> b, G1, B1, u1)" by (simp add: validate_tx_block_def vo_ctx r(1))
  have init: "assert_initialized vm = Ret B" using ready by (simp add: assert_initialized_def vm_ready_def)
  let ?C = "serial_deltas (map storage_proxy tcs)"
  have logged: "\<forall>k \<in> keys_of (bc_modified_keys_list B1). known k (gc_state_db G1)" using keys tcs(2) by blast
  show ?thesis
  proof (cases b)
    case True
    obtain db B2 where un: "vo_undo vo G1 B1 = Ret (G1\<lparr>gc_contract_db := contract_db_rewind (gc_contract_db G1), gc_state_db := db\<rparr>, B2)"
      "bc_block_number B2 = bc_block_number B1" "inv m no_live no_commits db"
      using undo_law[of m ?C G1 B1] t progress_keys[OF tcs(2)] logged by blast
    then show ?thesis using v True init t fresh_advance[OF tries, of B2] commit_txs_frame[of tid "map contract_db_proxy tcs" "gc_contract_db ?G" "gc_contract_db G1"]
      by (simp add: try_exec_tx_block_def contract_db_rewind_def)
  next
    case False
    have len: "length tcs = length (block_execs hsx block)" using tcs(1) r(3) False by simp
    have "small_block ?C" using t few len by (intro serial_deltas_small) auto
    moreover obtain cdb where cdb: "contract_db_commit KC tid (ucast (bc_block_number B)) (gc_contract_db G1) = Ret cdb"
      using contracts r(2) t unfolding contracts_commit_def kc by metis
    ultimately obtain db B2 sh lh dh db' where f: "vo_finish vo tid G1 B1 = Ret (G1\<lparr>gc_contract_db := cdb, gc_state_db := db\<rparr>, B2)"
        "bc_block_number B2 = bc_block_number B1" "vo_set_hash vo (bc_tx_set B2) = Ret sh" "vo_log_hash vo (bc_modified_keys_list B2) = Ret lh"
        "vo_db_hash vo db = Ret (dh, db')" "inv (ledger_after m ?C) no_live no_commits db'"
      using finish_law[of m ?C G1 B1 tid cdb] t progress_keys[OF tcs(2)] logged by metis
    have ch: "contract_db_hash KC cdb = Ret (kv_hash KC (addresses_to_contracts_map cdb))"
      using cdb by (auto simp: contract_db_commit_def contract_db_hash_def outcome_simps)
    show ?thesis using v False init t f fresh_advance[OF tries, of B2] ch kc cdb len
      by (auto simp: try_exec_tx_block_def make_block_header_def serial_ledger_def intro!: exI[of _ tcs])
  qed
qed

end

section \<open>The three machines\<close>

definition virtual_machine_ops :: "'t trie_ops \<Rightarrow> (Hash \<Rightarrow> uint64) \<Rightarrow> (AddressAndKey \<Rightarrow> uint64) \<Rightarrow> ('t \<Rightarrow> Hash) \<Rightarrow> 's tx_trie \<Rightarrow>
    (AddressAndKey, unit, 'k) kv_ops \<Rightarrow> (Address, metered, 'c) kv_ops \<Rightarrow> ('c, 't StateDB, 's TxSet, 'k ModifiedKeysList) vm_ops" where
  "virtual_machine_ops T sh kh root_hash KS KL KC =
     \<lparr>vo_ctx = vm_context_ops T sh KS KL, vo_finish = phase_finish_block T kh KL KC, vo_undo = phase_undo_block T kh KL,
      vo_set_hash = tx_set_hash KS, vo_log_hash = mkl_hash KL, vo_db_hash = state_db_hash T root_hash\<rparr>"

definition groundhog_machine_ops :: "'t trie_ops \<Rightarrow> (Hash \<Rightarrow> uint64) \<Rightarrow> ('t \<Rightarrow> Hash) \<Rightarrow> 's tx_trie \<Rightarrow>
    (AddressAndKey, unit, 'k) kv_ops \<Rightarrow> (Address, metered, 'c) kv_ops \<Rightarrow> ('c, 't PersistentStateDB, 's TxSet, 'k ModifiedKeysList) vm_ops" where
  "groundhog_machine_ops T sh root_hash KS KL KC =
     \<lparr>vo_ctx = groundhog_context_ops T sh KS KL, vo_finish = groundhog_phase_finish_block T KL KC, vo_undo = groundhog_phase_undo_block T KL,
      vo_set_hash = tx_set_hash KS, vo_log_hash = mkl_hash KL, vo_db_hash = (\<lambda>db. Ret (groundhog_hash T root_hash db))\<rparr>"

definition sisyphus_machine_ops :: "'t trie_ops \<Rightarrow> (Hash \<Rightarrow> uint64) \<Rightarrow> (byte list \<Rightarrow> Hash) \<Rightarrow> ('t \<Rightarrow> Hash) \<Rightarrow> 's tx_trie \<Rightarrow>
    (byte list, StorageDelta, 'i) kv_ops \<Rightarrow> (Address, metered, 'c) kv_ops \<Rightarrow> ('c, 't PersistentStateDB, 's TxSet, 'i) vm_ops" where
  "sisyphus_machine_ops T sh hr root_hash KS KI KC =
     \<lparr>vo_ctx = sisyphus_context_ops T sh hr KS KI, vo_finish = sisyphus_phase_finish_block T KI KC, vo_undo = sisyphus_phase_undo_block T KI,
      vo_set_hash = unique_tx_set_hash KS, vo_log_hash = (\<lambda>idx. Ret (tmi_hash KI idx)), vo_db_hash = (\<lambda>db. Ret (sisyphus_hash T root_hash db))\<rparr>"

lemma state_db_hash_law:
  assumes "statedb_inv T sh m no_live no_commits db" "\<not> has_uncommitted_deltas db"
  shows "\<exists>h db'. state_db_hash T root_hash db = Ret (h, db') \<and> statedb_inv T sh m no_live no_commits db'"
proof -
  have same: "trie_get T k (hash_and_normalize T (state_db db)) = trie_get T k (state_db db)" for k
  proof (cases "trie_get T k (state_db db)")
    case None
    then show ?thesis using assms(1) unfolding statedb_inv_def trie_laws_def by (metis option.distinct(1))
  next
    case (Some ro)
    have "key_open sh (m k) {#} [] (statedb_find T k db)" "trie_get T k (state_db db) = None \<longleftrightarrow> m k = None" "trie_laws T"
      using assms(1) by (simp_all add: statedb_inv_def no_live_def no_commits_def)
    then show ?thesis using Some normalize_same[of T sh "m k" k "state_db db"] by (simp add: statedb_find_def)
  qed
  have "statedb_inv T sh m no_live no_commits (db\<lparr>state_db := hash_and_normalize T (state_db db)\<rparr>)"
    using assms(1) by (simp add: statedb_inv_def statedb_find_def same cong: option.case_cong)
  then show ?thesis using assms(2) by (simp add: state_db_hash_def Let_def)
qed

lemma merged_keys:
  assumes "key_log_open KL l"
  shows "\<exists>l' ks. merge_logs l = Ret l' \<and> get_keys KL l' = Ret ks \<and> distinct ks \<and> set ks = logged_keys KL l \<and> (\<exists>h. mkl_hash KL l' = Ret h)"
proof -
  let ?l = "l\<lparr>logs_merged := True\<rparr>"
  have K: "kv_laws KL" "merge_logs l = Ret ?l" using assms by (simp_all add: key_log_open_def mkl_defs)
  have g: "get_keys KL ?l = Ret (map fst (kv_entries KL (mk_keys l)))" by (simp add: mkl_defs)
  show ?thesis using K(2) g get_keys_logged[OF K(1) g] K(1) by (intro exI[of _ ?l] exI conjI) (auto simp: mkl_defs logged_keys_def)
qed

lemma finalized_set:
  assumes "tx_set_open KS s"
  shows "\<exists>s'. tx_set_finalize s = Ret s' \<and> (\<exists>h. tx_set_hash KS s' = Ret h)" "\<exists>s'. unique_tx_set_finalize s = Ret s' \<and> (\<exists>h. unique_tx_set_hash KS s' = Ret h)"
  using assms by (simp_all add: tx_set_open_def tx_set_finalize_def unique_tx_set_finalize_def assert_txs_not_merged_def tx_set_hash_def
      unique_tx_set_hash_def assert_txs_merged_def)

interpretation v1m: vm_contexts "statedb_inv T sh" "get_committed_value T" "try_apply_delta T sh" "statedb_rewind_commit T"
    "statedb_rewind_destroy T sh" statedb_known "commit_modifications T kh" "\<lambda>ks db. Ret (rewind_modifications T kh ks db)"
    "vm_context_ops T sh KS KL" "kv_laws KS \<and> kv_laws KL" "tx_set_open KS" "tx_entry KS" "key_log_open KL" "logged_keys KL" "\<lambda>sp. fst ` set (cache sp)"
    "virtual_machine_ops T sh kh root_hash KS KL KC" KC
  for T :: "'t trie_ops" and sh kh root_hash and KS :: "'s tx_trie" and KL :: "(AddressAndKey, unit, 'k) kv_ops" and KC :: "(Address, metered, 'c) kv_ops"
proof unfold_locales
  fix m C tid cdb and G :: "('c, 't StateDB) GlobalContext" and B :: "('s TxSet, 'k ModifiedKeysList) BlockContext"
  assume a: "statedb_inv T sh m no_live C (gc_state_db G)" "tx_set_open KS (bc_tx_set B)" "key_log_open KL (bc_modified_keys_list B)" "small_block C"
    "\<forall>k. C k \<noteq> [] \<longrightarrow> k \<in> logged_keys KL (bc_modified_keys_list B)" "contract_db_commit KC tid (ucast (bc_block_number B)) (gc_contract_db G) = Ret cdb"
  obtain s hs where s: "tx_set_finalize (bc_tx_set B) = Ret s" "tx_set_hash KS s = Ret hs" using finalized_set(1)[OF a(2)] by blast
  obtain l ks hl where l: "merge_logs (bc_modified_keys_list B) = Ret l" "get_keys KL l = Ret ks" "distinct ks"
    "set ks = logged_keys KL (bc_modified_keys_list B)" "mkl_hash KL l = Ret hl" using merged_keys[OF a(3)] by blast
  obtain db where db: "commit_modifications T kh ks (gc_state_db G) = Ret db" "statedb_inv T sh (ledger_after m C) no_live no_commits db"
    using v1.commit_block_law[of T sh m C "gc_state_db G" ks kh] a(1,4,5) l(3,4) by (auto simp: statedb_known_def)
  have "\<not> has_uncommitted_deltas db" using db(1) by (auto simp: commit_modifications_def outcome_simps)
  from state_db_hash_law[OF db(2) this, of root_hash] obtain dh db' where "state_db_hash T root_hash db = Ret (dh, db')"
    "statedb_inv T sh (ledger_after m C) no_live no_commits db'" by blast
  then show "\<exists>db B' sh' lh dh db'. vo_finish (virtual_machine_ops T sh kh root_hash KS KL KC) tid G B = Ret (G\<lparr>gc_contract_db := cdb, gc_state_db := db\<rparr>, B') \<and>
      bc_block_number B' = bc_block_number B \<and> vo_set_hash (virtual_machine_ops T sh kh root_hash KS KL KC) (bc_tx_set B') = Ret sh' \<and>
      vo_log_hash (virtual_machine_ops T sh kh root_hash KS KL KC) (bc_modified_keys_list B') = Ret lh \<and>
      vo_db_hash (virtual_machine_ops T sh kh root_hash KS KL KC) db = Ret (dh, db') \<and> statedb_inv T sh (ledger_after m C) no_live no_commits db'"
    using s l db(1) a(6) by (intro exI[of _ db]) (simp add: virtual_machine_ops_def phase_finish_block_def)
next
  fix m C and G :: "('c, 't StateDB) GlobalContext" and B :: "('s TxSet, 'k ModifiedKeysList) BlockContext"
  assume a: "statedb_inv T sh m no_live C (gc_state_db G)" "key_log_open KL (bc_modified_keys_list B)"
    "\<forall>k. C k \<noteq> [] \<longrightarrow> k \<in> logged_keys KL (bc_modified_keys_list B)"
  obtain l ks where l: "merge_logs (bc_modified_keys_list B) = Ret l" "get_keys KL l = Ret ks" "distinct ks"
    "set ks = logged_keys KL (bc_modified_keys_list B)" using merged_keys[OF a(2)] by blast
  have "statedb_inv T sh m no_live no_commits (rewind_modifications T kh ks (gc_state_db G))"
    using v1.rewind_block_law[of T sh m no_live C "gc_state_db G" ks kh] a(1,3) l(3,4) by (auto simp: statedb_known_def no_live_def)
  then show "\<exists>db B'. vo_undo (virtual_machine_ops T sh kh root_hash KS KL KC) G B =
        Ret (G\<lparr>gc_contract_db := contract_db_rewind (gc_contract_db G), gc_state_db := db\<rparr>, B') \<and>
      bc_block_number B' = bc_block_number B \<and> statedb_inv T sh m no_live no_commits db"
    using l by (intro exI[of _ "rewind_modifications T kh ks (gc_state_db G)"]) (simp add: virtual_machine_ops_def phase_undo_block_def)
qed (simp add: virtual_machine_ops_def)

lemma ps_hash_law:
  assumes "ps_inv T sh m no_live no_commits db"
  shows "ps_inv T sh m no_live no_commits (snd (groundhog_hash T root_hash db))" "ps_inv T sh m no_live no_commits (snd (sisyphus_hash T root_hash db))"
  using assms key_open_normalize[of T sh _ _ "ps_trie db"]
  by (auto simp: ps_inv_def v2_inv_def no_live_def no_commits_def groundhog_hash_def sisyphus_hash_def Let_def)

interpretation gm: vm_contexts "ps_inv T sh" "groundhog_get_committed_value T" "groundhog_try_apply_delta T sh"
    "ps_rewind_commit T" "ps_rewind_destroy T sh" "ps_known T" "ps_commit_keys T" "ps_rewind_keys T"
    "groundhog_context_ops T sh KS KL" "kv_laws KS \<and> kv_laws KL" "tx_set_open KS" "tx_entry KS" "key_log_open KL" "logged_keys KL" "\<lambda>sp. fst ` set (cache sp)"
    "groundhog_machine_ops T sh root_hash KS KL KC" KC
  for T :: "'t trie_ops" and sh root_hash and KS :: "'s tx_trie" and KL :: "(AddressAndKey, unit, 'k) kv_ops" and KC :: "(Address, metered, 'c) kv_ops"
proof unfold_locales
  fix m C tid cdb and G :: "('c, 't PersistentStateDB) GlobalContext" and B :: "('s TxSet, 'k ModifiedKeysList) BlockContext"
  assume a: "ps_inv T sh m no_live C (gc_state_db G)" "tx_set_open KS (bc_tx_set B)" "key_log_open KL (bc_modified_keys_list B)" "small_block C"
    "\<forall>k. C k \<noteq> [] \<longrightarrow> k \<in> logged_keys KL (bc_modified_keys_list B)" "\<forall>k \<in> logged_keys KL (bc_modified_keys_list B). ps_known T k (gc_state_db G)"
    "contract_db_commit KC tid (ucast (bc_block_number B)) (gc_contract_db G) = Ret cdb"
  obtain s hs where s: "tx_set_finalize (bc_tx_set B) = Ret s" "tx_set_hash KS s = Ret hs" using finalized_set(1)[OF a(2)] by blast
  obtain l ks hl where l: "merge_logs (bc_modified_keys_list B) = Ret l" "get_keys KL l = Ret ks" "distinct ks"
    "set ks = logged_keys KL (bc_modified_keys_list B)" "mkl_hash KL l = Ret hl" using merged_keys[OF a(3)] by blast
  obtain db where db: "ps_commit_keys T ks (gc_state_db G) = Ret db" "ps_inv T sh (ledger_after m C) no_live no_commits db"
    using ps.commit_block_law[of T sh m C "gc_state_db G" ks] a(1,4-6) l(3,4) by auto
  show "\<exists>db B' sh' lh dh db'. vo_finish (groundhog_machine_ops T sh root_hash KS KL KC) tid G B = Ret (G\<lparr>gc_contract_db := cdb, gc_state_db := db\<rparr>, B') \<and>
      bc_block_number B' = bc_block_number B \<and> vo_set_hash (groundhog_machine_ops T sh root_hash KS KL KC) (bc_tx_set B') = Ret sh' \<and>
      vo_log_hash (groundhog_machine_ops T sh root_hash KS KL KC) (bc_modified_keys_list B') = Ret lh \<and>
      vo_db_hash (groundhog_machine_ops T sh root_hash KS KL KC) db = Ret (dh, db') \<and> ps_inv T sh (ledger_after m C) no_live no_commits db'"
    using s l db a(7) ps_hash_law(1)[OF db(2), of root_hash] by (intro exI[of _ db])
      (simp add: groundhog_machine_ops_def groundhog_phase_finish_block_def groundhog_commit_modifications_def flip: ps_commit_keys_def, metis prod.collapse)
next
  fix m C and G :: "('c, 't PersistentStateDB) GlobalContext" and B :: "('s TxSet, 'k ModifiedKeysList) BlockContext"
  assume a: "ps_inv T sh m no_live C (gc_state_db G)" "key_log_open KL (bc_modified_keys_list B)"
    "\<forall>k. C k \<noteq> [] \<longrightarrow> k \<in> logged_keys KL (bc_modified_keys_list B)" "\<forall>k \<in> logged_keys KL (bc_modified_keys_list B). ps_known T k (gc_state_db G)"
  obtain l ks where l: "merge_logs (bc_modified_keys_list B) = Ret l" "get_keys KL l = Ret ks" "distinct ks"
    "set ks = logged_keys KL (bc_modified_keys_list B)" using merged_keys[OF a(2)] by blast
  obtain db where "ps_rewind_keys T ks (gc_state_db G) = Ret db" "ps_inv T sh m no_live no_commits db"
    using ps.rewind_block_law[of T sh m no_live C "gc_state_db G" ks] a(1,3,4) l(3,4) by (auto simp: no_live_def)
  then show "\<exists>db B'. vo_undo (groundhog_machine_ops T sh root_hash KS KL KC) G B =
        Ret (G\<lparr>gc_contract_db := contract_db_rewind (gc_contract_db G), gc_state_db := db\<rparr>, B') \<and>
      bc_block_number B' = bc_block_number B \<and> ps_inv T sh m no_live no_commits db"
    using l by (intro exI[of _ db]) (simp add: groundhog_machine_ops_def groundhog_phase_undo_block_def groundhog_rewind_modifications_def flip: ps_rewind_keys_def)
qed (simp add: groundhog_machine_ops_def)

interpretation sm: vm_contexts "ps_inv T sh" "groundhog_get_committed_value T" "groundhog_try_apply_delta T sh"
    "ps_rewind_commit T" "ps_rewind_destroy T sh" "ps_known T" "ps_commit_keys T" "ps_rewind_keys T"
    "sisyphus_context_ops T sh hr KS KI" "kv_laws KS \<and> kv_laws KI" "tx_set_open KS" "tx_entry KS" "index_open KI" "index_keys KI" written_keys
    "sisyphus_machine_ops T sh hr root_hash KS KI KC" KC
  for T :: "'t trie_ops" and sh hr root_hash and KS :: "'s tx_trie" and KI :: "(byte list, StorageDelta, 'i) kv_ops" and KC :: "(Address, metered, 'c) kv_ops"
proof unfold_locales
  fix m C tid cdb and G :: "('c, 't PersistentStateDB) GlobalContext" and B :: "('s TxSet, 'i) BlockContext"
  assume a: "ps_inv T sh m no_live C (gc_state_db G)" "tx_set_open KS (bc_tx_set B)" "index_open KI (bc_modified_keys_list B)" "small_block C"
    "\<forall>k. C k \<noteq> [] \<longrightarrow> k \<in> index_keys KI (bc_modified_keys_list B)" "\<forall>k \<in> index_keys KI (bc_modified_keys_list B). ps_known T k (gc_state_db G)"
    "contract_db_commit KC tid (ucast (bc_block_number B)) (gc_contract_db G) = Ret cdb"
  obtain s hs where s: "unique_tx_set_finalize (bc_tx_set B) = Ret s" "unique_tx_set_hash KS s = Ret hs" using finalized_set(2)[OF a(2)] by blast
  let ?ks = "index_key_list KI (bc_modified_keys_list B)"
  have ks: "distinct ?ks \<and> set ?ks = index_keys KI (bc_modified_keys_list B)" using index_key_list_keys a(3) by (simp add: index_open_def)
  obtain db where db: "ps_commit_keys T ?ks (gc_state_db G) = Ret db" "ps_inv T sh (ledger_after m C) no_live no_commits db"
    using ps.commit_block_law[of T sh m C "gc_state_db G" ?ks] a(1,4-6) ks by auto
  show "\<exists>db B' sh' lh dh db'. vo_finish (sisyphus_machine_ops T sh hr root_hash KS KI KC) tid G B = Ret (G\<lparr>gc_contract_db := cdb, gc_state_db := db\<rparr>, B') \<and>
      bc_block_number B' = bc_block_number B \<and> vo_set_hash (sisyphus_machine_ops T sh hr root_hash KS KI KC) (bc_tx_set B') = Ret sh' \<and>
      vo_log_hash (sisyphus_machine_ops T sh hr root_hash KS KI KC) (bc_modified_keys_list B') = Ret lh \<and>
      vo_db_hash (sisyphus_machine_ops T sh hr root_hash KS KI KC) db = Ret (dh, db') \<and> ps_inv T sh (ledger_after m C) no_live no_commits db'"
    using s db a(7) ps_hash_law(2)[OF db(2), of root_hash] by (intro exI[of _ db])
      (simp add: sisyphus_machine_ops_def sisyphus_phase_finish_block_def sisyphus_commit_modifications_def sisyphus_update_keys_groundhog
        flip: ps_commit_keys_def, metis prod.collapse)
next
  fix m C and G :: "('c, 't PersistentStateDB) GlobalContext" and B :: "('s TxSet, 'i) BlockContext"
  assume a: "ps_inv T sh m no_live C (gc_state_db G)" "index_open KI (bc_modified_keys_list B)"
    "\<forall>k. C k \<noteq> [] \<longrightarrow> k \<in> index_keys KI (bc_modified_keys_list B)" "\<forall>k \<in> index_keys KI (bc_modified_keys_list B). ps_known T k (gc_state_db G)"
  let ?ks = "index_key_list KI (bc_modified_keys_list B)"
  have ks: "distinct ?ks \<and> set ?ks = index_keys KI (bc_modified_keys_list B)" using index_key_list_keys a(2) by (simp add: index_open_def)
  obtain db where "ps_rewind_keys T ?ks (gc_state_db G) = Ret db" "ps_inv T sh m no_live no_commits db"
    using ps.rewind_block_law[of T sh m no_live C "gc_state_db G" ?ks] a(1,3,4) ks by (auto simp: no_live_def)
  then show "\<exists>db B'. vo_undo (sisyphus_machine_ops T sh hr root_hash KS KI KC) G B =
        Ret (G\<lparr>gc_contract_db := contract_db_rewind (gc_contract_db G), gc_state_db := db\<rparr>, B') \<and>
      bc_block_number B' = bc_block_number B \<and> ps_inv T sh m no_live no_commits db"
    by (intro exI[of _ db]) (simp add: sisyphus_machine_ops_def sisyphus_phase_undo_block_def sisyphus_rewind_modifications_def
        sisyphus_rewind_keys_groundhog flip: ps_rewind_keys_def)
qed (simp add: sisyphus_machine_ops_def)

section \<open>Properties\<close>


definition sample_vm :: "((Address \<times> metered) list, (AddressAndKey, RevertableObject) omap StateDB,
    (Hash \<times> TxSetEntry) list TxSet, (AddressAndKey \<times> unit) list ModifiedKeysList) VirtualMachine" where
  "sample_vm = \<lparr>global_context = sample_global, current_block_context = Some sample_block, prev_block_hash = 8\<rparr>"

lemma sample_block_execs: "block_execs (\<lambda>_. 9) [(tx, [r])] = [(9, tx, r)]"
  by (simp add: block_execs_def)

lemma sample_idle: "uncommitted_contracts (gc_contract_db sample_global) = uncommitted_new" "logged_keys assoc_kv (bc_modified_keys_list sample_block) = {}"
  by (simp_all add: sample_global_def contract_db_new_def sample_block_def block_context_new_def assoc_kv_laws)



abbreviation sisyphus_sample_ops where
  "sisyphus_sample_ops \<equiv> sisyphus_context_ops omap_trie (\<lambda>_. 0) (\<lambda>_. 0) assoc_kv assoc_kv"

definition sisyphus_sample :: "((Address \<times> metered) list, (AddressAndKey, RevertableObject) omap PersistentStateDB) GlobalContext" where
  "sisyphus_sample = \<lparr>gc_contract_db = contract_db_new assoc_kv 1, gc_state_db = persistent_db_new []\<rparr>"

definition sisyphus_sample_block :: "((Hash \<times> TxSetEntry) list TxSet, (byte list \<times> StorageDelta) list) BlockContext" where
  "sisyphus_sample_block = block_context_new (tx_set_new assoc_kv) (kv_empty assoc_kv) 1"

definition sisyphus_sample_vm :: "((Address \<times> metered) list, (AddressAndKey, RevertableObject) omap PersistentStateDB,
    (Hash \<times> TxSetEntry) list TxSet, (byte list \<times> StorageDelta) list) VirtualMachine" where
  "sisyphus_sample_vm = \<lparr>global_context = sisyphus_sample, current_block_context = Some sisyphus_sample_block, prev_block_hash = 8\<rparr>"

lemma sisyphus_sample_contexts:
  "ps_inv omap_trie (\<lambda>_. 0) (\<lambda>_. None) no_live no_commits (gc_state_db sisyphus_sample)"
  "uncommitted_contracts (gc_contract_db sisyphus_sample) = uncommitted_new"
  "tx_set_open assoc_kv (bc_tx_set sisyphus_sample_block)" "tx_entry assoc_kv (bc_tx_set sisyphus_sample_block) h = None"
  "index_keys assoc_kv (bc_modified_keys_list sisyphus_sample_block) = {}" "bc_block_number sisyphus_sample_block = 1"
  "host_env sisyphus_sample_ops sample_env sisyphus_sample = sample_env"
proof -
  show "ps_inv omap_trie (\<lambda>_. 0) (\<lambda>_. None) no_live no_commits (gc_state_db sisyphus_sample)"
    using v2_new_inv[OF omap_trie_laws omap_trie_empty, of "\<lambda>_. 0"] by (simp add: sisyphus_sample_def ps_inv_def persistent_db_new_def)
  show "host_env sisyphus_sample_ops sample_env sisyphus_sample = sample_env"
    by (simp add: host_env_def sample_env_def sisyphus_sample_def sisyphus_context_ops_def sisyphus_get_committed_value_def persistent_db_new_def omap_trie_def)
qed (simp_all add: sisyphus_sample_def sisyphus_sample_block_def block_context_new_def contract_db_new_def
    tx_set_open_def tx_set_new_def assoc_kv_laws tx_entry_def index_keys_def kv_lawsD[OF assoc_kv_laws])


end
