(* ===== verification/Mempool.thy ===== *)
theory Mempool
  imports TxBlock
begin

text \<open>
  The ring buffer of pending transactions (\<open>mempool/mempool.cc\<close>). One 64-bit counter holds the
  two positions, the consumed one in its low half and the filled one in its high half, so that a
  worker takes a transaction with a single \<open>fetch_add\<close>. The argument \<open>moved\<close> is the value a
  transaction has after it was moved out of its slot.
\<close>

section \<open>Definitions\<close>

definition MAX_MEMPOOL_SIZE :: nat where "MAX_MEMPOOL_SIZE = 2 ^ 24"

record Mempool =
  ringbuffer :: "SignedTransaction list"
  indices :: uint64

definition mempool_new :: "SignedTransaction \<Rightarrow> Mempool" where
  "mempool_new tx0 = \<lparr>ringbuffer = replicate MAX_MEMPOOL_SIZE tx0, indices = 0\<rparr>"

definition consumed_of :: "uint64 \<Rightarrow> uint32" where "consumed_of i = ucast (i AND 0xFFFFFFFF)"
definition filled_of :: "uint64 \<Rightarrow> uint32" where "filled_of i = ucast (drop_bit 32 i)"

definition get_new_tx :: "SignedTransaction \<Rightarrow> Mempool \<Rightarrow> SignedTransaction option \<times> Mempool" where
  "get_new_tx moved m =
     (let i = indices m; m1 = m\<lparr>indices := i + 1\<rparr>;
          consumed_idx = consumed_of i; filled_idx = filled_of i
      in if consumed_idx \<ge> filled_idx then (None, m1)
         else let slot = unat consumed_idx mod MAX_MEMPOOL_SIZE
              in (Some (ringbuffer m ! slot), m1\<lparr>ringbuffer := (ringbuffer m)[slot := moved]\<rparr>))"

definition available_size :: "Mempool \<Rightarrow> uint32" where
  "available_size m =
     (let consumed_idx = consumed_of (indices m); filled_idx = filled_of (indices m)
      in if consumed_idx > filled_idx then 0 else filled_idx - consumed_idx)"

fun copy_txs :: "nat \<Rightarrow> SignedTransaction list \<Rightarrow> SignedTransaction list \<Rightarrow> SignedTransaction list" where
  "copy_txs pos [] ring = ring"
| "copy_txs pos (tx # ts) ring = copy_txs (Suc pos) ts (ring[pos mod MAX_MEMPOOL_SIZE := tx])"

definition add_txs :: "SignedTransaction list \<Rightarrow> Mempool \<Rightarrow> uint32 \<times> Mempool" where
  "add_txs ts m =
     (let i = indices m; filled_idx = filled_of i;
          consumed_idx = (if consumed_of i > filled_idx then filled_idx else consumed_of i);
          used_space = filled_idx - consumed_idx;
          write_now = min (of_nat MAX_MEMPOOL_SIZE - used_space) (of_nat (length ts) :: uint32);
          ring = copy_txs (unat filled_idx) (take (unat write_now) ts) (ringbuffer m);
          filled2 = (of_nat (unat (filled_idx + write_now) mod MAX_MEMPOOL_SIZE) :: uint32);
          consumed2 = (of_nat (unat consumed_idx mod MAX_MEMPOOL_SIZE) :: uint32)
      in (write_now, \<lparr>ringbuffer = ring, indices = push_bit 32 (ucast filled2) + ucast consumed2\<rparr>))"

section \<open>The two positions\<close>

lemma unat_uint64_bound: "unat (i :: uint64) < 2 ^ 64" using unsigned_less[of i] by simp
lemma unat_uint32_bound: "unat (i :: uint32) < 2 ^ 32" using unsigned_less[of i] by simp

lemma unat_consumed_of: "unat (consumed_of i) = unat i mod 2 ^ 32"
proof -
  have "i AND 0xFFFFFFFF = take_bit 32 i" by (simp add: take_bit_eq_mask mask_eq_exp_minus_1)
  then have "unat (consumed_of i) = take_bit 32 (unat i)"
    unfolding consumed_of_def by (simp add: unsigned_ucast_eq unsigned_take_bit_eq)
  then show ?thesis by (simp add: take_bit_eq_mod)
qed

lemma unat_filled_of: "unat (filled_of i) = unat i div 2 ^ 32"
proof -
  have "unat i div 2 ^ 32 < 2 ^ 32" using unat_uint64_bound[of i] by (simp add: less_mult_imp_div_less)
  then show ?thesis unfolding filled_of_def
    by (simp add: unsigned_ucast_eq unsigned_drop_bit_eq take_bit_nat_eq_self drop_bit_eq_div unat_div)
qed

lemma unat_pack: "unat (push_bit 32 (ucast (f :: uint32)) + ucast (c :: uint32) :: uint64) = unat f * 2 ^ 32 + unat c"
proof -
  have f: "unat f * 2 ^ 32 + unat c < 2 ^ 64"
    using unat_uint32_bound[of f] unat_uint32_bound[of c] by simp
  have "unat (push_bit 32 (ucast f) :: uint64) = unat f * 2 ^ 32"
    using f by (simp add: push_bit_eq_mult unat_word_ariths unsigned_ucast_eq take_bit_nat_eq_self)
  moreover have "unat (ucast c :: uint64) = unat c"
    using f by (simp add: unsigned_ucast_eq take_bit_nat_eq_self)
  ultimately show ?thesis using f by (simp add: unat_word_ariths)
qed

lemma positions_pack [simp]:
  "consumed_of (push_bit 32 (ucast (f :: uint32)) + ucast (c :: uint32)) = c"
  "filled_of (push_bit 32 (ucast (f :: uint32)) + ucast (c :: uint32)) = f"
  using unat_uint32_bound[of c] by (simp_all add: word_unat_eq_iff unat_consumed_of unat_filled_of unat_pack)

lemma positions_step:
  assumes "unat (consumed_of i) < 2 ^ 32 - 1"
  shows "unat (consumed_of (i + 1)) = unat (consumed_of i) + 1" "filled_of (i + 1) = filled_of i"
proof -
  have m: "unat i mod 2 ^ 32 < 2 ^ 32 - 1" using assms by (simp add: unat_consumed_of)
  have "unat i < 2 ^ 64 - 1"
  proof (rule ccontr)
    assume "\<not> unat i < 2 ^ 64 - 1"
    then have "unat i = 2 ^ 64 - 1" using unat_uint64_bound[of i] by simp
    then show False using m by simp
  qed
  then have s: "unat (i + 1) = unat i + 1" by (simp add: unat_word_ariths)
  show "unat (consumed_of (i + 1)) = unat (consumed_of i) + 1"
    using m unfolding unat_consumed_of s by (simp add: mod_Suc)
  show "filled_of (i + 1) = filled_of i"
    using m unfolding word_unat_eq_iff unat_filled_of s by (simp add: div_Suc mod_Suc)
qed

section \<open>The queue of pending transactions\<close>

definition mempool_ok :: "Mempool \<Rightarrow> bool" where
  "mempool_ok m \<longleftrightarrow> length (ringbuffer m) = MAX_MEMPOOL_SIZE \<and> unat (filled_of (indices m)) < MAX_MEMPOOL_SIZE"

definition pending :: "Mempool \<Rightarrow> SignedTransaction list" where
  "pending m = map (\<lambda>j. ringbuffer m ! j) [unat (consumed_of (indices m))..<unat (filled_of (indices m))]"

lemma copy_txs_length [simp]: "length (copy_txs pos ts ring) = length ring"
  by (induction ts arbitrary: pos ring) simp_all

lemma copy_txs_nth:
  assumes "pos + length ts \<le> MAX_MEMPOOL_SIZE" "length ring = MAX_MEMPOOL_SIZE" "j < MAX_MEMPOOL_SIZE"
  shows "copy_txs pos ts ring ! j = (if pos \<le> j \<and> j < pos + length ts then ts ! (j - pos) else ring ! j)"
  using assms
proof (induction ts arbitrary: pos ring)
  case (Cons tx ts)
  have pos: "pos mod MAX_MEMPOOL_SIZE = pos" using Cons.prems(1) by simp
  show ?case
    using Cons.IH[of "Suc pos" "ring[pos := tx]"] Cons.prems
    by (auto simp: pos nth_list_update nth_Cons' Suc_diff_Suc less_Suc_eq_le)
qed auto

lemma length_pending: "length (pending m) = unat (filled_of (indices m)) - unat (consumed_of (indices m))"
  by (simp add: pending_def)


lemma get_new_tx_queue:
  assumes "mempool_ok m" "unat (consumed_of (indices m)) < 2 ^ 32 - 1"
  shows "fst (get_new_tx moved m) = (case pending m of [] \<Rightarrow> None | x # _ \<Rightarrow> Some x) \<and>
     mempool_ok (snd (get_new_tx moved m)) \<and> pending (snd (get_new_tx moved m)) = tl (pending m)"
proof (cases "consumed_of (indices m) \<ge> filled_of (indices m)")
  case True
  then have "unat (filled_of (indices m)) \<le> unat (consumed_of (indices m))" by (simp add: word_le_nat_alt)
  then show ?thesis using assms True positions_step[OF assms(2)]
    by (simp add: get_new_tx_def Let_def pending_def mempool_ok_def)
next
  case False
  let ?c = "unat (consumed_of (indices m))" and ?f = "unat (filled_of (indices m))"
  have lt: "?c < ?f" using False by (simp add: word_less_nat_alt not_le)
  then have c: "?c mod MAX_MEMPOOL_SIZE = ?c" using assms(1) by (simp add: mempool_ok_def)
  have "[?c..<?f] = ?c # [Suc ?c..<?f]" using lt by (simp add: upt_conv_Cons)
  moreover have "map (\<lambda>j. (ringbuffer m)[?c := moved] ! j) [Suc ?c..<?f] = map (\<lambda>j. ringbuffer m ! j) [Suc ?c..<?f]"
    by (rule map_cong) auto
  ultimately show ?thesis using False assms c positions_step[OF assms(2)]
    by (simp add: get_new_tx_def Let_def pending_def mempool_ok_def not_le)
qed

text \<open>How many transactions an addition writes: what fits beside the pending ones.\<close>

definition room :: "Mempool \<Rightarrow> SignedTransaction list \<Rightarrow> nat" where
  "room m ts = min (MAX_MEMPOOL_SIZE - length (pending m)) (length ts)"

lemma add_txs_positions:
  assumes "mempool_ok m" "length ts < 2 ^ 32"
  shows "unat (fst (add_txs ts m)) = room m ts"
    "ringbuffer (snd (add_txs ts m)) = copy_txs (unat (filled_of (indices m))) (take (room m ts) ts) (ringbuffer m)"
    "unat (filled_of (indices (snd (add_txs ts m)))) = (unat (filled_of (indices m)) + room m ts) mod MAX_MEMPOOL_SIZE"
    "unat (consumed_of (indices (snd (add_txs ts m)))) = min (unat (consumed_of (indices m))) (unat (filled_of (indices m)))"
proof -
  let ?c = "consumed_of (indices m)" and ?f = "filled_of (indices m)"
  let ?c' = "if ?c > ?f then ?f else ?c"
  let ?w = "min (of_nat MAX_MEMPOOL_SIZE - (?f - ?c')) (of_nat (length ts) :: uint32)"
  have f: "unat ?f < 2 ^ 24" using assms(1) by (simp add: mempool_ok_def MAX_MEMPOOL_SIZE_def)
  have c': "unat ?c' = min (unat ?c) (unat ?f)" by (simp add: word_less_nat_alt min_def)
  then have le: "?c' \<le> ?f" by (simp add: word_le_nat_alt)
  have used: "unat (?f - ?c') = length (pending m)"
    using c' by (simp add: unat_sub[OF le] length_pending)
  then have used24: "unat (?f - ?c') \<le> 2 ^ 24" using f by (simp add: length_pending)
  have M: "unat (of_nat MAX_MEMPOOL_SIZE :: uint32) = MAX_MEMPOOL_SIZE" by (simp add: MAX_MEMPOOL_SIZE_def)
  have "?f - ?c' \<le> of_nat MAX_MEMPOOL_SIZE" using used24 by (simp add: word_le_nat_alt M MAX_MEMPOOL_SIZE_def)
  then have "unat (of_nat MAX_MEMPOOL_SIZE - (?f - ?c')) = MAX_MEMPOOL_SIZE - length (pending m)"
    by (simp add: unat_sub M used)
  moreover have "unat (of_nat (length ts) :: uint32) = length ts" using assms(2) by (simp add: unat_of_nat)
  ultimately have w: "unat ?w = room m ts" by (simp add: room_def min_def word_le_nat_alt)
  have w24: "room m ts \<le> 2 ^ 24" by (simp add: room_def MAX_MEMPOOL_SIZE_def)
  have fw: "unat (?f + ?w) = unat ?f + room m ts" using f w w24 by (simp add: unat_word_ariths)
  have small: "unat (of_nat (n mod MAX_MEMPOOL_SIZE) :: uint32) = n mod MAX_MEMPOOL_SIZE" for n
  proof -
    have "n mod MAX_MEMPOOL_SIZE < 2 ^ 24" by (simp add: MAX_MEMPOOL_SIZE_def)
    then show ?thesis by (simp add: unat_of_nat)
  qed
  show "unat (fst (add_txs ts m)) = room m ts" using w by (simp add: add_txs_def Let_def)
  show "ringbuffer (snd (add_txs ts m)) = copy_txs (unat (filled_of (indices m))) (take (room m ts) ts) (ringbuffer m)"
    using w by (simp add: add_txs_def Let_def)
  show "unat (filled_of (indices (snd (add_txs ts m)))) = (unat (filled_of (indices m)) + room m ts) mod MAX_MEMPOOL_SIZE"
    unfolding add_txs_def Let_def by (simp only: snd_conv Mempool.simps positions_pack small fw)
  have "unat (consumed_of (indices (snd (add_txs ts m)))) = unat ?c' mod MAX_MEMPOOL_SIZE"
    unfolding add_txs_def Let_def by (simp only: snd_conv Mempool.simps positions_pack small)
  also have "\<dots> = unat ?c'" using c' f by (simp add: MAX_MEMPOOL_SIZE_def)
  finally show "unat (consumed_of (indices (snd (add_txs ts m)))) = min (unat (consumed_of (indices m))) (unat (filled_of (indices m)))"
    using c' by (rule trans)
qed


lemma add_txs_queue:
  assumes "mempool_ok m" "length ts < 2 ^ 32" "unat (filled_of (indices m)) + room m ts < MAX_MEMPOOL_SIZE"
  shows "mempool_ok (snd (add_txs ts m)) \<and> pending (snd (add_txs ts m)) = pending m @ take (room m ts) ts"
proof -
  note p = add_txs_positions[OF assms(1,2)]
  let ?c = "unat (consumed_of (indices m))" and ?f = "unat (filled_of (indices m))" and ?m = "snd (add_txs ts m)"
  have ring: "length (ringbuffer m) = MAX_MEMPOOL_SIZE" using assms(1) by (simp add: mempool_ok_def)
  have len: "length (take (room m ts) ts) = room m ts" by (simp add: room_def)
  have f: "unat (filled_of (indices ?m)) = ?f + room m ts" using p(3) assms(3) by simp
  have nth: "ringbuffer ?m ! j = (if ?f \<le> j \<and> j < ?f + room m ts then take (room m ts) ts ! (j - ?f) else ringbuffer m ! j)"
    if "j < MAX_MEMPOOL_SIZE" for j
    using copy_txs_nth[of ?f "take (room m ts) ts" "ringbuffer m" j] assms(3) ring that unfolding p(2) len by simp
  have "pending ?m = map (\<lambda>j. ringbuffer ?m ! j) ([min ?c ?f..<?f] @ [?f..<?f + room m ts])"
    unfolding pending_def p(4) f upt_add_eq_append[OF min.cobounded2] ..
  also have "\<dots> = map (\<lambda>j. ringbuffer m ! j) [min ?c ?f..<?f] @ take (room m ts) ts"
  proof -
    have "map (\<lambda>j. ringbuffer ?m ! j) [min ?c ?f..<?f] = map (\<lambda>j. ringbuffer m ! j) [min ?c ?f..<?f]"
    proof (rule map_cong[OF refl])
      fix j assume "j \<in> set [min ?c ?f..<?f]"
      then have "j < ?f" by simp
      then show "ringbuffer ?m ! j = ringbuffer m ! j" using nth[of j] assms(3) by simp
    qed
    moreover have "map (\<lambda>j. ringbuffer ?m ! j) [?f..<?f + room m ts] = take (room m ts) ts"
    proof (rule nth_equalityI)
      fix i assume "i < length (map (\<lambda>j. ringbuffer ?m ! j) [?f..<?f + room m ts])"
      then have "i < room m ts" by simp
      then show "map (\<lambda>j. ringbuffer ?m ! j) [?f..<?f + room m ts] ! i = take (room m ts) ts ! i"
        using nth[of "?f + i"] assms(3) by simp
    qed (use len in simp)
    ultimately show ?thesis by simp
  qed
  also have "map (\<lambda>j. ringbuffer m ! j) [min ?c ?f..<?f] = pending m"
    by (cases "?c \<le> ?f") (simp_all add: pending_def min_def)
  finally show ?thesis using f p(2) assms(3) ring by (simp add: mempool_ok_def)
qed

lemma available_size_pending: "unat (available_size m) = length (pending m)"
proof (cases "consumed_of (indices m) > filled_of (indices m)")
  case True
  then show ?thesis by (simp add: available_size_def length_pending word_less_nat_alt)
next
  case False
  then show ?thesis by (simp add: available_size_def Let_def length_pending unat_sub not_less)
qed

section \<open>Properties\<close>


definition sample_mempool :: Mempool where "sample_mempool = mempool_new (sample_tx 0)"

lemma sample_mempool_ok: "mempool_ok sample_mempool" "pending sample_mempool = []"
  by (simp_all add: sample_mempool_def mempool_ok_def pending_def mempool_new_def MAX_MEMPOOL_SIZE_def
      consumed_of_def filled_of_def)


text \<open>
  When the filled position wraps, transactions are lost. A fresh pool that is offered at least as
  many transactions as it has slots reports all its slots written, and then holds nothing: no
  transaction is available and taking one returns none.
\<close>

theorem mempool_wrap_loses:
  assumes "MAX_MEMPOOL_SIZE \<le> length ts" "length ts < 2 ^ 32"
  shows "unat (fst (add_txs ts (mempool_new tx0))) = MAX_MEMPOOL_SIZE \<and>
     pending (snd (add_txs ts (mempool_new tx0))) = [] \<and> fst (get_new_tx moved (snd (add_txs ts (mempool_new tx0)))) = None"
proof -
  let ?m = "snd (add_txs ts (mempool_new tx0))"
  have m: "mempool_ok (mempool_new tx0)" "pending (mempool_new tx0) = []"
    "unat (filled_of (indices (mempool_new tx0))) = 0" "unat (consumed_of (indices (mempool_new tx0))) = 0"
    by (simp_all add: mempool_ok_def pending_def mempool_new_def MAX_MEMPOOL_SIZE_def consumed_of_def filled_of_def)
  have room: "room (mempool_new tx0) ts = MAX_MEMPOOL_SIZE" using assms(1) m(2) by (simp add: room_def)
  note p = add_txs_positions[OF m(1) assms(2)]
  have "unat (filled_of (indices ?m)) = 0" using p(3) m(3) room by simp
  then show ?thesis using p(1) room by (simp add: pending_def get_new_tx_def Let_def word_le_nat_alt)
qed

theorem mempool_wrap_loses_witness:
  "pending (snd (add_txs (replicate MAX_MEMPOOL_SIZE (sample_tx 1)) (mempool_new (sample_tx 0)))) = []"
  using mempool_wrap_loses[of "replicate MAX_MEMPOOL_SIZE (sample_tx 1)" "sample_tx 0" "sample_tx 0"]
  by (simp add: MAX_MEMPOOL_SIZE_def)

end
