(* ===== verification/BlockAssembly.thy ===== *)
theory BlockAssembly
  imports Mempool
begin

text \<open>
  Assembling a block: the limits of a block (\<open>block_assembly/limits.cc\<close>), the slots of the
  running threads (\<open>threadlocal/rate_limiter.cc\<close>) and the loop of a worker
  (\<open>block_assembly/assembly_worker.cc\<close>). Every operation is one atomic step; the execution of a
  transaction is an argument of the worker loop.
\<close>

section \<open>Limits of a block\<close>

record AssemblyLimits =
  max_txs :: int64
  overall_gas_limit :: int64
  gas_limit_per_tx :: uint64
  limits_shutdown :: bool

definition assembly_limits_new :: "int64 \<Rightarrow> int64 \<Rightarrow> AssemblyLimits" where
  "assembly_limits_new n g = \<lparr>max_txs = n, overall_gas_limit = g, gas_limit_per_tx = 10000000, limits_shutdown = False\<rparr>"

definition undo_tx_reservation :: "uint64 \<Rightarrow> AssemblyLimits \<Rightarrow> AssemblyLimits" where
  "undo_tx_reservation gas l = l\<lparr>max_txs := max_txs l + 1, overall_gas_limit := overall_gas_limit l + gas\<rparr>"

text \<open>A reservation holds the gas to give back; a committed one holds 0.\<close>

type_synonym Reservation = uint64

definition reserve_tx :: "SignedTransaction \<Rightarrow> AssemblyLimits \<Rightarrow> Reservation option \<times> AssemblyLimits" where
  "reserve_tx tx l =
     (if gas_limit (tx_body tx) > gas_limit_per_tx l then (None, l)
      else let res = max_txs l; l1 = l\<lparr>max_txs := max_txs l - 1\<rparr>
        in if sint res \<le> 0 then (None, l1\<lparr>max_txs := max_txs l1 + 1\<rparr>)
           else let res2 = overall_gas_limit l1; l2 = l1\<lparr>overall_gas_limit := overall_gas_limit l1 - gas_limit (tx_body tx)\<rparr>
             in if sint res2 \<le> 0 then (None, l2\<lparr>overall_gas_limit := overall_gas_limit l2 + gas_limit (tx_body tx)\<rparr>)
                else (Some (gas_limit (tx_body tx)), l2))"

definition reservation_commit :: "Reservation \<Rightarrow> Reservation" where "reservation_commit gas = 0"

definition reservation_destroy :: "Reservation \<Rightarrow> AssemblyLimits \<Rightarrow> AssemblyLimits" where
  "reservation_destroy gas l = (if gas > 0 then undo_tx_reservation gas l else l)"

definition notify_done :: "AssemblyLimits \<Rightarrow> AssemblyLimits" where
  "notify_done l = l\<lparr>limits_shutdown := True\<rparr>"

text \<open>The histories of a block: reservations taken, committed and dropped in any order.\<close>

inductive limits_reach :: "AssemblyLimits \<Rightarrow> uint64 multiset \<Rightarrow> uint64 multiset \<Rightarrow> AssemblyLimits \<Rightarrow> bool" for l0 where
  reach_init: "limits_reach l0 {#} {#} l0"
| reach_reserve: "limits_reach l0 R C l \<Longrightarrow> reserve_tx tx l = (Some g, l') \<Longrightarrow> limits_reach l0 (add_mset g R) C l'"
| reach_refuse: "limits_reach l0 R C l \<Longrightarrow> reserve_tx tx l = (None, l') \<Longrightarrow> limits_reach l0 R C l'"
| reach_commit: "limits_reach l0 (add_mset g R) C l \<Longrightarrow> reservation_destroy (reservation_commit g) l = l' \<Longrightarrow>
    limits_reach l0 R (add_mset g C) l'"
| reach_drop: "limits_reach l0 (add_mset g R) C l \<Longrightarrow> reservation_destroy g l = l' \<Longrightarrow> limits_reach l0 R C l'"
| reach_done: "limits_reach l0 R C l \<Longrightarrow> limits_reach l0 R C (notify_done l)"

definition gas_of :: "uint64 multiset \<Rightarrow> int" where "gas_of M = sum_mset (image_mset uint M)"

lemma gas_of_simps [simp]: "gas_of {#} = 0" "gas_of (add_mset g M) = uint g + gas_of M" "0 \<le> gas_of M"
proof -
  show "0 \<le> gas_of M" by (induction M) (simp_all add: gas_of_def)
qed (simp_all add: gas_of_def)

definition limits_inv :: "int64 \<Rightarrow> int64 \<Rightarrow> uint64 multiset \<Rightarrow> uint64 multiset \<Rightarrow> AssemblyLimits \<Rightarrow> bool" where
  "limits_inv n g R C l \<longleftrightarrow>
     gas_limit_per_tx l = 10000000 \<and> (\<forall>x \<in># R. x \<le> 10000000) \<and>
     0 \<le> sint (max_txs l) \<and> sint (max_txs l) + int (size R + size C) \<le> sint n \<and>
     - 10000000 < sint (overall_gas_limit l) \<and> sint (overall_gas_limit l) + gas_of R + gas_of C = sint g"

lemma uint_le_gas: "x \<le> (10000000 :: uint64) \<longleftrightarrow> uint x \<le> 10000000"
  by (simp add: word_le_def)

lemma limits_inv_reserve:
  assumes inv: "limits_inv n g R C l" and r: "reserve_tx tx l = (res, l')"
  shows "case res of None \<Rightarrow> limits_inv n g R C l' | Some x \<Rightarrow> limits_inv n g (add_mset x R) C l'"
proof -
  let ?x = "gas_limit (tx_body tx)"
  consider (big) "?x > gas_limit_per_tx l" | (full) "\<not> ?x > gas_limit_per_tx l" "sint (max_txs l) \<le> 0"
    | (gas) "\<not> ?x > gas_limit_per_tx l" "sint (max_txs l) > 0" "sint (overall_gas_limit l) \<le> 0"
    | (ok) "\<not> ?x > gas_limit_per_tx l" "sint (max_txs l) > 0" "sint (overall_gas_limit l) > 0"
    by (meson not_le)
  then show ?thesis
  proof cases
    case big
    then show ?thesis using inv r by (auto simp: reserve_tx_def)
  next
    case full
    then show ?thesis using inv r by (auto simp: reserve_tx_def Let_def)
  next
    case gas
    have "sint (max_txs l - 1) = sint (max_txs l) - 1"
      using gas(2) sint64_bounds(2)[of "max_txs l"] by (subst sint_diff_in_range) (auto simp: fits_int64_def)
    then show ?thesis using gas inv r by (auto simp: reserve_tx_def Let_def limits_inv_def)
  next
    case ok
    have x: "uint ?x \<le> 10000000" using ok(1) inv by (simp add: limits_inv_def uint_le_gas not_less)
    then have sx: "sint ?x = uint ?x" by (simp add: sint_eq_uint_small)
    have a: "sint (max_txs l - 1) = sint (max_txs l) - 1"
      using ok(2) sint64_bounds(2)[of "max_txs l"] by (subst sint_diff_in_range) (auto simp: fits_int64_def)
    have b: "sint (overall_gas_limit l - ?x) = sint (overall_gas_limit l) - uint ?x"
    proof -
      have "fits_int64 (sint (overall_gas_limit l) - uint ?x)"
        using ok(3) x uint64_bounds(1)[of ?x] sint64_bounds(2)[of "overall_gas_limit l"]
        unfolding fits_int64_def two63 by linarith
      then show ?thesis using sx sint_diff_in_range[of "overall_gas_limit l" ?x] by simp
    qed
    have "res = Some ?x" "l' = l\<lparr>max_txs := max_txs l - 1, overall_gas_limit := overall_gas_limit l - ?x\<rparr>"
      using ok r by (auto simp: reserve_tx_def Let_def)
    then show ?thesis using inv ok x a b by (auto simp: limits_inv_def uint_le_gas)
  qed
qed

lemma limits_inv_drop:
  assumes inv: "limits_inv n g (add_mset x R) C l"
  shows "limits_inv n g R C (reservation_destroy x l)"
proof (cases "x > 0")
  case True
  have x: "uint x \<le> 10000000" using inv by (simp add: limits_inv_def uint_le_gas)
  then have sx: "sint x = uint x" by (simp add: sint_eq_uint_small)
  have "sint (max_txs l) + 1 \<le> sint n" "sint (overall_gas_limit l) + uint x \<le> sint g"
    "0 \<le> sint (max_txs l)" "- 10000000 < sint (overall_gas_limit l)"
    using inv by (auto simp: limits_inv_def) (smt (verit) gas_of_simps(3))
  then have "fits_int64 (sint (max_txs l) + 1)" "fits_int64 (sint (overall_gas_limit l) + uint x)"
    using sint64_bounds(2)[of n] sint64_bounds(2)[of g] uint64_bounds(1)[of x] unfolding fits_int64_def two63 by linarith+
  then have "sint (max_txs l + 1) = sint (max_txs l) + 1" "sint (overall_gas_limit l + x) = sint (overall_gas_limit l) + uint x"
    using sint_add_in_range[of "max_txs l" 1] sint_add_in_range[of "overall_gas_limit l" x] sx by (simp_all add: add_overflow_ss_def)
  moreover have "- 10000000 < sint (overall_gas_limit l) + uint x"
    using \<open>- 10000000 < sint (overall_gas_limit l)\<close> uint64_bounds(1)[of x] by linarith
  ultimately show ?thesis using inv True by (auto simp: reservation_destroy_def undo_tx_reservation_def limits_inv_def)
next
  case False
  then have "x = 0" by (simp add: word_neq_0_conv[symmetric])
  then show ?thesis using inv by (auto simp: reservation_destroy_def limits_inv_def)
qed

lemma limits_reach_inv:
  assumes "limits_reach (assembly_limits_new n g) R C l" "0 \<le> sint n" "0 \<le> sint g"
  shows "limits_inv n g R C l"
  using assms(1)
proof induction
  case reach_init
  then show ?case using assms(2,3) by (simp add: limits_inv_def assembly_limits_new_def)
next
  case (reach_reserve R C l tx x l')
  then show ?case using limits_inv_reserve[of n g R C l tx "Some x" l'] by simp
next
  case (reach_refuse R C l tx l')
  then show ?case using limits_inv_reserve[of n g R C l tx None l'] by simp
next
  case (reach_commit x R C l l')
  then show ?case by (auto simp: reservation_destroy_def reservation_commit_def limits_inv_def)
next
  case (reach_drop x R C l l')
  then show ?case using limits_inv_drop by blast
next
  case (reach_done R C l)
  then show ?case by (simp add: notify_done_def limits_inv_def)
qed




text \<open>
  A reservation refused for lack of gas costs the block a transaction. When the gas of the block
  is used up, \<open>reserve_tx\<close> gives the gas back but not the transaction slot: after as many refusals as
  there were slots, no slot is left although none is in use.
\<close>

fun refuse_times :: "nat \<Rightarrow> SignedTransaction \<Rightarrow> AssemblyLimits \<Rightarrow> AssemblyLimits" where
  "refuse_times 0 tx l = l"
| "refuse_times (Suc k) tx l = refuse_times k tx (snd (reserve_tx tx l))"

theorem refused_gas_leaks_slots:
  assumes "gas_limit (tx_body tx) \<le> gas_limit_per_tx l" "sint (overall_gas_limit l) \<le> 0" "int k \<le> sint (max_txs l)"
  shows "sint (max_txs (refuse_times k tx l)) = sint (max_txs l) - int k \<and> fst (reserve_tx tx l) = None"
proof -
  have "sint (max_txs (refuse_times k tx l)) = sint (max_txs l) - int k"
    using assms
  proof (induction k arbitrary: l)
    case (Suc k)
    let ?l = "l\<lparr>max_txs := max_txs l - 1\<rparr>"
    have "\<not> gas_limit_per_tx l < gas_limit (tx_body tx)" using Suc.prems(1) by (simp add: not_less)
    then have step: "snd (reserve_tx tx l) = ?l" using Suc.prems(2,3) by (simp add: reserve_tx_def Let_def)
    have "fits_int64 (sint (max_txs l) - 1)"
      using Suc.prems(3) sint64_bounds(2)[of "max_txs l"] unfolding fits_int64_def two63 by linarith
    then have "sint (max_txs l - 1) = sint (max_txs l) - 1" using sint_diff_in_range[of "max_txs l" 1] by simp
    then show ?case using Suc.IH[of ?l] Suc.prems step by simp
  qed simp
  moreover have "fst (reserve_tx tx l) = None"
    using assms(1,2) by (auto simp: reserve_tx_def Let_def not_less)
  ultimately show ?thesis by simp
qed

theorem refused_gas_leaks_slots_witness:
  "sint (max_txs (refuse_times 3 (sample_tx 5) (assembly_limits_new 3 0))) = 0"
  using refused_gas_leaks_slots[of "sample_tx 5" "assembly_limits_new 3 0" 3]
  by (simp add: assembly_limits_new_def sample_tx_def)

section \<open>Slots of the running threads\<close>

text \<open>\<open>has_slot\<close> is thread-local: one flag per thread.\<close>

record RateLimiter =
  active_threads :: uint32
  max_active_threads :: uint32
  rl_shutdown :: bool
  has_slot :: "bool list"

definition claim_one_slot :: "nat \<Rightarrow> RateLimiter \<Rightarrow> RateLimiter outcome" where
  "claim_one_slot t r =
     (if has_slot r ! t then Throw (RuntimeError ''double claim slot'')
      else Ret (r\<lparr>has_slot := (has_slot r)[t := True], active_threads := active_threads r + 1\<rparr>))"

definition free_one_slot :: "nat \<Rightarrow> RateLimiter \<Rightarrow> RateLimiter" where
  "free_one_slot t r =
     (let r1 = (if has_slot r ! t then r\<lparr>active_threads := active_threads r - 1\<rparr> else r)
      in r1\<lparr>has_slot := (has_slot r1)[t := False]\<rparr>)"

definition slowpath_wait_for_opening :: "nat \<Rightarrow> RateLimiter \<Rightarrow> (bool \<times> RateLimiter) outcome" where
  "slowpath_wait_for_opening t r =
     (if \<not> (rl_shutdown r \<or> active_threads r < max_active_threads r) then Throw (Terminate ''std::abort'')
      else if rl_shutdown r then Ret (True, r)
      else obind (claim_one_slot t r) (\<lambda>r1. Ret (False, r1)))"

definition fastpath_wait_for_opening :: "nat \<Rightarrow> RateLimiter \<Rightarrow> (bool \<times> RateLimiter) outcome" where
  "fastpath_wait_for_opening t r =
     (if active_threads r \<le> max_active_threads r then Ret (False, r)
      else slowpath_wait_for_opening t (free_one_slot t r))"

definition wait_for_opening :: "nat \<Rightarrow> RateLimiter \<Rightarrow> (bool \<times> RateLimiter) outcome" where
  "wait_for_opening t r = (if has_slot r ! t then fastpath_wait_for_opening t r else slowpath_wait_for_opening t r)"

definition start_threads :: "uint64 \<Rightarrow> RateLimiter \<Rightarrow> RateLimiter outcome" where
  "start_threads max_active r =
     (let r1 = r\<lparr>max_active_threads := ucast max_active\<rparr>
      in if rl_shutdown r1
         then Throw (RuntimeError ''potential race condition between starting threads and setting shutdown to false!'')
         else Ret r1)"

definition prep_for_notify :: "RateLimiter \<Rightarrow> RateLimiter" where
  "prep_for_notify r = r\<lparr>rl_shutdown := False\<rparr>"

definition stop_threads :: "RateLimiter \<Rightarrow> RateLimiter" where
  "stop_threads r = r\<lparr>rl_shutdown := True, max_active_threads := 0\<rparr>"

definition rate_inv :: "RateLimiter \<Rightarrow> bool" where
  "rate_inv r \<longleftrightarrow> length (has_slot r) < 2 ^ 32 \<and> unat (active_threads r) = length (filter id (has_slot r))"

lemma count_update:
  assumes "t < length bs"
  shows "length (filter id (bs[t := b])) + of_bool (bs ! t) = length (filter id bs) + of_bool b"
  using assms
proof (induction bs arbitrary: t)
  case (Cons x bs)
  show ?case
  proof (cases t)
    case (Suc n)
    with Cons.prems Cons.IH[of n] show ?thesis by (cases x) (simp_all add: id_def)
  qed (cases x; cases b; simp)
qed simp

lemma rate_inv_claim:
  assumes "rate_inv r" "t < length (has_slot r)" "claim_one_slot t r = Ret r'"
  shows "rate_inv r'"
proof -
  have f: "\<not> has_slot r ! t" "r' = r\<lparr>has_slot := (has_slot r)[t := True], active_threads := active_threads r + 1\<rparr>"
    using assms(3) by (auto simp: claim_one_slot_def split: if_splits)
  have c: "length (filter id ((has_slot r)[t := True])) = length (filter id (has_slot r)) + 1"
    using count_update[OF assms(2), of True] f(1) by simp
  have "length (filter id ((has_slot r)[t := True])) \<le> length ((has_slot r)[t := True])" by (rule length_filter_le)
  then have "unat (active_threads r) + 1 < 2 ^ 32" using assms(1) c by (simp add: rate_inv_def)
  then have "unat (active_threads r + 1) = unat (active_threads r) + 1" by (simp add: unat_word_ariths)
  then show ?thesis using assms(1) f c by (simp add: rate_inv_def)
qed

lemma rate_inv_free:
  assumes "rate_inv r" "t < length (has_slot r)"
  shows "rate_inv (free_one_slot t r)"
proof (cases "has_slot r ! t")
  case True
  have c: "length (filter id ((has_slot r)[t := False])) + 1 = length (filter id (has_slot r))"
    using count_update[OF assms(2), of False] True by simp
  have "unat (active_threads r) = length (filter id (has_slot r))" using assms(1) by (simp add: rate_inv_def)
  then have "unat (active_threads r) \<noteq> 0" using c by linarith
  then have "unat (active_threads r - 1) = unat (active_threads r) - 1"
    by (metis One_nat_def unat_1 unat_eq_zero unat_minus_one)
  then show ?thesis using assms True c by (simp add: rate_inv_def free_one_slot_def Let_def)
next
  case False
  then show ?thesis using assms count_update[OF assms(2), of False] by (simp add: rate_inv_def free_one_slot_def Let_def)
qed

text \<open>
  The rate limiter counts its slots exactly and stops every thread. Waiting, claiming and freeing
  keep the number of active threads equal to the number of threads that hold a slot (and within the
  32-bit counter); once the threads were stopped, every thread that asks for an opening, with or without
  a slot, is told to shut down and holds no slot afterwards, and the abort of the slow path is not reached.
\<close>

theorem rate_limiter_slots:
  assumes "rate_inv r" "t < length (has_slot r)"
  shows "(wait_for_opening t r = Ret (b, r') \<longrightarrow> rate_inv r' \<and> (has_slot r' ! t \<longleftrightarrow> \<not> b)) \<and>
     rate_inv (free_one_slot t r) \<and> rate_inv (stop_threads r) \<and>
     (\<exists>r2. wait_for_opening t (stop_threads r) = Ret (True, r2) \<and> \<not> has_slot r2 ! t)"
proof (intro conjI impI)
  assume w: "wait_for_opening t r = Ret (b, r')"
  have slow: "rate_inv r' \<and> (has_slot r' ! t \<longleftrightarrow> \<not> b)"
    if "rate_inv q" "t < length (has_slot q)" "\<not> has_slot q ! t" "slowpath_wait_for_opening t q = Ret (b, r')" for q
  proof (cases "rl_shutdown q")
    case True
    then show ?thesis using that by (auto simp: slowpath_wait_for_opening_def split: if_splits)
  next
    case False
    then have "claim_one_slot t q = Ret r'" "\<not> b"
      using that(4) by (auto simp: slowpath_wait_for_opening_def outcome_simps split: if_splits)
    then show ?thesis using rate_inv_claim[OF that(1,2)] that(2,3) by (auto simp: claim_one_slot_def)
  qed
  show "rate_inv r'" "has_slot r' ! t \<longleftrightarrow> \<not> b"
    using w assms slow[of r] slow[of "free_one_slot t r"] rate_inv_free[OF assms]
    by (auto simp: wait_for_opening_def fastpath_wait_for_opening_def free_one_slot_def Let_def split: if_splits)
next
  show "rate_inv (free_one_slot t r)" by (rule rate_inv_free[OF assms])
next
  show "rate_inv (stop_threads r)" using assms(1) by (simp add: rate_inv_def stop_threads_def)
next
  have "unat (active_threads r) \<noteq> 0" if "has_slot r ! t"
    using assms that by (auto simp: rate_inv_def filter_empty_conv dest!: nth_mem)
  then have "\<not> active_threads r \<le> 0" if "has_slot r ! t" using that by (auto simp: word_le_nat_alt)
  then show "\<exists>r2. wait_for_opening t (stop_threads r) = Ret (True, r2) \<and> \<not> has_slot r2 ! t"
    using assms(2) by (auto simp: wait_for_opening_def fastpath_wait_for_opening_def slowpath_wait_for_opening_def
        stop_threads_def free_one_slot_def Let_def)
qed

theorem rate_limiter_slots_witness:
  "\<exists>r2. wait_for_opening 1 (stop_threads \<lparr>active_threads = 1, max_active_threads = 2, rl_shutdown = False, has_slot = [False, True]\<rparr>) =
     Ret (True, r2) \<and> \<not> has_slot r2 ! 1"
  using rate_limiter_slots[of "\<lparr>active_threads = 1, max_active_threads = 2, rl_shutdown = False, has_slot = [False, True]\<rparr>" 1]
  by (simp add: rate_inv_def)


section \<open>The loop of a worker\<close>

text \<open>
  \<open>shut i\<close> is the answer of the rate limiter at the \<open>i\<close>-th turn, \<open>exec\<close> the execution of a
  transaction on the rest of the state. The first argument is fuel; without it the loop is \<open>None\<close>.
  The reservation goes out of scope, and is destroyed, at the end of every turn.
\<close>

type_synonym 's worker_result = "((SignedTransaction \<times> TransactionStatus) list \<times> Mempool \<times> AssemblyLimits \<times> 's) option"

fun worker_run :: "nat \<Rightarrow> nat \<Rightarrow> (nat \<Rightarrow> bool) \<Rightarrow> (SignedTransaction \<Rightarrow> 's \<Rightarrow> TransactionStatus \<times> 's) \<Rightarrow> SignedTransaction \<Rightarrow>
    Mempool \<Rightarrow> AssemblyLimits \<Rightarrow> 's \<Rightarrow> 's worker_result" where
  "worker_run 0 i shut exec moved m l s = None"
| "worker_run (Suc fuel) i shut exec moved m l s =
     (if shut i then Some ([], m, l, s)
      else case get_new_tx moved m of
        (None, m1) \<Rightarrow> Some ([], m1, notify_done l, s)
      | (Some tx, m1) \<Rightarrow> (case reserve_tx tx l of
            (None, l1) \<Rightarrow> Some ([], m1, notify_done l1, s)
          | (Some reservation, l1) \<Rightarrow> (case exec tx s of (st, s1) \<Rightarrow>
              let r = (if st = SUCCESS then reservation_commit reservation else reservation);
                  l2 = reservation_destroy r l1
              in map_option (\<lambda>(xs, rest). ((tx, st) # xs, rest)) (worker_run fuel (Suc i) shut exec moved m1 l2 s1))))"

definition committed_gas :: "(SignedTransaction \<times> TransactionStatus) list \<Rightarrow> uint64 multiset" where
  "committed_gas xs = mset (map (\<lambda>(tx, _). gas_limit (tx_body tx)) (filter (\<lambda>(_, st). st = SUCCESS) xs))"

lemma reserve_tx_gas: "reserve_tx tx l = (Some r, l') \<Longrightarrow> r = gas_limit (tx_body tx)"
  by (auto simp: reserve_tx_def Let_def split: if_splits)

lemma worker_run_result:
  assumes "mempool_ok m" "unat (consumed_of (indices m)) + length (pending m) < 2 ^ 32 - 1" "length (pending m) < fuel"
    "limits_reach l0 R C l"
  shows "\<exists>xs m' l' s'. worker_run fuel i shut exec moved m l s = Some (xs, m', l', s') \<and>
     map fst xs = take (length xs) (pending m) \<and> limits_reach l0 R (C + committed_gas xs) l'"
  using assms
proof (induction fuel arbitrary: i m l s C)
  case (Suc fuel)
  note q = get_new_tx_queue[OF Suc.prems(1), of moved]
  show ?case
  proof (cases "shut i")
    case True
    then show ?thesis using Suc.prems(4) by (simp add: committed_gas_def)
  next
    case running: False
    show ?thesis
    proof (cases "pending m")
      case Nil
      then obtain m1 where "get_new_tx moved m = (None, m1)" using q Suc.prems(2) by (cases "get_new_tx moved m") auto
      then show ?thesis using running reach_done[OF Suc.prems(4)] by (simp add: committed_gas_def)
    next
      case (Cons tx rest)
      then obtain m1 where m1: "get_new_tx moved m = (Some tx, m1)" "mempool_ok m1" "pending m1 = rest"
        using q Suc.prems(2) by (cases "get_new_tx moved m") auto
      have idx: "unat (consumed_of (indices m1)) = unat (consumed_of (indices m)) + 1"
        using m1(1) positions_step(1)[of "indices m"] Suc.prems(2)
        by (auto simp: get_new_tx_def Let_def split: if_splits)
      show ?thesis
      proof (cases "reserve_tx tx l")
        case (Pair res l1)
        show ?thesis
        proof (cases res)
          case None
          then show ?thesis using running m1(1) Pair reach_done[OF reach_refuse[OF Suc.prems(4)]] by (simp add: committed_gas_def)
        next
          case (Some r)
          obtain st s1 where ex: "exec tx s = (st, s1)" by force
          define l2 where "l2 = reservation_destroy (if st = SUCCESS then reservation_commit r else r) l1"
          define C2 where "C2 = C + committed_gas [(tx, st)]"
          have reach: "limits_reach l0 (add_mset r R) C l1" using reach_reserve[OF Suc.prems(4)] Pair Some by simp
          have "limits_reach l0 R C2 l2"
            using reach_commit[OF reach refl] reach_drop[OF reach refl] reserve_tx_gas[of tx l r l1] Pair Some
            by (cases st) (simp_all add: C2_def l2_def committed_gas_def)
          then obtain xs m' l' s' where "worker_run fuel (Suc i) shut exec moved m1 l2 s1 = Some (xs, m', l', s')"
             "map fst xs = take (length xs) rest" "limits_reach l0 R (C2 + committed_gas xs) l'"
            using Suc.IH[of m1 C2 l2 "Suc i" s1] m1 Suc.prems(2,3) Cons idx by auto
          moreover have "C2 + committed_gas xs = C + committed_gas ((tx, st) # xs)"
            by (simp add: C2_def committed_gas_def)
          ultimately show ?thesis using running m1(1) Pair Some ex Cons by (simp add: l2_def Let_def)
        qed
      qed
    qed
  qed
qed simp

text \<open>
  C32: a worker's loop ends, takes the pending transactions in their order, and accounts for each: with
  more turns allowed than there are pending transactions it always returns; the transactions it executed
  are a prefix of the pending ones; and the limits afterwards are those of a history in which exactly the
  successful ones are committed and the failed ones have given their reservation back.
\<close>

theorem worker_loop:
  assumes "mempool_ok m" "unat (consumed_of (indices m)) + length (pending m) < 2 ^ 32 - 1" "length (pending m) < fuel"
  shows "\<exists>xs m' l' s'. worker_run fuel 0 shut exec moved m (assembly_limits_new n g) s = Some (xs, m', l', s') \<and>
     map fst xs = take (length xs) (pending m) \<and> limits_reach (assembly_limits_new n g) {#} (committed_gas xs) l'"
  using worker_run_result[OF assms reach_init[of "assembly_limits_new n g"], of 0 shut exec moved s] by simp

theorem worker_loop_witness:
  "let m = snd (add_txs [sample_tx 1, sample_tx 2] sample_mempool) in
   \<exists>xs m' l' s'. worker_run 3 0 (\<lambda>_. False) (\<lambda>tx s. (if s then SUCCESS else FAILURE, \<not> s)) (sample_tx 0) m (assembly_limits_new 5 50) True =
       Some (xs, m', l', s') \<and> map fst xs = take (length xs) [sample_tx 1, sample_tx 2]"
proof -
  let ?m = "snd (add_txs [sample_tx 1, sample_tx 2] sample_mempool)"
  have f: "filled_of (indices sample_mempool) = 0" "consumed_of (indices sample_mempool) = 0"
    by (simp_all add: sample_mempool_def mempool_new_def filled_of_def consumed_of_def)
  have "room sample_mempool [sample_tx 1, sample_tx 2] = 2" by (simp add: room_def sample_mempool_ok MAX_MEMPOOL_SIZE_def)
  then have m: "mempool_ok ?m" "pending ?m = [sample_tx 1, sample_tx 2]"
    using add_txs_queue[OF sample_mempool_ok(1), of "[sample_tx 1, sample_tx 2]"] f by (simp_all add: MAX_MEMPOOL_SIZE_def sample_mempool_ok)
  have "unat (consumed_of (indices ?m)) = 0" using add_txs_positions(4)[OF sample_mempool_ok(1)] f by simp
  then show ?thesis using worker_loop[OF m(1), of 3 "\<lambda>_. False" "\<lambda>tx s. (if s then SUCCESS else FAILURE, \<not> s)" "sample_tx 0" 5 50 True] m(2)
    by (auto simp: Let_def)
qed

end
