(* ===== verification/Proposal.thy ===== *)
theory Proposal
  imports VirtualMachine BlockAssembly
begin

text \<open>
  The other entry points of the virtual machines: the genesis block (\<open>vm/genesis.cc\<close>), the end of a proposal
  (\<open>propose_tx_block\<close> of the three machines), and what the persistent machines add to the execution of a block: the
  thread that writes the trie nodes of a round to disk (\<open>state_db/async_keys_to_disk.h\<close>) and the timestamp of
  the next round.

  A proposal starts after the assembly threads have joined; the contexts are those they left. The storage
  of the trie and its \<open>swap_buffers\<close> belong to the trie library.
\<close>

section \<open>Genesis\<close>

definition make_static_32bytes :: "uint64 \<Rightarrow> uint64 \<Rightarrow> uint64 \<Rightarrow> uint64 \<Rightarrow> byte list" where
  "make_static_32bytes a b c d = le_bytes 8 a @ le_bytes 8 b @ le_bytes 8 c @ le_bytes 8 d"

definition make_address :: "uint64 \<Rightarrow> uint64 \<Rightarrow> uint64 \<Rightarrow> uint64 \<Rightarrow> Address" where
  "make_address a b c d = be_word (make_static_32bytes a b c d)"

definition DEPLOYER_ADDRESS :: Address where
  "DEPLOYER_ADDRESS = make_address 0 0 0 0"

definition install_contract :: "(Contract \<Rightarrow> Hash) \<Rightarrow> (Contract \<Rightarrow> metered) \<Rightarrow> 'c ContractDB \<Rightarrow> Contract \<Rightarrow> Address \<Rightarrow> ContractDBProxy \<Rightarrow>
    ContractDBProxy outcome" where
  "install_contract hx mt cdb contract a px =
     (case create_contract hx mt contract px of (h, px1) \<Rightarrow> deploy_contract_at_specific_address cdb a h px1)"

text \<open>\<open>deploy_wasm\<close> is the content of the file the machine loads.\<close>

definition install_genesis_contracts :: "(Address, metered, 'c) kv_ops \<Rightarrow> (Contract \<Rightarrow> Hash) \<Rightarrow> (Contract \<Rightarrow> metered) \<Rightarrow> nat \<Rightarrow> Contract \<Rightarrow>
    'c ContractDB \<Rightarrow> 'c ContractDB outcome" where
  "install_genesis_contracts KC hx mt tid deploy_wasm cdb =
     obind (install_contract hx mt cdb deploy_wasm DEPLOYER_ADDRESS contract_proxy_new) (\<lambda>px.
     obind (push_updates_to_db px) (\<lambda>(rw, _).
       case contract_rewind_commit rw cdb of (rw1, cdb1) \<Rightarrow>
         obind (contract_rewind_destroy tid rw1 cdb1) (\<lambda>cdb2. contract_db_commit KC tid 0 cdb2)))"

definition init_default_genesis :: "(Address, metered, 'c) kv_ops \<Rightarrow> (Contract \<Rightarrow> Hash) \<Rightarrow> (Contract \<Rightarrow> metered) \<Rightarrow> nat \<Rightarrow> Contract \<Rightarrow> 's \<Rightarrow> 'l \<Rightarrow>
    ('c, 'db, 's, 'l) VirtualMachine \<Rightarrow> ('c, 'db, 's, 'l) VirtualMachine outcome" where
  "init_default_genesis KC hx mt tid deploy_wasm s l vm =
     obind (install_genesis_contracts KC hx mt tid deploy_wasm (gc_contract_db (global_context vm))) (\<lambda>cdb.
       Ret (vm\<lparr>global_context := (global_context vm)\<lparr>gc_contract_db := cdb\<rparr>, current_block_context := Some (block_context_new s l 0)\<rparr>))"

section \<open>Proposals\<close>

definition propose_tx_block :: "'t trie_ops \<Rightarrow> (AddressAndKey \<Rightarrow> uint64) \<Rightarrow> ('t \<Rightarrow> Hash) \<Rightarrow> 's tx_trie \<Rightarrow> (AddressAndKey, unit, 'k) kv_ops \<Rightarrow>
    (Address, metered, 'c) kv_ops \<Rightarrow> nat \<Rightarrow> ('t StateDB, 's TxSet, 'k ModifiedKeysList) context_ops \<Rightarrow>
    ('c, 't StateDB, 's TxSet, 'k ModifiedKeysList) VirtualMachine \<Rightarrow>
    (BlockHeader \<times> TxSetEntry list \<times> ('c, 't StateDB, 's TxSet, 'k ModifiedKeysList) VirtualMachine) outcome" where
  "propose_tx_block T kh root_hash KS KL KC tid ops vm =
     obind (assert_initialized vm) (\<lambda>B.
     obind (merge_logs (bc_modified_keys_list B)) (\<lambda>l.
     obind (tx_set_finalize (bc_tx_set B)) (\<lambda>s.
     obind (tx_set_hash KS s) (\<lambda>sh.
     obind (serialize_block KS s) (\<lambda>block_out.
     obind (mkl_hash KL l) (\<lambda>lh.
     obind (contract_db_commit KC tid (ucast (bc_block_number B)) (gc_contract_db (global_context vm))) (\<lambda>cdb.
     obind (get_keys KL l) (\<lambda>ks.
     obind (commit_modifications T kh ks (gc_state_db (global_context vm))) (\<lambda>db.
     obind (state_db_hash T root_hash db) (\<lambda>(dh, db1).
     obind (contract_db_hash KC cdb) (\<lambda>ch.
       let out = \<lparr>hd_block_number = bc_block_number B, prev_header_hash = prev_block_hash vm, hd_tx_set_hash = sh, modified_keys_hash = lh,
                  hd_state_db_hash = dh, hd_contract_db_hash = ch\<rparr>;
           B1 = B\<lparr>bc_tx_set := s, bc_modified_keys_list := l\<rparr>
       in Ret (out, block_out, vm\<lparr>global_context := (global_context vm)\<lparr>gc_contract_db := cdb, gc_state_db := db1\<rparr>,
                                  current_block_context := Some (reset_context ops (bc_block_number B1 + 1) B1)\<rparr>))))))))))))"

section \<open>Trie nodes on disk\<close>

text \<open>One buffer per thread; the worker writes them to the file of the round and empties them.\<close>

record AsyncKeysToDisk =
  kd_work_item :: "byte list list"
  kd_work_done :: bool
  kd_work_ts :: uint32

definition keys_to_disk_new :: AsyncKeysToDisk where
  "keys_to_disk_new = \<lparr>kd_work_item = replicate TLCACHE_SIZE [], kd_work_done = True, kd_work_ts = 0\<rparr>"

type_synonym 'st swap_fn = "'st \<Rightarrow> byte list list \<Rightarrow> 'st \<times> byte list list"

definition kd_log_keys :: "'st swap_fn \<Rightarrow> uint32 \<Rightarrow> 'st \<Rightarrow> AsyncKeysToDisk \<Rightarrow> 'st \<times> AsyncKeysToDisk" where
  "kd_log_keys swap_buffers timestamp storage kd = (case swap_buffers storage (kd_work_item kd) of
     (storage', item) \<Rightarrow> (storage', kd\<lparr>kd_work_item := item, kd_work_done := False, kd_work_ts := timestamp\<rparr>))"

text \<open>One turn of the worker, when it has been woken; files are truncated when they are opened.\<close>

definition kd_run :: "AsyncKeysToDisk \<Rightarrow> (uint32 \<Rightarrow> byte list option) \<Rightarrow> AsyncKeysToDisk \<times> (uint32 \<Rightarrow> byte list option)" where
  "kd_run kd files =
     (if kd_work_done kd then (kd, files)
      else (kd\<lparr>kd_work_item := map (\<lambda>_. []) (kd_work_item kd), kd_work_done := True\<rparr>,
            files(kd_work_ts kd \<mapsto> concat (kd_work_item kd))))"

definition swap_buffers :: "byte list list \<Rightarrow> byte list list \<Rightarrow> byte list list \<times> byte list list" where
  "swap_buffers bufs old_buffers = (old_buffers, bufs)"

text \<open>The persistent machines: the machine, the storage of its trie, and the writer of keys.\<close>

record ('vm, 'st) persistent_vm =
  pv_vm :: 'vm
  pv_storage :: 'st
  pv_keys :: AsyncKeysToDisk

definition log_and_stamp :: "'st swap_fn \<Rightarrow> (('c, 't PersistentStateDB, 's, 'l) VirtualMachine, 'st) persistent_vm \<Rightarrow> uint64 \<Rightarrow>
    (('c, 't PersistentStateDB, 's, 'l) VirtualMachine, 'st) persistent_vm" where
  "log_and_stamp swp pv n =
     (let vm = pv_vm pv; db = gc_state_db (global_context vm)
      in case kd_log_keys swp (current_timestamp db) (pv_storage pv) (pv_keys pv) of (st, kd) \<Rightarrow>
           pv\<lparr>pv_storage := st, pv_keys := kd, pv_vm := vm\<lparr>global_context := (global_context vm)\<lparr>gc_state_db := set_timestamp (ucast n) db\<rparr>\<rparr>\<rparr>)"

definition current_number :: "('c, 'db, 's, 'l) VirtualMachine \<Rightarrow> uint64" where
  "current_number vm = (case current_block_context vm of None \<Rightarrow> 0 | Some B \<Rightarrow> bc_block_number B)"

definition groundhog_try_exec_tx_block :: "'st swap_fn \<Rightarrow>
    (('c, 't PersistentStateDB, 's, 'l) VirtualMachine \<Rightarrow> (BlockHeader option \<times> ('c, 't PersistentStateDB, 's, 'l) VirtualMachine \<times> uid) outcome) \<Rightarrow>
    (('c, 't PersistentStateDB, 's, 'l) VirtualMachine, 'st) persistent_vm \<Rightarrow>
    (BlockHeader option \<times> (('c, 't PersistentStateDB, 's, 'l) VirtualMachine, 'st) persistent_vm \<times> uid) outcome" where
  "groundhog_try_exec_tx_block swp base pv =
     obind (base (pv_vm pv)) (\<lambda>(out, vm1, u1).
       let pv1 = pv\<lparr>pv_vm := vm1\<rparr>
       in Ret (out, if out \<noteq> None then log_and_stamp swp pv1 (current_number vm1) else pv1, u1))"

definition sisyphus_try_exec_tx_block :: "'st swap_fn \<Rightarrow>
    (('c, 't PersistentStateDB, 's, 'l) VirtualMachine \<Rightarrow> (BlockHeader option \<times> ('c, 't PersistentStateDB, 's, 'l) VirtualMachine \<times> uid) outcome) \<Rightarrow>
    (('c, 't PersistentStateDB, 's, 'l) VirtualMachine, 'st) persistent_vm \<Rightarrow>
    (BlockHeader option \<times> (('c, 't PersistentStateDB, 's, 'l) VirtualMachine, 'st) persistent_vm \<times> uid) outcome" where
  "sisyphus_try_exec_tx_block swp base pv =
     obind (base (pv_vm pv)) (\<lambda>(out, vm1, u1).
       case out of
         None \<Rightarrow> Ret (None, pv\<lparr>pv_vm := vm1\<lparr>global_context := (global_context vm1)\<lparr>gc_state_db :=
                     set_timestamp (ucast (current_number vm1)) (gc_state_db (global_context vm1))\<rparr>\<rparr>\<rparr>, u1)
       | Some h \<Rightarrow> Ret (Some h, log_and_stamp swp (pv\<lparr>pv_vm := vm1\<rparr>) (current_number vm1), u1))"

definition groundhog_propose_tx_block :: "'st swap_fn \<Rightarrow> 't trie_ops \<Rightarrow> ('t \<Rightarrow> Hash) \<Rightarrow> 's tx_trie \<Rightarrow> (AddressAndKey, unit, 'k) kv_ops \<Rightarrow>
    (Address, metered, 'c) kv_ops \<Rightarrow> nat \<Rightarrow> ('t PersistentStateDB, 's TxSet, 'k ModifiedKeysList) context_ops \<Rightarrow>
    (('c, 't PersistentStateDB, 's TxSet, 'k ModifiedKeysList) VirtualMachine, 'st) persistent_vm \<Rightarrow>
    (BlockHeader \<times> TxSetEntry list \<times> (('c, 't PersistentStateDB, 's TxSet, 'k ModifiedKeysList) VirtualMachine, 'st) persistent_vm) outcome" where
  "groundhog_propose_tx_block swp T root_hash KS KL KC tid ops pv =
     (let vm = pv_vm pv in
      obind (assert_initialized vm) (\<lambda>B.
      obind (merge_logs (bc_modified_keys_list B)) (\<lambda>l.
      obind (tx_set_finalize (bc_tx_set B)) (\<lambda>s.
      obind (tx_set_hash KS s) (\<lambda>sh.
      obind (serialize_block KS s) (\<lambda>block_out.
      obind (mkl_hash KL l) (\<lambda>lh.
      obind (contract_db_commit KC tid (ucast (bc_block_number B)) (gc_contract_db (global_context vm))) (\<lambda>cdb.
      obind (groundhog_commit_modifications T KL l (gc_state_db (global_context vm))) (\<lambda>db.
        case groundhog_hash T root_hash db of (dh, db1) \<Rightarrow>
      obind (contract_db_hash KC cdb) (\<lambda>ch.
        let out = \<lparr>hd_block_number = bc_block_number B, prev_header_hash = prev_block_hash vm, hd_tx_set_hash = sh, modified_keys_hash = lh,
                   hd_state_db_hash = dh, hd_contract_db_hash = ch\<rparr>;
            B1 = B\<lparr>bc_tx_set := s, bc_modified_keys_list := l\<rparr>;
            vm1 = vm\<lparr>global_context := (global_context vm)\<lparr>gc_contract_db := cdb, gc_state_db := db1\<rparr>,
                     current_block_context := Some (reset_context ops (bc_block_number B1 + 1) B1)\<rparr>
        in Ret (out, block_out, log_and_stamp swp (pv\<lparr>pv_vm := vm1\<rparr>) (current_number vm1))))))))))))"

text \<open>With a place for the old block context (\<open>extract_block_context\<close>) the context of the block is handed out and a
  newly constructed one, \<open>fresh\<close>, takes its place.\<close>

definition sisyphus_propose_tx_block :: "'st swap_fn \<Rightarrow> 't trie_ops \<Rightarrow> ('t \<Rightarrow> Hash) \<Rightarrow> 's tx_trie \<Rightarrow> (byte list, StorageDelta, 'i) kv_ops \<Rightarrow>
    (Address, metered, 'c) kv_ops \<Rightarrow> nat \<Rightarrow> ('t PersistentStateDB, 's TxSet, 'i) context_ops \<Rightarrow> ('s TxSet, 'i) BlockContext option \<Rightarrow>
    (('c, 't PersistentStateDB, 's TxSet, 'i) VirtualMachine, 'st) persistent_vm \<Rightarrow>
    (BlockHeader \<times> TxSetEntry list \<times> IndexedModification list \<times> ('s TxSet, 'i) BlockContext option \<times> (('c, 't PersistentStateDB, 's TxSet, 'i) VirtualMachine, 'st) persistent_vm) outcome" where
  "sisyphus_propose_tx_block swp T root_hash KS KI KC tid ops fresh pv =
     (let vm = pv_vm pv in
      obind (assert_initialized vm) (\<lambda>B.
      obind (unique_tx_set_finalize (bc_tx_set B)) (\<lambda>s.
      obind (unique_tx_set_hash KS s) (\<lambda>sh.
      obind (unique_serialize_block KS s) (\<lambda>block_out.
        let lh = tmi_hash KI (bc_modified_keys_list B); out_modlog = save_modifications KI (bc_modified_keys_list B) in
      obind (contract_db_commit KC tid (ucast (bc_block_number B)) (gc_contract_db (global_context vm))) (\<lambda>cdb.
      obind (sisyphus_commit_modifications T KI (bc_modified_keys_list B) (gc_state_db (global_context vm))) (\<lambda>db.
        case sisyphus_hash T root_hash db of (dh, db1) \<Rightarrow>
      obind (contract_db_hash KC cdb) (\<lambda>ch.
        let out = \<lparr>hd_block_number = bc_block_number B, prev_header_hash = prev_block_hash vm, hd_tx_set_hash = sh, modified_keys_hash = lh,
                   hd_state_db_hash = dh, hd_contract_db_hash = ch\<rparr>;
            B1 = B\<lparr>bc_tx_set := s\<rparr>;
            (extracted, B2) = (case fresh of
               Some F \<Rightarrow> (Some B1, F\<lparr>bc_block_number := bc_block_number B1 + 1\<rparr>)
             | None \<Rightarrow> (None, reset_context ops (bc_block_number B1 + 1) B1));
            vm1 = vm\<lparr>global_context := (global_context vm)\<lparr>gc_contract_db := cdb, gc_state_db := db1\<rparr>, current_block_context := Some B2\<rparr>
        in Ret (out, block_out, out_modlog, extracted, log_and_stamp swp (pv\<lparr>pv_vm := vm1\<rparr>) (current_number vm1))))))))))"

section \<open>Properties\<close>

text \<open>
  C24: a proposer and a validator compute the same header. When the contexts of a machine are those a
  validator has after executing the transactions, the header of the proposal, and the databases it leaves,
  are those of the finish phase followed by the header of \<open>try_exec_tx_block\<close>.
\<close>

theorem proposal_equals_validation:
  assumes "current_block_context vm = Some B"
  shows "obind (propose_tx_block T kh root_hash KS KL KC tid ops vm) (\<lambda>(out, _, vm'). Ret (out, global_context vm')) =
     obind (phase_finish_block T kh KL KC tid (global_context vm) B) (\<lambda>(G, B'). 
       make_block_header (virtual_machine_ops T sh kh root_hash KS KL KC) KC (prev_block_hash vm) G B')"
proof -
  have init: "assert_initialized vm = Ret B" using assms by (simp add: assert_initialized_def)
  show ?thesis
  proof (cases "merge_logs (bc_modified_keys_list B)")
    case (Ret l)
    show ?thesis
    proof (cases "tx_set_finalize (bc_tx_set B)")
      case s: (Ret s)
      then have h: "tx_set_hash KS s = Ret (kv_hash KS (txs s))" "serialize_block KS s = Ret (map snd (kv_entries KS (txs s)))"
        by (auto simp: tx_set_finalize_def tx_set_hash_def serialize_block_def assert_txs_merged_def outcome_simps)
      have lm: "mkl_hash KL l = Ret (kv_hash KL (mk_keys l))" using Ret by (auto simp: mkl_defs outcome_simps)
      show ?thesis using Ret s by (simp add: propose_tx_block_def phase_finish_block_def make_block_header_def virtual_machine_ops_def init h lm
            obind_assoc split_def Let_def)
    qed (use Ret in \<open>simp_all add: propose_tx_block_def phase_finish_block_def init\<close>)
  qed (simp_all add: propose_tx_block_def phase_finish_block_def init)
qed

theorem proposal_equals_validation_witness:
  "obind (propose_tx_block omap_trie (\<lambda>_. 0) (\<lambda>_. 7) assoc_kv assoc_kv assoc_kv 0 sample_ops sample_vm) (\<lambda>(out, _, vm'). Ret (out, global_context vm')) =
     obind (phase_finish_block omap_trie (\<lambda>_. 0) assoc_kv assoc_kv 0 sample_global sample_block) (\<lambda>(G, B').
       make_block_header (virtual_machine_ops omap_trie (\<lambda>_. 0) (\<lambda>_. 0) (\<lambda>_. 7) assoc_kv assoc_kv assoc_kv) assoc_kv 8 G B')"
  using proposal_equals_validation[of sample_vm sample_block omap_trie "\<lambda>_. 0" "\<lambda>_. 7" assoc_kv assoc_kv assoc_kv 0 sample_ops "\<lambda>_. 0"]
  by (simp add: sample_vm_def)

text \<open>
  A proposer does not chain its headers. \<open>propose_tx_block\<close> leaves the hash of the previous header as it was, where
  \<open>try_exec_tx_block\<close> sets it, so two proposals in a row carry the same previous hash, whatever the
  assembly threads execute in between; the second header does not name the first.
\<close>

theorem proposals_repeat_prev_hash:
  assumes "propose_tx_block T kh root_hash KS KL KC tid ops vm = Ret (out1, block1, vm1)" "prev_block_hash vm2 = prev_block_hash vm1"
    "propose_tx_block T kh root_hash KS KL KC tid ops vm2 = Ret (out2, block2, vm3)"
  shows "prev_header_hash out2 = prev_header_hash out1 \<and> prev_block_hash vm3 = prev_block_hash vm"
proof -
  have keep: "prev_header_hash out = prev_block_hash v \<and> prev_block_hash v' = prev_block_hash v"
    if "propose_tx_block T kh root_hash KS KL KC tid ops v = Ret (out, blk, v')" for v out blk v'
    using that by (auto simp: propose_tx_block_def outcome_simps Let_def split: prod.splits)
  show ?thesis using keep[OF assms(1)] keep[OF assms(3)] assms(2) by simp
qed

lemma sample_proposal:
  assumes "gc_contract_db G = gc_contract_db sample_global" "gc_state_db G = empty_db" "bc_tx_set B = tx_set_new assoc_kv" "bc_modified_keys_list B = mkl_new assoc_kv"
  shows "\<exists>out block vm'. propose_tx_block omap_trie (\<lambda>_. 0) (\<lambda>_. 7) assoc_kv assoc_kv assoc_kv 0 sample_ops
     \<lparr>global_context = G, current_block_context = Some B, prev_block_hash = 8\<rparr> = Ret (out, block, vm') \<and> prev_block_hash vm' = 8"
  using assms by (simp add: propose_tx_block_def assert_initialized_def merge_logs_def assert_logs_not_merged_def mkl_new_def tx_set_finalize_def
      assert_txs_not_merged_def tx_set_new_def tx_set_hash_def assert_txs_merged_def serialize_block_def mkl_hash_def assert_logs_merged_def
      get_keys_def assoc_kv_def contract_db_commit_def uc_commit_def sample_idle(1) uncommitted_new_def commit_modifications_def state_db_hash_def
      contract_db_hash_def Let_def)

theorem proposals_repeat_prev_hash_witness:
  "\<exists>out1 block1 vm1 out2 block2 vm3. propose_tx_block omap_trie (\<lambda>_. 0) (\<lambda>_. 7) assoc_kv assoc_kv assoc_kv 0 sample_ops sample_vm = Ret (out1, block1, vm1) \<and>
     propose_tx_block omap_trie (\<lambda>_. 0) (\<lambda>_. 7) assoc_kv assoc_kv assoc_kv 0 sample_ops sample_vm = Ret (out2, block2, vm3) \<and>
     prev_header_hash out2 = prev_header_hash out1"
proof -
  obtain out block vm' where p: "propose_tx_block omap_trie (\<lambda>_. 0) (\<lambda>_. 7) assoc_kv assoc_kv assoc_kv 0 sample_ops sample_vm = Ret (out, block, vm')"
    "prev_block_hash vm' = 8"
    using sample_proposal[of sample_global sample_block] by (auto simp: sample_vm_def sample_global_def sample_block_def block_context_new_def)
  have "prev_block_hash sample_vm = prev_block_hash vm'" by (simp add: p(2) sample_vm_def)
  from proposals_repeat_prev_hash[OF p(1) this p(1)] p(1) show ?thesis by blast
qed

lemma be_bytes_zero: "be_bytes n 0 = replicate n 0"
  by (induction n) simp_all

lemma DEPLOYER_ADDRESS_zero: "DEPLOYER_ADDRESS = 0"
proof -
  have "make_static_32bytes 0 0 0 0 = be_bytes 32 (0 :: Address)"
    by (simp add: make_static_32bytes_def le_bytes_def be_bytes_zero flip: replicate_add)
  then show ?thesis by (simp add: DEPLOYER_ADDRESS_def make_address_def)
qed

text \<open>
  The genesis block of a fresh machine deploys one contract, the deployer, to the address zero, and nothing else; the machine
  then waits for block 0 with no contract pending.
\<close>

theorem genesis_installs_deployer:
  assumes "kv_laws KC" "gc_contract_db (global_context vm) = contract_db_new KC n"
  shows "\<exists>vm'. init_default_genesis KC hx mt tid code s l vm = Ret vm' \<and> current_block_context vm' = Some (block_context_new s l 0) \<and>
     gc_state_db (global_context vm') = gc_state_db (global_context vm) \<and>
     uncommitted_contracts (gc_contract_db (global_context vm')) = uncommitted_new \<and>
     (\<forall>a. get_script_by_address KC a (gc_contract_db (global_context vm')) =
        (if a \<noteq> 0 then Ret None else case mt code of None \<Rightarrow> Throw (RuntimeError ''invalid script stored within ContractDB!'') | Some script \<Rightarrow> Ret (Some script)))"
  using assms(2)
  by (simp add: init_default_genesis_def install_genesis_contracts_def install_contract_def DEPLOYER_ADDRESS_zero create_contract_def contract_proxy_new_def
        deploy_contract_at_specific_address_def check_contract_exists_def push_updates_to_db_def contract_assert_not_committed_def Let_def
        contract_rewind_commit_def contract_rewind_destroy_def deploy_closure_commit_def deploy_contract_to_address_def
        uc_deploy_contract_to_address_def create_closure_destroy_def create_closure_commit_def push_create_contract_def
        add_new_uncommitted_contract_def uc_add_new_contract_def contract_db_new_def uncommitted_new_def contract_db_commit_def uc_commit_def
        commit_contract_to_db_def commit_registration_def omap_emplace_def uc_clear_def kv_lawsD[OF assms(1)] get_script_by_address_def
        split: option.split)

theorem genesis_installs_deployer_witness:
  "\<exists>vm'. init_default_genesis assoc_kv (\<lambda>_. 4) Some 0 [1, 2] (tx_set_new assoc_kv) (mkl_new assoc_kv) (sample_vm\<lparr>current_block_context := None\<rparr>) = Ret vm' \<and>
     get_script_by_address assoc_kv 0 (gc_contract_db (global_context vm')) = Ret (Some [1, 2])"
  using genesis_installs_deployer[OF assoc_kv_laws, of "sample_vm\<lparr>current_block_context := None\<rparr>" 1 "\<lambda>_. 4" Some 0 "[1, 2]"
      "tx_set_new assoc_kv" "mkl_new assoc_kv"]
  by (auto simp: sample_vm_def sample_global_def)

text \<open>
  A round of trie nodes can miss its file. \<open>log_keys\<close> does not wait for the writer: when a second round is logged before
  the writer has written the first, the buffers of the first are swapped back into the storage of the trie, no
  file is written for its timestamp, and they go into the file of a later round, after the nodes of the second round.
\<close>

theorem overtaken_round_not_written:
  assumes "files ts1 = None" "ts1 \<noteq> ts2" "kd_work_done kd"
    "kd_log_keys swap_buffers ts1 bufs1 kd = (st1, kd1)" "kd_log_keys swap_buffers ts2 bufs2 kd1 = (st2, kd2)" "kd_run kd2 files = (kd3, files')"
  shows "files' ts1 = None \<and> files' ts2 = Some (concat bufs2) \<and> st2 = bufs1"
  using assms by (auto simp: kd_log_keys_def swap_buffers_def kd_run_def)

theorem overtaken_round_not_written_witness:
  "\<exists>st1 kd1 st2 kd2 kd3 files'. kd_log_keys swap_buffers 1 [[10]] keys_to_disk_new = (st1, kd1) \<and> kd_log_keys swap_buffers 2 [[20]] kd1 = (st2, kd2) \<and>
     kd_run kd2 (\<lambda>_. None) = (kd3, files') \<and> files' 1 = None \<and> files' 2 = Some [20] \<and> st2 = [[10]]"
proof -
  obtain st1 kd1 st2 kd2 kd3 files' where r: "kd_log_keys swap_buffers 1 [[10]] keys_to_disk_new = (st1, kd1)" "kd_log_keys swap_buffers 2 [[20]] kd1 = (st2, kd2)"
     "kd_run kd2 (\<lambda>_. None) = (kd3, files')" by (metis surj_pair)
  have "kd_work_done keys_to_disk_new" by (simp add: keys_to_disk_new_def)
  from overtaken_round_not_written[OF _ _ this r] r show ?thesis by auto
qed

end
