(* ===== verification/ModificationMetadata.thy ===== *)
theory ModificationMetadata
  imports Storage Bytes
begin

text \<open>
  The metadata a node of the typed modification index carries
  (\<open>state_db/modification_metadata.h\<close>): a tagged union with the sum of the deltas below the
  node, kept at 128 bits. The union is 16 bytes of storage, read little-endian, as on the
  machines the code runs on; its 64-bit member is the low half. The tag is a byte, because
  \<open>try_parse\<close> casts whatever byte it reads.

  The base class belongs to the trie library: its operations are the fields of \<open>base_ops\<close>.
\<close>

section \<open>Definitions\<close>

record 'b base_ops =
  base_write_to :: "'b \<Rightarrow> byte list"
  base_try_parse :: "byte list \<Rightarrow> 'b \<Rightarrow> bool \<times> 'b"
  base_from_value :: "StorageDelta \<Rightarrow> 'b \<Rightarrow> 'b"
  base_add :: "'b \<Rightarrow> 'b \<Rightarrow> 'b"
  base_clear :: "'b \<Rightarrow> 'b"

abbreviation META_NONE :: byte where "META_NONE \<equiv> 0"
abbreviation META_NNINT64 :: byte where "META_NNINT64 \<equiv> 1"
abbreviation META_HASHSET_LIMIT :: byte where "META_HASHSET_LIMIT \<equiv> 2"
abbreviation META_KNOWN_SUPPLY_ASSET :: byte where "META_KNOWN_SUPPLY_ASSET \<equiv> 3"

record 'b ModificationMetadata =
  meta :: uint128
  active_meta :: byte
  meta_base :: 'b

definition low64 :: "uint128 \<Rightarrow> uint64" where "low64 m = ucast m"

definition set_low64 :: "uint64 \<Rightarrow> uint128 \<Rightarrow> uint128" where
  "set_low64 v m = push_bit 64 (drop_bit 64 m) OR ucast v"

definition get_nnint64 :: "'b ModificationMetadata \<Rightarrow> uint128 outcome" where
  "get_nnint64 m = (if active_meta m \<noteq> META_NNINT64 then Throw (RuntimeError ''mismatch'') else Ret (meta m))"

definition get_hs_limit :: "'b ModificationMetadata \<Rightarrow> uint128 outcome" where
  "get_hs_limit m = (if active_meta m \<noteq> META_HASHSET_LIMIT then Throw (RuntimeError ''mismatch'')
     else Ret (ucast (low64 (meta m))))"

definition get_known_supply :: "'b ModificationMetadata \<Rightarrow> uint128 outcome" where
  "get_known_supply m = (if active_meta m \<noteq> META_KNOWN_SUPPLY_ASSET then Throw (RuntimeError ''mismatch'') else Ret (meta m))"

definition meta_write_to :: "'b base_ops \<Rightarrow> 'b ModificationMetadata \<Rightarrow> byte list outcome" where
  "meta_write_to B m =
     obind (if active_meta m = META_NNINT64 \<or> active_meta m = META_KNOWN_SUPPLY_ASSET then Ret (le_bytes 16 (meta m))
            else if active_meta m = META_HASHSET_LIMIT then Ret (le_bytes 8 (low64 (meta m)))
            else if active_meta m = META_NONE then Ret []
            else Throw (RuntimeError ''invalid meta enum''))
       (\<lambda>bs. Ret (active_meta m # bs @ base_write_to B (meta_base m)))"

definition parse_base :: "'b base_ops \<Rightarrow> byte list \<Rightarrow> 'b ModificationMetadata \<Rightarrow> bool \<times> 'b ModificationMetadata" where
  "parse_base B bs m = (case base_try_parse B bs (meta_base m) of (ok, b) \<Rightarrow> (ok, m\<lparr>meta_base := b\<rparr>))"

definition meta_try_parse :: "'b base_ops \<Rightarrow> byte list \<Rightarrow> 'b ModificationMetadata \<Rightarrow> bool \<times> 'b ModificationMetadata" where
  "meta_try_parse B bs m =
     (if bs = [] then (False, m)
      else let m1 = m\<lparr>active_meta := hd bs\<rparr> in
        if hd bs = META_NONE then parse_base B (drop 1 bs) m1
        else if hd bs = META_HASHSET_LIMIT then
          (if length bs < 8 + 1 then (False, m1)
           else parse_base B (drop 9 bs) (m1\<lparr>meta := set_low64 (le_word (take 8 bs)) (meta m1)\<rparr>))
        else if hd bs = META_NNINT64 \<or> hd bs = META_KNOWN_SUPPLY_ASSET then
          (if length bs < 16 + 1 then (False, m1)
           else parse_base B (drop 17 bs) (m1\<lparr>meta := le_word (take 16 bs)\<rparr>))
        else (False, m1))"

definition meta_from_value :: "'b base_ops \<Rightarrow> StorageDelta \<Rightarrow> 'b ModificationMetadata \<Rightarrow> 'b ModificationMetadata" where
  "meta_from_value B d m =
     (let m1 = (case d of
          NONNEGATIVE_INT64_SET_ADD _ delta \<Rightarrow> m\<lparr>active_meta := META_NNINT64, meta := scast delta\<rparr>
        | HASH_SET_INCREASE_LIMIT l \<Rightarrow> m\<lparr>active_meta := META_HASHSET_LIMIT, meta := set_low64 (ucast l) (meta m)\<rparr>
        | ASSET_OBJECT_ADD delta \<Rightarrow> m\<lparr>active_meta := META_KNOWN_SUPPLY_ASSET, meta := scast delta\<rparr>
        | _ \<Rightarrow> m\<lparr>active_meta := META_NONE\<rparr>)
      in m1\<lparr>meta_base := base_from_value B d (meta_base m1)\<rparr>)"

definition meta_add :: "'b base_ops \<Rightarrow> 'b ModificationMetadata \<Rightarrow> 'b ModificationMetadata \<Rightarrow> 'b ModificationMetadata outcome" where
  "meta_add B m other =
     obind
       (if active_meta m = META_NONE then
          let m1 = m\<lparr>active_meta := active_meta other\<rparr> in
          if active_meta m1 = META_NNINT64 \<or> active_meta m1 = META_KNOWN_SUPPLY_ASSET then Ret (m1\<lparr>meta := meta other\<rparr>)
          else if active_meta m1 = META_HASHSET_LIMIT then Ret (m1\<lparr>meta := set_low64 (low64 (meta other)) (meta m1)\<rparr>)
          else if active_meta m1 = META_NONE then Ret m1
          else Throw (RuntimeError ''impossible'')
        else if active_meta other = active_meta m then
          if active_meta m = META_NNINT64 \<or> active_meta m = META_KNOWN_SUPPLY_ASSET then Ret (m\<lparr>meta := meta m + meta other\<rparr>)
          else if active_meta m = META_HASHSET_LIMIT
               then Ret (m\<lparr>meta := set_low64 (low64 (meta m) + low64 (meta other)) (meta m)\<rparr>)
          else Throw (RuntimeError ''invalid active meta type'')
        else Ret (m\<lparr>active_meta := META_NONE\<rparr>))
       (\<lambda>m1. Ret (m1\<lparr>meta_base := base_add B (meta_base m1) (meta_base other)\<rparr>))"

definition meta_clear :: "'b base_ops \<Rightarrow> 'b ModificationMetadata \<Rightarrow> 'b ModificationMetadata" where
  "meta_clear B m = m\<lparr>active_meta := META_NONE, meta_base := base_clear B (meta_base m)\<rparr>"

section \<open>Sums along the trie\<close>

text \<open>A node's metadata merges that of its children, down to the values: some binary tree of merges.\<close>

datatype merge_tree = Value StorageDelta | Merge merge_tree merge_tree

fun tree_deltas :: "merge_tree \<Rightarrow> StorageDelta list" where
  "tree_deltas (Value d) = [d]"
| "tree_deltas (Merge l r) = tree_deltas l @ tree_deltas r"

fun tree_metadata :: "'b base_ops \<Rightarrow> 'b ModificationMetadata \<Rightarrow> merge_tree \<Rightarrow> 'b ModificationMetadata outcome" where
  "tree_metadata B m0 (Value d) = Ret (meta_from_value B d m0)"
| "tree_metadata B m0 (Merge l r) =
     obind (tree_metadata B m0 l) (\<lambda>m. obind (tree_metadata B m0 r) (\<lambda>m'. meta_add B m m'))"

fun signed_amount :: "StorageDelta \<Rightarrow> int" where
  "signed_amount (NONNEGATIVE_INT64_SET_ADD _ d) = sint d"
| "signed_amount (ASSET_OBJECT_ADD d) = sint d"
| "signed_amount _ = 0"

fun summable :: "byte \<Rightarrow> StorageDelta \<Rightarrow> bool" where
  "summable t (NONNEGATIVE_INT64_SET_ADD _ d) = (t = META_NNINT64)"
| "summable t (ASSET_OBJECT_ADD d) = (t = META_KNOWN_SUPPLY_ASSET)"
| "summable t _ = False"

definition signed_total :: "StorageDelta list \<Rightarrow> int" where
  "signed_total ds = sum_list (map signed_amount ds)"

definition unit_base :: "unit base_ops" where
  "unit_base = \<lparr>base_write_to = (\<lambda>_. []), base_try_parse = (\<lambda>bs b. (bs = [], b)), base_from_value = (\<lambda>_ b. b),
     base_add = (\<lambda>b _. b), base_clear = (\<lambda>b. b)\<rparr>"

definition meta_zero :: "unit ModificationMetadata" where
  "meta_zero = \<lparr>meta = 0, active_meta = META_NONE, meta_base = ()\<rparr>"

lemma sint_word_of_int_128: "- (2 ^ 127) \<le> z \<Longrightarrow> z < 2 ^ 127 \<Longrightarrow> sint (word_of_int z :: uint128) = z"
  by (simp add: signed_take_bit_int_eq_self sint_sbintrunc')

lemma meta_add_same_kind:
  assumes "active_meta m = t" "active_meta m' = t" "t = META_NNINT64 \<or> t = META_KNOWN_SUPPLY_ASSET"
  shows "\<exists>m2. meta_add B m m' = Ret m2 \<and> active_meta m2 = t \<and> meta m2 = meta m + meta m'"
  using assms(3) by (rule disjE) (simp_all add: meta_add_def assms(1,2))

lemma summable_kind: "summable t d \<Longrightarrow> t = META_NNINT64 \<or> t = META_KNOWN_SUPPLY_ASSET"
  by (cases d) auto

lemma tree_deltas_nonempty: "\<exists>d. d \<in> set (tree_deltas tr)"
  by (induction tr) auto

lemma tree_metadata_sum:
  assumes "list_all (summable t) (tree_deltas tr)"
  shows "\<exists>m. tree_metadata B m0 tr = Ret m \<and> active_meta m = t \<and> meta m = word_of_int (signed_total (tree_deltas tr))"
  using assms
proof (induction tr)
  case (Value d)
  then show ?case
    by (cases d) (simp_all add: meta_from_value_def Let_def signed_total_def)
next
  case (Merge l r)
  then obtain m m' where l: "tree_metadata B m0 l = Ret m" "active_meta m = t"
      "meta m = word_of_int (signed_total (tree_deltas l))"
    and r: "tree_metadata B m0 r = Ret m'" "active_meta m' = t" "meta m' = word_of_int (signed_total (tree_deltas r))"
    by (metis list_all_append tree_deltas.simps(2))
  obtain d where "d \<in> set (tree_deltas l)" using tree_deltas_nonempty by blast
  then have "summable t d" using Merge.prems by (simp add: list_all_iff)
  from meta_add_same_kind[OF l(2) r(2) summable_kind[OF this], of B] obtain m2
    where "meta_add B m m' = Ret m2" "active_meta m2 = t" "meta m2 = meta m + meta m'" by blast
  then show ?case using l r by (simp add: signed_total_def)
qed

lemma signed_total_bound: "\<bar>signed_total ds\<bar> \<le> int (length ds) * 2 ^ 63"
proof (induction ds)
  case (Cons d ds)
  have "\<bar>signed_amount d\<bar> \<le> 2 ^ 63"
    using sint64_bounds by (cases d) (auto simp: abs_le_iff minus_le_iff less_imp_le)
  with Cons show ?case by (simp add: signed_total_def algebra_simps)
qed (simp add: signed_total_def)

text \<open>
  C35: the sums of the index are exact. For every shape of the trie, merging the metadata of the
  deltas of one kind (integer additions, or asset additions) never throws, keeps the kind, and
  holds the exact sum of the deltas: for fewer than \<open>2 ^ 64\<close> modifications the 128-bit addition
  does not overflow.
\<close>

theorem metadata_sum_exact:
  assumes "list_all (summable t) (tree_deltas tr)" "length (tree_deltas tr) < 2 ^ 64"
  shows "\<exists>m. tree_metadata B m0 tr = Ret m \<and> active_meta m = t \<and> sint (meta m) = signed_total (tree_deltas tr)"
proof -
  have "int (length (tree_deltas tr)) * 2 ^ 63 < 2 ^ 64 * 2 ^ 63" using assms(2) by simp
  then have "\<bar>signed_total (tree_deltas tr)\<bar> < 2 ^ 127"
    using signed_total_bound[of "tree_deltas tr"] by (simp add: power_add[symmetric])
  then have "sint (word_of_int (signed_total (tree_deltas tr)) :: uint128) = signed_total (tree_deltas tr)"
    by (intro sint_word_of_int_128) auto
  then show ?thesis using tree_metadata_sum[OF assms(1), of B m0] by auto
qed

theorem metadata_sum_exact_witness:
  "\<exists>m. tree_metadata unit_base meta_zero (Merge (Value (ASSET_OBJECT_ADD (- 5))) (Merge (Value (ASSET_OBJECT_ADD 2)) (Value (ASSET_OBJECT_ADD 7)))) = Ret m \<and>
     active_meta m = META_KNOWN_SUPPLY_ASSET \<and> sint (meta m) = 4"
  using metadata_sum_exact[of META_KNOWN_SUPPLY_ASSET
      "Merge (Value (ASSET_OBJECT_ADD (- 5))) (Merge (Value (ASSET_OBJECT_ADD 2)) (Value (ASSET_OBJECT_ADD 7)))" unit_base meta_zero]
  by (simp add: signed_total_def)

text \<open>
  Parsing does not undo writing. \<open>try_parse\<close> reads the amount at the tag instead of behind
  it: what it reads back from the bytes of any integer metadata is the amount shifted by one byte
  with the tag in the low byte.
\<close>

theorem metadata_parse_reads_tag:
  assumes "active_meta m = META_NNINT64" "meta_write_to B m = Ret bs" "meta_try_parse B bs m' = (ok, m2)"
  shows "meta m2 = push_bit 8 (meta m) OR 1"
proof -
  have bs: "bs = 1 # le_bytes 16 (meta m) @ base_write_to B (meta_base m)"
    using assms(1,2) by (simp add: meta_write_to_def)
  have "be_bytes 16 (meta m) = ucast (drop_bit 120 (meta m)) # be_bytes 15 (meta m)"
    using be_bytes.simps(2)[of 15 "meta m"] by simp
  then have "take 16 bs = 1 # rev (be_bytes 15 (meta m))" by (simp add: bs le_bytes_def)
  then have "le_word (take 16 bs) = be_step (take_bit 120 (meta m)) 1"
    by (simp add: le_word_def be_word_def be_word_acc)
  also have "\<dots> = push_bit 8 (meta m) OR 1"
    by (rule bit_word_eqI) (auto simp: be_step_def bit_simps)
  finally show ?thesis using assms(3) bs
    by (auto simp: meta_try_parse_def parse_base_def Let_def split: prod.splits)
qed

theorem metadata_parse_reads_tag_witness:
  "meta (snd (meta_try_parse unit_base (1 # 5 # replicate 15 0) meta_zero)) = 0x501"
proof -
  let ?m = "meta_zero\<lparr>active_meta := 1, meta := 5\<rparr>"
  have "le_bytes 16 (5 :: uint128) = 5 # replicate 15 0" by code_simp
  then have "meta_write_to unit_base ?m = Ret (1 # 5 # replicate 15 0)"
    by (simp add: meta_write_to_def unit_base_def)
  from metadata_parse_reads_tag[OF _ this, of meta_zero] show ?thesis
    by (simp add: prod_eq_iff)
qed

end
