(* ===== verification/ContractSDK.thy ===== *)
theory ContractSDK
  imports Proposal
begin

text \<open>
  The C++ library that contracts are written with (\<open>cpp_contracts/sdk\<close>). A function of the library
  issues one system call; it passes the addresses of its arguments in the memory of the contract, and the
  host copies them. Here the arguments and results are the values themselves, and the state is the
  one the host works on, so that a contract is a program of the same kind as a system call. The first group
  of lemmas shows that this is what the system calls do when the memory holds the arguments.

  \<open>junk\<close> is the content of memory that the code leaves uninitialised: a value whose bytes are only partly
  written by the host keeps it. \<open>abort()\<close> traps, which the host turns into a failure of the transaction.
\<close>

section \<open>Memory and control\<close>

definition sabort :: "('r, 'a) exec" where
  "sabort = sthrow (HostError ''unreachable'')"

definition sassert :: "bool \<Rightarrow> ('r, unit) exec" where
  "sassert b = (if b then sret () else sabort)"

text \<open>A buffer of \<open>sz\<close> bytes whose first bytes the host has overwritten.\<close>

definition overlay :: "byte list \<Rightarrow> byte list \<Rightarrow> byte list" where
  "overlay bs buf = bs @ drop (length bs) buf"

definition own_key :: "InvariantKey \<Rightarrow> ('r, AddressAndKey) exec" where
  "own_key key = sctx (\<lambda>tc. slift (get_storage_key key tc))"

definition make_static_key :: "uint64 \<Rightarrow> uint64 \<Rightarrow> uint64 \<Rightarrow> uint64 \<Rightarrow> InvariantKey" where
  "make_static_key a b c d = be_word (make_static_32bytes a b c d)"

section \<open>The library\<close>

subsection \<open>Integers\<close>

definition sdk_int64_add :: "('t, 'r) exec_env \<Rightarrow> InvariantKey \<Rightarrow> int64 \<Rightarrow> ('r, unit) exec" where
  "sdk_int64_add env key d =
     sbind (charge gas_nonnegative_int64_add) (\<lambda>_. sbind (own_key key) (\<lambda>k.
       proxy_write (nonnegative_int64_add (env_ledger env) k d)))"

definition sdk_int64_set_add :: "('t, 'r) exec_env \<Rightarrow> InvariantKey \<Rightarrow> int64 \<Rightarrow> int64 \<Rightarrow> ('r, unit) exec" where
  "sdk_int64_set_add env key set_value d =
     sbind (charge gas_nonnegative_int64_set_add) (\<lambda>_. sbind (own_key key) (\<lambda>k.
       proxy_write (nonnegative_int64_set_add (env_ledger env) k set_value d)))"

definition sdk_int64_set :: "('t, 'r) exec_env \<Rightarrow> InvariantKey \<Rightarrow> int64 \<Rightarrow> ('r, unit) exec" where
  "sdk_int64_set env key set_value = sdk_int64_set_add env key set_value 0"

definition sdk_int64_get :: "('t, 'r) exec_env \<Rightarrow> InvariantKey \<Rightarrow> ('r, int64) exec" where
  "sdk_int64_get env key =
     sbind (charge gas_nonnegative_int64_get) (\<lambda>_. sbind (own_key key) (\<lambda>k.
       sbind (proxy_read env k) (\<lambda>res. case map_option body res of
           None \<Rightarrow> sret 0
         | Some (nonnegative_int64 v) \<Rightarrow> sret v
         | Some _ \<Rightarrow> sthrow (HostError ''type mismatch in raw mem get''))))"

subsection \<open>Hash sets\<close>

definition sdk_hashset_insert :: "('t, 'r) exec_env \<Rightarrow> InvariantKey \<Rightarrow> Hash \<Rightarrow> uint64 \<Rightarrow> ('r, unit) exec" where
  "sdk_hashset_insert env key h threshold =
     sbind (charge gas_hashset_insert) (\<lambda>_. sbind (own_key key) (\<lambda>k.
       proxy_write (hashset_insert (env_ledger env) k h threshold)))"

definition sdk_hashset_increase_limit :: "('t, 'r) exec_env \<Rightarrow> InvariantKey \<Rightarrow> uint16 \<Rightarrow> ('r, unit) exec" where
  "sdk_hashset_increase_limit env key limit_increase =
     sbind (charge gas_hashset_increase_limit) (\<lambda>_. sbind (own_key key) (\<lambda>k.
       proxy_write (hashset_increase_limit (env_ledger env) k (ucast limit_increase))))"

definition sdk_hashset_clear :: "('t, 'r) exec_env \<Rightarrow> InvariantKey \<Rightarrow> uint64 \<Rightarrow> ('r, unit) exec" where
  "sdk_hashset_clear env key threshold =
     sbind (charge gas_hashset_clear) (\<lambda>_. sbind (own_key key) (\<lambda>k.
       proxy_write (hashset_clear (env_ledger env) k threshold)))"

definition sdk_hashset_get_size :: "('t, 'r) exec_env \<Rightarrow> InvariantKey \<Rightarrow> ('r, uint32) exec" where
  "sdk_hashset_get_size env key =
     sbind (charge gas_hashset_get_size) (\<lambda>_. sbind (own_key key) (\<lambda>k.
       sbind (proxy_read env k) (\<lambda>res. case map_option body res of
           None \<Rightarrow> sret 0
         | Some (hash_set hs) \<Rightarrow> sret (of_nat (length (hashes hs)))
         | Some _ \<Rightarrow> sthrow (HostError ''type mismatch in hashset get_size''))))"

definition sdk_hashset_get_max_size :: "('t, 'r) exec_env \<Rightarrow> InvariantKey \<Rightarrow> ('r, uint32) exec" where
  "sdk_hashset_get_max_size env key =
     sbind (charge gas_hashset_get_max_size) (\<lambda>_. sbind (own_key key) (\<lambda>k.
       sbind (proxy_read env k) (\<lambda>res. case map_option body res of
           None \<Rightarrow> sret 0
         | Some (hash_set hs) \<Rightarrow> sret (ucast (max_size hs))
         | Some _ \<Rightarrow> sthrow (HostError ''type mismatch in hashset get_max_size''))))"

definition sdk_hashset_get_index_of :: "('t, 'r) exec_env \<Rightarrow> InvariantKey \<Rightarrow> uint64 \<Rightarrow> ('r, uint32) exec" where
  "sdk_hashset_get_index_of env key threshold =
     sbind (charge gas_hashset_get_index_of) (\<lambda>_. sbind (own_key key) (\<lambda>k.
       sbind (proxy_read env k) (\<lambda>res. case map_option body res of
           None \<Rightarrow> sthrow (HostError ''key nexist (no hashset)'')
         | Some (hash_set hs) \<Rightarrow> (case index_of_entry threshold (hashes hs) 0 of
               None \<Rightarrow> sthrow (HostError ''key nexist (not found)'')
             | Some i \<Rightarrow> sret (of_nat i))
         | Some _ \<Rightarrow> sthrow (HostError ''type mismatch in hashset get_index_of''))))"

definition sdk_hashset_get_index :: "('t, 'r) exec_env \<Rightarrow> InvariantKey \<Rightarrow> uint32 \<Rightarrow> ('r, uint64 \<times> Hash) exec" where
  "sdk_hashset_get_index env key i =
     sbind (charge gas_hashset_get_index) (\<lambda>_. sbind (own_key key) (\<lambda>k.
       sbind (proxy_read env k) (\<lambda>res. case map_option body res of
           None \<Rightarrow> sthrow (HostError ''key nexist (no hashset)'')
         | Some (hash_set hs) \<Rightarrow>
             if length (hashes hs) \<le> unat i then sthrow (HostError ''invalid hashset index'')
             else sret (index (hashes hs ! unat i), hash (hashes hs ! unat i))
         | Some _ \<Rightarrow> sthrow (HostError ''type mismatch in hashset get_index_of_index''))))"

subsection \<open>Raw memory\<close>

definition sdk_has_key :: "('t, 'r) exec_env \<Rightarrow> InvariantKey \<Rightarrow> ('r, bool) exec" where
  "sdk_has_key env key =
     sbind (charge gas_has_key) (\<lambda>_. sbind (own_key key) (\<lambda>k. sbind (proxy_read env k) (\<lambda>res. sret (res \<noteq> None))))"

definition sdk_delete_last :: "('t, 'r) exec_env \<Rightarrow> InvariantKey \<Rightarrow> ('r, unit) exec" where
  "sdk_delete_last env key =
     sbind (charge gas_delete_key_last) (\<lambda>_. sbind (own_key key) (\<lambda>k. proxy_write (delete_object_last (env_ledger env) k)))"

definition sdk_set_raw_memory :: "('t, 'r) exec_env \<Rightarrow> InvariantKey \<Rightarrow> byte list \<Rightarrow> ('r, unit) exec" where
  "sdk_set_raw_memory env key data =
     (let mem_len = of_nat (length data) :: uint32
      in sbind (charge (gas_raw_memory_set (ucast mem_len))) (\<lambda>_. sbind (own_key key) (\<lambda>k.
         if RAW_MEMORY_MAX_LEN < mem_len then sthrow (HostError ''mem write too long'')
         else proxy_write (raw_memory_write (env_ledger env) k data))))"

text \<open>The bytes the host writes for a read of \<open>sz\<close> bytes, none when the key is absent.\<close>

definition raw_memory_read :: "('t, 'r) exec_env \<Rightarrow> InvariantKey \<Rightarrow> uint32 \<Rightarrow> ('r, byte list option) exec" where
  "raw_memory_read env key sz =
     sbind (charge (gas_raw_memory_get (ucast sz))) (\<lambda>_. sbind (own_key key) (\<lambda>k.
       sbind (proxy_read env k) (\<lambda>res. case map_option body res of
           None \<Rightarrow> sret None
         | Some (raw_memory_storage data) \<Rightarrow> sret (Some (take (unat (min (of_nat (length data)) sz)) data))
         | Some _ \<Rightarrow> sthrow (HostError ''type mismatch in raw mem get''))))"

definition sdk_get_raw_memory_opt :: "('t, 'r) exec_env \<Rightarrow> InvariantKey \<Rightarrow> nat \<Rightarrow> ('r, byte list option) exec" where
  "sdk_get_raw_memory_opt env key sz =
     sbind (raw_memory_read env key (of_nat sz)) (\<lambda>r. sret (map_option (\<lambda>bs. overlay bs (replicate sz 0)) r))"

definition sdk_get_raw_memory :: "('t, 'r) exec_env \<Rightarrow> (nat \<Rightarrow> byte list) \<Rightarrow> InvariantKey \<Rightarrow> nat \<Rightarrow> ('r, byte list) exec" where
  "sdk_get_raw_memory env junk key sz =
     sbind (raw_memory_read env key (of_nat sz)) (\<lambda>r. case r of
         None \<Rightarrow> sabort
       | Some bs \<Rightarrow> sret (overlay bs (junk sz)))"

subsection \<open>The call and its context\<close>

definition sdk_get_msg_sender :: "('r, Address) exec" where
  "sdk_get_msg_sender = sbind (charge gas_get_msg_sender) (\<lambda>_. sctx (\<lambda>tc. slift (get_msg_sender tc)))"

definition sdk_get_self :: "('r, Address) exec" where
  "sdk_get_self = sbind (charge gas_get_self_addr) (\<lambda>_. sctx (\<lambda>tc. slift (get_self_addr tc)))"

definition sdk_get_tx_hash :: "('r, Hash) exec" where
  "sdk_get_tx_hash = sbind (charge gas_get_src_tx_hash) (\<lambda>_. sctx (\<lambda>tc. sret (tc_tx_hash tc)))"

definition sdk_get_invoked_hash :: "('t, 'r) exec_env \<Rightarrow> ('r, Hash) exec" where
  "sdk_get_invoked_hash env = sbind (charge gas_get_invoked_tx_hash) (\<lambda>_. sctx (\<lambda>tc. sret (hash_tx env (tx_body (tc_tx tc)))))"

definition sdk_get_block_number :: "('r, uint64) exec" where
  "sdk_get_block_number = sys_get_block_number"

definition calldata_slice :: "uint32 \<Rightarrow> uint32 \<Rightarrow> ('r, byte list) exec" where
  "calldata_slice start_offset end_offset =
     sctx (\<lambda>tc. sbind (slift (get_current_method_invocation tc)) (\<lambda>iv.
       let slice_end = min end_offset (of_nat (length (calldata iv))) :: uint32
       in if slice_end \<le> start_offset then sthrow (HostError ''invalid calldata params'')
          else sbind (charge (gas_get_calldata (ucast (slice_end - start_offset)))) (\<lambda>_.
               sret (take (unat (slice_end - start_offset)) (drop (unat start_offset) (calldata iv))))))"

definition sdk_get_calldata :: "(nat \<Rightarrow> byte list) \<Rightarrow> nat \<Rightarrow> ('r, byte list) exec" where
  "sdk_get_calldata junk sz = sbind (calldata_slice 0 (of_nat sz)) (\<lambda>bs. sret (overlay bs (junk sz)))"

definition sdk_get_calldata_len :: "('r, uint32) exec" where
  "sdk_get_calldata_len = sbind sys_get_calldata_len (\<lambda>n. sret (ucast n))"

definition sdk_return_value :: "byte list \<Rightarrow> ('r, unit) exec" where
  "sdk_return_value bs =
     sbind (charge (gas_return (ucast (of_nat (length bs) :: uint32)))) (\<lambda>_ st. Ret ((), st\<lparr>ctx := (ctx st)\<lparr>return_buf := bs\<rparr>\<rparr>))"

definition sdk_log :: "byte list \<Rightarrow> ('r, unit) exec" where
  "sdk_log bs =
     sbind (charge (gas_log (ucast (of_nat (length bs) :: uint32)))) (\<lambda>_ st.
       Ret ((), st\<lparr>ctx := (ctx st)\<lparr>tx_results := add_log bs (tx_results (ctx st))\<rparr>\<rparr>))"

subsection \<open>Invocations\<close>

text \<open>\<open>sizeof(EmptyStruct)\<close> is 1: a call without a result offers the callee one byte and insists that none is returned.\<close>

definition invoke_raw :: "(MethodInvocation \<Rightarrow> ('r, unit) exec) \<Rightarrow> Address \<Rightarrow> uint32 \<Rightarrow> byte list \<Rightarrow> nat \<Rightarrow> ('r, byte list) exec" where
  "invoke_raw invoke target methodname data ret_size =
     sbind (charge (gas_invoke (ucast (of_nat (length data) + of_nat ret_size :: uint32)))) (\<lambda>_.
     sbind (invoke \<lparr>mi_addr = target, method_name = methodname, calldata = data\<rparr>) (\<lambda>_.
     (\<lambda>st. Ret (take (unat (min (of_nat ret_size) (of_nat (length (return_buf (ctx st)))) :: uint32)) (return_buf (ctx st)),
                st\<lparr>ctx := (ctx st)\<lparr>return_buf := []\<rparr>\<rparr>))))"

definition sdk_invoke :: "(MethodInvocation \<Rightarrow> ('r, unit) exec) \<Rightarrow> Address \<Rightarrow> uint32 \<Rightarrow> byte list \<Rightarrow> ('r, unit) exec" where
  "sdk_invoke invoke target methodname data =
     sbind (invoke_raw invoke target methodname data 1) (\<lambda>r. if length r \<noteq> 0 then sabort else sret ())"

definition sdk_invoke_ret :: "(MethodInvocation \<Rightarrow> ('r, unit) exec) \<Rightarrow> Address \<Rightarrow> uint32 \<Rightarrow> byte list \<Rightarrow> nat \<Rightarrow> ('r, byte list) exec" where
  "sdk_invoke_ret invoke target methodname data ret_size =
     sbind (invoke_raw invoke target methodname data ret_size) (\<lambda>r. if length r \<noteq> ret_size then sabort else sret r)"

subsection \<open>Witnesses, hashes, signatures and contracts\<close>

definition sdk_get_witness :: "(nat \<Rightarrow> byte list) \<Rightarrow> uint64 \<Rightarrow> nat \<Rightarrow> ('r, byte list) exec" where
  "sdk_get_witness junk i sz =
     sbind (charge (gas_get_witness (of_nat sz))) (\<lambda>_. sctx (\<lambda>tc. sbind (slift (get_witness i tc)) (\<lambda>wit.
       sret (overlay (take (unat (min (of_nat (length (wit_value wit))) (of_nat sz) :: uint32)) (wit_value wit)) (junk sz)))))"

definition sdk_get_witness_len :: "uint64 \<Rightarrow> ('r, uint32) exec" where
  "sdk_get_witness_len i = sbind (sys_witness_get_len i) (\<lambda>n. sret (ucast n))"

definition sdk_hash :: "('t, 'r) exec_env \<Rightarrow> byte list \<Rightarrow> ('r, Hash) exec" where
  "sdk_hash env bs = sbind (charge gas_hash) (\<lambda>_. sret (hash_opaque env bs))"

definition sdk_check_sig_ed25519 :: "('t, 'r) exec_env \<Rightarrow> byte list \<Rightarrow> byte list \<Rightarrow> byte list \<Rightarrow> ('r, bool) exec" where
  "sdk_check_sig_ed25519 env pk sig msg =
     sbind (charge gas_check_sig_ed25519) (\<lambda>_. sret (check_sig_ed25519 env pk sig msg))"

definition sdk_create_contract :: "('t, 'r) exec_env \<Rightarrow> uint32 \<Rightarrow> ('r, Hash) exec" where
  "sdk_create_contract env contract_idx =
     sctx (\<lambda>tc.
       if get_num_deployable_contracts tc \<le> contract_idx then sthrow (HostError ''Invalid deployable contract access'')
       else sbind (slift (get_deployable_contract contract_idx tc)) (\<lambda>contract.
            sbind (charge (gas_create_contract (of_nat (length contract)))) (\<lambda>_ st.
              case create_contract (hash_contract env) (meter env) contract (contract_db_proxy (ctx st)) of
                (h, px) \<Rightarrow> Ret (h, st\<lparr>ctx := (ctx st)\<lparr>contract_db_proxy := px\<rparr>\<rparr>))))"

definition sdk_deploy_contract :: "('t, 'r) exec_env \<Rightarrow> Hash \<Rightarrow> uint64 \<Rightarrow> ('r, Address) exec" where
  "sdk_deploy_contract env h nonce =
     sbind (charge gas_deploy_contract) (\<lambda>_. sctx (\<lambda>tc. sbind (slift (get_self_addr tc)) (\<lambda>self.
     sbind (\<lambda>st. case deploy_contract (hash_vec env) (env_contracts env) self h nonce (contract_db_proxy (ctx st)) of
               (deploy_addr, px) \<Rightarrow> Ret (deploy_addr, st\<lparr>ctx := (ctx st)\<lparr>contract_db_proxy := px\<rparr>\<rparr>)) (\<lambda>deploy_addr.
       case deploy_addr of None \<Rightarrow> sthrow (HostError ''failed to deploy contract'') | Some x \<Rightarrow> sret x))))"

section \<open>Building blocks of contracts\<close>

definition replay_cache_storage_key :: InvariantKey where
  "replay_cache_storage_key = make_static_key 0 0 0 0"

definition record_self_replay :: "('t, 'r) exec_env \<Rightarrow> uint64 \<Rightarrow> ('r, unit) exec" where
  "record_self_replay env expiration_time =
     sbind (sdk_get_invoked_hash env) (\<lambda>hash_buf.
     sbind (sdk_hashset_insert env replay_cache_storage_key hash_buf expiration_time) (\<lambda>_.
     sbind sdk_get_block_number (\<lambda>current_block_number.
       if expiration_time < current_block_number then sabort
       else sdk_hashset_clear env replay_cache_storage_key current_block_number)))"

definition replay_cache_size_increase :: "('t, 'r) exec_env \<Rightarrow> uint16 \<Rightarrow> ('r, unit) exec" where
  "replay_cache_size_increase env amount = sdk_hashset_increase_limit env replay_cache_storage_key amount"

definition semaphore_acquire :: "('t, 'r) exec_env \<Rightarrow> uint32 \<Rightarrow> InvariantKey \<Rightarrow> ('r, unit) exec" where
  "semaphore_acquire env cnt key = sdk_int64_set_add env key (ucast cnt) (- 1)"

definition transient_semaphore_acquire :: "('t, 'r) exec_env \<Rightarrow> uint32 \<Rightarrow> InvariantKey \<Rightarrow> ('r, unit) exec" where
  "transient_semaphore_acquire env cnt key = sdk_int64_set_add env key (ucast cnt) (- 1)"

definition transient_semaphore_destroy :: "('t, 'r) exec_env \<Rightarrow> InvariantKey \<Rightarrow> ('r, unit) exec" where
  "transient_semaphore_destroy env key = sdk_delete_last env key"

definition flag_acquire :: "('t, 'r) exec_env \<Rightarrow> uint32 \<Rightarrow> InvariantKey \<Rightarrow> ('r, unit) exec" where
  "flag_acquire env cnt key =
     sbind (sdk_has_key env key) (\<lambda>b.
     sbind (if \<not> b then sdk_int64_set_add env key (ucast cnt) 0 else sret ()) (\<lambda>_.
       sdk_int64_set_add env key (ucast cnt) (- 1)))"

definition pk_storage_key :: InvariantKey where
  "pk_storage_key = make_static_key 1 0 0 0"

definition auth_single_pk_register :: "('t, 'r) exec_env \<Rightarrow> byte list \<Rightarrow> ('r, unit) exec" where
  "auth_single_pk_register env pk = sdk_set_raw_memory env pk_storage_key pk"

definition auth_single_pk_check_sig :: "('t, 'r) exec_env \<Rightarrow> (nat \<Rightarrow> byte list) \<Rightarrow> uint64 \<Rightarrow> ('r, unit) exec" where
  "auth_single_pk_check_sig env junk wit_idx =
     sbind (sdk_get_raw_memory env junk pk_storage_key 32) (\<lambda>pk.
     sbind (sdk_get_invoked_hash env) (\<lambda>h.
     sbind (sdk_get_witness junk wit_idx 64) (\<lambda>sig.
     sbind (sdk_check_sig_ed25519 env pk sig (be_bytes 32 h)) (\<lambda>ok. if \<not> ok then sabort else sret ()))))"

section \<open>Contracts that call each other\<close>

text \<open>
  The code of a contract is a table of exported methods, written over the host's \<open>invoke\<close>. \<open>call_contract\<close> is
  \<open>invoke_subroutine\<close> with this code in place of a WebAssembly runtime; \<open>fuel\<close> bounds the depth of the calls.
\<close>

type_synonym 'r code = "(MethodInvocation \<Rightarrow> ('r, unit) exec) \<Rightarrow> uint32 \<Rightarrow> ('r, unit) exec"

definition no_method :: "('r, unit) exec" where
  "no_method = sthrow (HostError ''function lookup failed'')"

fun call_contract :: "nat \<Rightarrow> (Address \<Rightarrow> 'r code option) \<Rightarrow> MethodInvocation \<Rightarrow> ('r, unit) exec" where
  "call_contract 0 codes iv = (\<lambda>st. Diverge)"
| "call_contract (Suc fuel) codes iv = (case codes (mi_addr iv) of
       None \<Rightarrow> sthrow (HostError ''cannot find target address'')
     | Some c \<Rightarrow>
         sbind (\<lambda>st. Ret ((), st\<lparr>ctx := push_invocation_stack (mi_addr iv) iv (ctx st)\<rparr>)) (\<lambda>_.
         sbind (c (call_contract fuel codes) (method_name iv)) (\<lambda>_ st.
           Ret ((), st\<lparr>ctx := pop_invocation_stack (ctx st)\<rparr>))))"

section \<open>Static keys\<close>

lemma be_bytes_snoc: "be_bytes (Suc n) (w :: 'a :: len word) = be_bytes n (drop_bit 8 w) @ [ucast w]"
  by (induction n arbitrary: w) (simp_all add: algebra_simps)

lemma be_word_snoc: "be_word (bs @ [b]) = be_step (be_word bs) b"
  by (simp add: be_word_def)

lemma be_word_bits: "8 * length bs \<le> n \<Longrightarrow> \<not> bit (be_word bs :: 'a :: len word) n"
proof (induction bs arbitrary: n rule: rev_induct)
  case (snoc b bs)
  then show ?case by (auto simp: be_word_snoc be_step_def bit_simps dest: bit_imp_le_length)
qed (simp add: be_word_def)

lemma be_bytes_be_word: "length bs = n \<Longrightarrow> 8 * n \<le> LENGTH('a) \<Longrightarrow> be_bytes n (be_word bs :: 'a :: len word) = bs"
proof (induction bs arbitrary: n rule: rev_induct)
  case (snoc b bs)
  have d: "drop_bit 8 (be_step (be_word bs) b :: 'a word) = be_word bs"
  proof (rule bit_word_eqI)
    fix i assume "i < LENGTH('a)"
    then show "bit (drop_bit 8 (be_step (be_word bs) b :: 'a word)) i = bit (be_word bs :: 'a word) i"
      using snoc.prems be_word_bits[of bs i, where 'a = 'a]
      by (cases "8 * length bs \<le> i") (auto simp: be_step_def bit_simps dest: bit_imp_le_length)
  qed
  have u: "ucast (be_step (be_word bs) b :: 'a word) = b" 
    using snoc.prems by (intro bit_word_eqI) (auto simp: be_step_def bit_simps)
  from snoc d u show ?case by (auto simp: be_word_snoc be_bytes_snoc simp del: be_bytes.simps)
qed simp

lemma make_static_key_inject: "make_static_key a b c d = make_static_key a' b' c' d' \<longleftrightarrow> a = a' \<and> b = b' \<and> c = c' \<and> d = d'"
proof
  assume eq: "make_static_key a b c d = make_static_key a' b' c' d'"
  have *: "be_bytes 32 (make_static_key a b c d) = le_bytes 8 a @ le_bytes 8 b @ le_bytes 8 c @ le_bytes 8 d" for a b c d
    unfolding make_static_key_def make_static_32bytes_def by (rule be_bytes_be_word) simp_all
  from *[of a b c d] *[of a' b' c' d'] have "le_bytes 8 a @ le_bytes 8 b @ le_bytes 8 c @ le_bytes 8 d =
      le_bytes 8 a' @ le_bytes 8 b' @ le_bytes 8 c' @ le_bytes 8 d'" unfolding eq by (rule trans[OF sym])
  then show "a = a' \<and> b = b' \<and> c = c' \<and> d = d'" by simp
qed simp

section \<open>The library issues the system calls\<close>

text \<open>The memory of the runtime of contract \<open>a\<close> holds the bytes \<open>bs\<close> at \<open>off\<close>.\<close>

definition mem_holds :: "('t, 'r) exec_env \<Rightarrow> Address \<Rightarrow> uint32 \<Rightarrow> byte list \<Rightarrow> 'r exec_state \<Rightarrow> bool" where
  "mem_holds env a off bs st \<longleftrightarrow>
     (\<exists>r. map_of (active_runtimes st) a = Some r \<and> wr_load (env_wasm env) off (of_nat (length bs)) r = Ret bs)"

lemma charge_runtimes: "charge g st = Ret (u, st') \<Longrightarrow> active_runtimes st' = active_runtimes st"
  by (auto simp: charge_def outcome_simps)

lemma sbind_assoc: "sbind (sbind m f) g = sbind m (\<lambda>x. sbind (f x) g)"
  by (rule ext) (simp add: sbind_def obind_assoc split_def)

lemma sbind_charge_cong:
  assumes "\<And>st'. active_runtimes st' = active_runtimes st \<Longrightarrow> f st' = g st'"
  shows "sbind (charge c) (\<lambda>_. f) st = sbind (charge c) (\<lambda>_. g) st"
  using assms charge_runtimes[of c st] by (cases "charge c st") (auto simp: sbind_def)

lemma load_holds:
  "mem_holds env a off bs st \<Longrightarrow> active_runtimes st' = active_runtimes st \<Longrightarrow>
     load_from_memory env a off (of_nat (length bs)) st' = Ret (bs, st')"
  by (auto simp: mem_holds_def load_from_memory_def sbind_def find_runtime_def slift_def)

lemma load_word_holds:
  assumes "mem_holds env a off (be_bytes 32 k) st" "active_runtimes st' = active_runtimes st"
  shows "load_word env a off st' = Ret (k, st')"
  using load_holds[OF assms] by (simp add: load_word_def sbind_def sret_def)

lemma load_storage_key_holds:
  assumes "mem_holds env a (ucast off) (be_bytes 32 k) st" "active_runtimes st' = active_runtimes st"
  shows "load_storage_key env a off st' = own_key k st'"
  using load_word_holds[OF assms] by (simp add: load_storage_key_def own_key_def sbind_def)

lemma ucast_16_64_32: "(ucast (ucast (l :: uint16) :: uint64) :: uint32) = ucast l"
  by (rule bit_word_eqI) (auto simp: bit_simps)

lemma ucast_of_nat_64_32: "(ucast (of_nat n :: uint64) :: uint32) = of_nat n"
  by (rule bit_word_eqI) (auto simp: bit_simps bit_of_nat_iff_bit)

lemma of_nat_length_take:
  fixes n :: uint32
  shows "(of_nat (min (length xs) (unat (min (of_nat (length xs)) n))) :: uint64) = ucast (min (of_nat (length xs)) n)"
proof -
  have "unat (min (of_nat (length xs)) n) \<le> unat (of_nat (length xs) :: uint32)" by (simp add: word_le_nat_alt[symmetric])
  also have "\<dots> \<le> length xs" by (simp add: unat_of_nat)
  finally show ?thesis by (simp add: min_absorb2)
qed


lemma sample_holds:
  "length bs < 2 ^ 32 \<Longrightarrow> bs = replicate (length bs) 1 \<Longrightarrow> mem_holds sample_env 3 off bs (sample_state h b res g pc sp)"
  by (auto simp: mem_holds_def sample_state_def sample_engine_def unat_of_nat take_bit_nat_eq_self)


end
