(* ===== verification/ContractRules.thy ===== *)
theory ContractRules
  imports ContractSDK
begin

text \<open>
  Symbolic execution of contracts. A contract sees the storage through the applicators of its transaction; \<open>view\<close> is the
  applicator of a key, whether it is cached already or not. Each library call is rewritten to an update of the
  state (\<open>spend\<close>, \<open>put_view\<close>, \<open>touch\<close>) under conditions on the gas left, on the call stack and on the view, so
  that a method is run by the simplifier; the collection \<open>contract_run\<close> holds these rules.
\<close>

named_theorems contract_run

declare call_contract.simps [simp del]

section \<open>Views and updates of the state\<close>

definition view :: "('t, 'r) exec_env \<Rightarrow> 'r exec_state \<Rightarrow> AddressAndKey \<Rightarrow> ProxyApplicator" where
  "view env st k = fst (get_local (env_ledger env) k (storage_proxy (ctx st)))"

definition budget :: "'r exec_state \<Rightarrow> nat" where
  "budget st = unat (gas_limit (tx_body (tc_tx (ctx st)))) - unat (gas_used (ctx st))"

definition frames :: "'r exec_state \<Rightarrow> MethodInvocation list" where
  "frames st = invocation_stack (ctx st)"

definition okey :: "'r exec_state \<Rightarrow> InvariantKey \<Rightarrow> AddressAndKey" where
  "okey st key = address_and_key (mi_addr (last (frames st))) key"

definition spend :: "uint64 \<Rightarrow> 'r exec_state \<Rightarrow> 'r exec_state" where
  "spend g st = st\<lparr>ctx := (ctx st)\<lparr>gas_used := gas_used (ctx st) + g\<rparr>\<rparr>"

definition touch :: "('t, 'r) exec_env \<Rightarrow> AddressAndKey \<Rightarrow> 'r exec_state \<Rightarrow> 'r exec_state" where
  "touch env k st = st\<lparr>ctx := (ctx st)\<lparr>storage_proxy := snd (get_local (env_ledger env) k (storage_proxy (ctx st)))\<rparr>\<rparr>"

definition put_view :: "('t, 'r) exec_env \<Rightarrow> AddressAndKey \<Rightarrow> ProxyApplicator \<Rightarrow> 'r exec_state \<Rightarrow> 'r exec_state" where
  "put_view env k v st =
     (let sp = snd (get_local (env_ledger env) k (storage_proxy (ctx st)))
      in st\<lparr>ctx := (ctx st)\<lparr>storage_proxy := sp\<lparr>cache := omap_set k v (cache sp)\<rparr>\<rparr>\<rparr>)"

definition set_ret :: "byte list \<Rightarrow> 'r exec_state \<Rightarrow> 'r exec_state" where
  "set_ret bs st = st\<lparr>ctx := (ctx st)\<lparr>return_buf := bs\<rparr>\<rparr>"

definition enter :: "MethodInvocation \<Rightarrow> 'r exec_state \<Rightarrow> 'r exec_state" where
  "enter iv st = st\<lparr>ctx := push_invocation_stack (mi_addr iv) iv (ctx st)\<rparr>"

definition leave :: "'r exec_state \<Rightarrow> 'r exec_state" where
  "leave st = st\<lparr>ctx := pop_invocation_stack (ctx st)\<rparr>"

definition block_of :: "'r exec_state \<Rightarrow> uint64" where
  "block_of st = current_block (ctx st)"

definition body_of_tx :: "'r exec_state \<Rightarrow> SignedTransaction" where
  "body_of_tx st = tc_tx (ctx st)"

definition ret_of :: "'r exec_state \<Rightarrow> byte list" where
  "ret_of st = return_buf (ctx st)"

lemma get_local_again [simp]: "fst (get_local m k' (snd (get_local m k sp))) = fst (get_local m k' sp)"
  by (auto simp: get_local_def Let_def map_of_omap_emplace split: option.splits)

lemma get_local_set: "fst (get_local m k' (sp\<lparr>cache := omap_set k v (cache sp)\<rparr>)) = (if k' = k then v else fst (get_local m k' sp))"
  by (auto simp: get_local_def Let_def split: option.splits)

lemma view_simps [simp]:
  "view env (spend g st) = view env st"
  "view env (touch env k st) = view env st"
  "view env (put_view env k v st) = (view env st)(k := v)"
  "view env (set_ret bs st) = view env st"
  "view env (enter iv st) = view env st"
  "view env (leave st) = view env st"
  by (auto simp: fun_eq_iff view_def spend_def set_ret_def enter_def leave_def push_invocation_stack_def pop_invocation_stack_def
      touch_def put_view_def Let_def get_local_set)

lemma frames_simps [simp]:
  "frames (spend g st) = frames st" "frames (touch env k st) = frames st" "frames (put_view env k v st) = frames st"
  "frames (set_ret bs st) = frames st" "frames (enter iv st) = frames st @ [iv]" "frames (leave st) = butlast (frames st)"
  by (simp_all add: frames_def spend_def touch_def put_view_def set_ret_def enter_def leave_def push_invocation_stack_def
      pop_invocation_stack_def Let_def)

lemma butlast_two [simp]: "butlast (xs @ [a, b]) = xs @ [a]"
  by (simp add: butlast_append)

lemma okey_simps [simp]:
  "okey (spend g st) = okey st" "okey (touch env k st) = okey st" "okey (put_view env k v st) = okey st"
  "okey (set_ret bs st) = okey st" "okey (enter iv st) = address_and_key (mi_addr iv)"
  by (simp_all add: okey_def fun_eq_iff)

lemma okey_inject [simp]: "okey st k = okey st k' \<longleftrightarrow> k = k'"
  by (simp add: okey_def)

lemma budget_simps [simp]:
  "unat g < budget st \<Longrightarrow> budget (spend g st) = budget st - unat g"
  "budget (touch env k st) = budget st" "budget (put_view env k v st) = budget st"
  "budget (set_ret bs st) = budget st" "budget (enter iv st) = budget st" "budget (leave st) = budget st"
proof -
  assume "unat g < budget st"
  then have "unat (gas_used (ctx st)) + unat g < 2 ^ 64"
    using unat_uint64_bound[of "gas_limit (tx_body (tc_tx (ctx st)))"] by (simp add: budget_def)
  then have "unat (gas_used (ctx st) + g) = unat (gas_used (ctx st)) + unat g"
    using unat_add_lem[of "gas_used (ctx st)" g] by simp
  then show "budget (spend g st) = budget st - unat g" by (simp add: budget_def spend_def)
qed (simp_all add: budget_def touch_def put_view_def set_ret_def enter_def leave_def push_invocation_stack_def
      pop_invocation_stack_def Let_def)

lemma context_simps [simp]:
  "block_of (spend g st) = block_of st" "block_of (touch env k st) = block_of st" "block_of (put_view env k v st) = block_of st"
  "block_of (set_ret bs st) = block_of st" "block_of (enter iv st) = block_of st" "block_of (leave st) = block_of st"
  "body_of_tx (spend g st) = body_of_tx st" "body_of_tx (touch env k st) = body_of_tx st" "body_of_tx (put_view env k v st) = body_of_tx st"
  "body_of_tx (set_ret bs st) = body_of_tx st" "body_of_tx (enter iv st) = body_of_tx st" "body_of_tx (leave st) = body_of_tx st"
  "ret_of (spend g st) = ret_of st" "ret_of (touch env k st) = ret_of st" "ret_of (put_view env k v st) = ret_of st"
  "ret_of (set_ret bs st) = bs" "ret_of (enter iv st) = ret_of st" "ret_of (leave st) = ret_of st"
  by (simp_all add: block_of_def body_of_tx_def ret_of_def spend_def touch_def put_view_def set_ret_def enter_def leave_def
      push_invocation_stack_def pop_invocation_stack_def Let_def)

section \<open>Integers behind a key\<close>

text \<open>The transaction sees the nonnegative integer \<open>z\<close>: an absent key reads as 0.\<close>

definition holds_int :: "ProxyApplicator \<Rightarrow> int \<Rightarrow> bool" where
  "holds_int p z \<longleftrightarrow> \<not> is_deleted p \<and> 0 \<le> z \<and> z < 2 ^ 63 \<and>
     (case current p of None \<Rightarrow> nnint64_delta p = None \<and> z = 0
      | Some ob \<Rightarrow> body ob = nonnegative_int64 (word_of_int z) \<and>
          (case nnint64_delta p of None \<Rightarrow> True | Some (b, d) \<Rightarrow> 0 \<le> sint b \<and> z = sint b + sint d))"

definition int_base :: "ProxyApplicator \<Rightarrow> int64" where
  "int_base p = (case get_base_nnint64_set_value p of None \<Rightarrow> 0 | Some b \<Rightarrow> b)"

definition int_added :: "int64 \<Rightarrow> ProxyApplicator \<Rightarrow> ProxyApplicator" where
  "int_added d p = (case try_apply (NONNEGATIVE_INT64_SET_ADD (int_base p) d) p of Ret (_, p') \<Rightarrow> p' | _ \<Rightarrow> p)"

lemma sint_word_of_nonneg: "0 \<le> z \<Longrightarrow> z < 2 ^ 63 \<Longrightarrow> sint (word_of_int z :: int64) = z"
  by (rule sint_of_fits) (simp add: fits_int64_def)

lemma holds_int_parts:
  assumes "holds_int p z"
  obtains b d where "get_base_nnint64_set_value p = Some b" "int_base p = b" "0 \<le> sint b" "z = sint b + sint d"
    "nnint64_delta p = Some (b, d) \<or> nnint64_delta p = None \<and> d = 0"
    "\<forall>ob. current p = Some ob \<longrightarrow> body_type (body ob) = NONNEGATIVE_INT64" "\<not> is_deleted p"
proof -
  have z: "0 \<le> z" "z < 2 ^ 63" "\<not> is_deleted p" using assms by (auto simp: holds_int_def)
  show ?thesis
  proof (cases "nnint64_delta p")
    case None
    show ?thesis by (rule that[of "word_of_int z" 0])
      (use assms None z in \<open>auto simp: holds_int_def get_base_nnint64_set_value_def int_base_def sint_word_of_nonneg split: option.splits\<close>)
  next
    case (Some bd)
    show ?thesis by (rule that[of "fst bd" "snd bd"])
      (use assms Some z in \<open>auto simp: holds_int_def get_base_nnint64_set_value_def int_base_def split: option.splits\<close>)
  qed
qed

lemma int_add_delta:
  assumes "0 \<le> sint b" "0 \<le> sint b + sint d" "0 \<le> sint b + sint d + sint x" "sint b + sint d + sint x < 2 ^ 63"
  shows "make_nnint64_delta b d x = Ret (Some (b, d + x)) \<and> sint (d + x) = sint d + sint x"
proof -
  have no: "\<not> add_overflow_ss d x" "\<not> add_overflow_ss x d" "\<not> add_overflow_ss b (x + d)"
    and s: "sint (d + x) = sint d + sint x" "sint (x + d) = sint d + sint x"
  proof -
    show no1: "\<not> add_overflow_ss d x" "\<not> add_overflow_ss x d" using assms sint64_bounds[of b] by (auto simp: overflow_defs)
    show s: "sint (d + x) = sint d + sint x" "sint (x + d) = sint d + sint x"
      using sint_add_in_range[OF no1(1)] sint_add_in_range[OF no1(2)] by simp_all
    show "\<not> add_overflow_ss b (x + d)" using assms s by (auto simp: overflow_defs)
  qed
  have "sint (b + (x + d)) = sint b + sint d + sint x" using sint_add_in_range[OF no(3)] s by simp
  then show ?thesis using assms no s by (auto simp: make_nnint64_delta_def Let_def add.commute)
qed

lemma int_apply:
  assumes h: "holds_int p z" and r: "0 \<le> z + sint x" "z + sint x < 2 ^ 63"
  shows "try_apply (NONNEGATIVE_INT64_SET_ADD (int_base p) x) p = Ret (True, int_added x p) \<and> holds_int (int_added x p) (z + sint x)"
proof -
  obtain b d where p: "get_base_nnint64_set_value p = Some b" "int_base p = b" "0 \<le> sint b" "z = sint b + sint d"
    "nnint64_delta p = Some (b, d) \<or> nnint64_delta p = None \<and> d = 0"
    "\<forall>ob. current p = Some ob \<longrightarrow> body_type (body ob) = NONNEGATIVE_INT64" "\<not> is_deleted p"
    using h by (rule holds_int_parts)
  have z: "0 \<le> z" using h by (simp add: holds_int_def)
  have del: "make_nnint64_delta b d x = Ret (Some (b, d + x))" "sint (d + x) = sint d + sint x"
    using int_add_delta[of b d x] p(3,4) r z by simp_all
  let ?r = "(b, d + x)"
  have v: "nn_value ?r = z + sint x" using del(2) p(4) by (simp add: nn_value_def)
  have ok: "nn_delta_ok ?r" using r by (simp add: nn_delta_ok_def v)
  from make_current_nnint64_total[OF ok, of "p\<lparr>nnint64_delta := Some ?r\<rparr>"] p(6) obtain ob where
    mc: "make_current_nnint64 ?r (p\<lparr>nnint64_delta := Some ?r\<rparr>) = Ret (p\<lparr>nnint64_delta := Some ?r, current := Some ob\<rparr>)"
    and bd: "body ob = nonnegative_int64 (word_of_int (min (2 ^ 63 - 1) (z + sint x)))" unfolding v by auto
  have "min (2 ^ 63 - 1) (z + sint x) = z + sint x" using r(2) by simp
  then have bd': "body ob = nonnegative_int64 (word_of_int (z + sint x))" using bd by (simp only:)
  have g: "delta_apply_type_guard (NONNEGATIVE_INT64_SET_ADD b x) p = Ret True"
    using p(6) by (auto simp: delta_apply_type_guard.simps split: option.split)
  have t: "try_apply (NONNEGATIVE_INT64_SET_ADD b x) p = Ret (True, p\<lparr>nnint64_delta := Some ?r, current := Some ob\<rparr>)"
    using p(5,7) g del(1) mc by (auto simp: try_apply_def)
  have "holds_int (p\<lparr>nnint64_delta := Some ?r, current := Some ob\<rparr>) (z + sint x)"
    using r p(3,4,7) bd' del(2) by (simp add: holds_int_def)
  then show ?thesis using t p(2) by (simp add: int_added_def)
qed

lemma int_apply_refused:
  assumes h: "holds_int p z" and r: "z + sint x < 0"
  shows "\<exists>p'. try_apply (NONNEGATIVE_INT64_SET_ADD (int_base p) x) p = Ret (False, p')"
proof -
  obtain b d where p: "get_base_nnint64_set_value p = Some b" "int_base p = b" "0 \<le> sint b" "z = sint b + sint d"
    "nnint64_delta p = Some (b, d) \<or> nnint64_delta p = None \<and> d = 0"
    "\<forall>ob. current p = Some ob \<longrightarrow> body_type (body ob) = NONNEGATIVE_INT64" "\<not> is_deleted p"
    using h by (rule holds_int_parts)
  have z: "0 \<le> z" using h by (simp add: holds_int_def)
  have "make_nnint64_delta b d x = Ret None"
  proof (cases "add_overflow_ss x d")
    case True
    then show ?thesis using r z by (simp add: make_nnint64_delta_def)
  next
    case no: False
    have s: "sint (x + d) = sint x + sint d" using sint_add_in_range[OF no] .
    have "\<not> add_overflow_ss b (x + d)" using r p(3,4) s sint64_bounds[of "x + d"] sint64_bounds[of b] by (auto simp: overflow_defs)
    then have "sint (b + (x + d)) = z + sint x" using s p(4) by (simp add: sint_add_in_range)
    then show ?thesis using no r z \<open>\<not> add_overflow_ss b (x + d)\<close> by (simp add: make_nnint64_delta_def Let_def)
  qed
  moreover have "delta_apply_type_guard (NONNEGATIVE_INT64_SET_ADD b x) p = Ret True"
    using p(6) by (auto simp: delta_apply_type_guard.simps split: option.split)
  ultimately show ?thesis using p by (auto simp: try_apply_def)
qed

text \<open>The integer a transaction reads, and the condition that the key may be used as an integer.\<close>

definition int_of :: "ProxyApplicator \<Rightarrow> int" where
  "int_of p = (case current p of None \<Rightarrow> 0 | Some ob \<Rightarrow> (case body ob of nonnegative_int64 v \<Rightarrow> sint v | _ \<Rightarrow> 0))"

definition int_ok :: "ProxyApplicator \<Rightarrow> bool" where
  "int_ok p \<longleftrightarrow> holds_int p (int_of p)"

lemma holds_int_of: "holds_int p z \<Longrightarrow> int_of p = z"
  by (auto simp: holds_int_def int_of_def sint_word_of_nonneg split: option.splits)

lemma int_ok_range: "int_ok p \<Longrightarrow> 0 \<le> int_of p \<and> int_of p < 2 ^ 63"
  by (simp add: int_ok_def holds_int_def)

lemma int_added_simps [simp]:
  assumes "int_ok p" "0 \<le> int_of p + sint x" "int_of p + sint x < 2 ^ 63"
  shows "int_ok (int_added x p)" "int_of (int_added x p) = int_of p + sint x"
  using int_apply[of p "int_of p" x] assms holds_int_of[of "int_added x p"] by (auto simp: int_ok_def)

section \<open>Running the library\<close>

lemma charge_run [contract_run]: "unat g < budget st \<Longrightarrow> charge g st = Ret ((), spend g st)"
proof -
  assume a: "unat g < budget st"
  then have "unat (gas_used (ctx st)) + unat g < 2 ^ 64" "unat (gas_used (ctx st)) + unat g < unat (gas_limit (tx_body (tc_tx (ctx st))))"
    using unat_uint64_bound[of "gas_limit (tx_body (tc_tx (ctx st)))"] by (simp_all add: budget_def)
  moreover from this have "unat (gas_used (ctx st) + g) = unat (gas_used (ctx st)) + unat g"
    using unat_add_lem[of "gas_used (ctx st)" g] by simp
  ultimately have "consume_gas g (ctx st) = Ret ((ctx st)\<lparr>gas_used := gas_used (ctx st) + g\<rparr>)"
    by (simp add: consume_gas_Ret word_less_nat_alt)
  then show ?thesis by (simp add: charge_def spend_def)
qed

lemma charge_fails: "budget st \<le> unat g \<Longrightarrow> \<exists>e. charge g st = Throw (HostError e)"
proof -
  assume a: "budget st \<le> unat g"
  have "consume_gas g (ctx st) \<noteq> Ret tc" for tc
    using a by (auto simp: consume_gas_Ret budget_def word_less_nat_alt)
  then show ?thesis using consume_gas_error[of g "ctx st"] by (auto simp: charge_def)
qed

lemma sbind_run [contract_run]: "sbind m f st = obind (m st) (\<lambda>(x, st'). f x st')"
  by (simp add: sbind_def)

text \<open>The continuation of a call is rewritten only after the call.\<close>

lemma obind_weak_cong [cong]: "m = m' \<Longrightarrow> obind m f = obind m' f"
  by simp

lemma sret_run [contract_run]: "sret x st = Ret (x, st)"
  by (simp add: sret_def)

lemma own_key_run [contract_run]: "frames st \<noteq> [] \<Longrightarrow> own_key key st = Ret (okey st key, st)"
  by (simp add: own_key_def sctx_def slift_def get_storage_key_def get_current_method_invocation_def okey_def frames_def)

lemma proxy_read_run [contract_run]: "proxy_read env k st = Ret (proxy_get (view env st k), touch env k st)"
  by (simp add: proxy_read_def storage_get_def view_def touch_def split_def Let_def)

lemma apply_to_key_view:
  assumes "try_apply d (view env st k) = Ret (True, v)"
  shows "proxy_write (apply_to_key (env_ledger env) k d e) st = Ret ((), put_view env k v st)"
  using assms by (simp add: proxy_write_def apply_to_key_def view_def put_view_def Let_def split_def)

lemma apply_to_key_refused:
  assumes "try_apply d (view env st k) = Ret (False, v)"
  shows "proxy_write (apply_to_key (env_ledger env) k d e) st = Throw (HostError e)"
  using assms by (simp add: proxy_write_def apply_to_key_def view_def Let_def split_def)

lemma get_local_snd: "get_local m k (snd (get_local m k sp)) = (fst (get_local m k sp), snd (get_local m k sp))"
  by (auto simp: get_local_def Let_def map_of_omap_emplace split: option.splits)

lemma int64_add_apply:
  assumes "int_ok (view env st k)"
  shows "nonnegative_int64_add (env_ledger env) k d (storage_proxy (ctx st)) =
     apply_to_key (env_ledger env) k (NONNEGATIVE_INT64_SET_ADD (int_base (view env st k)) d) ''failed to apply nonnegative_int64_add'' (storage_proxy (ctx st))"
proof -
  have "holds_int (view env st k) (int_of (view env st k))" using assms by (simp add: int_ok_def)
  then obtain b where "get_base_nnint64_set_value (view env st k) = Some b" "int_base (view env st k) = b" by (rule holds_int_parts)
  then show ?thesis by (simp add: nonnegative_int64_add_def split_def Let_def view_def make_nonnegative_int64_set_add_def apply_to_key_def get_local_snd)
qed

lemma sdk_int64_add_run [contract_run]:
  assumes "50 < budget st" "frames st \<noteq> []" "int_ok (view env st (okey st key))"
    "0 \<le> int_of (view env st (okey st key)) + sint x" "int_of (view env st (okey st key)) + sint x < 2 ^ 63"
  shows "sdk_int64_add env key x st = Ret ((), put_view env (okey st key) (int_added x (view env st (okey st key))) (spend 50 st))"
proof -
  let ?k = "okey st key"
  have "try_apply (NONNEGATIVE_INT64_SET_ADD (int_base (view env (spend 50 st) ?k)) x) (view env (spend 50 st) ?k) =
      Ret (True, int_added x (view env st ?k))"
    using int_apply[of "view env st ?k" "int_of (view env st ?k)" x] assms(3-5) by (simp add: int_ok_def)
  from apply_to_key_view[OF this] int64_add_apply[of env "spend 50 st" ?k x] assms show ?thesis
    by (simp add: sdk_int64_add_def gas_nonnegative_int64_add_def contract_run proxy_write_def)
qed

lemma sdk_int64_add_refused [contract_run]:
  assumes "50 < budget st" "frames st \<noteq> []" "int_ok (view env st (okey st key))" "int_of (view env st (okey st key)) + sint x < 0"
  shows "sdk_int64_add env key x st = Throw (HostError ''failed to apply nonnegative_int64_add'')"
proof -
  let ?k = "okey st key"
  obtain v where "try_apply (NONNEGATIVE_INT64_SET_ADD (int_base (view env (spend 50 st) ?k)) x) (view env (spend 50 st) ?k) = Ret (False, v)"
    using int_apply_refused[of "view env st ?k" "int_of (view env st ?k)" x] assms(3,4) by (auto simp: int_ok_def)
  from apply_to_key_refused[OF this] int64_add_apply[of env "spend 50 st" ?k x] assms show ?thesis
    by (simp add: sdk_int64_add_def gas_nonnegative_int64_add_def contract_run proxy_write_def)
qed

lemma int_ok_read:
  assumes "int_ok p"
  shows "proxy_get p = None \<and> int_of p = 0 \<or> (\<exists>ob. proxy_get p = Some ob \<and> body ob = nonnegative_int64 (word_of_int (int_of p)))"
  using assms by (auto simp: int_ok_def holds_int_def proxy_get_def int_of_def sint_word_of_nonneg split: option.splits)

lemma sdk_int64_get_run [contract_run]:
  assumes "10 < budget st" "frames st \<noteq> []" "int_ok (view env st (okey st key))"
  shows "sdk_int64_get env key st = Ret (word_of_int (int_of (view env st (okey st key))), touch env (okey st key) (spend 10 st))"
  using int_ok_read[OF assms(3)] assms
  by (auto simp: sdk_int64_get_def gas_nonnegative_int64_get_def contract_run)

lemma sdk_hash_run [contract_run]: "10000 < budget st \<Longrightarrow> sdk_hash env bs st = Ret (hash_opaque env bs, spend 10000 st)"
  by (simp add: sdk_hash_def gas_hash_def contract_run)

lemma sdk_get_msg_sender_run [contract_run]:
  "50 < budget st \<Longrightarrow> 1 < length (frames st) \<Longrightarrow> sdk_get_msg_sender st = Ret (mi_addr (last (butlast (frames st))), spend 50 st)"
  by (cases "frames st" rule: rev_cases)
    (auto simp: sdk_get_msg_sender_def gas_get_msg_sender_def contract_run sctx_def slift_def get_msg_sender_def frames_def[symmetric]
      last_conv_nth nth_append)

lemma sdk_get_self_run [contract_run]:
  "50 < budget st \<Longrightarrow> frames st \<noteq> [] \<Longrightarrow> sdk_get_self st = Ret (mi_addr (last (frames st)), spend 50 st)"
  by (simp add: sdk_get_self_def gas_get_self_addr_def contract_run sctx_def slift_def get_self_addr_def get_current_method_invocation_def
      frames_def[symmetric])

lemma sdk_get_block_number_run [contract_run]: "10 < budget st \<Longrightarrow> sdk_get_block_number st = Ret (block_of st, spend 10 st)"
  by (simp add: sdk_get_block_number_def sys_get_block_number_def gas_get_block_number_def contract_run sctx_def flip: block_of_def)

lemma sdk_get_invoked_hash_run [contract_run]:
  "50 < budget st \<Longrightarrow> sdk_get_invoked_hash env st = Ret (hash_tx env (tx_body (body_of_tx st)), spend 50 st)"
  by (simp add: sdk_get_invoked_hash_def gas_get_invoked_tx_hash_def contract_run sctx_def flip: body_of_tx_def)

lemma call_contract_run [contract_run]:
  "codes (mi_addr iv) = Some c \<Longrightarrow>
     call_contract (Suc n) codes iv st = sbind (c (call_contract n codes) (method_name iv)) (\<lambda>_ st. Ret ((), leave st)) (enter iv st)"
  by (simp add: call_contract.simps sbind_def enter_def leave_def)

lemma unat_linear_cost: "n < 2 ^ 32 \<Longrightarrow> unat (50 + of_nat n * 2 :: uint64) = 50 + 2 * n"
proof -
  assume "n < 2 ^ 32"
  moreover have "(50 + of_nat n * 2 :: uint64) = of_nat (50 + 2 * n)" by simp
  ultimately show ?thesis by (simp only: unat_of_nat) (simp add: take_bit_nat_eq_self)
qed

text \<open>A call whose data has the size of the expected type reads exactly its data.\<close>

lemma sdk_get_calldata_run [contract_run]:
  assumes "frames st \<noteq> []" "length (calldata (last (frames st))) = sz" "0 < sz" "sz < 2 ^ 31" "50 + 2 * sz < budget st" "length (junk sz) = sz"
  shows "sdk_get_calldata junk sz st = Ret (calldata (last (frames st)), spend (50 + of_nat sz * 2) st)"
proof -
  have u: "unat (of_nat sz :: uint32) = sz" using assms(4) by (simp add: unat_of_nat take_bit_nat_eq_self)
  then have nz: "\<not> (of_nat sz :: uint32) \<le> 0" using assms(3) by (metis unat_0 word_le_0_iff less_irrefl)
  have c: "ucast (of_nat sz :: uint32) = (of_nat sz :: uint64)" using assms(4) by (simp add: unsigned_of_nat take_bit_nat_eq_self)
  have g: "unat (50 + of_nat sz * 2 :: uint64) < budget st" using unat_linear_cost[of sz] assms(4,5) by simp
  show ?thesis using assms nz g u c unfolding frames_def
    by (simp add: sdk_get_calldata_def calldata_slice_def sbind_def sctx_def slift_def get_current_method_invocation_def Let_def
        gas_get_calldata_def charge_run sret_def overlay_def)
qed

section \<open>Fresh views\<close>

lemma view_fresh: "storage_proxy (ctx st) = storage_proxy_new \<Longrightarrow> view env st k = proxy_applicator_new (env_ledger env k)"
  by (simp add: view_def storage_proxy_new_def get_local_def Let_def)

lemma int_fresh [simp]:
  "int_of (proxy_applicator_new None) = 0" "int_ok (proxy_applicator_new None)"
  "int_of (proxy_applicator_new (Some \<lparr>body = nonnegative_int64 v, escrowed_fee = f\<rparr>)) = sint v"
  "int_ok (proxy_applicator_new (Some \<lparr>body = nonnegative_int64 v, escrowed_fee = f\<rparr>)) \<longleftrightarrow> 0 \<le> sint v"
  using sint64_bounds[of v] by (auto simp: int_of_def int_ok_def holds_int_def proxy_applicator_new_def)

end
