(* ===== verification/TokenContract.thy ===== *)
theory TokenContract
  imports ContractRules
begin

text \<open>
  The token contract (\<open>cpp_contracts/erc20.cc\<close>, \<open>erc20.h\<close>). Balances and allowances are nonnegative integers under keys that
  are hashes of addresses. Data structures are laid out as the compiler does: addresses in order, integers little-endian.
\<close>

section \<open>Data\<close>

definition addr_at :: "nat \<Rightarrow> byte list \<Rightarrow> Address" where
  "addr_at off bs = be_word (take 32 (drop off bs))"

definition i64_at :: "nat \<Rightarrow> byte list \<Rightarrow> int64" where
  "i64_at off bs = le_word (take 8 (drop off bs))"

definition calldata_transferFrom :: "Address \<Rightarrow> Address \<Rightarrow> int64 \<Rightarrow> byte list" where
  "calldata_transferFrom payer payee amount = be_bytes 32 payer @ be_bytes 32 payee @ le_bytes 8 amount"

definition calldata_mint :: "Address \<Rightarrow> int64 \<Rightarrow> byte list" where
  "calldata_mint recipient amount = be_bytes 32 recipient @ le_bytes 8 amount"

definition calldata_allowanceDelta :: "Address \<Rightarrow> int64 \<Rightarrow> byte list" where
  "calldata_allowanceDelta account amount = be_bytes 32 account @ le_bytes 8 amount"

definition calldata_balanceOf :: "Address \<Rightarrow> byte list" where
  "calldata_balanceOf account = be_bytes 32 account"

section \<open>The contract\<close>

definition owner_id_storage_key :: InvariantKey where "owner_id_storage_key = make_static_key 0 1 0 0"
definition total_supply_storage_key :: InvariantKey where "total_supply_storage_key = make_static_key 1 1 0 0"
definition metadata_key :: InvariantKey where "metadata_key = make_static_key 2 1 0 0"

definition internal_get_metadata :: "('t, 'r) exec_env \<Rightarrow> (nat \<Rightarrow> byte list) \<Rightarrow> ('r, byte list) exec" where
  "internal_get_metadata env junk = sdk_get_raw_memory env junk metadata_key 21"

definition internal_set_metadata :: "('t, 'r) exec_env \<Rightarrow> byte list \<Rightarrow> ('r, unit) exec" where
  "internal_set_metadata env m = sdk_set_raw_memory env metadata_key m"

definition owner_guard :: "('t, 'r) exec_env \<Rightarrow> (nat \<Rightarrow> byte list) \<Rightarrow> ('r, unit) exec" where
  "owner_guard env junk =
     sbind sdk_get_msg_sender (\<lambda>sender.
     sbind (sdk_get_raw_memory env junk owner_id_storage_key 32) (\<lambda>owner. sassert (be_bytes 32 sender = owner)))"

definition calculate_balance_key :: "('t, 'r) exec_env \<Rightarrow> Address \<Rightarrow> ('r, InvariantKey) exec" where
  "calculate_balance_key env a = sdk_hash env (be_bytes 32 a)"

definition calculate_allowance_key :: "('t, 'r) exec_env \<Rightarrow> Address \<Rightarrow> Address \<Rightarrow> ('r, InvariantKey) exec" where
  "calculate_allowance_key env owner auth = sdk_hash env (be_bytes 32 owner @ be_bytes 32 auth)"

definition token_transfer :: "('t, 'r) exec_env \<Rightarrow> Address \<Rightarrow> Address \<Rightarrow> int64 \<Rightarrow> ('r, unit) exec" where
  "token_transfer env payer payee amount =
     (if sint amount < 0 then sabort
      else sbind (calculate_balance_key env payer) (\<lambda>k1.
           sbind (sdk_int64_add env k1 (- amount)) (\<lambda>_.
           sbind (calculate_balance_key env payee) (\<lambda>k2.
             sdk_int64_add env k2 amount))))"

definition allowance_delta :: "('t, 'r) exec_env \<Rightarrow> Address \<Rightarrow> Address \<Rightarrow> int64 \<Rightarrow> ('r, unit) exec" where
  "allowance_delta env owner auth amount =
     sbind (calculate_allowance_key env owner auth) (\<lambda>k. sdk_int64_add env k amount)"

definition internal_mint :: "('t, 'r) exec_env \<Rightarrow> Address \<Rightarrow> int64 \<Rightarrow> ('r, unit) exec" where
  "internal_mint env payee amount =
     (if sint amount < 0 then sabort
      else sbind (calculate_balance_key env payee) (\<lambda>k.
           sbind (sdk_int64_add env k amount) (\<lambda>_. sdk_int64_add env total_supply_storage_key amount)))"

definition balance_of :: "('t, 'r) exec_env \<Rightarrow> Address \<Rightarrow> ('r, int64) exec" where
  "balance_of env a = sbind (calculate_balance_key env a) (sdk_int64_get env)"

definition erc20_initialize :: "('t, 'r) exec_env \<Rightarrow> (nat \<Rightarrow> byte list) \<Rightarrow> ('r, unit) exec" where
  "erc20_initialize env junk =
     sbind (sdk_get_calldata junk 32) (\<lambda>c. sdk_set_raw_memory env owner_id_storage_key (take 32 c))"

definition erc20_transferFrom :: "('t, 'r) exec_env \<Rightarrow> (nat \<Rightarrow> byte list) \<Rightarrow> ('r, unit) exec" where
  "erc20_transferFrom env junk =
     sbind (sdk_get_calldata junk 72) (\<lambda>c.
     sbind sdk_get_msg_sender (\<lambda>sender.
     sbind (allowance_delta env (addr_at 0 c) sender (- i64_at 64 c)) (\<lambda>_.
       token_transfer env (addr_at 0 c) (addr_at 32 c) (i64_at 64 c))))"

definition erc20_mint :: "('t, 'r) exec_env \<Rightarrow> (nat \<Rightarrow> byte list) \<Rightarrow> ('r, unit) exec" where
  "erc20_mint env junk =
     sbind (sdk_get_calldata junk 40) (\<lambda>c. internal_mint env (addr_at 0 c) (i64_at 32 c))"

definition erc20_allowanceDelta :: "('t, 'r) exec_env \<Rightarrow> (nat \<Rightarrow> byte list) \<Rightarrow> ('r, unit) exec" where
  "erc20_allowanceDelta env junk =
     sbind (sdk_get_calldata junk 40) (\<lambda>c.
     sbind sdk_get_msg_sender (\<lambda>sender. allowance_delta env sender (addr_at 0 c) (i64_at 32 c)))"

definition erc20_balanceOf :: "('t, 'r) exec_env \<Rightarrow> (nat \<Rightarrow> byte list) \<Rightarrow> ('r, unit) exec" where
  "erc20_balanceOf env junk =
     sbind (sdk_get_calldata junk 32) (\<lambda>c.
     sbind (balance_of env (addr_at 0 c)) (\<lambda>b. sdk_return_value (le_bytes 8 b)))"

text \<open>An empty structure is not read from the call data.\<close>

definition erc20_get_metadata :: "('t, 'r) exec_env \<Rightarrow> (nat \<Rightarrow> byte list) \<Rightarrow> ('r, unit) exec" where
  "erc20_get_metadata env junk = sbind (internal_get_metadata env junk) sdk_return_value"

definition erc20_set_metadata :: "('t, 'r) exec_env \<Rightarrow> (nat \<Rightarrow> byte list) \<Rightarrow> ('r, unit) exec" where
  "erc20_set_metadata env junk =
     sbind (sdk_get_calldata junk 21) (\<lambda>c. sbind (owner_guard env junk) (\<lambda>_. internal_set_metadata env c))"

definition erc20_code :: "('t, 'r) exec_env \<Rightarrow> (nat \<Rightarrow> byte list) \<Rightarrow> 'r code" where
  "erc20_code env junk invoke m =
     (if m = 0 then erc20_initialize env junk
      else if m = 1 then erc20_transferFrom env junk
      else if m = 2 then erc20_mint env junk
      else if m = 3 then erc20_allowanceDelta env junk
      else if m = 4 then erc20_balanceOf env junk
      else if m = 5 then erc20_get_metadata env junk
      else if m = 6 then erc20_set_metadata env junk
      else no_method)"

text \<open>The client side (\<open>Ierc20\<close>).\<close>

definition Ierc20_transferFrom :: "(MethodInvocation \<Rightarrow> ('r, unit) exec) \<Rightarrow> Address \<Rightarrow> Address \<Rightarrow> Address \<Rightarrow> int64 \<Rightarrow> ('r, unit) exec" where
  "Ierc20_transferFrom invoke token payer payee amount = sdk_invoke invoke token 1 (calldata_transferFrom payer payee amount)"

definition Ierc20_mint :: "(MethodInvocation \<Rightarrow> ('r, unit) exec) \<Rightarrow> Address \<Rightarrow> Address \<Rightarrow> int64 \<Rightarrow> ('r, unit) exec" where
  "Ierc20_mint invoke token recipient amount = sdk_invoke invoke token 2 (calldata_mint recipient amount)"

definition Ierc20_allowanceDelta :: "(MethodInvocation \<Rightarrow> ('r, unit) exec) \<Rightarrow> Address \<Rightarrow> Address \<Rightarrow> int64 \<Rightarrow> ('r, unit) exec" where
  "Ierc20_allowanceDelta invoke token account amount = sdk_invoke invoke token 3 (calldata_allowanceDelta account amount)"

definition Ierc20_balanceOf :: "(MethodInvocation \<Rightarrow> ('r, unit) exec) \<Rightarrow> Address \<Rightarrow> Address \<Rightarrow> ('r, int64) exec" where
  "Ierc20_balanceOf invoke token account =
     sbind (sdk_invoke_ret invoke token 4 (calldata_balanceOf account) 8) (\<lambda>r. sret (le_word r))"

definition Ierc20_get_metadata :: "(MethodInvocation \<Rightarrow> ('r, unit) exec) \<Rightarrow> Address \<Rightarrow> byte \<Rightarrow> ('r, byte list) exec" where
  "Ierc20_get_metadata invoke token b = sdk_invoke_ret invoke token 5 [b] 21"

section \<open>Transfers\<close>

lemma calldata_transferFrom_fields [simp]:
  "addr_at 0 (calldata_transferFrom payer payee amount) = payer" "addr_at 32 (calldata_transferFrom payer payee amount) = payee"
  "i64_at 64 (calldata_transferFrom payer payee amount) = amount" "length (calldata_transferFrom payer payee amount) = 72"
  by (simp_all add: calldata_transferFrom_def addr_at_def i64_at_def)

definition balance_key :: "('t, 'r) exec_env \<Rightarrow> Address \<Rightarrow> Address \<Rightarrow> AddressAndKey" where
  "balance_key env token a = address_and_key token (hash_opaque env (be_bytes 32 a))"

definition allowance_key :: "('t, 'r) exec_env \<Rightarrow> Address \<Rightarrow> Address \<Rightarrow> Address \<Rightarrow> AddressAndKey" where
  "allowance_key env token owner auth = address_and_key token (hash_opaque env (be_bytes 32 owner @ be_bytes 32 auth))"

text \<open>The keys of a transfer do not collide.\<close>

definition keys_apart :: "('t, 'r) exec_env \<Rightarrow> Address \<Rightarrow> Address \<Rightarrow> Address \<Rightarrow> Address \<Rightarrow> bool" where
  "keys_apart env token payer payee sender \<longleftrightarrow>
     balance_key env token payer \<noteq> balance_key env token payee \<and> allowance_key env token payer sender \<noteq> balance_key env token payer \<and>
     allowance_key env token payer sender \<noteq> balance_key env token payee"

lemma sint_uminus_nonneg: "0 \<le> sint (x :: int64) \<Longrightarrow> sint (- x) = - sint x"
  using sint_diff_in_range[of 0 x] sint64_bounds[of x] by (simp add: fits_int64_def)

lemma transferFrom_run:
  assumes code: "codes token = Some (erc20_code env junk)" and fr: "frames st = fs @ [caller]" and jk: "\<forall>n. length (junk n) = n"
    and gas: "30500 < budget st" and amt: "0 \<le> sint amount"
    and apart: "keys_apart env token payer payee (mi_addr caller)"
    and ok: "int_ok (view env st (balance_key env token payer))" "int_ok (view env st (balance_key env token payee))"
      "int_ok (view env st (allowance_key env token payer (mi_addr caller)))"
    and enough: "sint amount \<le> int_of (view env st (allowance_key env token payer (mi_addr caller)))"
      "sint amount \<le> int_of (view env st (balance_key env token payer))"
      "int_of (view env st (balance_key env token payee)) + sint amount < 2 ^ 63"
  shows "\<exists>st'. call_contract (Suc n) codes \<lparr>mi_addr = token, method_name = 1, calldata = calldata_transferFrom payer payee amount\<rparr> st = Ret ((), st') \<and>
     frames st' = frames st \<and> budget st' + 30394 = budget st \<and> ret_of st' = ret_of st \<and> block_of st' = block_of st \<and> body_of_tx st' = body_of_tx st \<and>
     view env st' = (view env st)
       (allowance_key env token payer (mi_addr caller) := int_added (- amount) (view env st (allowance_key env token payer (mi_addr caller))),
        balance_key env token payer := int_added (- amount) (view env st (balance_key env token payer)),
        balance_key env token payee := int_added amount (view env st (balance_key env token payee)))"
proof -
  have "hash_opaque env (be_bytes 32 payer) \<noteq> hash_opaque env (be_bytes 32 payer @ be_bytes 32 (mi_addr caller))"
    "hash_opaque env (be_bytes 32 payee) \<noteq> hash_opaque env (be_bytes 32 payer @ be_bytes 32 (mi_addr caller))"
    "hash_opaque env (be_bytes 32 payee) \<noteq> hash_opaque env (be_bytes 32 payer)"
    using apart by (auto simp: keys_apart_def balance_key_def allowance_key_def)
  with assms int_ok_range[OF ok(1)] int_ok_range[OF ok(2)] int_ok_range[OF ok(3)] show ?thesis
    by (simp add: contract_run erc20_code_def erc20_transferFrom_def allowance_delta_def calculate_allowance_key_def token_transfer_def
      calculate_balance_key_def balance_key_def allowance_key_def sint_uminus_nonneg)
qed

lemma transferFrom_refused:
  assumes code: "codes token = Some (erc20_code env junk)" and fr: "frames st = fs @ [caller]" and jk: "\<forall>n. length (junk n) = n"
    and gas: "30500 < budget st" and amt: "0 \<le> sint amount"
    and apart: "keys_apart env token payer payee (mi_addr caller)"
    and ok: "int_ok (view env st (balance_key env token payer))" "int_ok (view env st (allowance_key env token payer (mi_addr caller)))"
    and short: "int_of (view env st (allowance_key env token payer (mi_addr caller))) < sint amount \<or>
      int_of (view env st (balance_key env token payer)) < sint amount"
  shows "call_contract (Suc n) codes \<lparr>mi_addr = token, method_name = 1, calldata = calldata_transferFrom payer payee amount\<rparr> st =
     Throw (HostError ''failed to apply nonnegative_int64_add'')"
proof -
  have "hash_opaque env (be_bytes 32 payer) \<noteq> hash_opaque env (be_bytes 32 payer @ be_bytes 32 (mi_addr caller))"
    using apart by (auto simp: keys_apart_def balance_key_def allowance_key_def)
  with assms int_ok_range[OF ok(1)] int_ok_range[OF ok(2)] show ?thesis
    by (cases "int_of (view env st (allowance_key env token payer (mi_addr caller))) < sint amount")
      (simp_all add: contract_run erc20_code_def erc20_transferFrom_def allowance_delta_def calculate_allowance_key_def token_transfer_def
      calculate_balance_key_def balance_key_def allowance_key_def sint_uminus_nonneg)
qed

lemma transferFrom_negative:
  assumes code: "codes token = Some (erc20_code env junk)" and fr: "frames st \<noteq> []" and jk: "\<forall>n. length (junk n) = n"
    and gas: "200 < budget st" and amt: "sint amount < 0"
  shows "call_contract (Suc n) codes \<lparr>mi_addr = token, method_name = 1, calldata = calldata_transferFrom payer payee amount\<rparr> st \<noteq> Ret r"
  using assms
  by (auto simp: contract_run erc20_code_def erc20_transferFrom_def token_transfer_def sabort_def sthrow_def obind_Ret_iff)


text \<open>A ledger in which account 1 holds 100 tokens of contract 7 and allows contract 5 to spend 50.\<close>

definition toy_hash :: "byte list \<Rightarrow> Hash" where
  "toy_hash bs = be_word bs + of_nat (length bs)"

definition token_ledger :: ledger where
  "token_ledger k = (if k = address_and_key 7 33 then Some \<lparr>body = nonnegative_int64 100, escrowed_fee = 0\<rparr>
     else if k = address_and_key 7 (toy_hash (be_bytes 32 (1 :: Address) @ be_bytes 32 (5 :: Address)))
     then Some \<lparr>body = nonnegative_int64 50, escrowed_fee = 0\<rparr> else None)"

definition token_env :: "((Address \<times> metered) list, nat) exec_env" where
  "token_env = sample_env\<lparr>hash_opaque := toy_hash, env_ledger := token_ledger\<rparr>"

definition rich_tx :: SignedTransaction where
  "rich_tx = sample_exec_tx\<lparr>tx_body := (tx_body sample_exec_tx)\<lparr>gas_limit := 1000000\<rparr>\<rparr>"

definition frame_state :: "Address list \<Rightarrow> uint64 \<Rightarrow> nat exec_state" where
  "frame_state as block = \<lparr>ctx = (transaction_context_new rich_tx 9 block None)
     \<lparr>invocation_stack := map (\<lambda>a. \<lparr>mi_addr = a, method_name = 0, calldata = []\<rparr>) as\<rparr>, active_runtimes = []\<rparr>"

lemma toy_hash_simps [simp]:
  "toy_hash (be_bytes 32 a) = a + 32" "toy_hash (be_bytes 32 a @ be_bytes 32 b) = (b :: Address) + 64"
proof -
  show "toy_hash (be_bytes 32 a) = a + 32" by (simp add: toy_hash_def)
  have "be_word (be_bytes 32 a @ be_bytes 32 b) = b"
    by (simp add: be_word_def be_word_acc)
      (simp add: take_bit_word_eq_self push_bit_eq_mult)
  then show "toy_hash (be_bytes 32 a @ be_bytes 32 b) = b + 64" by (simp add: toy_hash_def)
qed

lemma frame_state_simps [simp]:
  "frames (frame_state as block) = map (\<lambda>a. \<lparr>mi_addr = a, method_name = 0, calldata = []\<rparr>) as"
  "budget (frame_state as block) = 1000000" "block_of (frame_state as block) = block"
  "view env (frame_state as block) k = proxy_applicator_new (env_ledger env k)" "body_of_tx (frame_state as block) = rich_tx"
  by (simp_all add: frame_state_def frames_def budget_def block_of_def view_fresh transaction_context_new_def rich_tx_def body_of_tx_def)


end
