(* ===== verification/PaymentContract.thy ===== *)
theory PaymentContract
  imports TokenContract
begin

text \<open>
  The payment contract (\<open>cpp_contracts/payment_experiment/payment.cc\<close>) and its protection against replayed
  transactions. A payment records the hash of its transaction in a hash set together with its expiration time; the set
  refuses an entry it holds, and an expired payment aborts. The first part follows the recorded entries through
  the code of a system of payment and token contracts, the second one through the blocks of a chain.
\<close>

section \<open>The contract\<close>

definition u64_at :: "nat \<Rightarrow> byte list \<Rightarrow> uint64" where
  "u64_at off bs = le_word (take 8 (drop off bs))"

definition u16_at :: "nat \<Rightarrow> byte list \<Rightarrow> uint16" where
  "u16_at off bs = le_word (take 2 (drop off bs))"

definition token_addr :: InvariantKey where "token_addr = make_static_key 0 2 0 0"
definition init_semaphore_key :: InvariantKey where "init_semaphore_key = make_static_key 1 2 0 0"

definition payment_init :: "('t, 'r) exec_env \<Rightarrow> (nat \<Rightarrow> byte list) \<Rightarrow> (MethodInvocation \<Rightarrow> ('r, unit) exec) \<Rightarrow> ('r, unit) exec" where
  "payment_init env junk invoke =
     sbind (semaphore_acquire env 1 init_semaphore_key) (\<lambda>_.
     sbind (sdk_get_calldata junk 66) (\<lambda>c.
     sbind (sdk_get_raw_memory_opt env token_addr 32) (\<lambda>r.
       if r \<noteq> None then sabort
       else sbind (sdk_set_raw_memory env token_addr (take 32 c)) (\<lambda>_.
            sbind (auth_single_pk_register env (take 32 (drop 32 c))) (\<lambda>_.
            sbind sdk_get_self (\<lambda>self.
            sbind (Ierc20_allowanceDelta invoke (addr_at 0 c) self (2 ^ 63 - 1)) (\<lambda>_.
              replay_cache_size_increase env (u16_at 64 c))))))))"

definition calldata_transfer :: "Address \<Rightarrow> int64 \<Rightarrow> uint64 \<Rightarrow> uint64 \<Rightarrow> byte list" where
  "calldata_transfer payee amount nonce expiration_time =
     be_bytes 32 payee @ le_bytes 8 amount @ le_bytes 8 nonce @ le_bytes 8 expiration_time"

definition payment_transfer :: "('t, 'r) exec_env \<Rightarrow> (nat \<Rightarrow> byte list) \<Rightarrow> (MethodInvocation \<Rightarrow> ('r, unit) exec) \<Rightarrow> ('r, unit) exec" where
  "payment_transfer env junk invoke =
     sbind (sdk_get_calldata junk 56) (\<lambda>c.
     sbind (record_self_replay env (u64_at 48 c)) (\<lambda>_.
     sbind (auth_single_pk_check_sig env junk 0) (\<lambda>_.
     sbind (sdk_get_raw_memory env junk token_addr 32) (\<lambda>token_key.
     sbind sdk_get_self (\<lambda>self.
       Ierc20_transferFrom invoke (be_word token_key) self (addr_at 0 c) (i64_at 32 c))))))"

definition payment_code :: "('t, 'r) exec_env \<Rightarrow> (nat \<Rightarrow> byte list) \<Rightarrow> 'r code" where
  "payment_code env junk invoke m =
     (if m = 0 then payment_init env junk invoke
      else if m = 1 then payment_transfer env junk invoke
      else no_method)"

text \<open>Contracts of these two kinds deployed at addresses: \<open>Some True\<close> is a token, \<open>Some False\<close> a payment account.\<close>

definition payment_system :: "('t, 'r) exec_env \<Rightarrow> (nat \<Rightarrow> byte list) \<Rightarrow> (Address \<Rightarrow> bool option) \<Rightarrow> Address \<Rightarrow> 'r code option" where
  "payment_system env junk kinds a = map_option (\<lambda>t. if t then erc20_code env junk else payment_code env junk) (kinds a)"

section \<open>What a returning call has done\<close>

named_theorems returns

lemma sbind_Ret [returns]: "sbind m f st = Ret y \<longleftrightarrow> (\<exists>x st'. m st = Ret (x, st') \<and> f x st' = Ret y)"
  by (auto simp: sbind_def obind_Ret_iff)

lemma sret_Ret [returns]: "sret x st = Ret (y, st') \<longleftrightarrow> y = x \<and> st' = st"
  by (auto simp: sret_def)

lemma sthrow_Ret [returns]: "sthrow e st \<noteq> Ret y" "sabort st \<noteq> Ret y"
  by (simp_all add: sthrow_def sabort_def)

lemma charge_Ret [returns]: "charge g st = Ret (u, st') \<longleftrightarrow> unat g < budget st \<and> st' = spend g st"
  using charge_run[of g st] charge_fails[of st g] by (cases "unat g < budget st") auto

lemma own_key_Ret [returns]: "own_key key st = Ret (k, st') \<longleftrightarrow> frames st \<noteq> [] \<and> k = okey st key \<and> st' = st"
  by (auto simp: own_key_def sctx_def slift_def get_storage_key_def get_current_method_invocation_def okey_def frames_def)

lemma apply_to_key_Ret [returns]:
  "proxy_write (apply_to_key (env_ledger env) k d e) st = Ret (u, st') \<longleftrightarrow>
     (\<exists>v. try_apply d (view env st k) = Ret (True, v) \<and> st' = put_view env k v st)"
  by (auto simp: proxy_write_def apply_to_key_def view_def put_view_def Let_def split_def obind_Ret_iff split: if_splits)

lemma proxy_read_Ret [returns]: "proxy_read env k st = Ret (r, st') \<longleftrightarrow> r = proxy_get (view env st k) \<and> st' = touch env k st"
  by (auto simp: proxy_read_run)

lemma sdk_get_invoked_hash_Ret [returns]:
  "sdk_get_invoked_hash env st = Ret (h, st') \<longleftrightarrow> 50 < budget st \<and> h = hash_tx env (tx_body (body_of_tx st)) \<and> st' = spend 50 st"
  by (auto simp: sdk_get_invoked_hash_def gas_get_invoked_tx_hash_def returns sctx_def body_of_tx_def spend_def)

lemma sdk_get_block_number_Ret [returns]:
  "sdk_get_block_number st = Ret (n, st') \<longleftrightarrow> 10 < budget st \<and> n = block_of st \<and> st' = spend 10 st"
  by (auto simp: sdk_get_block_number_def sys_get_block_number_def gas_get_block_number_def returns sctx_def block_of_def spend_def)

section \<open>The replay cache of one transaction\<close>

text \<open>
  The changes of a transaction in block \<open>n\<close> to the replay cache: nothing is deleted, the entries recorded have not
  expired and the set is cleared only of entries that have.
\<close>

definition replay_ok :: "uint64 \<Rightarrow> ProxyApplicator \<Rightarrow> bool" where
  "replay_ok n p \<longleftrightarrow> \<not> is_deleted p \<and> (pa_new_hashes p \<noteq> [] \<longrightarrow> current p \<noteq> None) \<and>
     (\<forall>e \<in> set (pa_new_hashes p). n \<le> index e) \<and> (hs_clear_threshold p = None \<or> hs_clear_threshold p = Some n)"

lemma replay_ok_new: "replay_ok n (proxy_applicator_new cb)" "pa_new_hashes (proxy_applicator_new cb) = []"
  by (simp_all add: replay_ok_def proxy_applicator_new_def)

lemma make_current_frame:
  "make_current t p = Ret p' \<Longrightarrow> is_deleted p' = is_deleted p \<and> pa_new_hashes p' = pa_new_hashes p \<and>
     hs_clear_threshold p' = hs_clear_threshold p \<and> current p' \<noteq> None"
  by (auto simp: make_current_def outcome_simps split: option.splits if_splits)

lemma replay_insert:
  assumes "try_apply (HASH_SET_INSERT e) p = Ret (True, p')" "replay_ok n p" "n \<le> index e"
  shows "replay_ok n p' \<and> pa_new_hashes p' = pa_new_hashes p @ [e]"
  using assms make_current_frame[of HASH_SET p]
  by (auto simp: try_apply_def replay_ok_def outcome_simps set_body_def Let_def split: if_splits)

lemma replay_clear:
  assumes "try_apply (HASH_SET_CLEAR n) p = Ret (True, p')" "replay_ok n p"
  shows "replay_ok n p' \<and> pa_new_hashes p' = pa_new_hashes p"
  using assms make_current_frame[of HASH_SET p]
  by (auto simp: try_apply_def replay_ok_def outcome_simps set_body_def Let_def split: if_splits option.splits)

lemma replay_grow:
  assumes "try_apply (HASH_SET_INCREASE_LIMIT l) p = Ret (True, p')" "replay_ok n p"
  shows "replay_ok n p' \<and> pa_new_hashes p' = pa_new_hashes p"
  using assms make_current_frame[of HASH_SET p]
  by (auto simp: try_apply_def replay_ok_def outcome_simps split: if_splits)

section \<open>Runs that only add to the cache\<close>

text \<open>What a run may do to the replay cache behind key \<open>k\<close>; the call stack and the context are as before.\<close>

definition adds_only :: "('t, 'r) exec_env \<Rightarrow> AddressAndKey \<Rightarrow> 'r exec_state \<Rightarrow> 'r exec_state \<Rightarrow> bool" where
  "adds_only env k st st' \<longleftrightarrow> frames st' = frames st \<and> block_of st' = block_of st \<and> body_of_tx st' = body_of_tx st \<and>
     (replay_ok (block_of st) (view env st k) \<longrightarrow> replay_ok (block_of st) (view env st' k) \<and>
        set (pa_new_hashes (view env st k)) \<subseteq> set (pa_new_hashes (view env st' k)))"

text \<open>A program that runs as contract \<open>a\<close> and has no other effect on the cache.\<close>

definition tame :: "('t, 'r) exec_env \<Rightarrow> AddressAndKey \<Rightarrow> Address \<Rightarrow> ('r, 'a) exec \<Rightarrow> bool" where
  "tame env k a m \<longleftrightarrow> (\<forall>st x st'. m st = Ret (x, st') \<longrightarrow> frames st \<noteq> [] \<longrightarrow> mi_addr (last (frames st)) = a \<longrightarrow> adds_only env k st st')"

lemma adds_only_refl [simp]: "adds_only env k st st"
  by (simp add: adds_only_def)

lemma adds_only_trans: "adds_only env k st st' \<Longrightarrow> adds_only env k st' st'' \<Longrightarrow> adds_only env k st st''"
  by (auto simp: adds_only_def)

lemma adds_only_updates [simp]:
  "adds_only env k st (spend g st)" "adds_only env k st (touch env k' st)" "adds_only env k st (set_ret bs st)"
  "k' \<noteq> k \<Longrightarrow> adds_only env k st (put_view env k' v st)"
  by (simp_all add: adds_only_def)

lemma tameI: "(\<And>st x st'. m st = Ret (x, st') \<Longrightarrow> frames st \<noteq> [] \<Longrightarrow> okey st = address_and_key a \<Longrightarrow> adds_only env k st st') \<Longrightarrow> tame env k a m"
  by (auto simp: tame_def okey_def fun_eq_iff)

lemma tameD: "tame env k a m \<Longrightarrow> m st = Ret (x, st') \<Longrightarrow> frames st \<noteq> [] \<Longrightarrow> mi_addr (last (frames st)) = a \<Longrightarrow> adds_only env k st st'"
  by (auto simp: tame_def)

lemma tame_sbind:
  assumes "tame env k a m" "\<And>x. tame env k a (f x)"
  shows "tame env k a (sbind m f)"
  using assms by (auto simp: tame_def returns) (metis adds_only_def adds_only_trans)

lemma tame_basic:
  "tame env k a (sret x)" "tame env k a (sthrow e)" "tame env k a sabort" "tame env k a (sassert b)" "tame env k a (charge g)"
  "tame env k a (own_key key)" "tame env k a (proxy_read env k')" "tame env k a no_method"
  by (auto intro!: tameI simp: returns sassert_def no_method_def split: if_splits)

lemma tame_choice:
  "(b \<Longrightarrow> tame env k a m) \<Longrightarrow> (\<not> b \<Longrightarrow> tame env k a m') \<Longrightarrow> tame env k a (if b then m else m')"
  "tame env k a m1 \<Longrightarrow> (\<And>x. tame env k a (m2 x)) \<Longrightarrow> tame env k a (case z of None \<Rightarrow> m1 | Some x \<Rightarrow> m2 x)"
  by (auto split: option.split)

lemma tame_slift: "tame env k a (sctx (\<lambda>tc. slift (f tc)))" "tame env k a (sctx (\<lambda>tc. sret (g tc)))"
  by (auto intro!: tameI simp: sctx_def slift_def returns outcome_simps)

lemmas tame_rules = tame_sbind tame_basic tame_choice tame_slift

text \<open>Storage calls of the library on another key.\<close>

lemma tame_write:
  "address_and_key a key \<noteq> k \<Longrightarrow> tame env k a (sbind (charge g) (\<lambda>_. sbind (own_key key) (\<lambda>k'. proxy_write (apply_to_key (env_ledger env) k' d e))))"
  by (rule tameI) (auto simp: returns adds_only_def)

lemma tame_int64_set_add: "address_and_key a key \<noteq> k \<Longrightarrow> tame env k a (sdk_int64_set_add env key v d)"
  by (simp add: sdk_int64_set_add_def nonnegative_int64_set_add_def[abs_def] tame_write)

lemma int64_add_Ret:
  "nonnegative_int64_add (env_ledger env) k d sp = Ret sp' \<Longrightarrow>
     \<exists>b e. apply_to_key (env_ledger env) k (NONNEGATIVE_INT64_SET_ADD b d) e sp = Ret sp'"
  by (auto simp: nonnegative_int64_add_def split_def Let_def make_nonnegative_int64_set_add_def apply_to_key_def get_local_snd
      outcome_simps split: option.splits if_splits)

lemma tame_int64_add: "address_and_key a key \<noteq> k \<Longrightarrow> tame env k a (sdk_int64_add env key d)"
proof (rule tameI)
  fix st x st' assume a: "address_and_key a key \<noteq> k" "sdk_int64_add env key d st = Ret (x, st')" "okey st = address_and_key a"
  let ?st = "spend gas_nonnegative_int64_add st"
  from a obtain sp where sp: "nonnegative_int64_add (env_ledger env) (address_and_key a key) d (storage_proxy (ctx ?st)) = Ret sp"
    "st' = ?st\<lparr>ctx := (ctx ?st)\<lparr>storage_proxy := sp\<rparr>\<rparr>"
    by (auto simp: sdk_int64_add_def returns proxy_write_def outcome_simps)
  from int64_add_Ret[OF sp(1)] obtain b e where
    "apply_to_key (env_ledger env) (address_and_key a key) (NONNEGATIVE_INT64_SET_ADD b d) e (storage_proxy (ctx ?st)) = Ret sp" by blast
  then have "proxy_write (apply_to_key (env_ledger env) (address_and_key a key) (NONNEGATIVE_INT64_SET_ADD b d) e) ?st = Ret ((), st')"
    by (simp add: proxy_write_def sp(2))
  then show "adds_only env k st st'" using a(1) by (auto simp: returns adds_only_def)
qed

lemma tame_set_raw_memory: "address_and_key a key \<noteq> k \<Longrightarrow> tame env k a (sdk_set_raw_memory env key bs)"
  unfolding sdk_set_raw_memory_def raw_memory_write_def[abs_def] Let_def
  by (cases "RAW_MEMORY_MAX_LEN < (of_nat (length bs) :: uint32)") (auto intro: tame_rules tame_write)

lemma tame_reads:
  "tame env k a (sdk_int64_get env key)" "tame env k a (raw_memory_read env key sz)" "tame env k a (sdk_get_raw_memory env junk key n)"
  "tame env k a (sdk_get_raw_memory_opt env key n)" "tame env k a (sdk_hash env bs)"
  "tame env k a sdk_get_msg_sender" "tame env k a sdk_get_self" "tame env k a (sdk_get_invoked_hash env)" "tame env k a sdk_get_block_number"
  by (auto simp: sdk_int64_get_def raw_memory_read_def sdk_get_raw_memory_def sdk_get_raw_memory_opt_def sdk_hash_def
      sdk_get_msg_sender_def sdk_get_self_def sdk_get_invoked_hash_def sdk_get_block_number_def sys_get_block_number_def
      intro!: tame_rules split: ObjectBody.split option.split)

lemma tame_return_value: "tame env k a (sdk_return_value bs)"
  unfolding sdk_return_value_def by (rule tameI) (auto simp: returns adds_only_def simp flip: set_ret_def)

lemma tame_calldata: "tame env k a (sdk_get_calldata junk sz)"
  unfolding sdk_get_calldata_def calldata_slice_def
  by (rule tame_sbind[OF tameI tame_basic(1)])
    (auto simp: sctx_def slift_def returns outcome_simps Let_def adds_only_def split: if_splits)

lemma tame_invoke:
  assumes "\<And>iv. tame env k a (invoke iv)"
  shows "tame env k a (sdk_invoke invoke target m bs)" "tame env k a (sdk_invoke_ret invoke target m bs n)"
proof -
  have last: "tame env k a (\<lambda>st. Ret (f st, set_ret [] st))" for f :: "'b exec_state \<Rightarrow> byte list"
    by (rule tameI) (auto simp: adds_only_def)
  have "tame env k a (invoke_raw invoke target m bs n)" for n
    unfolding invoke_raw_def set_ret_def[symmetric] by (intro tame_sbind tame_basic assms last)
  then show "tame env k a (sdk_invoke invoke target m bs)" "tame env k a (sdk_invoke_ret invoke target m bs n)"
    by (auto simp: sdk_invoke_def sdk_invoke_ret_def intro!: tame_rules)
qed

lemmas tame_library = tame_rules tame_reads tame_int64_add tame_int64_set_add tame_set_raw_memory tame_return_value tame_calldata tame_invoke

lemma tame_erc20:
  assumes "\<And>key. address_and_key a key \<noteq> k"
  shows "tame env k a (erc20_code env junk invoke m)"
  by (auto simp: erc20_code_def erc20_initialize_def erc20_transferFrom_def erc20_mint_def erc20_allowanceDelta_def erc20_balanceOf_def
      erc20_get_metadata_def erc20_set_metadata_def allowance_delta_def calculate_allowance_key_def token_transfer_def internal_mint_def
      calculate_balance_key_def balance_of_def internal_get_metadata_def internal_set_metadata_def owner_guard_def
      intro!: tame_library assms)

section \<open>The payment contract adds what it pays for\<close>

definition replay_key :: "Address \<Rightarrow> AddressAndKey" where
  "replay_key self = address_and_key self replay_cache_storage_key"

lemma static_keys_distinct:
  "token_addr \<noteq> replay_cache_storage_key" "init_semaphore_key \<noteq> replay_cache_storage_key" "pk_storage_key \<noteq> replay_cache_storage_key"
  by (simp_all add: token_addr_def init_semaphore_key_def pk_storage_key_def replay_cache_storage_key_def make_static_key_inject)

lemma hashset_limit_Ret:
  "hashset_increase_limit (env_ledger env) k l sp = Ret sp' \<Longrightarrow>
     \<exists>l'. apply_to_key (env_ledger env) k (HASH_SET_INCREASE_LIMIT l') ''failed to apply hashset limit increase'' sp = Ret sp'"
  by (auto simp: hashset_increase_limit_def split_def Let_def make_hash_set_increase_limit_def apply_to_key_def get_local_snd split: if_splits)

lemma tame_size_increase: "tame env (replay_key self) a (replay_cache_size_increase env l)"
proof (rule tameI)
  fix st x st' assume a: "replay_cache_size_increase env l st = Ret (x, st')" "frames st \<noteq> []" "okey st = address_and_key a"
  let ?st = "spend gas_hashset_increase_limit st" and ?k = "address_and_key a replay_cache_storage_key"
  from a obtain sp where sp: "hashset_increase_limit (env_ledger env) ?k (ucast l) (storage_proxy (ctx ?st)) = Ret sp"
    "st' = ?st\<lparr>ctx := (ctx ?st)\<lparr>storage_proxy := sp\<rparr>\<rparr>"
    by (auto simp: replay_cache_size_increase_def sdk_hashset_increase_limit_def returns proxy_write_def outcome_simps)
  from hashset_limit_Ret[OF sp(1)] obtain l' where
    "apply_to_key (env_ledger env) ?k (HASH_SET_INCREASE_LIMIT l') ''failed to apply hashset limit increase'' (storage_proxy (ctx ?st)) = Ret sp" by blast
  then have "proxy_write (apply_to_key (env_ledger env) ?k (HASH_SET_INCREASE_LIMIT l') ''failed to apply hashset limit increase'') ?st = Ret ((), st')"
    by (simp add: proxy_write_def sp(2))
  then obtain v where "try_apply (HASH_SET_INCREASE_LIMIT l') (view env st ?k) = Ret (True, v)" "st' = put_view env ?k v ?st"
    by (auto simp: returns)
  then show "adds_only env (replay_key self) st st'"
    using replay_grow[of l' "view env st ?k" v "block_of st"] by (auto simp: adds_only_def)
qed

text \<open>Recording a transaction appends its entry, for a time that has not passed.\<close>

lemma record_self_replay_adds:
  assumes "record_self_replay env t st = Ret (x, st')" "okey st = address_and_key self"
  shows "adds_only env (replay_key self) st st' \<and> block_of st \<le> t \<and>
     (replay_ok (block_of st) (view env st (replay_key self)) \<longrightarrow>
        HashSetEntry (hash_tx env (tx_body (body_of_tx st))) t \<in> set (pa_new_hashes (view env st' (replay_key self)))) \<and>
     (\<forall>k'. k' \<noteq> replay_key self \<longrightarrow> view env st' k' = view env st k')"
proof -
  let ?k = "replay_key self" and ?e = "HashSetEntry (hash_tx env (tx_body (body_of_tx st))) t" and ?n = "block_of st"
  from assms obtain v v' g where t: "try_apply (HASH_SET_INSERT ?e) (view env st ?k) = Ret (True, v)"
    "try_apply (HASH_SET_CLEAR ?n) v = Ret (True, v')" "?n \<le> t"
    and st': "view env st' = (view env st)(?k := v')" "frames st' = frames st" "block_of st' = ?n" "body_of_tx st' = body_of_tx st"
    by (auto simp: record_self_replay_def sdk_hashset_insert_def sdk_hashset_clear_def hashset_insert_def[abs_def] hashset_clear_def[abs_def]
        make_delta_defs returns replay_key_def[symmetric] not_less split: if_splits)
  have "replay_ok ?n v' \<and> pa_new_hashes v' = pa_new_hashes (view env st ?k) @ [?e]" if "replay_ok ?n (view env st ?k)"
    using replay_insert[OF t(1) that] replay_clear[OF t(2)] t(3) by simp
  then show ?thesis using st' t(3) by (auto simp: adds_only_def)
qed

lemma record_other:
  assumes "a \<noteq> self"
  shows "tame env (replay_key self) a (record_self_replay env t)"
  by (rule tameI) (use record_self_replay_adds[of env t _ _ _ a] assms in \<open>auto simp: adds_only_def replay_key_def\<close>)

lemma tame_record: "tame env (replay_key self) a (record_self_replay env t)"
proof (cases "a = self")
  case True
  then show ?thesis using record_self_replay_adds by (blast intro: tameI)
qed (rule record_other)

lemma tame_witness: "tame env k a (sdk_get_witness junk i n)"
  unfolding sdk_get_witness_def
  by (rule tame_sbind[OF tame_basic(5) tameI]) (auto simp: sctx_def slift_def returns outcome_simps)

lemma tame_check_sig: "tame env k a (auth_single_pk_check_sig env junk i)"
  by (auto simp: auth_single_pk_check_sig_def sdk_check_sig_ed25519_def intro!: tame_library tame_witness)

lemma other_key: "key \<noteq> replay_cache_storage_key \<Longrightarrow> address_and_key a key \<noteq> replay_key self"
  by (simp add: replay_key_def)

lemma tame_payment:
  assumes "\<And>iv. tame env (replay_key self) a (invoke iv)"
  shows "tame env (replay_key self) a (payment_code env junk invoke m)"
  by (auto simp: payment_code_def payment_init_def payment_transfer_def semaphore_acquire_def auth_single_pk_register_def
      Ierc20_allowanceDelta_def Ierc20_transferFrom_def static_keys_distinct
      intro!: tame_library tame_check_sig tame_record tame_size_increase other_key assms)

lemma adds_only_call: "adds_only env k (enter iv st) st1 \<Longrightarrow> adds_only env k st (leave st1)"
  by (auto simp: adds_only_def)

text \<open>Every call inside the system, at any depth and whoever makes it, only adds unexpired entries to the cache.\<close>

lemma system_adds:
  assumes "kinds self = Some False"
  shows "call_contract n (payment_system env junk kinds) iv st = Ret (x, st') \<Longrightarrow> adds_only env (replay_key self) st st'"
proof (induction n arbitrary: iv st x st')
  case (Suc n)
  have inner: "tame env (replay_key self) a (call_contract n (payment_system env junk kinds) iv)" for a iv
    using Suc.IH by (auto simp: tame_def)
  from Suc.prems obtain c where c: "payment_system env junk kinds (mi_addr iv) = Some c"
    by (auto simp: call_contract.simps returns split: option.splits)
  then have run: "\<exists>x st1. c (call_contract n (payment_system env junk kinds)) (method_name iv) (enter iv st) = Ret (x, st1) \<and> st' = leave st1"
    using Suc.prems by (auto simp: call_contract_run returns)
  have "tame env (replay_key self) (mi_addr iv) (c (call_contract n (payment_system env junk kinds)) (method_name iv))"
  proof (cases "mi_addr iv = self")
    case True
    with c assms have "c = payment_code env junk" by (auto simp: payment_system_def)
    then show ?thesis by (simp add: tame_payment[OF inner])
  next
    case False
    then have k: "address_and_key (mi_addr iv) key \<noteq> replay_key self" for key by (simp add: replay_key_def)
    from c consider "c = erc20_code env junk" | "c = payment_code env junk" by (auto simp: payment_system_def split: if_splits)
    then show ?thesis by cases (simp_all add: tame_payment[OF inner] tame_erc20[OF k])
  qed
  then have "adds_only env (replay_key self) (enter iv st) st1"
    if "c (call_contract n (payment_system env junk kinds)) (method_name iv) (enter iv st) = Ret (x, st1)" for x st1
    using that by (simp add: tame_def)
  with run show ?case by (auto intro: adds_only_call)
qed (simp add: call_contract.simps)

lemma calldata_returns:
  assumes "sdk_get_calldata junk sz st = Ret (bs, st')" "frames st \<noteq> []" "length (calldata (last (frames st))) = sz" "sz < 2 ^ 31" "length (junk sz) = sz"
  shows "bs = calldata (last (frames st)) \<and> (\<exists>g. st' = spend g st)"
proof -
  have u: "unat (of_nat sz :: uint32) = sz" using assms(4) by (simp add: unat_of_nat take_bit_nat_eq_self)
  then show ?thesis using assms unfolding frames_def
    by (auto simp: sdk_get_calldata_def calldata_slice_def sctx_def slift_def get_current_method_invocation_def Let_def returns
        outcome_simps overlay_def split: if_splits)
qed

section \<open>What a payment proves\<close>

text \<open>The public key registered with the account, and the signature that the transaction carries as its witness 0.\<close>

definition registered_key :: "('t, 'r) exec_env \<Rightarrow> (nat \<Rightarrow> byte list) \<Rightarrow> Address \<Rightarrow> 'r exec_state \<Rightarrow> byte list option" where
  "registered_key env junk self st =
     (case map_option body (proxy_get (view env st (address_and_key self pk_storage_key))) of
        Some (raw_memory_storage data) \<Rightarrow> Some (overlay (take (unat (min (of_nat (length data)) 32 :: uint32)) data) (junk 32))
      | _ \<Rightarrow> None)"

definition witness_signature :: "(nat \<Rightarrow> byte list) \<Rightarrow> 'r exec_state \<Rightarrow> byte list option" where
  "witness_signature junk st = (case find_witness 0 (witnesses (body_of_tx st)) of
       Ret wit \<Rightarrow> Some (overlay (take (unat (min (of_nat (length (wit_value wit))) 64 :: uint32)) (wit_value wit)) (junk 64))
     | _ \<Rightarrow> None)"

lemma check_sig_Ret:
  assumes "auth_single_pk_check_sig env junk 0 st = Ret (x, st')" "okey st = address_and_key self"
  shows "\<exists>pk sig. registered_key env junk self st = Some pk \<and> witness_signature junk st = Some sig \<and>
     check_sig_ed25519 env pk sig (be_bytes 32 (hash_tx env (tx_body (body_of_tx st))))"
  using assms
  by (auto simp: auth_single_pk_check_sig_def sdk_check_sig_ed25519_def sdk_get_raw_memory_def raw_memory_read_def sdk_get_witness_def
      returns sctx_def slift_def outcome_simps get_witness_def registered_key_def witness_signature_def body_of_tx_def[symmetric]
      split: option.splits ObjectBody.splits if_splits)

lemma calldata_transfer_fields [simp]:
  "addr_at 0 (calldata_transfer payee amount nonce t) = payee" "i64_at 32 (calldata_transfer payee amount nonce t) = amount"
  "u64_at 48 (calldata_transfer payee amount nonce t) = t" "length (calldata_transfer payee amount nonce t) = 56"
  by (simp_all add: calldata_transfer_def addr_at_def i64_at_def u64_at_def)

text \<open>
  C17: a payment is authorised and recorded. In a system of token contracts and payment accounts, a transfer from the account
  \<open>self\<close> that returns (whoever called it, and whatever the called token did, calling back included) has checked that the signature carried
  by the transaction is valid for the hash of the transaction under the key registered with the account, that its expiration time has not
  passed, and has recorded the hash with that time in the replay cache of the account.
\<close>

theorem payment_authorised:
  assumes sys: "kinds self = Some False" and jk: "\<forall>n. length (junk n) = n"
    and run: "call_contract (Suc n) (payment_system env junk kinds)
        \<lparr>mi_addr = self, method_name = 1, calldata = calldata_transfer payee amount nonce t\<rparr> st = Ret ((), st')"
    and ok: "replay_ok (block_of st) (view env st (replay_key self))"
  shows "\<exists>pk sig. registered_key env junk self st = Some pk \<and> witness_signature junk st = Some sig \<and>
      check_sig_ed25519 env pk sig (be_bytes 32 (hash_tx env (tx_body (body_of_tx st)))) \<and> block_of st \<le> t \<and>
      HashSetEntry (hash_tx env (tx_body (body_of_tx st))) t \<in> set (pa_new_hashes (view env st' (replay_key self)))"
proof -
  let ?k = "replay_key self" and ?iv = "\<lparr>mi_addr = self, method_name = 1, calldata = calldata_transfer payee amount nonce t\<rparr>"
  let ?call = "call_contract n (payment_system env junk kinds)"
  have c: "payment_system env junk kinds (mi_addr ?iv) = Some (payment_code env junk)" using sys by (simp add: payment_system_def)
  from run c obtain st1 where "payment_transfer env junk ?call (enter ?iv st) = Ret ((), st1)" and st': "st' = leave st1"
    by (auto simp: call_contract_run returns payment_code_def)
  then obtain bs s0 u s1 v s2 where r: "sdk_get_calldata junk 56 (enter ?iv st) = Ret (bs, s0)"
    "record_self_replay env (u64_at 48 bs) s0 = Ret (u, s1)" "auth_single_pk_check_sig env junk 0 s1 = Ret (v, s2)"
    and rest: "sbind (sdk_get_raw_memory env junk token_addr 32) (\<lambda>token_key. sbind sdk_get_self (\<lambda>self.
       Ierc20_transferFrom ?call (be_word token_key) self (addr_at 0 bs) (i64_at 32 bs))) s2 = Ret ((), st1)"
    by (auto simp: payment_transfer_def returns)
  from calldata_returns[OF r(1)] jk obtain g where s0: "s0 = spend g (enter ?iv st)" and bs: "u64_at 48 bs = t" by auto
  have at0: "okey s0 = address_and_key self" by (simp add: s0)
  from record_self_replay_adds[OF r(2) at0] have rec: "adds_only env ?k s0 s1" "block_of s0 \<le> t"
    "HashSetEntry (hash_tx env (tx_body (body_of_tx s0))) t \<in> set (pa_new_hashes (view env s1 ?k))"
    "\<And>k'. k' \<noteq> ?k \<Longrightarrow> view env s1 k' = view env s0 k'"
    using ok by (simp_all add: bs s0)
  have at1: "frames s1 = frames (enter ?iv st)" "okey s1 = address_and_key self" "body_of_tx s1 = body_of_tx st" "block_of s1 = block_of st"
    using rec(1) by (simp_all add: adds_only_def s0 okey_def fun_eq_iff)
  have t2: "tame env ?k self (sbind (sdk_get_raw_memory env junk token_addr 32) (\<lambda>token_key. sbind sdk_get_self (\<lambda>self.
       Ierc20_transferFrom ?call (be_word token_key) self (addr_at 0 bs) (i64_at 32 bs))))"
    unfolding Ierc20_transferFrom_def using system_adds[of kinds self n env junk, OF sys] by (intro tame_library) (auto simp: tame_def)
  have a2: "adds_only env ?k s1 s2" by (rule tameD[OF tame_check_sig r(3), of self]) (simp_all add: at1(1))
  then have f2: "frames s2 = frames (enter ?iv st)" by (simp add: adds_only_def at1(1))
  have "adds_only env ?k s2 st1" by (rule tameD[OF t2 rest]) (simp_all add: f2)
  with a2 have "adds_only env ?k s1 st1" by (rule adds_only_trans)
  moreover have "replay_ok (block_of s1) (view env s1 ?k)" using rec(1) ok at1(4) by (simp add: adds_only_def s0)
  ultimately have "HashSetEntry (hash_tx env (tx_body (body_of_tx st))) t \<in> set (pa_new_hashes (view env st' ?k))"
    using rec(3) by (auto simp: adds_only_def st' s0)
  moreover have "address_and_key self pk_storage_key \<noteq> ?k" using static_keys_distinct by (simp add: replay_key_def)
  then have "registered_key env junk self s1 = registered_key env junk self st" "witness_signature junk s1 = witness_signature junk st"
    by (simp_all add: registered_key_def witness_signature_def rec(4) at1 s0)
  ultimately show ?thesis using check_sig_Ret[OF r(3) at1(2)] rec(2) at1(3) by (auto simp: s0)
qed

section \<open>The replay cache of a chain\<close>

lemma storable_spec_commit:
  assumes "round_inv sh {#} (mset ds) ro" "storable (committed_base ro)"
  shows "storable (spec_commit (committed_base ro) ds)"
  using start_object_Ret(3)[OF assms] by (auto simp: spec_commit_def storable_def)

lemma insertion_class: "insertions ds \<noteq> [] \<Longrightarrow> \<exists>d \<in> set ds. delta_class d = Some DC_HASH_SET"
  by (induction ds rule: insertions.induct) auto

lemma no_hash_set: "(\<And>ob. x = Some ob \<Longrightarrow> body_type (body ob) \<noteq> HASH_SET) \<Longrightarrow> hashes (prev_hash_set x) = []"
  by (auto simp: prev_hash_set_def split: option.splits ObjectBody.splits)

text \<open>The hash set after a round without deletions.\<close>

lemma commit_hashes:
  assumes inv: "round_inv sh {#} (mset ds) ro" and st: "storable (committed_base ro)" and nd: "DELETE_LAST \<notin> set ds"
  shows "set (hashes (prev_hash_set (spec_commit (committed_base ro) ds))) =
     {e \<in> set (hashes (prev_hash_set (committed_base ro))) \<union> set (insertions ds). survives ds e}"
proof (cases "class_of ds = Some DC_HASH_SET")
  case True
  then obtain ob where ob: "start_object (committed_base ro) ds = Some ob" "object_from_delta_class DC_HASH_SET (committed_base ro) = Ret ob"
    using start_object_Ret(2)[OF inv st] by blast
  then have "body_type (body ob) = HASH_SET" using object_from_delta_class_type by fastforce
  then obtain hs where hs: "body ob = hash_set hs" by (cases "body ob") auto
  with start_object_body(1)[OF inv st ob(1)] ob(1) nd show ?thesis
    by (auto simp: spec_commit_def prev_hash_set_def[of "Some _"])
next
  case False
  have none: "insertions ds = []"
    using insertion_class[of ds] base_inv_obj[OF round_invD(1)[OF inv], of DC_HASH_SET] obj_class_of[OF round_invD(1)[OF inv]] False by auto
  show ?thesis
  proof (cases "class_of ds")
    case None
    have "HASH_SET_CLEAR x \<notin> set ds" for x using class_of_NoneD[OF None, of "HASH_SET_CLEAR x"] by auto
    then have "survives ds e" for e by (auto simp: survives_def list_all_iff split: StorageDelta.split)
    then show ?thesis using None none nd by (auto simp: spec_commit_def start_object_def prev_hash_set_def split: option.splits ObjectBody.splits)
  next
    case (Some dc)
    then obtain ob where ob: "start_object (committed_base ro) ds = Some ob" "object_from_delta_class dc (committed_base ro) = Ret ob"
      using start_object_Ret(2)[OF inv st] by blast
    have "body_type (body ob) = dc_type dc" using ob(2) object_from_delta_class_type by blast
    moreover have "dc_type dc \<noteq> HASH_SET" using Some False by (cases dc) auto
    moreover have "body_type (body o1) = dc_type dc" if "committed_base ro = Some o1" for o1
      using that ob(2) object_from_delta_class_prev by simp
    ultimately have "hashes (prev_hash_set (committed_base ro)) = []" "hashes (prev_hash_set (spec_commit (committed_base ro) ds)) = []"
      using ob(1) by (auto simp: spec_commit_def intro!: no_hash_set)
    then show ?thesis using none by simp
  qed
qed

lemma replay_deltas:
  assumes "replay_ok n p"
  shows "insertions (get_deltas p) = pa_new_hashes p" "DELETE_LAST \<notin> set (get_deltas p)" "n < index e \<Longrightarrow> survives (get_deltas p) e"
proof -
  have *: "insertions (case memory_write p of None \<Rightarrow> [] | Some data \<Rightarrow> [RAW_MEMORY_WRITE data]) = []"
    "insertions (case nnint64_delta p of None \<Rightarrow> [] | Some r \<Rightarrow> [NONNEGATIVE_INT64_SET_ADD (fst r) (snd r)]) = []"
    "insertions (case pa_delta p of None \<Rightarrow> [] | Some d \<Rightarrow> [ASSET_OBJECT_ADD d]) = []" by (auto split: option.split)
  show "insertions (get_deltas p) = pa_new_hashes p"
    using assms by (auto simp: get_deltas_eq insertions_append hs_deltas_insertions * replay_ok_def)
  show "DELETE_LAST \<notin> set (get_deltas p)"
    using assms hs_deltas_no_delete[of p] by (auto simp: get_deltas_eq replay_ok_def split: option.splits if_splits)
  assume "n < index e"
  then show "survives (get_deltas p) e"
    using assms hs_deltas_survives[of p e] by (auto simp: get_deltas_eq replay_ok_def survives_def split: option.splits)
qed

lemma survives_append: "survives (xs @ ys) e \<longleftrightarrow> survives xs e \<and> survives ys e"
  by (simp add: survives_def)

lemma replay_deltas_all:
  assumes "\<forall>p \<in> set ps. replay_ok n p"
  shows "insertions (concat (map get_deltas ps)) = concat (map pa_new_hashes ps)" "DELETE_LAST \<notin> set (concat (map get_deltas ps))"
    "n < index e \<Longrightarrow> survives (concat (map get_deltas ps)) e"
  using assms replay_deltas by (induction ps) (auto simp: insertions_append survives_append, simp add: survives_def)

text \<open>A transaction of the system that has returned in block \<open>n\<close>.\<close>

definition tx_ran :: "('t, 'r) exec_env \<Rightarrow> (nat \<Rightarrow> byte list) \<Rightarrow> (Address \<Rightarrow> bool option) \<Rightarrow> uint64 \<Rightarrow> 'r exec_state \<Rightarrow> bool" where
  "tx_ran env junk kinds n st \<longleftrightarrow> (\<exists>fuel iv st0. storage_proxy (ctx st0) = storage_proxy_new \<and> block_of st0 = n \<and>
     call_contract fuel (payment_system env junk kinds) iv st0 = Ret ((), st))"

lemma tx_ran_replay_ok: "tx_ran env junk kinds n st \<Longrightarrow> kinds self = Some False \<Longrightarrow> replay_ok n (view env st (replay_key self))"
  using system_adds[of kinds self] by (fastforce simp: tx_ran_def view_fresh adds_only_def replay_ok_new)

text \<open>
  The replay cache of the account \<open>self\<close> along a chain: \<open>n\<close> is the number of the next block, \<open>es\<close> the entries recorded by the transactions of
  the committed blocks. In each block the changes of its transactions, which read the cache as committed by the block before, are added to the
  cache by any interleaving of the threads, with any others tried and reverted, and then committed; or the round is abandoned.
\<close>

inductive replay_chain :: "(Hash \<Rightarrow> uint64) \<Rightarrow> ('t, 'r) exec_env \<Rightarrow> (nat \<Rightarrow> byte list) \<Rightarrow> (Address \<Rightarrow> bool option) \<Rightarrow> Address \<Rightarrow>
    uint64 \<Rightarrow> HashSetEntry list \<Rightarrow> RevertableObject \<Rightarrow> bool"
  for sh env junk kinds self where
  chain_start: "replay_chain sh env junk kinds self n [] RevertableObject_new"
| chain_block: "replay_chain sh env junk kinds self n es ro0 \<Longrightarrow> ledger (replay_key self) = committed_base ro0 \<Longrightarrow>
    (\<And>st. st \<in> set sts \<Longrightarrow> tx_ran (env\<lparr>env_ledger := ledger\<rparr>) junk kinds n st) \<Longrightarrow>
    ds = concat (map (\<lambda>st. get_deltas (view (env\<lparr>env_ledger := ledger\<rparr>) st (replay_key self))) sts) \<Longrightarrow> length ds < 2 ^ 31 \<Longrightarrow>
    ro_reach sh ro0 {#} (mset ds) ro \<Longrightarrow> commit_round ro = Ret ro' \<Longrightarrow> n < n' \<Longrightarrow>
    replay_chain sh env junk kinds self n'
      (es @ concat (map (\<lambda>st. pa_new_hashes (view (env\<lparr>env_ledger := ledger\<rparr>) st (replay_key self))) sts)) ro'"
| chain_abandon: "replay_chain sh env junk kinds self n es ro0 \<Longrightarrow> ro_reach sh ro0 L C ro \<Longrightarrow>
    replay_chain sh env junk kinds self n es (rewind_round ro)"

text \<open>One block: fresh entries, and those that can still be replayed stay in the set.\<close>

lemma replay_block:
  assumes idle: "round_inv sh {#} {#} ro0" and st: "storable (committed_base ro0)" and r: "ro_reach sh ro0 {#} (mset ds) ro"
    and len: "length ds < 2 ^ 31" and c: "commit_round ro = Ret ro'" and ds: "ds = concat (map get_deltas ps)" and ok: "\<forall>p \<in> set ps. replay_ok n p"
  shows "round_inv sh {#} {#} ro'" "storable (committed_base ro')" "distinct (concat (map pa_new_hashes ps))"
    "set (concat (map pa_new_hashes ps)) \<inter> set (hashes (prev_hash_set (committed_base ro0))) = {}"
    "\<And>e. n < index e \<Longrightarrow> e \<in> set (hashes (prev_hash_set (committed_base ro0))) \<union> set (concat (map pa_new_hashes ps)) \<Longrightarrow>
       e \<in> set (hashes (prev_hash_set (committed_base ro')))"
proof -
  have i: "round_inv sh {#} (mset ds) ro" "committed_base ro = committed_base ro0" using ro_reach_inv[OF r idle] by auto
  note d = replay_deltas_all[OF ok, folded ds]
  from commit_round_spec[OF i(1) _ len] st c d(2) i(2) have ro': "committed_base ro' = spec_commit (committed_base ro) ds"
    "round_inv sh {#} {#} ro'" by auto
  show "round_inv sh {#} {#} ro'" by (rule ro'(2))
  show "storable (committed_base ro')" using storable_spec_commit[OF i(1)] st i(2) ro'(1) by simp
  have h: "mset (get_hashes (new_hashes ro)) = mset (insertions ds)" "atomic_set_inv sh (new_hashes ro)"
    "\<forall>e \<in> set (insertions ds). e \<notin> set (hashes (prev_hash_set (committed_base ro)))"
    using round_invD(6)[OF i(1)] by (auto simp: hs_inv_def inserted_mset)
  show "distinct (concat (map pa_new_hashes ps))"
    using mset_eq_imp_distinct_iff[OF h(1)] atomic_set.entries_distinct[OF h(2)] d(1) by simp
  show "set (concat (map pa_new_hashes ps)) \<inter> set (hashes (prev_hash_set (committed_base ro0))) = {}" using h(3) d(1) i(2) by auto
  fix e assume "n < index e" "e \<in> set (hashes (prev_hash_set (committed_base ro0))) \<union> set (concat (map pa_new_hashes ps))"
  then show "e \<in> set (hashes (prev_hash_set (committed_base ro')))"
    using commit_hashes[OF i(1) _ d(2)] st i(2) ro'(1) d(1,3) by auto
qed

section \<open>A payment that succeeds\<close>

lemma sdk_get_raw_memory_run [contract_run]:
  assumes "50 + 2 * sz < budget st" "frames st \<noteq> []" "proxy_get (view env st (okey st key)) = Some ob" "body ob = raw_memory_storage bs"
    "length bs = sz" "sz < 2 ^ 31" "length (junk sz) = sz"
  shows "sdk_get_raw_memory env junk key sz st = Ret (bs, touch env (okey st key) (spend (50 + of_nat sz * 2) st))"
proof -
  have u: "unat (of_nat sz :: uint32) = sz" "ucast (of_nat sz :: uint32) = (of_nat sz :: uint64)"
    using assms(6) by (simp_all add: unat_of_nat unsigned_of_nat take_bit_nat_eq_self)
  have g: "unat (50 + of_nat sz * 2 :: uint64) < budget st" using unat_linear_cost[of sz] assms(1,6) by simp
  show ?thesis using assms g u
    by (simp add: sdk_get_raw_memory_def raw_memory_read_def gas_raw_memory_get_def contract_run overlay_def)
qed

lemma sdk_get_witness_run [contract_run]:
  assumes "50 + 2 * sz < budget st" "find_witness i (witnesses (body_of_tx st)) = Ret wit" "length (wit_value wit) = sz" "sz < 2 ^ 31" "length (junk sz) = sz"
  shows "sdk_get_witness junk i sz st = Ret (wit_value wit, spend (50 + of_nat sz * 2) st)"
proof -
  have u: "unat (of_nat sz :: uint32) = sz" using assms(4) by (simp add: unat_of_nat take_bit_nat_eq_self)
  have g: "unat (50 + of_nat sz * 2 :: uint64) < budget st" using unat_linear_cost[of sz] assms(1,4) by simp
  have w: "get_witness i (ctx (spend (50 + of_nat sz * 2) st)) = Ret wit" using assms(2) by (simp add: get_witness_def body_of_tx_def spend_def)
  show ?thesis using assms g u w by (simp add: sdk_get_witness_def gas_get_witness_def contract_run sctx_def slift_def overlay_def)
qed

lemma sdk_invoke_run:
  assumes "10000 + 2 * (length bs + 1) < budget st" "length bs < 2 ^ 16"
    "invoke \<lparr>mi_addr = target, method_name = m, calldata = bs\<rparr> (spend (10000 + of_nat (length bs + 1) * 2) st) = Ret ((), s')" "ret_of s' = []"
  shows "sdk_invoke invoke target m bs st = Ret ((), set_ret [] s')"
proof -
  have "(10000 + of_nat (length bs + 1) * 2 :: uint64) = of_nat (10000 + 2 * (length bs + 1))" by simp
  then have g: "unat (10000 + of_nat (length bs + 1) * 2 :: uint64) < budget st"
    using assms(1,2) by (simp only: unat_of_nat) (simp add: take_bit_nat_eq_self)
  have "(of_nat (length bs) + of_nat 1 :: uint32) = of_nat (length bs + 1)" by (simp only: of_nat_add)
  moreover have "take_bit LENGTH(32) (length bs + 1) = length bs + 1" using assms(2) by (intro take_bit_nat_eq_self) simp
  ultimately have u: "ucast (of_nat (length bs) + of_nat 1 :: uint32) = (of_nat (length bs + 1) :: uint64)"
    by (simp only: unsigned_of_nat)
  have "invoke_raw invoke target m bs 1 st = Ret ([], set_ret [] s')"
    using assms(3,4) unfolding invoke_raw_def gas_invoke_def u sbind_def charge_run[OF g] by (simp add: ret_of_def set_ret_def)
  then show ?thesis by (simp add: sdk_invoke_def sbind_def sret_def)
qed

text \<open>The cache has room for the entry.\<close>

definition replay_room :: "HashSetEntry \<Rightarrow> ProxyApplicator \<Rightarrow> bool" where
  "replay_room e p \<longleftrightarrow> \<not> is_deleted p \<and> (\<forall>ob. current p = Some ob \<longrightarrow> body_type (body ob) = HASH_SET) \<and>
     e \<notin> set (hashes (current_hash_set p)) \<and> length (hashes (current_hash_set p)) < unat (max_size (current_hash_set p)) \<and>
     hs_clear_threshold p = None"

definition recorded :: "uint64 \<Rightarrow> HashSetEntry \<Rightarrow> ProxyApplicator \<Rightarrow> ProxyApplicator" where
  "recorded n e p = (case apply_all [HASH_SET_INSERT e, HASH_SET_CLEAR n] p of Ret (_, p') \<Rightarrow> p' | _ \<Rightarrow> p)"

lemma replay_room_run:
  assumes "replay_room e p"
  shows "\<exists>p1. try_apply (HASH_SET_INSERT e) p = Ret (True, p1) \<and> try_apply (HASH_SET_CLEAR n) p1 = Ret (True, recorded n e p)"
  using assms
  by (cases "current p")
    (auto simp: replay_room_def recorded_def try_apply_def delta_apply_type_guard.simps make_current_def set_body_def current_hash_set_def prev_hash_set_def Let_def
      split: ObjectBody.splits)

lemma record_self_replay_run:
  assumes room: "replay_room (HashSetEntry (hash_tx env (tx_body (body_of_tx st))) t) (view env st (okey st replay_cache_storage_key))"
    and t: "block_of st \<le> t" and g: "300 < budget st" "frames st \<noteq> []"
  shows "\<exists>st'. record_self_replay env t st = Ret ((), st') \<and> view env st' = (view env st)(okey st replay_cache_storage_key :=
       recorded (block_of st) (HashSetEntry (hash_tx env (tx_body (body_of_tx st))) t) (view env st (okey st replay_cache_storage_key))) \<and>
     frames st' = frames st \<and> budget st' + 260 = budget st \<and> ret_of st' = ret_of st \<and> block_of st' = block_of st \<and> body_of_tx st' = body_of_tx st"
proof -
  let ?k = "okey st replay_cache_storage_key" and ?e = "HashSetEntry (hash_tx env (tx_body (body_of_tx st))) t"
  let ?p2 = "recorded (block_of st) ?e (view env st ?k)"
  obtain p1 where p: "try_apply (HASH_SET_INSERT ?e) (view env st ?k) = Ret (True, p1)" "try_apply (HASH_SET_CLEAR (block_of st)) p1 = Ret (True, ?p2)"
    using replay_room_run[OF room] by blast
  have i: "proxy_write (hashset_insert (env_ledger env) ?k (hash_tx env (tx_body (body_of_tx st))) t) s = Ret ((), put_view env ?k p1 s)"
    if "view env s ?k = view env st ?k" for s
    using apply_to_key_view[of "HASH_SET_INSERT ?e" env s ?k p1] p(1) that by (simp add: hashset_insert_def[abs_def] make_delta_defs)
  have c: "proxy_write (hashset_clear (env_ledger env) ?k (block_of st)) s = Ret ((), put_view env ?k ?p2 s)" if "view env s ?k = p1" for s
    using apply_to_key_view[of "HASH_SET_CLEAR (block_of st)" env s ?k ?p2] p(2) that by (simp add: hashset_clear_def[abs_def] make_delta_defs)
  show ?thesis using t g
    by (simp add: record_self_replay_def sdk_hashset_insert_def sdk_hashset_clear_def gas_hashset_insert_def gas_hashset_clear_def contract_run i c leD)
qed

lemma check_sig_run:
  assumes "proxy_get (view env st (okey st pk_storage_key)) = Some ob" "body ob = raw_memory_storage pk" "length pk = 32"
    "find_witness 0 (witnesses (body_of_tx st)) = Ret wit" "length (wit_value wit) = 64"
    "check_sig_ed25519 env pk (wit_value wit) (be_bytes 32 (hash_tx env (tx_body (body_of_tx st))))"
    "10400 < budget st" "frames st \<noteq> []" "\<forall>n. length (junk n) = n"
  shows "\<exists>st'. auth_single_pk_check_sig env junk 0 st = Ret ((), st') \<and> view env st' = view env st \<and> frames st' = frames st \<and>
     budget st' + 10342 = budget st \<and> ret_of st' = ret_of st \<and> block_of st' = block_of st \<and> body_of_tx st' = body_of_tx st"
  using assms by (simp add: auth_single_pk_check_sig_def sdk_check_sig_ed25519_def gas_check_sig_ed25519_def contract_run)

text \<open>
  A payment that should go through: enough gas, a signature valid under the registered key, an expiration time that has not passed, room in the
  replay cache (which does not hold the transaction yet), and a token balance and allowance of the account that cover the amount.
\<close>

definition payment_ready :: "('t, 'r) exec_env \<Rightarrow> (Address \<Rightarrow> bool option) \<Rightarrow> Address \<Rightarrow> Address \<Rightarrow> Address \<Rightarrow> int64 \<Rightarrow> uint64 \<Rightarrow> 'r exec_state \<Rightarrow> bool" where
  "payment_ready env kinds self token payee amount t st \<longleftrightarrow>
     kinds self = Some False \<and> kinds token = Some True \<and> 52000 < budget st \<and> ret_of st = [] \<and>
     (\<exists>ob pk wit. proxy_get (view env st (address_and_key self pk_storage_key)) = Some ob \<and> body ob = raw_memory_storage pk \<and> length pk = 32 \<and>
        find_witness 0 (witnesses (body_of_tx st)) = Ret wit \<and> length (wit_value wit) = 64 \<and>
        check_sig_ed25519 env pk (wit_value wit) (be_bytes 32 (hash_tx env (tx_body (body_of_tx st))))) \<and>
     (\<exists>ob. proxy_get (view env st (address_and_key self token_addr)) = Some ob \<and> body ob = raw_memory_storage (be_bytes 32 token)) \<and>
     block_of st \<le> t \<and> replay_room (HashSetEntry (hash_tx env (tx_body (body_of_tx st))) t) (view env st (replay_key self)) \<and>
     0 \<le> sint amount \<and> keys_apart env token self payee self \<and>
     int_ok (view env st (balance_key env token self)) \<and> int_ok (view env st (balance_key env token payee)) \<and>
     int_ok (view env st (allowance_key env token self self)) \<and>
     sint amount \<le> int_of (view env st (allowance_key env token self self)) \<and>
     sint amount \<le> int_of (view env st (balance_key env token self)) \<and>
     int_of (view env st (balance_key env token payee)) + sint amount < 2 ^ 63"

lemma payment_run:
  assumes ready: "payment_ready env kinds self token payee amount t st" and jk: "\<forall>n. length (junk n) = n"
  shows "\<exists>st'. call_contract (Suc (Suc n)) (payment_system env junk kinds)
       \<lparr>mi_addr = self, method_name = 1, calldata = calldata_transfer payee amount nonce t\<rparr> st = Ret ((), st') \<and>
     view env st' = (view env st)
       (replay_key self := recorded (block_of st) (HashSetEntry (hash_tx env (tx_body (body_of_tx st))) t) (view env st (replay_key self)),
        allowance_key env token self self := int_added (- amount) (view env st (allowance_key env token self self)),
        balance_key env token self := int_added (- amount) (view env st (balance_key env token self)),
        balance_key env token payee := int_added amount (view env st (balance_key env token payee))) \<and>
     budget st' + 51468 = budget st"
proof -
  from ready obtain ob pk wit ob' where sys: "kinds self = Some False" "kinds token = Some True"
    and gas: "52000 < budget st" and ret: "ret_of st = []"
    and key: "proxy_get (view env st (address_and_key self pk_storage_key)) = Some ob" "body ob = raw_memory_storage pk" "length pk = 32"
    and sig: "find_witness 0 (witnesses (body_of_tx st)) = Ret wit" "length (wit_value wit) = 64"
      "check_sig_ed25519 env pk (wit_value wit) (be_bytes 32 (hash_tx env (tx_body (body_of_tx st))))"
    and tok: "proxy_get (view env st (address_and_key self token_addr)) = Some ob'" "body ob' = raw_memory_storage (be_bytes 32 token)"
    and fresh: "block_of st \<le> t" "replay_room (HashSetEntry (hash_tx env (tx_body (body_of_tx st))) t) (view env st (replay_key self))"
    and amt: "0 \<le> sint amount" and apart: "keys_apart env token self payee self"
    and ok: "int_ok (view env st (balance_key env token self))" "int_ok (view env st (balance_key env token payee))"
      "int_ok (view env st (allowance_key env token self self))"
    and enough: "sint amount \<le> int_of (view env st (allowance_key env token self self))"
      "sint amount \<le> int_of (view env st (balance_key env token self))"
      "int_of (view env st (balance_key env token payee)) + sint amount < 2 ^ 63"
    unfolding payment_ready_def by blast
  let ?iv = "\<lparr>mi_addr = self, method_name = 1, calldata = calldata_transfer payee amount nonce t\<rparr>"
  let ?codes = "payment_system env junk kinds"
  let ?call = "call_contract (Suc n) ?codes"
  have c: "?codes self = Some (payment_code env junk)" and tc: "?codes token = Some (erc20_code env junk)" using sys by (simp_all add: payment_system_def)
  have ne: "token \<noteq> self" using sys by auto
  define s0 where "s0 = spend 162 (enter ?iv st)"
  have s0: "frames s0 = frames st @ [?iv]" "budget s0 + 162 = budget st" "view env s0 = view env st" "okey s0 = address_and_key self"
    "block_of s0 = block_of st" "body_of_tx s0 = body_of_tx st" "ret_of s0 = []" using gas ret by (simp_all add: s0_def)
  have r0: "sdk_get_calldata junk 56 (enter ?iv st) = Ret (calldata_transfer payee amount nonce t, s0)"
    using gas jk by (simp add: contract_run s0_def)
  have "300 < budget s0" using s0(2) gas by simp
  from record_self_replay_run[of env s0 t, OF _ _ this] fresh s0(2) obtain s1 where r1: "record_self_replay env t s0 = Ret ((), s1)"
    and s1: "view env s1 = (view env st)(replay_key self := recorded (block_of st) (HashSetEntry (hash_tx env (tx_body (body_of_tx st))) t) (view env st (replay_key self)))"
      "frames s1 = frames st @ [?iv]" "budget s1 + 422 = budget st" "ret_of s1 = []"
      "block_of s1 = block_of st" "body_of_tx s1 = body_of_tx st"
    by (auto simp: s0(1,3-) replay_key_def)
  have keys: "view env s1 (address_and_key a k) = view env st (address_and_key a k)" if "a \<noteq> self \<or> k \<noteq> replay_cache_storage_key" for a k
    using that by (auto simp: s1 replay_key_def)
  have o1: "okey s1 = address_and_key self" by (simp add: okey_def fun_eq_iff s1)
  have "10400 < budget s1" using s1(3) gas by simp
  from check_sig_run[of env s1 ob pk wit junk, OF _ key(2,3) _ sig(2) _ this] key(1) sig(1,3) jk static_keys_distinct s1(3) obtain s2 where
    r2: "auth_single_pk_check_sig env junk 0 s1 = Ret ((), s2)"
    and s2: "view env s2 = view env s1" "frames s2 = frames st @ [?iv]" "budget s2 + 10764 = budget st" "ret_of s2 = []"
    by (auto simp: o1 keys s1(2,4-))
  have o2: "okey s2 = address_and_key self" by (simp add: okey_def fun_eq_iff s2)
  define s3 where "s3 = spend 10146 (spend 50 (touch env (address_and_key self token_addr) (spend 114 s2)))"
  have s3: "frames s3 = frames st @ [?iv]" "budget s3 + 21074 = budget st" "view env s3 = view env s1" "ret_of s3 = []"
    using gas s2(3) by (simp_all add: s3_def s2(1,2,4))
  have v3: "view env s3 (balance_key env token a) = view env st (balance_key env token a)"
    "view env s3 (allowance_key env token a b) = view env st (allowance_key env token a b)" for a b
    using ne by (simp_all add: s3(3) balance_key_def allowance_key_def keys)
  have "30500 < budget s3" using s3(2) gas by simp
  from transferFrom_run[where codes = ?codes and token = token and n = n and junk = junk and st = s3 and fs = "frames st" and caller = ?iv and
      amount = amount and payer = self and payee = payee, OF tc s3(1) jk this amt] apart ok enough obtain s4 where
    r4: "?call \<lparr>mi_addr = token, method_name = 1, calldata = calldata_transferFrom self payee amount\<rparr> s3 = Ret ((), s4)"
    and s4: "frames s4 = frames s3" "budget s4 + 30394 = budget s3" "ret_of s4 = ret_of s3"
      "view env s4 = (view env s3)
       (allowance_key env token self self := int_added (- amount) (view env st (allowance_key env token self self)),
        balance_key env token self := int_added (- amount) (view env st (balance_key env token self)),
        balance_key env token payee := int_added amount (view env st (balance_key env token payee)))"
    by (auto simp: v3)
  have r3: "sbind (sdk_get_raw_memory env junk token_addr 32) (\<lambda>token_key. sbind sdk_get_self (\<lambda>self.
       Ierc20_transferFrom ?call (be_word token_key) self payee amount)) s2 = Ret ((), set_ret [] s4)"
  proof -
    let ?s = "spend 50 (touch env (address_and_key self token_addr) (spend 114 s2))"
    have k: "view env s2 (address_and_key self token_addr) = view env st (address_and_key self token_addr)"
      using static_keys_distinct by (simp add: s2(1) keys)
    have b: "164 < budget s2" "10300 < budget ?s" using s2(3) gas by simp_all
    have "sdk_invoke ?call token 1 (calldata_transferFrom self payee amount) ?s = Ret ((), set_ret [] s4)"
      by (rule sdk_invoke_run) (use b r4 s4(3) s3(4) in \<open>simp_all add: s3_def\<close>)
    then show ?thesis using tok b jk by (simp add: contract_run o2 k s2(2) Ierc20_transferFrom_def)
  qed
  have "call_contract (Suc (Suc n)) ?codes ?iv st = Ret ((), leave (set_ret [] s4))"
    using r3 by (simp add: call_contract_run c payment_code_def payment_transfer_def sbind_def r0 r1 r2)
  then show ?thesis using s4(2) s3(2) by (auto simp: s4(4) s3(3) s1(1))
qed


section \<open>At most once\<close>

text \<open>
  C6: a transaction is paid at most once. Along a chain of blocks of a system of token contracts and payment accounts, executed by any interleaving of the
  threads and with any rounds abandoned, no pair of a transaction hash and an expiration time is recorded twice by an account, in one
  block or in several; an entry that has not expired is still in the committed replay cache. (By the property above every payment records its entry.)
\<close>

theorem payments_not_replayed:
  assumes "replay_chain sh env junk kinds self n es ro" "kinds self = Some False"
  shows "distinct es \<and> (\<forall>e \<in> set es. n \<le> index e \<longrightarrow> e \<in> set (hashes (prev_hash_set (get_committed_object ro))))"
proof -
  have "round_inv sh {#} {#} ro \<and> storable (committed_base ro) \<and> distinct es \<and>
      (\<forall>e \<in> set es. n \<le> index e \<longrightarrow> e \<in> set (hashes (prev_hash_set (committed_base ro))))"
    using assms(1)
  proof (induction rule: replay_chain.induct)
    case (chain_start n)
    show ?case by (simp add: round_inv_new) (simp add: RevertableObject_new_def storable_def)
  next
    case (chain_block n es ro0 ledger sts ds ro ro' n')
    let ?p = "\<lambda>st. view (env\<lparr>env_ledger := ledger\<rparr>) st (replay_key self)"
    have ok: "\<forall>p \<in> set (map ?p sts). replay_ok n p" using tx_ran_replay_ok[OF chain_block.hyps(3) assms(2)] by simp
    have ds: "ds = concat (map get_deltas (map ?p sts))" using chain_block.hyps(4) by (simp add: comp_def)
    have idle: "round_inv sh {#} {#} ro0" "storable (committed_base ro0)" "distinct es"
      "\<forall>e \<in> set es. n \<le> index e \<longrightarrow> e \<in> set (hashes (prev_hash_set (committed_base ro0)))"
      using chain_block.IH by blast+
    let ?new = "concat (map pa_new_hashes (map ?p sts))"
    note b = replay_block[OF idle(1,2) chain_block.hyps(6,5,7) ds ok]
    have "\<forall>e \<in> set ?new. n \<le> index e" using ok by (auto simp: replay_ok_def)
    then have "distinct (es @ ?new)" using b(3,4) idle(3,4) by auto
    moreover have "e \<in> set (hashes (prev_hash_set (committed_base ro')))" if "e \<in> set (es @ ?new)" "n' \<le> index e" for e
    proof -
      have "n < index e" using that(2) chain_block.hyps(8) by simp
      with b(5)[of e] idle(4) that(1) show ?thesis by auto
    qed
    ultimately show ?case using b(1,2) by (simp add: comp_def)
  next
    case (chain_abandon n es ro0 L C ro)
    then show ?case using ro_reach_inv[OF chain_abandon.hyps(2)] rewind_round_idle[of sh L C ro] by simp
  qed
  then show ?thesis by (simp add: get_committed_object_def)
qed

section \<open>A sample payment\<close>

text \<open>Account 5 holds 100 tokens of contract 7, which allows it to spend 50, and pays 30 to account 2 in block 3.\<close>

definition pay_ledger :: ledger where
  "pay_ledger k =
     (if k = address_and_key 5 pk_storage_key then Some \<lparr>body = raw_memory_storage (replicate 32 1), escrowed_fee = 0\<rparr>
      else if k = address_and_key 5 token_addr then Some \<lparr>body = raw_memory_storage (be_bytes 32 (7 :: Address)), escrowed_fee = 0\<rparr>
      else if k = address_and_key 7 37 then Some \<lparr>body = nonnegative_int64 100, escrowed_fee = 0\<rparr>
      else if k = address_and_key 7 69 then Some \<lparr>body = nonnegative_int64 50, escrowed_fee = 0\<rparr>
      else None)"

definition pay_env :: "((Address \<times> metered) list, nat) exec_env" where
  "pay_env = sample_env\<lparr>hash_opaque := toy_hash, env_ledger := pay_ledger, check_sig_ed25519 := (\<lambda>pk sig msg. pk = replicate 32 1 \<and> sig = replicate 64 2)\<rparr>"

definition pay_tx :: SignedTransaction where
  "pay_tx = rich_tx\<lparr>witnesses := [\<lparr>wit_key = 0, wit_value = replicate 64 2\<rparr>]\<rparr>"

definition pay_state :: "nat exec_state" where
  "pay_state = \<lparr>ctx = transaction_context_new pay_tx 9 3 None, active_runtimes = []\<rparr>"

definition pay_kinds :: "Address \<Rightarrow> bool option" where
  "pay_kinds = [5 \<mapsto> False, 7 \<mapsto> True]"

lemma pay_state_simps [simp]:
  "frames pay_state = []" "budget pay_state = 1000000" "block_of pay_state = 3" "body_of_tx pay_state = pay_tx" "ret_of pay_state = []"
  "view env pay_state k = proxy_applicator_new (env_ledger env k)" "storage_proxy (ctx pay_state) = storage_proxy_new"
  by (simp_all add: pay_state_def frames_def budget_def block_of_def body_of_tx_def ret_of_def view_fresh transaction_context_new_def pay_tx_def rich_tx_def)

lemma proxy_get_new [simp]: "proxy_get (proxy_applicator_new x) = x"
  by (simp add: proxy_get_def proxy_applicator_new_def)

lemma pay_env_simps [simp]:
  "env_ledger pay_env = pay_ledger" "hash_opaque pay_env = toy_hash" "hash_tx pay_env = (\<lambda>_. 0)"
  "check_sig_ed25519 pay_env pk sig msg \<longleftrightarrow> pk = replicate 32 1 \<and> sig = replicate 64 2"
  by (simp_all add: pay_env_def sample_env_def)

lemma pay_keys:
  "balance_key pay_env 7 5 = address_and_key 7 37" "balance_key pay_env 7 2 = address_and_key 7 34" "allowance_key pay_env 7 5 5 = address_and_key 7 69"
  by (simp_all add: balance_key_def allowance_key_def)

lemma pay_ledger_simps:
  "pay_ledger (address_and_key 5 pk_storage_key) = Some \<lparr>body = raw_memory_storage (replicate 32 1), escrowed_fee = 0\<rparr>"
  "pay_ledger (address_and_key 5 token_addr) = Some \<lparr>body = raw_memory_storage (be_bytes 32 (7 :: Address)), escrowed_fee = 0\<rparr>"
  "pay_ledger (replay_key 5) = None" "pay_ledger (address_and_key 7 37) = Some \<lparr>body = nonnegative_int64 100, escrowed_fee = 0\<rparr>"
  "pay_ledger (address_and_key 7 34) = None" "pay_ledger (address_and_key 7 69) = Some \<lparr>body = nonnegative_int64 50, escrowed_fee = 0\<rparr>"
  by (simp_all add: pay_ledger_def replay_key_def pk_storage_key_def token_addr_def replay_cache_storage_key_def make_static_key_inject)

lemma room_new: "replay_room e (proxy_applicator_new None)"
  by (simp add: replay_room_def proxy_applicator_new_def current_hash_set_def prev_hash_set_def START_HASH_SET_SIZE_def)

lemma pay_ready: "payment_ready pay_env pay_kinds 5 7 2 30 8 pay_state"
  unfolding payment_ready_def keys_apart_def pay_keys
  by (simp add: pay_ledger_simps room_new pay_kinds_def pay_tx_def)


theorem payment_authorised_witness:
  "\<exists>st'. call_contract 2 (payment_system pay_env (\<lambda>n. replicate n 0) pay_kinds)
       \<lparr>mi_addr = 5, method_name = 1, calldata = calldata_transfer 2 30 0 8\<rparr> pay_state = Ret ((), st') \<and>
     HashSetEntry 0 8 \<in> set (pa_new_hashes (view pay_env st' (replay_key 5))) \<and>
     registered_key pay_env (\<lambda>n. replicate n 0) 5 pay_state \<noteq> None"
proof -
  let ?junk = "\<lambda>n. replicate n 0"
  from payment_run[OF pay_ready, of ?junk 0 0] obtain st' where
    run: "call_contract (Suc 1) (payment_system pay_env ?junk pay_kinds)
       \<lparr>mi_addr = 5, method_name = 1, calldata = calldata_transfer 2 30 0 8\<rparr> pay_state = Ret ((), st')" by auto
  with payment_authorised[where kinds = pay_kinds and self = 5 and junk = ?junk, OF _ _ run] show ?thesis
    by (auto simp: pay_kinds_def replay_ok_new pay_ledger_simps numeral_2_eq_2)
qed

lemma recorded_new:
  "get_deltas (recorded 3 (HashSetEntry 0 8) (proxy_applicator_new None)) = [HASH_SET_INSERT (HashSetEntry 0 8), HASH_SET_CLEAR 3]"
  "pa_new_hashes (recorded 3 (HashSetEntry 0 8) (proxy_applicator_new None)) = [HashSetEntry 0 8]"
  by (simp_all add: recorded_def try_apply_def delta_apply_type_guard.simps make_current_def set_body_def proxy_applicator_new_def current_hash_set_def
      prev_hash_set_def START_HASH_SET_SIZE_def get_deltas_def make_delta_defs make_hash_set_insert_entry_def Let_def)

lemma pay_reach:
  "\<exists>ro ro'. ro_reach sh RevertableObject_new {#} (mset [HASH_SET_INSERT (HashSetEntry 0 8), HASH_SET_CLEAR 3]) ro \<and> commit_round ro = Ret ro'"
proof -
  let ?i = "HASH_SET_INSERT (HashSetEntry 0 8)"
  have cb: "committed_base RevertableObject_new = None" by (simp add: RevertableObject_new_def)
  have hs: "prev_hash_set None = \<lparr>hashes = [], max_size = 64\<rparr>" by (simp add: prev_hash_set_def START_HASH_SET_SIZE_def)
  have free: "Free \<in> set (array (new_hashes RevertableObject_new))"
    by (simp add: RevertableObject_new_def atomic_set_new_def START_HASH_SET_SIZE_def with_extra_buffer_def f32_round_def f32_exp.simps Let_def)
  have "\<exists>ro. ro_reach sh RevertableObject_new {#} (add_mset ?i {#}) ro"
    by (rule reach_add_then_commit[OF round_inv_new ro_reach.reach_start]) (simp_all add: cb hs free admits_def class_admitted_def same_class_def)
  then obtain ro1 where r: "ro_reach sh RevertableObject_new {#} (add_mset ?i {#}) ro1" ..
  have "\<exists>ro. ro_reach sh RevertableObject_new {#} (add_mset (HASH_SET_CLEAR 3) (add_mset ?i {#})) ro"
    by (rule reach_add_then_commit[OF round_inv_new r]) (simp_all add: cb hs admits_def class_admitted_def same_class_def)
  then obtain ro where r: "ro_reach sh RevertableObject_new {#} (mset [?i, HASH_SET_CLEAR 3]) ro" by (auto simp: add_mset_commute)
  have "round_inv sh {#} (mset [?i, HASH_SET_CLEAR 3]) ro" "committed_base ro = None" using ro_reach_inv[OF r round_inv_new] cb by auto
  from commit_round_spec[OF this(1)] this(2) r show ?thesis by (auto simp: storable_def)
qed

theorem payments_not_replayed_witness:
  "\<exists>ro. replay_chain (\<lambda>_. 0) pay_env (\<lambda>n. replicate n 0) pay_kinds 5 4 [HashSetEntry 0 8] ro \<and>
     HashSetEntry 0 8 \<in> set (hashes (prev_hash_set (get_committed_object ro)))"
proof -
  let ?junk = "\<lambda>n. replicate n 0" and ?env = "pay_env\<lparr>env_ledger := pay_ledger\<rparr>"
  have env: "?env = pay_env" by (simp add: pay_env_def)
  from payment_run[OF pay_ready, of ?junk 0 0] obtain st' where
    run: "call_contract (Suc (Suc 0)) (payment_system pay_env ?junk pay_kinds)
       \<lparr>mi_addr = 5, method_name = 1, calldata = calldata_transfer 2 30 0 8\<rparr> pay_state = Ret ((), st')"
    and v: "view pay_env st' (replay_key 5) = recorded 3 (HashSetEntry 0 8) (proxy_applicator_new None)"
    by (auto simp: replay_key_def balance_key_def allowance_key_def pay_ledger_simps[unfolded replay_key_def])
  have t: "tx_ran ?env ?junk pay_kinds 3 st'" unfolding env tx_ran_def using run by (intro exI[of _ "Suc (Suc 0)"] exI conjI) auto
  obtain ro ro' where r: "ro_reach (\<lambda>_. 0) RevertableObject_new {#} (mset [HASH_SET_INSERT (HashSetEntry 0 8), HASH_SET_CLEAR 3]) ro"
    "commit_round ro = Ret ro'" using pay_reach by blast
  have "replay_chain (\<lambda>_. 0) pay_env ?junk pay_kinds 5 4
      ([] @ concat (map (\<lambda>st. pa_new_hashes (view ?env st (replay_key 5))) [st'])) ro'"
    by (rule chain_block[OF chain_start[where n = 3] _ _ refl _ _ r(2)])
      (use t r(1) in \<open>auto simp: env v recorded_new pay_ledger_simps RevertableObject_new_def\<close>)
  then have c: "replay_chain (\<lambda>_. 0) pay_env ?junk pay_kinds 5 4 [HashSetEntry 0 8] ro'" by (simp add: env v recorded_new)
  with payments_not_replayed[OF c] show ?thesis by (auto simp: pay_kinds_def)
qed

end
