(* ===== verification/SwapContracts.thy ===== *)
theory SwapContracts
  imports PaymentContract
begin

text \<open>
  Two contracts that hold tokens for two parties: the atomic swap (\<open>cpp_contracts/atomic_swap.cc\<close>) and the payment channel
  (\<open>cpp_contracts/payment_channel.cc\<close>). Their configuration is a structure in raw memory, a \<open>record\<close> here with the layout of the
  compiler; the four bytes of padding in the state of a channel are kept.
\<close>

section \<open>Fields of structures\<close>

definition u32_at :: "nat \<Rightarrow> byte list \<Rightarrow> uint32" where
  "u32_at off bs = le_word (take 4 (drop off bs))"

definition bytes_at :: "nat \<Rightarrow> nat \<Rightarrow> byte list \<Rightarrow> byte list" where
  "bytes_at off len bs = take len (drop off bs)"

section \<open>Atomic swap\<close>

record atomic_swap_config =
  source_addr :: Address
  recipient_addr :: Address
  swap_token :: Address
  swap_amount :: int64
  commitment :: Hash
  expiry_time :: uint64

definition swap_config_bytes :: "atomic_swap_config \<Rightarrow> byte list" where
  "swap_config_bytes c = be_bytes 32 (source_addr c) @ be_bytes 32 (recipient_addr c) @ be_bytes 32 (swap_token c) @
     le_bytes 8 (swap_amount c) @ be_bytes 32 (commitment c) @ le_bytes 8 (expiry_time c)"

definition swap_config_of :: "byte list \<Rightarrow> atomic_swap_config" where
  "swap_config_of bs = \<lparr>source_addr = addr_at 0 bs, recipient_addr = addr_at 32 bs, swap_token = addr_at 64 bs,
     swap_amount = i64_at 96 bs, commitment = addr_at 104 bs, expiry_time = u64_at 136 bs\<rparr>"

definition swap_config_addr :: InvariantKey where "swap_config_addr = make_static_key 0 2 0 0"
definition closed_key :: InvariantKey where "closed_key = make_static_key 1 2 0 0"
definition swap_initialized_key :: InvariantKey where "swap_initialized_key = make_static_key 2 2 0 0"

definition load_config :: "('t, 'r) exec_env \<Rightarrow> (nat \<Rightarrow> byte list) \<Rightarrow> ('r, atomic_swap_config) exec" where
  "load_config env junk = sbind (sdk_get_raw_memory env junk swap_config_addr 144) (\<lambda>bs. sret (swap_config_of bs))"

definition write_config :: "('t, 'r) exec_env \<Rightarrow> atomic_swap_config \<Rightarrow> ('r, unit) exec" where
  "write_config env config = sdk_set_raw_memory env swap_config_addr (swap_config_bytes config)"

definition reveal_preimage :: "('t, 'r) exec_env \<Rightarrow> Hash \<Rightarrow> atomic_swap_config \<Rightarrow> ('r, unit) exec" where
  "reveal_preimage env preimage config =
     sbind (sdk_hash env (be_bytes 32 preimage)) (\<lambda>h.
       if h \<noteq> commitment config then sabort else sdk_log (be_bytes 32 preimage))"

definition claim_swap :: "('t, 'r) exec_env \<Rightarrow> (nat \<Rightarrow> byte list) \<Rightarrow> (MethodInvocation \<Rightarrow> ('r, unit) exec) \<Rightarrow> Hash \<Rightarrow> ('r, unit) exec" where
  "claim_swap env junk invoke preimage =
     sbind (load_config env junk) (\<lambda>config.
     sbind (reveal_preimage env preimage config) (\<lambda>_.
     sbind sdk_get_self (\<lambda>self.
     sbind (Ierc20_transferFrom invoke (swap_token config) self (recipient_addr config) (swap_amount config)) (\<lambda>_.
       flag_acquire env 1 closed_key))))"

definition swap_initialize :: "('t, 'r) exec_env \<Rightarrow> (nat \<Rightarrow> byte list) \<Rightarrow> ('r, unit) exec" where
  "swap_initialize env junk =
     sbind (sdk_get_calldata junk 144) (\<lambda>c.
     sbind (write_config env (swap_config_of c)) (\<lambda>_. flag_acquire env 1 swap_initialized_key))"

definition claim_preimage :: "('t, 'r) exec_env \<Rightarrow> (nat \<Rightarrow> byte list) \<Rightarrow> (MethodInvocation \<Rightarrow> ('r, unit) exec) \<Rightarrow> ('r, unit) exec" where
  "claim_preimage env junk invoke = sbind (sdk_get_calldata junk 32) (\<lambda>c. claim_swap env junk invoke (addr_at 0 c))"

definition reclaim_expired :: "('t, 'r) exec_env \<Rightarrow> (nat \<Rightarrow> byte list) \<Rightarrow> (MethodInvocation \<Rightarrow> ('r, unit) exec) \<Rightarrow> ('r, unit) exec" where
  "reclaim_expired env junk invoke =
     sbind (load_config env junk) (\<lambda>config.
     sbind sdk_get_block_number (\<lambda>n.
       if expiry_time config < n then sabort
       else sbind sdk_get_self (\<lambda>self.
            sbind (Ierc20_transferFrom invoke (swap_token config) self (source_addr config) (swap_amount config)) (\<lambda>_.
              flag_acquire env 1 closed_key))))"

definition atomic_swap_code :: "('t, 'r) exec_env \<Rightarrow> (nat \<Rightarrow> byte list) \<Rightarrow> 'r code" where
  "atomic_swap_code env junk invoke m =
     (if m = 0 then swap_initialize env junk
      else if m = 1 then claim_preimage env junk invoke
      else if m = 2 then reclaim_expired env junk invoke
      else no_method)"

section \<open>Payment channel\<close>

text \<open>A \<open>ChannelState\<close> is an enumeration over 32 bits; a stored value is read back as it is.\<close>

type_synonym ChannelState = uint32

definition OPEN :: ChannelState where "OPEN = 0"
definition CLOSING_BY_ALICE :: ChannelState where "CLOSING_BY_ALICE = 1"
definition CLOSING_BY_BOB :: ChannelState where "CLOSING_BY_BOB = 2"
definition CLOSED :: ChannelState where "CLOSED = 3"

lemmas channel_states = OPEN_def CLOSING_BY_ALICE_def CLOSING_BY_BOB_def CLOSED_def

record closing_params =
  seqno :: uint64
  payment_to_alice :: int64
  payment_to_bob :: int64

record channel_closing_status =
  close_challenge_maxtime :: uint64
  ch_state :: ChannelState
  ch_padding :: "byte list"
  params :: closing_params

record channel_config =
  keyAlice :: "byte list"
  keyBob :: "byte list"
  addrAlice :: Address
  addrBob :: Address
  ch_token :: Address
  status :: channel_closing_status

definition closing_params_bytes :: "closing_params \<Rightarrow> byte list" where
  "closing_params_bytes p = le_bytes 8 (seqno p) @ le_bytes 8 (payment_to_alice p) @ le_bytes 8 (payment_to_bob p)"

definition closing_params_of :: "byte list \<Rightarrow> closing_params" where
  "closing_params_of bs = \<lparr>seqno = u64_at 0 bs, payment_to_alice = i64_at 8 bs, payment_to_bob = i64_at 16 bs\<rparr>"

definition channel_config_bytes :: "channel_config \<Rightarrow> byte list" where
  "channel_config_bytes c = keyAlice c @ keyBob c @ be_bytes 32 (addrAlice c) @ be_bytes 32 (addrBob c) @ be_bytes 32 (ch_token c) @
     le_bytes 8 (close_challenge_maxtime (status c)) @ le_bytes 4 (ch_state (status c)) @ ch_padding (status c) @
     closing_params_bytes (params (status c))"

definition channel_config_of :: "byte list \<Rightarrow> channel_config" where
  "channel_config_of bs = \<lparr>keyAlice = bytes_at 0 32 bs, keyBob = bytes_at 32 32 bs, addrAlice = addr_at 64 bs, addrBob = addr_at 96 bs,
     ch_token = addr_at 128 bs, status = \<lparr>close_challenge_maxtime = u64_at 160 bs, ch_state = u32_at 168 bs, ch_padding = bytes_at 172 4 bs,
     params = closing_params_of (drop 176 bs)\<rparr>\<rparr>"

definition channel_config_addr :: InvariantKey where "channel_config_addr = make_static_key 0 2 0 0"
definition alice_claimed_key :: InvariantKey where "alice_claimed_key = make_static_key 1 2 0 0"
definition bob_claimed_key :: InvariantKey where "bob_claimed_key = make_static_key 2 2 0 0"
definition channel_initialized_key :: InvariantKey where "channel_initialized_key = make_static_key 3 2 0 0"

definition load_channel_config :: "('t, 'r) exec_env \<Rightarrow> (nat \<Rightarrow> byte list) \<Rightarrow> ('r, channel_config) exec" where
  "load_channel_config env junk = sbind (sdk_get_raw_memory env junk channel_config_addr 200) (\<lambda>bs. sret (channel_config_of bs))"

definition write_channel_config :: "('t, 'r) exec_env \<Rightarrow> channel_config \<Rightarrow> ('r, unit) exec" where
  "write_channel_config env config = sdk_set_raw_memory env channel_config_addr (channel_config_bytes config)"

text \<open>\<open>if (!check_sig_ed25519(...)) abort();\<close>\<close>

definition require_sig :: "('t, 'r) exec_env \<Rightarrow> byte list \<Rightarrow> byte list \<Rightarrow> byte list \<Rightarrow> ('r, unit) exec" where
  "require_sig env pk sig msg = sbind (sdk_check_sig_ed25519 env pk sig msg) (\<lambda>ok. if \<not> ok then sabort else sret ())"

definition mutual_closing :: "('t, 'r) exec_env \<Rightarrow> (nat \<Rightarrow> byte list) \<Rightarrow> (MethodInvocation \<Rightarrow> ('r, unit) exec) \<Rightarrow>
    byte list \<Rightarrow> byte list \<Rightarrow> int64 \<Rightarrow> int64 \<Rightarrow> ('r, unit) exec" where
  "mutual_closing env junk invoke sigAlice sigBob pay_alice pay_bob =
     sbind (sdk_get_invoked_hash env) (\<lambda>tx_hash.
     sbind (load_channel_config env junk) (\<lambda>config.
     sbind (require_sig env (keyAlice config) sigAlice (be_bytes 32 tx_hash)) (\<lambda>_.
     sbind (require_sig env (keyBob config) sigBob (be_bytes 32 tx_hash)) (\<lambda>_.
     sbind sdk_get_self (\<lambda>self1.
     sbind (Ierc20_transferFrom invoke (ch_token config) self1 (addrAlice config) pay_alice) (\<lambda>_.
     sbind sdk_get_self (\<lambda>self2.
       Ierc20_transferFrom invoke (ch_token config) self2 (addrBob config) pay_bob)))))))"

definition require_state :: "ChannelState \<Rightarrow> channel_config \<Rightarrow> ('r, unit) exec" where
  "require_state s config = (if s \<noteq> ch_state (status config) then sabort else sret ())"

definition start_closing :: "('t, 'r) exec_env \<Rightarrow> ChannelState \<Rightarrow> closing_params \<Rightarrow> channel_config \<Rightarrow> ('r, unit) exec" where
  "start_closing env s p config =
     sbind (require_state OPEN config) (\<lambda>_.
     sbind sdk_get_block_number (\<lambda>n.
       write_channel_config env (config\<lparr>status := (status config)\<lparr>params := p, ch_state := s, close_challenge_maxtime := n + 1000\<rparr>\<rparr>)))"

definition alice_init_close :: "('t, 'r) exec_env \<Rightarrow> (nat \<Rightarrow> byte list) \<Rightarrow> byte list \<Rightarrow> byte list \<Rightarrow> closing_params \<Rightarrow> ('r, unit) exec" where
  "alice_init_close env junk alice_sig_on_tx bob_sig_on_closing_params p =
     sbind (load_channel_config env junk) (\<lambda>config.
     sbind (sdk_get_invoked_hash env) (\<lambda>h.
     sbind (require_sig env (keyAlice config) alice_sig_on_tx (be_bytes 32 h)) (\<lambda>_.
     sbind (require_sig env (keyBob config) bob_sig_on_closing_params (closing_params_bytes p)) (\<lambda>_.
       start_closing env CLOSING_BY_ALICE p config))))"

definition bob_init_close :: "('t, 'r) exec_env \<Rightarrow> (nat \<Rightarrow> byte list) \<Rightarrow> byte list \<Rightarrow> byte list \<Rightarrow> closing_params \<Rightarrow> ('r, unit) exec" where
  "bob_init_close env junk alice_sig_on_closing_params bob_sig_on_tx p =
     sbind (load_channel_config env junk) (\<lambda>config.
     sbind (sdk_get_invoked_hash env) (\<lambda>h.
     sbind (require_sig env (keyBob config) bob_sig_on_tx (be_bytes 32 h)) (\<lambda>_.
     sbind (require_sig env (keyAlice config) alice_sig_on_closing_params (closing_params_bytes p)) (\<lambda>_.
       start_closing env CLOSING_BY_BOB p config))))"

text \<open>The configuration is passed by reference: the updated one is returned.\<close>

definition finish_closing :: "('t, 'r) exec_env \<Rightarrow> channel_config \<Rightarrow> ('r, channel_config) exec" where
  "finish_closing env config =
     (if ch_state (status config) = CLOSED then sret config
      else if ch_state (status config) = OPEN then sabort
      else sbind sdk_get_block_number (\<lambda>n.
           if n < close_challenge_maxtime (status config) then sabort
           else let config' = config\<lparr>status := (status config)\<lparr>ch_state := CLOSED\<rparr>\<rparr>
                in sbind (write_channel_config env config') (\<lambda>_. sret config')))"

definition alice_claim_closed :: "('t, 'r) exec_env \<Rightarrow> (nat \<Rightarrow> byte list) \<Rightarrow> (MethodInvocation \<Rightarrow> ('r, unit) exec) \<Rightarrow> ('r, unit) exec" where
  "alice_claim_closed env junk invoke =
     sbind (load_channel_config env junk) (\<lambda>config0.
     sbind (finish_closing env config0) (\<lambda>config.
     sbind (flag_acquire env 1 alice_claimed_key) (\<lambda>_.
     sbind sdk_get_self (\<lambda>self.
       Ierc20_transferFrom invoke (ch_token config) self (addrAlice config) (payment_to_alice (params (status config)))))))"

definition bob_claim_closed :: "('t, 'r) exec_env \<Rightarrow> (nat \<Rightarrow> byte list) \<Rightarrow> (MethodInvocation \<Rightarrow> ('r, unit) exec) \<Rightarrow> ('r, unit) exec" where
  "bob_claim_closed env junk invoke =
     sbind (load_channel_config env junk) (\<lambda>config0.
     sbind (finish_closing env config0) (\<lambda>config.
     sbind (flag_acquire env 1 bob_claimed_key) (\<lambda>_.
     sbind sdk_get_self (\<lambda>self.
       Ierc20_transferFrom invoke (ch_token config) self (addrBob config) (payment_to_bob (params (status config)))))))"

text \<open>The sum of the two payments is computed in 64 bits, where WebAssembly wraps.\<close>

definition bob_challenge_close :: "('t, 'r) exec_env \<Rightarrow> (nat \<Rightarrow> byte list) \<Rightarrow> (MethodInvocation \<Rightarrow> ('r, unit) exec) \<Rightarrow>
    byte list \<Rightarrow> byte list \<Rightarrow> closing_params \<Rightarrow> ('r, unit) exec" where
  "bob_challenge_close env junk invoke alice_sig bob_sig p =
     sbind (load_channel_config env junk) (\<lambda>config.
     sbind (require_sig env (keyBob config) bob_sig (closing_params_bytes p)) (\<lambda>_.
     sbind (require_sig env (keyAlice config) alice_sig (closing_params_bytes p)) (\<lambda>_.
     sbind (require_state CLOSING_BY_ALICE config) (\<lambda>_.
       if seqno (params (status config)) < seqno p
       then sbind sdk_get_self (\<lambda>self.
            Ierc20_transferFrom invoke (ch_token config) self (addrBob config) (payment_to_alice p + payment_to_bob p))
       else sabort))))"

definition alice_challenge_close :: "('t, 'r) exec_env \<Rightarrow> (nat \<Rightarrow> byte list) \<Rightarrow> (MethodInvocation \<Rightarrow> ('r, unit) exec) \<Rightarrow>
    byte list \<Rightarrow> byte list \<Rightarrow> closing_params \<Rightarrow> ('r, unit) exec" where
  "alice_challenge_close env junk invoke alice_sig bob_sig p =
     sbind (load_channel_config env junk) (\<lambda>config.
     sbind (require_sig env (keyBob config) bob_sig (closing_params_bytes p)) (\<lambda>_.
     sbind (require_sig env (keyAlice config) alice_sig (closing_params_bytes p)) (\<lambda>_.
     sbind (require_state CLOSING_BY_BOB config) (\<lambda>_.
       if seqno (params (status config)) < seqno p
       then sbind sdk_get_self (\<lambda>self.
            Ierc20_transferFrom invoke (ch_token config) self (addrAlice config) (payment_to_alice p + payment_to_bob p))
       else sabort))))"

definition channel_initialize :: "('t, 'r) exec_env \<Rightarrow> (nat \<Rightarrow> byte list) \<Rightarrow> (MethodInvocation \<Rightarrow> ('r, unit) exec) \<Rightarrow> ('r, unit) exec" where
  "channel_initialize env junk invoke =
     sbind (sdk_get_calldata junk 176) (\<lambda>c.
     sbind (flag_acquire env 1 channel_initialized_key) (\<lambda>_.
     sbind (write_channel_config env
       \<lparr>keyAlice = bytes_at 0 32 c, keyBob = bytes_at 32 32 c, addrAlice = addr_at 64 c, addrBob = addr_at 96 c, ch_token = addr_at 128 c,
        status = \<lparr>close_challenge_maxtime = 0, ch_state = OPEN, ch_padding = junk 4,
          params = \<lparr>seqno = 0, payment_to_alice = 0, payment_to_bob = 0\<rparr>\<rparr>\<rparr>) (\<lambda>_.
     sbind sdk_get_self (\<lambda>self1.
     sbind (Ierc20_transferFrom invoke (addr_at 128 c) (addr_at 64 c) self1 (i64_at 160 c)) (\<lambda>_.
     sbind sdk_get_self (\<lambda>self2.
       Ierc20_transferFrom invoke (addr_at 128 c) (addr_at 96 c) self2 (i64_at 168 c)))))))"

definition pub_mutual_close :: "('t, 'r) exec_env \<Rightarrow> (nat \<Rightarrow> byte list) \<Rightarrow> (MethodInvocation \<Rightarrow> ('r, unit) exec) \<Rightarrow> ('r, unit) exec" where
  "pub_mutual_close env junk invoke =
     sbind (sdk_get_calldata junk 16) (\<lambda>c.
     sbind (sdk_get_witness junk 1 64) (\<lambda>aliceSig.
     sbind (sdk_get_witness junk 2 64) (\<lambda>bobSig.
       mutual_closing env junk invoke aliceSig bobSig (i64_at 0 c) (i64_at 8 c))))"

definition with_calldata_closing :: "(nat \<Rightarrow> byte list) \<Rightarrow> (byte list \<Rightarrow> byte list \<Rightarrow> closing_params \<Rightarrow> ('r, unit) exec) \<Rightarrow> ('r, unit) exec" where
  "with_calldata_closing junk f =
     sbind (sdk_get_calldata junk 152) (\<lambda>c. f (bytes_at 24 64 c) (bytes_at 88 64 c) (closing_params_of c))"

definition payment_channel_code :: "('t, 'r) exec_env \<Rightarrow> (nat \<Rightarrow> byte list) \<Rightarrow> 'r code" where
  "payment_channel_code env junk invoke m =
     (if m = 0 then channel_initialize env junk invoke
      else if m = 1 then pub_mutual_close env junk invoke
      else if m = 2 then with_calldata_closing junk (alice_init_close env junk)
      else if m = 3 then with_calldata_closing junk (bob_init_close env junk)
      else if m = 4 then with_calldata_closing junk (alice_challenge_close env junk invoke)
      else if m = 5 then with_calldata_closing junk (bob_challenge_close env junk invoke)
      else if m = 6 then alice_claim_closed env junk invoke
      else if m = 7 then bob_claim_closed env junk invoke
      else no_method)"

section \<open>Structures survive storage\<close>

lemma struct_fields [simp]:
  "addr_at (32 + n) (be_bytes 32 (a :: Address) @ bs) = addr_at n bs" "addr_at 0 (be_bytes 32 (a :: Address) @ bs) = a"
  "i64_at 0 (le_bytes 8 x @ bs) = x" "u64_at 0 (le_bytes 8 x @ bs) = x" "u32_at 0 (le_bytes 4 w @ bs) = w"
  by (simp_all add: addr_at_def i64_at_def u64_at_def u32_at_def drop_append)

lemma swap_config_roundtrip [simp]: "swap_config_of (swap_config_bytes c) = c" "length (swap_config_bytes c) = 144"
  by (simp_all add: swap_config_of_def swap_config_bytes_def addr_at_def i64_at_def u64_at_def drop_append)

lemma closing_params_roundtrip [simp]:
  "closing_params_of (closing_params_bytes p) = p" "length (closing_params_bytes p) = 24"
  by (simp_all add: closing_params_of_def closing_params_bytes_def i64_at_def u64_at_def drop_append)

definition channel_wf :: "channel_config \<Rightarrow> bool" where
  "channel_wf c \<longleftrightarrow> length (keyAlice c) = 32 \<and> length (keyBob c) = 32 \<and> length (ch_padding (status c)) = 4"

lemma channel_config_roundtrip [simp]:
  assumes "channel_wf c"
  shows "channel_config_of (channel_config_bytes c) = c" "length (channel_config_bytes c) = 200"
proof -
  have "drop 176 (channel_config_bytes c) = closing_params_bytes (params (status c))"
    using assms by (simp add: channel_config_bytes_def channel_wf_def drop_append)
  then show "channel_config_of (channel_config_bytes c) = c" using assms
    by (simp add: channel_config_of_def) (simp add: channel_config_bytes_def channel_wf_def bytes_at_def addr_at_def u64_at_def u32_at_def drop_append)
  show "length (channel_config_bytes c) = 200" using assms by (simp add: channel_config_bytes_def channel_wf_def)
qed

lemma channel_bytes_inject: "channel_wf c \<Longrightarrow> channel_wf c' \<Longrightarrow> channel_config_bytes c = channel_config_bytes c' \<Longrightarrow> c = c'"
  by (metis channel_config_roundtrip(1))

text \<open>A structure in the raw memory behind a key, as the transaction sees it.\<close>

definition stored :: "('t, 'r) exec_env \<Rightarrow> AddressAndKey \<Rightarrow> byte list \<Rightarrow> 'r exec_state \<Rightarrow> bool" where
  "stored env k bs st \<longleftrightarrow> map_option body (proxy_get (view env st k)) = Some (raw_memory_storage bs)"

lemma stored_simps [simp]:
  "stored env k bs (spend g st) = stored env k bs st" "stored env k bs (touch env k' st) = stored env k bs st"
  by (simp_all add: stored_def)

lemma get_raw_memory_stored:
  assumes "sdk_get_raw_memory env junk key sz st = Ret (x, st')" "stored env (okey st key) bs st" "length bs = sz" "sz < 2 ^ 31" "length (junk sz) = sz"
  shows "x = bs \<and> (\<exists>g. st' = touch env (okey st key) (spend g st))"
proof -
  have "unat (of_nat sz :: uint32) = sz" using assms(4) by (simp add: unat_of_nat take_bit_nat_eq_self)
  then show ?thesis using assms
    by (auto simp: sdk_get_raw_memory_def raw_memory_read_def stored_def returns overlay_def split: option.splits)
qed

lemma raw_write_applied:
  assumes "try_apply (RAW_MEMORY_WRITE bs) p = Ret (True, v)"
  shows "map_option body (proxy_get v) = Some (raw_memory_storage bs)"
  using assms by (auto simp: try_apply_def outcome_simps make_current_def set_body_def proxy_get_def split: if_splits option.splits)

lemma set_raw_memory_stored:
  assumes "sdk_set_raw_memory env key bs st = Ret (x, st')"
  shows "stored env (okey st key) bs st' \<and> frames st' = frames st \<and> block_of st' = block_of st \<and> body_of_tx st' = body_of_tx st \<and>
     (\<forall>k. k \<noteq> okey st key \<longrightarrow> view env st' k = view env st k)"
  using assms raw_write_applied
  by (auto simp: sdk_set_raw_memory_def raw_memory_write_def[abs_def] make_delta_defs returns stored_def Let_def split: if_splits)

section \<open>Swaps\<close>

lemma load_config_stored:
  assumes "load_config env junk st = Ret (x, st')" "stored env (okey st swap_config_addr) (swap_config_bytes c) st" "\<forall>n. length (junk n) = n"
  shows "x = c \<and> (\<exists>g. st' = touch env (okey st swap_config_addr) (spend g st))"
  using assms get_raw_memory_stored[of env junk swap_config_addr 144 st] by (fastforce simp: load_config_def returns)

text \<open>
  What a swap checks before its tokens leave: a claim that returns has revealed a preimage of the commitment, and a
  reclaim that returns ran no later than the block of the expiry time (the comparison of the source: the refund is open until the
  deadline, not after it).
\<close>

theorem swap_release_conditions:
  assumes cfg: "stored env (okey st swap_config_addr) (swap_config_bytes c) st" and jk: "\<forall>n. length (junk n) = n"
  shows "(claim_swap env junk invoke preimage st = Ret (x, st') \<longrightarrow> hash_opaque env (be_bytes 32 preimage) = commitment c) \<and>
     (reclaim_expired env junk invoke st = Ret (x, st') \<longrightarrow> block_of st \<le> expiry_time c)"
proof -
  have "hash_opaque env (be_bytes 32 preimage) = commitment c" if r: "claim_swap env junk invoke preimage st = Ret (x, st')"
  proof -
    from r obtain c' s1 s2 where "load_config env junk st = Ret (c', s1)" "reveal_preimage env preimage c' s1 = Ret ((), s2)"
      by (auto simp: claim_swap_def returns)
    with load_config_stored[OF _ cfg jk] show ?thesis by (auto simp: reveal_preimage_def sdk_hash_def returns split: if_splits)
  qed
  moreover have "block_of st \<le> expiry_time c" if r: "reclaim_expired env junk invoke st = Ret (x, st')"
  proof -
    from r obtain c' s1 where "load_config env junk st = Ret (c', s1)" "\<not> expiry_time c' < block_of s1"
      by (auto simp: reclaim_expired_def returns split: if_splits)
    with load_config_stored[OF _ cfg jk] show ?thesis by auto
  qed
  ultimately show ?thesis by blast
qed

section \<open>Channels\<close>

lemma load_channel_stored:
  assumes "load_channel_config env junk st = Ret (x, st')" "stored env (okey st channel_config_addr) (channel_config_bytes c) st" "channel_wf c"
    "\<forall>n. length (junk n) = n"
  shows "x = c \<and> (\<exists>g. st' = touch env (okey st channel_config_addr) (spend g st))"
  using assms get_raw_memory_stored[of env junk channel_config_addr 200 st] by (fastforce simp: load_channel_config_def returns)

lemma require_sig_Ret: "require_sig env pk sig msg st = Ret (x, st') \<Longrightarrow> check_sig_ed25519 env pk sig msg \<and> (\<exists>g. st' = spend g st)"
  by (auto simp: require_sig_def sdk_check_sig_ed25519_def returns split: if_splits)

text \<open>The configuration after the closing has begun in block \<open>n\<close>.\<close>

definition closing_begun :: "ChannelState \<Rightarrow> closing_params \<Rightarrow> uint64 \<Rightarrow> channel_config \<Rightarrow> channel_config" where
  "closing_begun s p n c = c\<lparr>status := (status c)\<lparr>params := p, ch_state := s, close_challenge_maxtime := n + 1000\<rparr>\<rparr>"

definition closing_finished :: "channel_config \<Rightarrow> channel_config" where
  "closing_finished c = c\<lparr>status := (status c)\<lparr>ch_state := CLOSED\<rparr>\<rparr>"

lemma closing_wf [simp]: "channel_wf (closing_begun s p n c) = channel_wf c" "channel_wf (closing_finished c) = channel_wf c"
  by (simp_all add: channel_wf_def closing_begun_def closing_finished_def)

lemma start_closing_Ret:
  assumes "start_closing env s p c st = Ret (x, st')"
  shows "ch_state (status c) = OPEN \<and> block_of st' = block_of st \<and> frames st' = frames st \<and>
     stored env (okey st channel_config_addr)
       (channel_config_bytes (closing_begun s p (block_of st) c)) st'"
  using assms set_raw_memory_stored[of env channel_config_addr _ "spend 10 st"]
  by (auto simp: closing_begun_def start_closing_def require_state_def write_channel_config_def returns split: if_splits)

lemma init_close_moves:
  assumes r: "sbind (load_channel_config env junk) (\<lambda>config. sbind (sdk_get_invoked_hash env) (\<lambda>h.
       sbind (require_sig env (ka config) sa (be_bytes 32 h)) (\<lambda>_. sbind (require_sig env (kb config) sb (closing_params_bytes p)) (\<lambda>_.
       start_closing env s p config)))) st = Ret (x, st')"
    and c: "stored env (okey st channel_config_addr) (channel_config_bytes c) st" "channel_wf c" and jk: "\<forall>n. length (junk n) = n"
  shows "check_sig_ed25519 env (ka c) sa (be_bytes 32 (hash_tx env (tx_body (body_of_tx st)))) \<and>
     check_sig_ed25519 env (kb c) sb (closing_params_bytes p) \<and>
     ch_state (status c) = OPEN \<and> stored env (okey st channel_config_addr) (channel_config_bytes (closing_begun s p (block_of st) c)) st'"
proof -
  from r obtain c0 t1 h t2 t3 t4 where "load_channel_config env junk st = Ret (c0, t1)" and h: "sdk_get_invoked_hash env t1 = Ret (h, t2)"
    "require_sig env (ka c0) sa (be_bytes 32 h) t2 = Ret ((), t3)" "require_sig env (kb c0) sb (closing_params_bytes p) t3 = Ret ((), t4)"
    and cl: "start_closing env s p c0 t4 = Ret (x, st')"
    by (auto simp: returns)
  with load_channel_stored[OF _ c jk] obtain g where t1: "c0 = c" "t1 = touch env (okey st channel_config_addr) (spend g st)" by blast
  have t2: "h = hash_tx env (tx_body (body_of_tx st))" "t2 = spend 50 t1" using h(1) by (auto simp: returns t1)
  from require_sig_Ret[OF h(2)] require_sig_Ret[OF h(3)] obtain g3 g4 where t: "t4 = spend g4 (spend g3 t2)" by auto
  have "block_of t4 = block_of st" "okey t4 = okey st" by (simp_all add: t t2(2) t1)
  with start_closing_Ret[OF cl] require_sig_Ret[OF h(2)] require_sig_Ret[OF h(3)] t2 show ?thesis
    by (auto simp: t1(1))
qed

lemmas alice_init_close_moves = init_close_moves[where ka = keyAlice and kb = keyBob and s = CLOSING_BY_ALICE, folded alice_init_close_def]
lemmas bob_init_close_moves = init_close_moves[where ka = keyBob and kb = keyAlice and s = CLOSING_BY_BOB, folded bob_init_close_def]

lemma finish_closing_moves:
  assumes r: "finish_closing env c st = Ret (c', st')" and c: "stored env (okey st channel_config_addr) (channel_config_bytes c) st"
  shows "ch_state (status c) \<noteq> OPEN \<and> c' = closing_finished c \<and>
     (ch_state (status c) = CLOSED \<or> close_challenge_maxtime (status c) \<le> block_of st) \<and>
     stored env (okey st channel_config_addr) (channel_config_bytes c') st'"
  using r c set_raw_memory_stored[of env channel_config_addr _ "spend 10 st"]
  by (auto simp: finish_closing_def closing_finished_def write_channel_config_def Let_def returns not_less channel_states split: if_splits)

text \<open>
  The life of a channel: its configuration changes by calls in blocks of increasing number, each made in a transaction that sees the
  configuration as the previous one left it. \<open>n\<close> is the block of the last change, \<open>b\<close> the block in which the closing began.
\<close>

inductive channel_history :: "('t, 'r) exec_env \<Rightarrow> (nat \<Rightarrow> byte list) \<Rightarrow> uint64 \<Rightarrow> uint64 option \<Rightarrow> channel_config \<Rightarrow> bool"
  for env junk where
  history_open: "channel_wf c \<Longrightarrow> ch_state (status c) = OPEN \<Longrightarrow> channel_history env junk n None c"
| history_close: "channel_history env junk n b c \<Longrightarrow> n \<le> block_of st \<Longrightarrow> E = env\<lparr>env_ledger := l\<rparr> \<Longrightarrow>
    stored E (okey st channel_config_addr) (channel_config_bytes c) st \<Longrightarrow>
    alice_init_close E junk sA sB p st = Ret ((), st') \<or> bob_init_close E junk sA sB p st = Ret ((), st') \<Longrightarrow>
    stored E (okey st channel_config_addr) (channel_config_bytes c') st' \<Longrightarrow> channel_wf c' \<Longrightarrow>
    channel_history env junk (block_of st) (Some (block_of st)) c'"
| history_finish: "channel_history env junk n b c \<Longrightarrow> n \<le> block_of st \<Longrightarrow> E = env\<lparr>env_ledger := l\<rparr> \<Longrightarrow>
    stored E (okey st channel_config_addr) (channel_config_bytes c) st \<Longrightarrow>
    finish_closing E c st = Ret (c', st') \<Longrightarrow> channel_history env junk (block_of st) b c'"

definition channel_inv :: "uint64 \<Rightarrow> uint64 option \<Rightarrow> channel_config \<Rightarrow> bool" where
  "channel_inv n b c \<longleftrightarrow> channel_wf c \<and>
     (case b of None \<Rightarrow> ch_state (status c) = OPEN
      | Some m \<Rightarrow> m \<le> n \<and> ch_state (status c) \<in> {CLOSING_BY_ALICE, CLOSING_BY_BOB, CLOSED} \<and> close_challenge_maxtime (status c) = m + 1000 \<and>
          (ch_state (status c) = CLOSED \<longrightarrow> m + 1000 \<le> n))"

lemma channel_history_inv:
  assumes "channel_history env junk n b c" "\<forall>n. length (junk n) = n"
  shows "channel_inv n b c"
  using assms(1)
proof (induction rule: channel_history.induct)
  case (history_open c n)
  then show ?case by (simp add: channel_inv_def)
next
  case (history_close n b c st E l sA sB p st' c')
  have wf: "channel_wf c" using history_close.IH by (simp add: channel_inv_def)
  have "\<exists>s. (s = CLOSING_BY_ALICE \<or> s = CLOSING_BY_BOB) \<and>
      stored E (okey st channel_config_addr) (channel_config_bytes (closing_begun s p (block_of st) c)) st'"
    using history_close.hyps(5)
  proof
    assume a: "alice_init_close E junk sA sB p st = Ret ((), st')"
    from alice_init_close_moves[OF a history_close.hyps(4) wf assms(2)] show ?thesis by (intro exI[of _ CLOSING_BY_ALICE]) simp
  next
    assume a: "bob_init_close E junk sA sB p st = Ret ((), st')"
    from bob_init_close_moves[OF a history_close.hyps(4) wf assms(2)] show ?thesis by (intro exI[of _ CLOSING_BY_BOB]) simp
  qed
  then obtain s where s: "s = CLOSING_BY_ALICE \<or> s = CLOSING_BY_BOB"
    "stored E (okey st channel_config_addr) (channel_config_bytes (closing_begun s p (block_of st) c)) st'" by blast
  then have "channel_config_bytes c' = channel_config_bytes (closing_begun s p (block_of st) c)"
    using history_close.hyps(6) by (auto simp: stored_def)
  then have "c' = closing_begun s p (block_of st) c"
    using channel_bytes_inject[OF history_close.hyps(7)] wf by simp
  then show ?case using wf s(1) by (auto simp: channel_inv_def, auto simp: closing_begun_def channel_states)
next
  case (history_finish n b c st E l c' st')
  from finish_closing_moves[OF history_finish.hyps(5,4)] history_finish.IH history_finish.hyps(2) show ?case
    by (auto simp: channel_inv_def closing_finished_def channel_wf_def split: option.splits)
qed


text \<open>
  A unique flag can be taken again in a later block: when the flag was taken and the block committed (the key holds 0), acquiring it
  succeeds, because the value is set to the count again before one is subtracted.
\<close>

theorem flag_reacquired:
  assumes "view env st (okey st key) = proxy_applicator_new (Some \<lparr>body = nonnegative_int64 0, escrowed_fee = f\<rparr>)"
    "200 < budget st" "frames st \<noteq> []"
  shows "\<exists>st'. flag_acquire env 1 key st = Ret ((), st') \<and> int_of (view env st' (okey st key)) = 0"
proof -
  let ?p = "proxy_applicator_new (Some \<lparr>body = nonnegative_int64 0, escrowed_fee = f\<rparr>)"
  obtain v where v: "try_apply (NONNEGATIVE_INT64_SET_ADD 1 (- 1)) ?p = Ret (True, v)" "int_of v = 0"
    by (simp add: try_apply_def delta_apply_type_guard.simps proxy_applicator_new_def make_nnint64_delta_def make_current_nnint64_def
        make_current_def set_body_def overflow_defs Let_def int_of_def)
  have w: "proxy_write (nonnegative_int64_set_add (env_ledger env) (okey st key) 1 (- 1)) s = Ret ((), put_view env (okey st key) v s)"
    if "view env s (okey st key) = ?p" for s
    using apply_to_key_view[of "NONNEGATIVE_INT64_SET_ADD 1 (- 1)" env s "okey st key" v] v(1) that
    by (simp add: nonnegative_int64_set_add_def make_delta_defs)
  show ?thesis using assms v(2)
    by (simp add: flag_acquire_def sdk_has_key_def sdk_int64_set_add_def gas_has_key_def gas_nonnegative_int64_set_add_def contract_run w)
qed

section \<open>Samples\<close>

theorem flag_reacquired_witness:
  "\<exists>st'. flag_acquire (token_env\<lparr>env_ledger := \<lambda>_. Some \<lparr>body = nonnegative_int64 0, escrowed_fee = 0\<rparr>\<rparr>) 1 closed_key (frame_state [5] 3) = Ret ((), st')"
  using flag_reacquired[where env = "token_env\<lparr>env_ledger := \<lambda>_. Some \<lparr>body = nonnegative_int64 0, escrowed_fee = 0\<rparr>\<rparr>" and
      st = "frame_state [5] 3" and key = closed_key and f = 0] by auto

text \<open>Raw memory written by a call, for the samples.\<close>

definition raw_written :: "byte list \<Rightarrow> ProxyApplicator \<Rightarrow> ProxyApplicator" where
  "raw_written bs p = (case try_apply (RAW_MEMORY_WRITE bs) p of Ret (_, p') \<Rightarrow> p' | _ \<Rightarrow> p)"

lemma set_raw_memory_run:
  assumes "50 + 2 * length bs < budget st" "frames st \<noteq> []" "stored env (okey st key) old st" "length bs \<le> 256"
  shows "sdk_set_raw_memory env key bs st = Ret ((), put_view env (okey st key) (raw_written bs (view env st (okey st key))) (spend (50 + of_nat (length bs) * 2) st))"
proof -
  let ?p = "view env st (okey st key)"
  from assms(3) obtain ob where ob: "current ?p = Some ob" "body_type (body ob) = RAW_MEMORY" "\<not> is_deleted ?p"
    by (auto simp: stored_def proxy_get_def split: if_splits)
  then have t: "try_apply (RAW_MEMORY_WRITE bs) ?p = Ret (True, raw_written bs ?p)"
    by (simp add: raw_written_def try_apply_def delta_apply_type_guard.simps make_current_def)
  have u: "ucast (of_nat (length bs) :: uint32) = (of_nat (length bs) :: uint64)" "\<not> RAW_MEMORY_MAX_LEN < (of_nat (length bs) :: uint32)"
    using assms(4) by (simp_all add: unsigned_of_nat take_bit_nat_eq_self RAW_MEMORY_MAX_LEN_def word_less_nat_alt unat_of_nat)
  have g: "unat (50 + of_nat (length bs) * 2 :: uint64) < budget st" using unat_linear_cost[of "length bs"] assms(1,4) by simp
  show ?thesis using assms(2) g u t apply_to_key_view[of "RAW_MEMORY_WRITE bs" env "spend (50 + of_nat (length bs) * 2) st" "okey st key"]
    by (simp add: sdk_set_raw_memory_def gas_raw_memory_set_def contract_run Let_def raw_memory_write_def[abs_def] make_delta_defs)
qed

text \<open>A channel at address 5 that Alice begins to close in block 3 and that is closed in block 2000.\<close>

definition chan_config :: channel_config where
  "chan_config = \<lparr>keyAlice = replicate 32 1, keyBob = replicate 32 3, addrAlice = 1, addrBob = 2, ch_token = 7,
     status = \<lparr>close_challenge_maxtime = 0, ch_state = OPEN, ch_padding = replicate 4 0, params = \<lparr>seqno = 0, payment_to_alice = 0, payment_to_bob = 0\<rparr>\<rparr>\<rparr>"

definition chan_params :: closing_params where
  "chan_params = \<lparr>seqno = 1, payment_to_alice = 10, payment_to_bob = 20\<rparr>"

definition chan_env :: "((Address \<times> metered) list, nat) exec_env" where
  "chan_env = sample_env\<lparr>check_sig_ed25519 := (\<lambda>pk sig msg. sig = replicate 64 2)\<rparr>"

definition chan_ledger :: "channel_config \<Rightarrow> ledger" where
  "chan_ledger c k = (if k = address_and_key 5 channel_config_addr then Some \<lparr>body = raw_memory_storage (channel_config_bytes c), escrowed_fee = 0\<rparr> else None)"

lemma chan_env_simps [simp]: "check_sig_ed25519 chan_env pk sig msg \<longleftrightarrow> sig = replicate 64 2"
  by (simp add: chan_env_def)

lemma chan_stored:
  "stored (chan_env\<lparr>env_ledger := chan_ledger c\<rparr>) (okey (frame_state [5] n) channel_config_addr) (channel_config_bytes c) (frame_state [5] n)"
  by (simp add: stored_def okey_def chan_ledger_def)

lemma load_channel_run:
  assumes "stored env (okey st channel_config_addr) (channel_config_bytes c) st" "channel_wf c" "450 < budget st" "frames st \<noteq> []"
    "\<forall>n. length (junk n) = n"
  shows "load_channel_config env junk st = Ret (c, touch env (okey st channel_config_addr) (spend 450 st))"
proof -
  from assms(1) obtain ob where "proxy_get (view env st (okey st channel_config_addr)) = Some ob" "body ob = raw_memory_storage (channel_config_bytes c)"
    by (auto simp: stored_def)
  then show ?thesis using assms(2-) by (simp add: load_channel_config_def contract_run)
qed

lemma chan_closes:
  "\<exists>st'. alice_init_close (chan_env\<lparr>env_ledger := chan_ledger chan_config\<rparr>) (\<lambda>n. replicate n 0) (replicate 64 2) (replicate 64 2) chan_params
     (frame_state [5] 3) = Ret ((), st')"
proof -
  let ?env = "chan_env\<lparr>env_ledger := chan_ledger chan_config\<rparr>" and ?c = "closing_begun CLOSING_BY_ALICE chan_params 3 chan_config"
  have wf: "channel_wf chan_config" "ch_state (status chan_config) = OPEN" by (simp_all add: channel_wf_def chan_config_def)
  have w: "\<exists>st'. write_channel_config ?env ?c s = Ret ((), st')"
    if "stored ?env (okey s channel_config_addr) (channel_config_bytes chan_config) s" "450 < budget s" "frames s \<noteq> []" for s :: "nat exec_state"
    using set_raw_memory_run[of "channel_config_bytes ?c" s ?env channel_config_addr, OF _ that(3,1)] wf(1) that(2) by (simp add: write_channel_config_def)
  show ?thesis
    using chan_stored[of chan_config 3] wf w
    by (simp add: alice_init_close_def load_channel_run require_sig_def sdk_check_sig_ed25519_def gas_check_sig_ed25519_def start_closing_def
        require_state_def contract_run closing_begun_def[symmetric])
qed


definition swap_sample :: atomic_swap_config where
  "swap_sample = \<lparr>source_addr = 1, recipient_addr = 2, swap_token = 7, swap_amount = 30, commitment = 40, expiry_time = 2\<rparr>"

text \<open>With the sample hash, 8 is the preimage of 40 and 9 is not; the swap has expired in block 3.\<close>

theorem swap_release_conditions_witness:
  "hash_opaque token_env (be_bytes 32 (8 :: Hash)) = commitment swap_sample \<and>
   (\<forall>st'. claim_swap (token_env\<lparr>env_ledger := \<lambda>_. Some \<lparr>body = raw_memory_storage (swap_config_bytes swap_sample), escrowed_fee = 0\<rparr>\<rparr>)
      (\<lambda>n. replicate n 0) (\<lambda>_. sret ()) 9 (frame_state [5] 3) \<noteq> Ret ((), st')) \<and>
   (\<forall>st'. reclaim_expired (token_env\<lparr>env_ledger := \<lambda>_. Some \<lparr>body = raw_memory_storage (swap_config_bytes swap_sample), escrowed_fee = 0\<rparr>\<rparr>)
      (\<lambda>n. replicate n 0) (\<lambda>_. sret ()) (frame_state [5] 3) \<noteq> Ret ((), st'))"
proof -
  let ?env = "token_env\<lparr>env_ledger := \<lambda>_. Some \<lparr>body = raw_memory_storage (swap_config_bytes swap_sample), escrowed_fee = 0\<rparr>\<rparr>"
  have s: "stored ?env (okey (frame_state [5] 3) swap_config_addr) (swap_config_bytes swap_sample) (frame_state [5] 3)" by (simp add: stored_def)
  have h: "hash_opaque token_env = toy_hash" by (simp add: token_env_def)
  show ?thesis using swap_release_conditions[OF s, of "\<lambda>n. replicate n 0" "\<lambda>_. sret ()" 9] by (auto simp: swap_sample_def h)
qed

end
