(* ===== verification/MarketContracts.thy ===== *)
theory MarketContracts
  imports SwapContracts
begin

text \<open>
  Contracts of a market: the exchange of tokens by standing offers (\<open>cpp_contracts/0x.cc\<close>), the non-fungible token
  (\<open>cpp_contracts/erc721.cc\<close>, \<open>erc721.h\<close>), the auction of such a token (\<open>cpp_contracts/public_auction.cc\<close>) and the contract that
  deploys contracts (\<open>cpp_contracts/genesis/deploy.cc\<close>, \<open>deploy.h\<close>).
\<close>

section \<open>Offers\<close>

record offer_config =
  offer_owner :: Address
  sellToken :: Address
  buyToken :: Address
  sellAmount :: int64
  price :: uint64

definition offer_config_bytes :: "offer_config \<Rightarrow> byte list" where
  "offer_config_bytes c = be_bytes 32 (offer_owner c) @ be_bytes 32 (sellToken c) @ be_bytes 32 (buyToken c) @
     le_bytes 8 (sellAmount c) @ le_bytes 8 (price c)"

definition offer_config_of :: "byte list \<Rightarrow> offer_config" where
  "offer_config_of bs = \<lparr>offer_owner = addr_at 0 bs, sellToken = addr_at 32 bs, buyToken = addr_at 64 bs, sellAmount = i64_at 96 bs, price = u64_at 104 bs\<rparr>"

definition get_balance_key :: "('t, 'r) exec_env \<Rightarrow> Hash \<Rightarrow> ('r, InvariantKey) exec" where
  "get_balance_key env offer = sdk_hash env (be_bytes 32 offer @ [0])"

definition get_config_key :: "('t, 'r) exec_env \<Rightarrow> Hash \<Rightarrow> ('r, InvariantKey) exec" where
  "get_config_key env offer = sdk_hash env (be_bytes 32 offer @ [1])"

definition get_transient_semaphore_key :: "('t, 'r) exec_env \<Rightarrow> Hash \<Rightarrow> ('r, InvariantKey) exec" where
  "get_transient_semaphore_key env offer = sdk_hash env (be_bytes 32 offer @ [2])"

text \<open>
  The operands are a signed and an unsigned 64-bit integer: the product is computed in 64 bits and extended to 128 bits
  afterwards. \<open>None\<close> is the abort.
\<close>

definition get_buy_amount :: "int64 \<Rightarrow> uint64 \<Rightarrow> int64 option" where
  "get_buy_amount sell_amount pr =
     (let prod = sell_amount * pr;
          round_up = (if prod AND 0xFFFFFFFF \<noteq> 0 then 1 else 0);
          shifted = drop_bit 32 prod
      in if uint shifted > 2 ^ 63 - 1 then None else Some (shifted + round_up))"

definition create_offer :: "('t, 'r) exec_env \<Rightarrow> (MethodInvocation \<Rightarrow> ('r, unit) exec) \<Rightarrow> offer_config \<Rightarrow> ('r, unit) exec" where
  "create_offer env invoke c =
     sbind (sdk_hash env (offer_config_bytes c)) (\<lambda>offer_hash.
     sbind (get_transient_semaphore_key env offer_hash) (\<lambda>sem_key.
     sbind (transient_semaphore_acquire env 1 sem_key) (\<lambda>_.
     sbind (get_config_key env offer_hash) (\<lambda>config_key.
     sbind (sdk_has_key env config_key) (\<lambda>b.
       if b then sabort
       else sbind (sdk_set_raw_memory env config_key (offer_config_bytes c)) (\<lambda>_.
            sbind (get_balance_key env offer_hash) (\<lambda>bal_key.
            sbind (sdk_int64_set_add env bal_key (sellAmount c) 0) (\<lambda>_.
            sbind sdk_get_self (\<lambda>self.
            sbind (Ierc20_transferFrom invoke (sellToken c) (offer_owner c) self (sellAmount c)) (\<lambda>_.
              transient_semaphore_destroy env sem_key))))))))))"

definition consume_offer :: "('t, 'r) exec_env \<Rightarrow> (nat \<Rightarrow> byte list) \<Rightarrow> (MethodInvocation \<Rightarrow> ('r, unit) exec) \<Rightarrow> Hash \<Rightarrow> int64 \<Rightarrow> ('r, unit) exec" where
  "consume_offer env junk invoke offer_hash amount_of_sell_consumed =
     (if sint amount_of_sell_consumed < 0 then sabort
      else sbind (get_config_key env offer_hash) (\<lambda>config_key.
           sbind (get_balance_key env offer_hash) (\<lambda>bal_key.
           sbind (sdk_get_raw_memory env junk config_key 112) (\<lambda>bs.
           let c = offer_config_of bs in
           case get_buy_amount amount_of_sell_consumed (price c) of None \<Rightarrow> sabort
           | Some required_payment \<Rightarrow>
               sbind sdk_get_self (\<lambda>self.
               sbind sdk_get_msg_sender (\<lambda>sender1.
               sbind (Ierc20_transferFrom invoke (sellToken c) self sender1 amount_of_sell_consumed) (\<lambda>_.
               sbind sdk_get_msg_sender (\<lambda>sender2.
               sbind (Ierc20_transferFrom invoke (buyToken c) sender2 (offer_owner c) required_payment) (\<lambda>_.
               sbind (sdk_int64_add env bal_key (- amount_of_sell_consumed)) (\<lambda>_.
               sbind (sdk_int64_get env bal_key) (\<lambda>left.
                 if left = 0
                 then sbind (sdk_delete_last env bal_key) (\<lambda>_. sdk_delete_last env config_key)
                 else sret ())))))))))))"

definition cancel_offer :: "('t, 'r) exec_env \<Rightarrow> (nat \<Rightarrow> byte list) \<Rightarrow> (MethodInvocation \<Rightarrow> ('r, unit) exec) \<Rightarrow> Hash \<Rightarrow> ('r, unit) exec" where
  "cancel_offer env junk invoke offer_hash =
     sbind (get_config_key env offer_hash) (\<lambda>config_key.
     sbind (get_balance_key env offer_hash) (\<lambda>bal_key.
     sbind (sdk_int64_get env bal_key) (\<lambda>remaining_bal.
     sbind (sdk_int64_add env bal_key (- remaining_bal)) (\<lambda>_.
     sbind (sdk_delete_last env bal_key) (\<lambda>_.
     sbind (sdk_get_raw_memory env junk config_key 112) (\<lambda>bs.
     sbind (sdk_delete_last env config_key) (\<lambda>_.
     sbind sdk_get_msg_sender (\<lambda>sender.
       if offer_owner (offer_config_of bs) \<noteq> sender then sabort
       else sbind sdk_get_self (\<lambda>self.
            Ierc20_transferFrom invoke (sellToken (offer_config_of bs)) self (offer_owner (offer_config_of bs)) remaining_bal)))))))))"

definition zerox_code :: "('t, 'r) exec_env \<Rightarrow> (nat \<Rightarrow> byte list) \<Rightarrow> 'r code" where
  "zerox_code env junk invoke m =
     (if m = 0 then sbind (sdk_get_calldata junk 112) (\<lambda>c. create_offer env invoke (offer_config_of c))
      else if m = 1 then sbind (sdk_get_calldata junk 40) (\<lambda>c. consume_offer env junk invoke (addr_at 0 c) (i64_at 32 c))
      else if m = 2 then sbind (sdk_get_calldata junk 32) (\<lambda>c. cancel_offer env junk invoke (addr_at 0 c))
      else no_method)"

section \<open>Non-fungible tokens\<close>

definition get_operator_key :: "('t, 'r) exec_env \<Rightarrow> Address \<Rightarrow> Address \<Rightarrow> ('r, InvariantKey) exec" where
  "get_operator_key env owner oper = sdk_hash env (be_bytes 32 owner @ be_bytes 32 oper)"

definition get_approval_key :: "('t, 'r) exec_env \<Rightarrow> Hash \<Rightarrow> ('r, InvariantKey) exec" where
  "get_approval_key env nft = sdk_hash env (0 # be_bytes 32 nft)"

definition owner_key :: "('t, 'r) exec_env \<Rightarrow> Hash \<Rightarrow> ('r, InvariantKey) exec" where
  "owner_key env nft = sdk_hash env (1 # be_bytes 32 nft)"

definition get_transfer_semaphore_key :: "('t, 'r) exec_env \<Rightarrow> Hash \<Rightarrow> ('r, InvariantKey) exec" where
  "get_transfer_semaphore_key env nft = sdk_hash env (2 # be_bytes 32 nft)"

definition set_approval_for_all :: "('t, 'r) exec_env \<Rightarrow> Address \<Rightarrow> bool \<Rightarrow> ('r, unit) exec" where
  "set_approval_for_all env oper appr =
     sbind sdk_get_msg_sender (\<lambda>sender.
     sbind (get_operator_key env sender oper) (\<lambda>key.
       if appr then sdk_int64_set_add env key 1 0 else sdk_int64_set_add env key 0 0))"

definition get_owner :: "('t, 'r) exec_env \<Rightarrow> (nat \<Rightarrow> byte list) \<Rightarrow> Hash \<Rightarrow> ('r, Address) exec" where
  "get_owner env junk nft = sbind (owner_key env nft) (\<lambda>k. sbind (sdk_get_raw_memory env junk k 32) (\<lambda>bs. sret (be_word bs)))"

definition get_approved :: "('t, 'r) exec_env \<Rightarrow> (nat \<Rightarrow> byte list) \<Rightarrow> Hash \<Rightarrow> ('r, Address) exec" where
  "get_approved env junk nft = sbind (get_approval_key env nft) (\<lambda>k. sbind (sdk_get_raw_memory env junk k 32) (\<lambda>bs. sret (be_word bs)))"

definition nft_approve :: "('t, 'r) exec_env \<Rightarrow> (nat \<Rightarrow> byte list) \<Rightarrow> Hash \<Rightarrow> Address \<Rightarrow> ('r, unit) exec" where
  "nft_approve env junk nft approved_addr =
     sbind (get_owner env junk nft) (\<lambda>owner.
     sbind sdk_get_msg_sender (\<lambda>sender.
     sbind (if sender = owner then sret True
            else sbind (get_operator_key env owner sender) (\<lambda>k. sbind (sdk_int64_get env k) (\<lambda>v. sret (v \<noteq> 0)))) (\<lambda>valid.
       if \<not> valid then sabort
       else sbind (get_approval_key env nft) (\<lambda>k. sdk_set_raw_memory env k (be_bytes 32 approved_addr)))))"

text \<open>The semaphore is a temporary object, destroyed at the end of its statement.\<close>

definition nft_transferFrom :: "('t, 'r) exec_env \<Rightarrow> (nat \<Rightarrow> byte list) \<Rightarrow> Address \<Rightarrow> Address \<Rightarrow> Hash \<Rightarrow> ('r, unit) exec" where
  "nft_transferFrom env junk payer payee nft =
     sbind sdk_get_msg_sender (\<lambda>sender.
     sbind (get_owner env junk nft) (\<lambda>owner.
       if owner \<noteq> payer then sabort
       else sbind (get_operator_key env owner sender) (\<lambda>k.
            sbind (sdk_int64_get env k) (\<lambda>v.
              if \<not> (v \<noteq> 0 \<or> owner = sender) then sabort
              else sbind (owner_key env nft) (\<lambda>ok.
                   sbind (sdk_set_raw_memory env ok (be_bytes 32 payee)) (\<lambda>_.
                   sbind (get_approval_key env nft) (\<lambda>ak.
                   sbind (sdk_delete_last env ak) (\<lambda>_.
                   sbind (get_transfer_semaphore_key env nft) (\<lambda>sk.
                   sbind (transient_semaphore_acquire env 1 sk) (\<lambda>_.
                     transient_semaphore_destroy env sk))))))))))"

definition erc721_transferFrom :: "('t, 'r) exec_env \<Rightarrow> (nat \<Rightarrow> byte list) \<Rightarrow> ('r, unit) exec" where
  "erc721_transferFrom env junk =
     sbind (sdk_get_calldata junk 96) (\<lambda>c.
     sbind sdk_get_msg_sender (\<lambda>_. nft_transferFrom env junk (addr_at 0 c) (addr_at 32 c) (addr_at 64 c)))"

definition erc721_code :: "('t, 'r) exec_env \<Rightarrow> (nat \<Rightarrow> byte list) \<Rightarrow> 'r code" where
  "erc721_code env junk invoke m =
     (if m = 0 then sbind (sdk_get_calldata junk 64) (\<lambda>c. nft_approve env junk (addr_at 0 c) (addr_at 32 c))
      else if m = 1 then sbind (sdk_get_calldata junk 33) (\<lambda>c. set_approval_for_all env (addr_at 0 c) (drop 32 c \<noteq> [0]))
      else if m = 2 then erc721_transferFrom env junk
      else no_method)"

definition Ierc721_approve :: "(MethodInvocation \<Rightarrow> ('r, unit) exec) \<Rightarrow> Address \<Rightarrow> Hash \<Rightarrow> Address \<Rightarrow> ('r, unit) exec" where
  "Ierc721_approve invoke target nft approved = sdk_invoke invoke target 0 (be_bytes 32 nft @ be_bytes 32 approved)"

definition Ierc721_approveAll :: "(MethodInvocation \<Rightarrow> ('r, unit) exec) \<Rightarrow> Address \<Rightarrow> Address \<Rightarrow> bool \<Rightarrow> ('r, unit) exec" where
  "Ierc721_approveAll invoke target oper auth = sdk_invoke invoke target 1 (be_bytes 32 oper @ [if auth then 1 else 0])"

definition Ierc721_transferFrom :: "(MethodInvocation \<Rightarrow> ('r, unit) exec) \<Rightarrow> Address \<Rightarrow> Address \<Rightarrow> Address \<Rightarrow> Hash \<Rightarrow> ('r, unit) exec" where
  "Ierc721_transferFrom invoke target payer payee nft = sdk_invoke invoke target 2 (be_bytes 32 payer @ be_bytes 32 payee @ be_bytes 32 nft)"

section \<open>Auctions\<close>

record auction_static_config =
  addrSeller :: Address
  erc721Address :: Address
  erc721Object :: Hash
  auction_token :: Address
  closing_round :: uint64

record bid =
  bidder :: Address
  bid_amount :: int64

definition auction_config_bytes :: "auction_static_config \<Rightarrow> byte list" where
  "auction_config_bytes c = be_bytes 32 (addrSeller c) @ be_bytes 32 (erc721Address c) @ be_bytes 32 (erc721Object c) @ be_bytes 32 (auction_token c) @
     le_bytes 8 (closing_round c)"

definition auction_config_of :: "byte list \<Rightarrow> auction_static_config" where
  "auction_config_of bs = \<lparr>addrSeller = addr_at 0 bs, erc721Address = addr_at 32 bs, erc721Object = addr_at 64 bs, auction_token = addr_at 96 bs,
     closing_round = u64_at 128 bs\<rparr>"

definition bid_bytes :: "bid \<Rightarrow> byte list" where
  "bid_bytes b = be_bytes 32 (bidder b) @ le_bytes 8 (bid_amount b)"

definition bid_of :: "byte list \<Rightarrow> bid" where
  "bid_of bs = \<lparr>bidder = addr_at 0 bs, bid_amount = i64_at 32 bs\<rparr>"

definition auction_config_addr :: InvariantKey where "auction_config_addr = make_static_key 0 2 0 0"
definition reserve_price_addr :: InvariantKey where "reserve_price_addr = make_static_key 1 2 0 0"
definition auction_hashset :: InvariantKey where "auction_hashset = make_static_key 2 2 0 0"
definition refunded_bids_hashset :: InvariantKey where "refunded_bids_hashset = make_static_key 3 2 0 0"
definition creation_semaphore :: InvariantKey where "creation_semaphore = make_static_key 4 2 0 0"

definition submit_bid :: "('t, 'r) exec_env \<Rightarrow> (MethodInvocation \<Rightarrow> ('r, unit) exec) \<Rightarrow> bid \<Rightarrow> auction_static_config \<Rightarrow> ('r, unit) exec" where
  "submit_bid env invoke b config =
     sbind sdk_get_block_number (\<lambda>n.
       if closing_round config < n then sabort
       else sbind (sdk_hash env (bid_bytes b)) (\<lambda>h.
            sbind (sdk_int64_get env reserve_price_addr) (\<lambda>reserve_price.
              if sint (bid_amount b) \<le> sint reserve_price then sabort
              else if sint (bid_amount b) < 0 then sabort
              else sbind (sdk_hashset_get_size env auction_hashset) (\<lambda>sz.
                   sbind (if 2 \<le> sz
                          then sbind (sdk_hashset_get_index env auction_hashset 1) (\<lambda>(new_reserve, _).
                               if new_reserve \<noteq> reserve_price then sdk_int64_set_add env reserve_price_addr new_reserve 0 else sret ())
                          else sret ()) (\<lambda>_.
                   sbind sdk_get_self (\<lambda>self.
                   sbind (Ierc20_transferFrom invoke (auction_token config) (bidder b) self (bid_amount b)) (\<lambda>_.
                     sdk_hashset_insert env auction_hashset h (bid_amount b))))))))"

definition get_winning_hash :: "('t, 'r) exec_env \<Rightarrow> ('r, Hash) exec" where
  "get_winning_hash env = sbind (sdk_hashset_get_index env auction_hashset 0) (\<lambda>(_, h). sret h)"

text \<open>The loop over the bids of one amount; \<open>fuel\<close> bounds its rounds.\<close>

fun find_bid :: "nat \<Rightarrow> ('t, 'r) exec_env \<Rightarrow> Hash \<Rightarrow> uint32 \<Rightarrow> ('r, unit) exec" where
  "find_bid 0 env h idx = (\<lambda>st. Diverge)"
| "find_bid (Suc fuel) env h idx =
     sbind (sdk_hashset_get_index env auction_hashset idx) (\<lambda>(amt, h'). if h' = h then sret () else find_bid fuel env h (idx + 1))"

definition refund_bid :: "nat \<Rightarrow> ('t, 'r) exec_env \<Rightarrow> (MethodInvocation \<Rightarrow> ('r, unit) exec) \<Rightarrow> bid \<Rightarrow> auction_static_config \<Rightarrow> ('r, unit) exec" where
  "refund_bid fuel env invoke b config =
     sbind sdk_get_block_number (\<lambda>current_block.
       if current_block \<le> closing_round config then sabort
       else sbind (sdk_hash env (bid_bytes b)) (\<lambda>h.
            sbind (get_winning_hash env) (\<lambda>winning_hash.
              if h = winning_hash then sabort
              else sbind (sdk_hashset_get_index_of env auction_hashset (bid_amount b)) (\<lambda>idx.
                   sbind (find_bid fuel env h idx) (\<lambda>_.
                   sbind (sdk_hashset_insert env refunded_bids_hashset h (bid_amount b)) (\<lambda>_.
                   sbind sdk_get_self (\<lambda>self.
                     Ierc20_transferFrom invoke (auction_token config) self (bidder b) (bid_amount b))))))))"

definition execute_winning_bid :: "('t, 'r) exec_env \<Rightarrow> (MethodInvocation \<Rightarrow> ('r, unit) exec) \<Rightarrow> bid \<Rightarrow> auction_static_config \<Rightarrow> ('r, unit) exec" where
  "execute_winning_bid env invoke b config =
     sbind sdk_get_block_number (\<lambda>current_block.
       if current_block \<le> closing_round config then sabort
       else sbind (sdk_hash env (bid_bytes b)) (\<lambda>h.
            sbind (get_winning_hash env) (\<lambda>winning_hash.
              if winning_hash \<noteq> h then sabort
              else sbind (sdk_int64_get env reserve_price_addr) (\<lambda>reserve0.
                   sbind (sdk_hashset_get_size env auction_hashset) (\<lambda>sz.
                   sbind (if 1 < sz
                          then sbind (sdk_hashset_get_index env auction_hashset 1) (\<lambda>(limit_bid, _).
                               sret (if sint reserve0 < sint limit_bid then limit_bid else reserve0))
                          else sret reserve0) (\<lambda>reserve_price.
                   sbind sdk_get_self (\<lambda>self1.
                   sbind (Ierc20_transferFrom invoke (auction_token config) self1 (bidder b) (bid_amount b - reserve_price)) (\<lambda>_.
                   sbind sdk_get_self (\<lambda>self2.
                   sbind (Ierc20_transferFrom invoke (auction_token config) self2 (addrSeller config) reserve_price) (\<lambda>_.
                   sbind sdk_get_self (\<lambda>self3.
                     Ierc721_transferFrom invoke (erc721Address config) self3 (bidder b) (erc721Object config))))))))))))"

definition destroy_empty_auction :: "('t, 'r) exec_env \<Rightarrow> (MethodInvocation \<Rightarrow> ('r, unit) exec) \<Rightarrow> auction_static_config \<Rightarrow> ('r, unit) exec" where
  "destroy_empty_auction env invoke config =
     sbind (sdk_hashset_get_size env auction_hashset) (\<lambda>sz.
       if sz \<noteq> 0 then sabort
       else sbind sdk_get_block_number (\<lambda>n.
              if n \<le> closing_round config then sabort
              else sbind sdk_get_self (\<lambda>self.
                   Ierc721_transferFrom invoke (erc721Address config) self (addrSeller config) (erc721Object config))))"

definition increase_auction_sizes :: "('t, 'r) exec_env \<Rightarrow> uint16 \<Rightarrow> ('r, unit) exec" where
  "increase_auction_sizes env limit =
     sbind (sdk_hashset_increase_limit env auction_hashset limit) (\<lambda>_. sdk_hashset_increase_limit env refunded_bids_hashset limit)"

definition auction_write_config :: "('t, 'r) exec_env \<Rightarrow> auction_static_config \<Rightarrow> ('r, unit) exec" where
  "auction_write_config env config = sdk_set_raw_memory env auction_config_addr (auction_config_bytes config)"

definition auction_get_config :: "('t, 'r) exec_env \<Rightarrow> (nat \<Rightarrow> byte list) \<Rightarrow> ('r, auction_static_config) exec" where
  "auction_get_config env junk = sbind (sdk_get_raw_memory env junk auction_config_addr 136) (\<lambda>bs. sret (auction_config_of bs))"

definition create_auction :: "('t, 'r) exec_env \<Rightarrow> (MethodInvocation \<Rightarrow> ('r, unit) exec) \<Rightarrow> auction_static_config \<Rightarrow> ('r, unit) exec" where
  "create_auction env invoke config =
     sbind (transient_semaphore_acquire env 1 creation_semaphore) (\<lambda>_.
     sbind sdk_get_self (\<lambda>self.
     sbind (Ierc721_transferFrom invoke (erc721Address config) (addrSeller config) self (erc721Object config)) (\<lambda>_.
     sbind (auction_write_config env config) (\<lambda>_.
       transient_semaphore_destroy env creation_semaphore))))"

definition pub_submit_bid :: "('t, 'r) exec_env \<Rightarrow> (nat \<Rightarrow> byte list) \<Rightarrow> (MethodInvocation \<Rightarrow> ('r, unit) exec) \<Rightarrow> ('r, unit) exec" where
  "pub_submit_bid env junk invoke =
     sbind (sdk_get_calldata junk 8) (\<lambda>c.
     sbind sdk_get_msg_sender (\<lambda>sender.
     sbind (auction_get_config env junk) (\<lambda>config.
       submit_bid env invoke \<lparr>bidder = sender, bid_amount = i64_at 0 c\<rparr> config)))"

definition public_auction_code :: "nat \<Rightarrow> ('t, 'r) exec_env \<Rightarrow> (nat \<Rightarrow> byte list) \<Rightarrow> 'r code" where
  "public_auction_code fuel env junk invoke m =
     (if m = 0 then sbind (sdk_get_calldata junk 136) (\<lambda>c. create_auction env invoke (auction_config_of c))
      else if m = 1 then pub_submit_bid env junk invoke
      else if m = 2 then sbind (sdk_get_calldata junk 40) (\<lambda>c. sbind (auction_get_config env junk) (refund_bid fuel env invoke (bid_of c)))
      else if m = 3 then sbind (sdk_get_calldata junk 40) (\<lambda>c. sbind (auction_get_config env junk) (execute_winning_bid env invoke (bid_of c)))
      else if m = 4 then sbind (auction_get_config env junk) (destroy_empty_auction env invoke)
      else no_method)"

section \<open>Deployment\<close>

definition deploy_DeployAndInitialize :: "('t, 'r) exec_env \<Rightarrow> (nat \<Rightarrow> byte list) \<Rightarrow> (MethodInvocation \<Rightarrow> ('r, unit) exec) \<Rightarrow> ('r, unit) exec" where
  "deploy_DeployAndInitialize env junk invoke =
     sbind (sdk_get_calldata junk 48) (\<lambda>c.
     let ctor_calldata_size = u32_at 44 c in
     sbind (calldata_slice 48 (48 + ctor_calldata_size)) (\<lambda>bs.
     sbind (sdk_deploy_contract env (addr_at 0 c) (u64_at 32 c)) (\<lambda>deployed_addr.
       sdk_invoke invoke deployed_addr (u32_at 40 c) (overlay bs (junk (unat ctor_calldata_size))))))"

definition deploy_Deploy :: "('t, 'r) exec_env \<Rightarrow> (nat \<Rightarrow> byte list) \<Rightarrow> ('r, unit) exec" where
  "deploy_Deploy env junk =
     sbind (sdk_get_calldata junk 40) (\<lambda>c. sbind (sdk_deploy_contract env (addr_at 0 c) (u64_at 32 c)) (\<lambda>_. sret ()))"

definition deploy_Create :: "('t, 'r) exec_env \<Rightarrow> (nat \<Rightarrow> byte list) \<Rightarrow> ('r, unit) exec" where
  "deploy_Create env junk =
     sbind (sdk_get_calldata junk 4) (\<lambda>c. sbind (sdk_create_contract env (u32_at 0 c)) (\<lambda>_. sret ()))"

definition deploy_code :: "('t, 'r) exec_env \<Rightarrow> (nat \<Rightarrow> byte list) \<Rightarrow> 'r code" where
  "deploy_code env junk invoke m =
     (if m = 0 then deploy_DeployAndInitialize env junk invoke
      else if m = 1 then deploy_Deploy env junk
      else if m = 2 then deploy_Create env junk
      else no_method)"

definition deploy_and_initialize :: "(MethodInvocation \<Rightarrow> ('r, unit) exec) \<Rightarrow> Hash \<Rightarrow> uint64 \<Rightarrow> uint32 \<Rightarrow> byte list \<Rightarrow> ('r, unit) exec" where
  "deploy_and_initialize invoke h nonce ctor_method ctor_calldata =
     sdk_invoke invoke DEPLOYER_ADDRESS 0
       (be_bytes 32 h @ le_bytes 8 nonce @ le_bytes 4 ctor_method @ le_bytes 4 (of_nat (length ctor_calldata) :: uint32) @ ctor_calldata)"

section \<open>Prices\<close>

lemma offer_config_roundtrip [simp]: "offer_config_of (offer_config_bytes c) = c" "length (offer_config_bytes c) = 112"
  by (simp_all add: offer_config_of_def offer_config_bytes_def addr_at_def i64_at_def u64_at_def drop_append)

lemma div_round_up:
  fixes x c :: int
  assumes c: "0 < c"
  shows "x div c + (if x mod c \<noteq> 0 then 1 else 0) = (x + c - 1) div c"
proof -
  have "x + c - 1 = (x mod c + c - 1) + (x div c) * c" using div_mult_mod_eq[of x c] by simp
  also have "\<dots> div c = x div c + (x mod c + c - 1) div c" using c by (intro div_mult_self1) simp
  finally have "(x + c - 1) div c = x div c + (x mod c + c - 1) div c" .
  moreover have "(x mod c + c - 1) div c = (if x mod c \<noteq> 0 then 1 else 0)"
  proof (cases "x mod c = 0")
    case False
    have "x mod c + c - 1 = (x mod c - 1) + 1 * c" by simp
    also have "\<dots> div c = 1 + (x mod c - 1) div c" using c by (intro div_mult_self1) simp
    finally have "(x mod c + c - 1) div c = 1 + (x mod c - 1) div c" .
    moreover have "(x mod c - 1) div c = 0"
      using False c pos_mod_sign[OF c, of x] pos_mod_bound[OF c, of x] by (intro div_pos_pos_trivial) auto
    ultimately show ?thesis using False by simp
  qed (use c in simp)
  ultimately show ?thesis by simp
qed

text \<open>
  C39: what a buyer pays for a part of an offer is the product of the amount and the price, rounded up, but of the product modulo
  \<open>2 ^ 64\<close>: it is the exact price while the product fits into 64 bits, and less than that otherwise; an amount of \<open>2 ^ 32\<close> at the price 1 costs nothing.
\<close>

theorem buy_amount_modulo:
  "(\<exists>r. get_buy_amount s p = Some r \<and> sint r = ((uint s * uint p) mod 2 ^ 64 + 2 ^ 32 - 1) div 2 ^ 32) \<and>
   get_buy_amount (2 ^ 32) (2 ^ 32) = Some 0"
proof
  let ?w = "s * p" and ?x = "(uint s * uint p) mod 2 ^ 64"
  have x: "uint ?w = ?x" by (simp add: uint_word_ariths)
  have bx: "0 \<le> ?x" "?x < 2 ^ 64" by simp_all
  have sh: "uint (drop_bit 32 ?w) = ?x div 2 ^ 32" 
  proof -
    have "uint (drop_bit 32 ?w) = drop_bit 32 (uint ?w)" by (rule bit_eqI) (simp only: bit_unsigned_iff bit_drop_bit_eq Bit_Operations.bit_drop_bit_eq comp_def, simp add: ac_simps)
    then show ?thesis by (simp only: drop_bit_eq_div x)
  qed
  have "?w AND 0xFFFFFFFF = take_bit 32 ?w" by (simp add: take_bit_eq_mask mask_eq_exp_minus_1)
  moreover have "uint (take_bit 32 ?w) = ?x mod 2 ^ 32" by (simp only: unsigned_take_bit_eq x) (rule take_bit_eq_mod)
  ultimately have nz: "(?w AND 0xFFFFFFFF \<noteq> 0) \<longleftrightarrow> ?x mod 2 ^ 32 \<noteq> 0"
    using uint_0_iff[of "?w AND 0xFFFFFFFF"] by (simp only: simp_thms)
  let ?r = "drop_bit 32 ?w + (if ?w AND 0xFFFFFFFF \<noteq> 0 then 1 else 0)"
  have small: "?x div 2 ^ 32 < 2 ^ 32" using bx(2) by simp
  have "uint ?r = ?x div 2 ^ 32 + (if ?x mod 2 ^ 32 \<noteq> 0 then 1 else 0)"
    using small sh nz by (auto simp: uint_word_ariths)
  then have u: "uint ?r = (?x + 2 ^ 32 - 1) div 2 ^ 32" using div_round_up[of "2 ^ 32" ?x] by simp
  moreover have "uint ?r < 2 ^ 63" unfolding u using bx(2) by simp
  ultimately have "sint ?r = (?x + 2 ^ 32 - 1) div 2 ^ 32" by (simp add: sint_eq_uint_small)
  moreover have "\<not> uint (drop_bit 32 ?w) > 2 ^ 63 - 1" using small sh by simp
  ultimately show "\<exists>r. get_buy_amount s p = Some r \<and> sint r = (?x + 2 ^ 32 - 1) div 2 ^ 32" by (simp add: get_buy_amount_def Let_def)
  show "get_buy_amount (2 ^ 32) (2 ^ 32) = Some 0" by (simp add: get_buy_amount_def)
qed

section \<open>Ownership\<close>

lemma sdk_hash_Ret [returns]: "sdk_hash env bs st = Ret (h, st') \<longleftrightarrow> 10000 < budget st \<and> h = hash_opaque env bs \<and> st' = spend 10000 st"
  by (auto simp: sdk_hash_def gas_hash_def returns)

lemma sdk_get_msg_sender_Ret:
  "sdk_get_msg_sender st = Ret (a, st') \<Longrightarrow> a = mi_addr (last (butlast (frames st))) \<and> st' = spend 50 st"
  using sdk_get_msg_sender_run[of st]
  by (cases "1 < length (frames st)")
    (auto simp: sdk_get_msg_sender_def gas_get_msg_sender_def returns sctx_def slift_def outcome_simps get_msg_sender_def frames_def spend_def
      split: if_splits)

lemma sdk_int64_get_Ret:
  "sdk_int64_get env key st = Ret (v, st') \<Longrightarrow> (\<exists>g. st' = touch env (okey st key) (spend g st)) \<and>
     (v \<noteq> 0 \<longrightarrow> map_option body (proxy_get (view env st (okey st key))) = Some (nonnegative_int64 v))"
  by (auto simp: sdk_int64_get_def returns split: option.splits ObjectBody.splits)

lemma sdk_delete_last_Ret: "sdk_delete_last env key st = Ret (x, st') \<Longrightarrow> \<exists>v g. st' = put_view env (okey st key) v (spend g st)"
  by (auto simp: sdk_delete_last_def delete_object_last_def[abs_def] returns)

lemma sdk_int64_set_add_Ret: "sdk_int64_set_add env key sv d st = Ret (x, st') \<Longrightarrow> \<exists>v g. st' = put_view env (okey st key) v (spend g st)"
  by (auto simp: sdk_int64_set_add_def nonnegative_int64_set_add_def[abs_def] returns)

definition nft_owner_key :: "('t, 'r) exec_env \<Rightarrow> Address \<Rightarrow> Hash \<Rightarrow> AddressAndKey" where
  "nft_owner_key env self nft = address_and_key self (hash_opaque env (1 # be_bytes 32 nft))"

definition nft_operator_key :: "('t, 'r) exec_env \<Rightarrow> Address \<Rightarrow> Address \<Rightarrow> Address \<Rightarrow> AddressAndKey" where
  "nft_operator_key env self owner oper = address_and_key self (hash_opaque env (be_bytes 32 owner @ be_bytes 32 oper))"

lemma nft_transfer_tail:
  assumes rest: "sbind (owner_key env nft) (\<lambda>ok. sbind (sdk_set_raw_memory env ok (be_bytes 32 payee)) (\<lambda>_.
             sbind (get_approval_key env nft) (\<lambda>ak. sbind (sdk_delete_last env ak) (\<lambda>_.
             sbind (get_transfer_semaphore_key env nft) (\<lambda>sk. sbind (transient_semaphore_acquire env 1 sk) (\<lambda>_.
               transient_semaphore_destroy env sk)))))) st = Ret (x, st')"
    and self: "okey st = address_and_key self"
    and keys: "hash_opaque env (0 # be_bytes 32 nft) \<noteq> hash_opaque env (1 # be_bytes 32 nft)"
      "hash_opaque env (2 # be_bytes 32 nft) \<noteq> hash_opaque env (1 # be_bytes 32 nft)"
  shows "stored env (nft_owner_key env self nft) (be_bytes 32 payee) st'"
proof -
  let ?ok = "hash_opaque env (1 # be_bytes 32 nft)" and ?ak = "hash_opaque env (0 # be_bytes 32 nft)" and ?sk = "hash_opaque env (2 # be_bytes 32 nft)"
  from rest obtain s1 s2 s3 u1 u2 u3 where w: "sdk_set_raw_memory env ?ok (be_bytes 32 payee) (spend 10000 st) = Ret (u1, s1)"
    "sdk_delete_last env ?ak (spend 10000 s1) = Ret (u2, s2)" "sdk_int64_set_add env ?sk 1 (- 1) (spend 10000 s2) = Ret (u3, s3)"
    "sdk_delete_last env ?sk s3 = Ret (x, st')"
    by (auto simp: owner_key_def get_approval_key_def get_transfer_semaphore_key_def transient_semaphore_acquire_def transient_semaphore_destroy_def returns)
  from set_raw_memory_stored[OF w(1)] self have s1: "stored env (nft_owner_key env self nft) (be_bytes 32 payee) s1" "okey s1 = address_and_key self"
    by (auto simp: nft_owner_key_def okey_def fun_eq_iff)
  from sdk_delete_last_Ret[OF w(2)] obtain v2 g2 where s2: "s2 = put_view env (address_and_key self ?ak) v2 (spend g2 (spend 10000 s1))" by (auto simp: s1)
  from sdk_int64_set_add_Ret[OF w(3)] obtain v3 g3 where s3: "s3 = put_view env (address_and_key self ?sk) v3 (spend g3 (spend 10000 s2))" by (auto simp: s2 s1)
  from sdk_delete_last_Ret[OF w(4)] obtain v4 g4 where st': "st' = put_view env (address_and_key self ?sk) v4 (spend g4 s3)" by (auto simp: s3 s2 s1)
  have "view env st' (nft_owner_key env self nft) = view env s1 (nft_owner_key env self nft)"
    using keys by (simp add: st' s3 s2 nft_owner_key_def)
  then show ?thesis using s1(1) by (simp add: stored_def)
qed

text \<open>
  C21: a non-fungible token moves only by order of its owner. A transfer that returns moved the token from its recorded owner, was sent by
  that owner or by an operator the owner has approved, and records the recipient as the new owner.
\<close>

theorem nft_transfer_authorised:
  assumes r: "nft_transferFrom env junk payer payee nft st = Ret (x, st')" and self: "okey st = address_and_key self"
    and own: "stored env (nft_owner_key env self nft) (be_bytes 32 owner) st" and jk: "\<forall>n. length (junk n) = n"
    and keys: "hash_opaque env (0 # be_bytes 32 nft) \<noteq> hash_opaque env (1 # be_bytes 32 nft)"
      "hash_opaque env (2 # be_bytes 32 nft) \<noteq> hash_opaque env (1 # be_bytes 32 nft)"
    and sender_def: "sender = mi_addr (last (butlast (frames st)))"
  shows "owner = payer \<and>
     (owner = sender \<or> (\<exists>v. v \<noteq> 0 \<and> map_option body (proxy_get (view env st (nft_operator_key env self owner sender))) = Some (nonnegative_int64 v))) \<and>
     stored env (nft_owner_key env self nft) (be_bytes 32 payee) st'"
proof -
  from r obtain a s1 o1 s2 where m: "sdk_get_msg_sender st = Ret (a, s1)" "get_owner env junk nft s1 = Ret (o1, s2)"
    and o1: "o1 = payer" and rest: "sbind (get_operator_key env o1 a) (\<lambda>k. sbind (sdk_int64_get env k) (\<lambda>v.
        if \<not> (v \<noteq> 0 \<or> o1 = a) then sabort
        else sbind (owner_key env nft) (\<lambda>ok. sbind (sdk_set_raw_memory env ok (be_bytes 32 payee)) (\<lambda>_.
             sbind (get_approval_key env nft) (\<lambda>ak. sbind (sdk_delete_last env ak) (\<lambda>_.
             sbind (get_transfer_semaphore_key env nft) (\<lambda>sk. sbind (transient_semaphore_acquire env 1 sk) (\<lambda>_.
               transient_semaphore_destroy env sk)))))))) s2 = Ret (x, st')"
    by (auto simp: nft_transferFrom_def returns split: if_splits)
  have s1: "a = sender" "s1 = spend 50 st" using sdk_get_msg_sender_Ret[OF m(1)] sender_def by simp_all
  from m(2) obtain bs where raw: "sdk_get_raw_memory env junk (hash_opaque env (1 # be_bytes 32 nft)) 32 (spend 10000 s1) = Ret (bs, s2)" "o1 = be_word bs"
    by (auto simp: get_owner_def owner_key_def returns)
  have "stored env (okey (spend 10000 s1) (hash_opaque env (1 # be_bytes 32 nft))) (be_bytes 32 owner) (spend 10000 s1)"
    using own by (simp add: s1 self nft_owner_key_def)
  from get_raw_memory_stored[OF raw(1) this] jk obtain g where bs: "bs = be_bytes 32 owner"
    and s2: "s2 = touch env (nft_owner_key env self nft) (spend g (spend 10000 s1))" by (auto simp: s1 self nft_owner_key_def)
  have v2: "view env s2 = view env st" "okey s2 = address_and_key self" by (simp_all add: s2 s1 self)
  have ow: "o1 = owner" using raw(2) bs by simp
  let ?s3 = "spend 10000 s2" and ?hk = "hash_opaque env (be_bytes 32 owner @ be_bytes 32 sender)"
  from rest obtain v s4 where g: "sdk_int64_get env ?hk ?s3 = Ret (v, s4)" "v \<noteq> 0 \<or> owner = sender"
    and rest: "sbind (owner_key env nft) (\<lambda>ok. sbind (sdk_set_raw_memory env ok (be_bytes 32 payee)) (\<lambda>_.
             sbind (get_approval_key env nft) (\<lambda>ak. sbind (sdk_delete_last env ak) (\<lambda>_.
             sbind (get_transfer_semaphore_key env nft) (\<lambda>sk. sbind (transient_semaphore_acquire env 1 sk) (\<lambda>_.
               transient_semaphore_destroy env sk)))))) s4 = Ret (x, st')"
    by (auto simp: get_operator_key_def returns ow s1(1) split: if_splits)
  from sdk_int64_get_Ret[OF g(1)] have s4: "view env s4 = view env st" "okey s4 = address_and_key self"
    and oper: "v \<noteq> 0 \<Longrightarrow> map_option body (proxy_get (view env st (nft_operator_key env self owner sender))) = Some (nonnegative_int64 v)"
    by (auto simp: v2 nft_operator_key_def)
  have "stored env (nft_owner_key env self nft) (be_bytes 32 payee) st'" using nft_transfer_tail[OF rest s4(2) keys] .
  with g(2) oper ow o1 show ?thesis by blast
qed

text \<open>A sample: contract 6 records that account 5 owns token 1, and account 5 sends it to account 2.\<close>

definition nft_hash :: "byte list \<Rightarrow> Hash" where
  "nft_hash bs = be_word bs + of_nat (length bs) + (case bs of [] \<Rightarrow> 0 | b # _ \<Rightarrow> ucast b * 1000)"

definition nft_env :: "((Address \<times> metered) list, nat) exec_env" where
  "nft_env = sample_env\<lparr>hash_opaque := nft_hash, env_ledger := (\<lambda>k. if k = address_and_key 6 1034
     then Some \<lparr>body = raw_memory_storage (be_bytes 32 (5 :: Address)), escrowed_fee = 0\<rparr> else None)\<rparr>"

lemma be_word_suffix: "be_word (xs @ be_bytes 32 (w :: Hash)) = w"
  by (simp add: be_word_def be_word_acc) (simp add: take_bit_word_eq_self push_bit_eq_mult)

lemma nft_keys [simp]:
  "nft_hash (0 # be_bytes 32 (1 :: Hash)) = 34" "nft_hash (1 # be_bytes 32 (1 :: Hash)) = 1034" "nft_hash (2 # be_bytes 32 (1 :: Hash)) = 2034"
  "nft_hash (be_bytes 32 (5 :: Address) @ be_bytes 32 (5 :: Address)) = 69"
proof -
  have b: "be_word (b # be_bytes 32 (w :: Hash)) = w" for b w using be_word_suffix[of "[b]" w] by simp
  show "nft_hash (0 # be_bytes 32 (1 :: Hash)) = 34" "nft_hash (1 # be_bytes 32 (1 :: Hash)) = 1034" "nft_hash (2 # be_bytes 32 (1 :: Hash)) = 2034"
    by (simp_all add: nft_hash_def b)
  have "be_bytes 32 (5 :: Address) = 0 # be_bytes 31 (5 :: Address)" using be_bytes.simps(2)[of 31 "5 :: Address"] by simp
  then show "nft_hash (be_bytes 32 (5 :: Address) @ be_bytes 32 (5 :: Address)) = 69" using be_word_suffix[of "be_bytes 32 (5 :: Address)" 5] by (simp add: nft_hash_def)
qed

lemma nft_env_simps [simp]: "hash_opaque nft_env = nft_hash"
  "env_ledger nft_env k = (if k = address_and_key 6 1034 then Some \<lparr>body = raw_memory_storage (be_bytes 32 (5 :: Address)), escrowed_fee = 0\<rparr> else None)"
  by (simp_all add: nft_env_def)

lemma sdk_delete_last_run:
  "50 < budget st \<Longrightarrow> frames st \<noteq> [] \<Longrightarrow> sdk_delete_last env key st =
     Ret ((), put_view env (okey st key) ((view env st (okey st key))\<lparr>is_deleted := True, current := None\<rparr>) (spend 50 st))"
  using apply_to_key_view[of DELETE_LAST env "spend 50 st" "okey st key"]
  by (simp add: sdk_delete_last_def gas_delete_key_last_def contract_run delete_object_last_def[abs_def] make_delta_defs try_apply_def)

lemma semaphore_run:
  assumes "50 < budget st" "frames st \<noteq> []" "view env st (okey st key) = proxy_applicator_new None"
  shows "\<exists>v. transient_semaphore_acquire env 1 key st = Ret ((), put_view env (okey st key) v (spend 50 st))"
proof -
  obtain v where "try_apply (NONNEGATIVE_INT64_SET_ADD 1 (- 1)) (proxy_applicator_new None) = Ret (True, v)"
    by (simp add: try_apply_def delta_apply_type_guard.simps proxy_applicator_new_def make_nnint64_delta_def make_current_nnint64_def
        make_current_def set_body_def overflow_defs Let_def)
  with apply_to_key_view[of "NONNEGATIVE_INT64_SET_ADD 1 (- 1)" env "spend 50 st" "okey st key" v] assms show ?thesis
    by (auto simp: transient_semaphore_acquire_def sdk_int64_set_add_def gas_nonnegative_int64_set_add_def contract_run
        nonnegative_int64_set_add_def[abs_def] make_delta_defs)
qed

lemma nft_sample_run: "\<exists>st'. nft_transferFrom nft_env (\<lambda>n. replicate n 0) 5 2 1 (frame_state [5, 6] 3) = Ret ((), st')"
proof -
  let ?st = "frame_state [5, 6] 3"
  have o: "okey ?st = address_and_key 6" by (simp add: okey_def fun_eq_iff)
  let ?s5 = "spend 10000 (touch nft_env (address_and_key 6 69) (spend 10 (spend 10000 (touch nft_env (address_and_key 6 1034) (spend 114 (spend 10000 (spend 50 ?st)))))))"
  let ?s6 = "put_view nft_env (address_and_key 6 1034) (raw_written (be_bytes 32 (2 :: Address)) (view nft_env ?s5 (address_and_key 6 1034))) (spend 114 ?s5)"
  have w: "sdk_set_raw_memory nft_env 1034 (be_bytes 32 (2 :: Address)) ?s5 = Ret ((), ?s6)"
    using set_raw_memory_run[of "be_bytes 32 (2 :: Address)" ?s5 nft_env 1034 "be_bytes 32 (5 :: Address)"] by (simp add: o stored_def)
  let ?s8 = "put_view nft_env (address_and_key 6 34) ((view nft_env ?s6 (address_and_key 6 34))\<lparr>is_deleted := True, current := None\<rparr>) (spend 50 (spend 10000 ?s6))"
  obtain v where s: "transient_semaphore_acquire nft_env 1 2034 (spend 10000 ?s8) = Ret ((), put_view nft_env (address_and_key 6 2034) v (spend 50 (spend 10000 ?s8)))"
    using semaphore_run[of "spend 10000 ?s8" nft_env 2034] by (auto simp: o)
  have gets: "proxy_get (view nft_env ?st (address_and_key 6 1034)) = Some \<lparr>body = raw_memory_storage (be_bytes 32 (5 :: Address)), escrowed_fee = 0\<rparr>" by simp
  show ?thesis
    by (simp add: nft_transferFrom_def get_owner_def owner_key_def get_operator_key_def get_approval_key_def get_transfer_semaphore_key_def
        transient_semaphore_destroy_def contract_run o sdk_delete_last_run w s[simplified])
qed

theorem nft_transfer_authorised_witness:
  "\<exists>st'. nft_transferFrom nft_env (\<lambda>n. replicate n 0) 5 2 1 (frame_state [5, 6] 3) = Ret ((), st') \<and>
     stored nft_env (nft_owner_key nft_env 6 1) (be_bytes 32 (2 :: Address)) st'"
proof -
  obtain st' where r: "nft_transferFrom nft_env (\<lambda>n. replicate n 0) 5 2 1 (frame_state [5, 6] 3) = Ret ((), st')" using nft_sample_run by blast
  have "stored nft_env (nft_owner_key nft_env 6 1) (be_bytes 32 (5 :: Address)) (frame_state [5, 6] 3)" by (simp add: stored_def nft_owner_key_def)
  from nft_transfer_authorised[OF r _ this _ _ _ refl] r show ?thesis by (auto simp: okey_def fun_eq_iff)
qed

section \<open>Refunds\<close>

definition bids :: "('t, 'r) exec_env \<Rightarrow> 'r exec_state \<Rightarrow> HashSetEntry list" where
  "bids env st = hashes (prev_hash_set (proxy_get (view env st (okey st auction_hashset))))"

lemma bids_simps [simp]: "bids env (spend g st) = bids env st" "bids env (touch env k st) = bids env st"
  by (simp_all add: bids_def)

lemma get_bid_returns:
  assumes "sdk_hashset_get_index env auction_hashset i st = Ret (r, st')"
  shows "unat i < length (bids env st) \<and> r = (index (bids env st ! unat i), hash (bids env st ! unat i)) \<and>
     (\<exists>g. st' = touch env (okey st auction_hashset) (spend g st))"
  using assms by (auto simp: sdk_hashset_get_index_def returns bids_def prev_hash_set_def split: option.splits ObjectBody.splits if_splits)

lemma get_bid_converges:
  fixes env :: "('t, 'r) exec_env"
  shows "sdk_hashset_get_index env key i st \<noteq> Diverge"
proof -
  have "charge g s \<noteq> Diverge" for g and s :: "'r exec_state" using charge_run[of g s] charge_fails[of s g] by (cases "unat g < budget s") auto
  moreover have "own_key k s \<noteq> Diverge" for k and s :: "'r exec_state"
    by (simp add: own_key_def sctx_def slift_def get_storage_key_def get_current_method_invocation_def)
  moreover have "proxy_read env k s \<noteq> Diverge" for k and s :: "'r exec_state" by (simp add: proxy_read_run)
  ultimately show ?thesis
    by (auto simp: sdk_hashset_get_index_def sbind_def sret_def sthrow_def obind_Diverge split: option.split ObjectBody.split)
qed

text \<open>
  The search for a bid ends: each round reads the next entry of the set, and a read past its end fails the transaction. When
  it returns, the bid is in the set.
\<close>

lemma find_bid_ends:
  assumes "length (bids env st) < 2 ^ 32" "length (bids env st) - unat idx < fuel"
  shows "find_bid fuel env h idx st \<noteq> Diverge \<and> (\<forall>x st'. find_bid fuel env h idx st = Ret (x, st') \<longrightarrow> h \<in> hash ` set (bids env st))"
  using assms
proof (induction fuel arbitrary: idx st)
  case (Suc fuel)
  show ?case
  proof (cases "sdk_hashset_get_index env auction_hashset idx st")
    case (Ret r)
    then obtain amt h' s1 where r: "sdk_hashset_get_index env auction_hashset idx st = Ret ((amt, h'), s1)" by (cases r) auto
    from get_bid_returns[OF r] obtain g where i: "unat idx < length (bids env st)" "h' = hash (bids env st ! unat idx)"
      and s1: "s1 = touch env (okey st auction_hashset) (spend g st)" by auto
    show ?thesis
    proof (cases "h' = h")
      case True
      then show ?thesis using r i by (auto simp: sbind_def sret_def)
    next
      case False
      have "unat (idx + 1) = unat idx + 1" using i(1) Suc.prems(1) unat_add_lem[of idx 1] by simp
      then have "length (bids env s1) - unat (idx + 1) < fuel" "length (bids env s1) < 2 ^ 32" using Suc.prems i(1) by (simp_all add: s1)
      from Suc.IH[OF this(2,1)] False r show ?thesis by (simp add: sbind_def s1)
    qed
  qed (use get_bid_converges[of env auction_hashset idx st] in \<open>auto simp: sbind_def\<close>)
qed simp

text \<open>A refund that returns was made after the end of the auction, for a bid in the set that is not the winning one.\<close>

lemma refund_only_losing_bids:
  assumes "refund_bid fuel env invoke b config st = Ret (x, st')" "length (bids env st) < 2 ^ 32" "length (bids env st) < fuel"
  shows "closing_round config < block_of st \<and> hash_opaque env (bid_bytes b) \<in> hash ` set (bids env st) \<and>
     hash_opaque env (bid_bytes b) \<noteq> hash (bids env st ! 0)"
proof -
  let ?h = "hash_opaque env (bid_bytes b)"
  from assms(1) obtain w s1 i s2 s3 where late: "\<not> block_of st \<le> closing_round config" and w: "get_winning_hash env (spend 10000 (spend 10 st)) = Ret (w, s1)" "?h \<noteq> w"
    "sdk_hashset_get_index_of env auction_hashset (bid_amount b) s1 = Ret (i, s2)" "find_bid fuel env ?h i s2 = Ret ((), s3)"
    by (auto simp: refund_bid_def returns split: if_splits)
  from w(1) obtain amt where "sdk_hashset_get_index env auction_hashset 0 (spend 10000 (spend 10 st)) = Ret ((amt, w), s1)"
    by (auto simp: get_winning_hash_def returns)
  from get_bid_returns[OF this] have s1: "w = hash (bids env st ! 0)" "bids env s1 = bids env st" by auto
  from w(3) have "\<exists>g. s2 = touch env (okey s1 auction_hashset) (spend g s1)"
    by (auto simp: sdk_hashset_get_index_of_def returns split: option.splits ObjectBody.splits)
  then have s2: "bids env s2 = bids env st" using s1(2) by auto
  from find_bid_ends[of env s2 i fuel ?h] assms(2,3) w(4) s2 have "?h \<in> hash ` set (bids env st)" by auto
  then show ?thesis using late w(2) s1 by auto
qed

end
