(* ===== verification/CfmmContract.thy ===== *)
theory CfmmContract
  imports MarketContracts
begin

text \<open>
  The constant function market maker (\<open>cpp_contracts/cfmm.cc\<close>): events are collected in the block they are submitted in and executed in
  batches later. Integers keep their width: products of two amounts are computed in 64 bits before they are extended to 128 bits.
  An integer division by zero traps.
\<close>

type_synonym uint128 = "128 word"

section \<open>Data\<close>

record cfmm_config =
  feeToken :: Address
  tokenA :: Address
  tokenB :: Address
  lpshares :: Address

record CFMMState =
  next_round :: uint64
  tokenA_amount :: int64
  tokenB_amount :: int64

definition cfmm_config_bytes :: "cfmm_config \<Rightarrow> byte list" where
  "cfmm_config_bytes c = be_bytes 32 (feeToken c) @ be_bytes 32 (tokenA c) @ be_bytes 32 (tokenB c) @ be_bytes 32 (lpshares c)"

definition cfmm_config_of :: "byte list \<Rightarrow> cfmm_config" where
  "cfmm_config_of bs = \<lparr>feeToken = addr_at 0 bs, tokenA = addr_at 32 bs, tokenB = addr_at 64 bs, lpshares = addr_at 96 bs\<rparr>"

definition cfmm_state_bytes :: "CFMMState \<Rightarrow> byte list" where
  "cfmm_state_bytes s = le_bytes 8 (next_round s) @ le_bytes 8 (tokenA_amount s) @ le_bytes 8 (tokenB_amount s)"

definition cfmm_state_of :: "byte list \<Rightarrow> CFMMState" where
  "cfmm_state_of bs = \<lparr>next_round = u64_at 0 bs, tokenA_amount = i64_at 8 bs, tokenB_amount = i64_at 16 bs\<rparr>"

definition cfmm_config_addr :: InvariantKey where "cfmm_config_addr = make_static_key 0 2 0 0"
definition cfmm_state_key :: InvariantKey where "cfmm_state_key = make_static_key 1 2 0 0"
definition cfmm_semaphore_key :: InvariantKey where "cfmm_semaphore_key = make_static_key 2 2 0 0"

record cfmm_swap =
  seller :: Address
  direction :: bool
  swap_sellAmount :: int64
  minReceive :: int64

record cfmm_deposit =
  depositor :: Address
  depositA :: int64
  depositB :: int64

record cfmm_withdraw =
  withdrawer :: Address
  lp_shares :: int64

text \<open>Structures with padding and a union: the bytes that are not written keep what the memory held before.\<close>

definition poke :: "nat \<Rightarrow> byte list \<Rightarrow> byte list \<Rightarrow> byte list" where
  "poke off bs mem = take off mem @ bs @ drop (off + length bs) mem"

definition swap_bytes :: "byte list \<Rightarrow> cfmm_swap \<Rightarrow> byte list" where
  "swap_bytes pad s = be_bytes 32 (seller s) @ (if direction s then 1 else 0) # pad @ le_bytes 8 (swap_sellAmount s) @ le_bytes 8 (minReceive s)"

definition swap_of :: "byte list \<Rightarrow> cfmm_swap" where
  "swap_of bs = \<lparr>seller = addr_at 0 bs, direction = (bytes_at 32 1 bs \<noteq> [0]), swap_sellAmount = i64_at 40 bs, minReceive = i64_at 48 bs\<rparr>"

definition deposit_bytes :: "cfmm_deposit \<Rightarrow> byte list" where
  "deposit_bytes d = be_bytes 32 (depositor d) @ le_bytes 8 (depositA d) @ le_bytes 8 (depositB d)"

definition deposit_of :: "byte list \<Rightarrow> cfmm_deposit" where
  "deposit_of bs = \<lparr>depositor = addr_at 0 bs, depositA = i64_at 32 bs, depositB = i64_at 40 bs\<rparr>"

definition withdraw_bytes :: "cfmm_withdraw \<Rightarrow> byte list" where
  "withdraw_bytes w = be_bytes 32 (withdrawer w) @ le_bytes 8 (lp_shares w)"

definition withdraw_of :: "byte list \<Rightarrow> cfmm_withdraw" where
  "withdraw_of bs = \<lparr>withdrawer = addr_at 0 bs, lp_shares = i64_at 32 bs\<rparr>"

text \<open>An event takes 80 bytes: the type at 0, the fee at 8, the round at 16 and the union at 24.\<close>

definition event_bytes :: "byte list \<Rightarrow> byte \<Rightarrow> int64 \<Rightarrow> uint64 \<Rightarrow> byte list \<Rightarrow> byte list" where
  "event_bytes mem ty fee rnd obj_bs = poke 16 (le_bytes 8 rnd) (poke 8 (le_bytes 8 fee) (poke 0 [ty] (poke 24 obj_bs mem)))"

section \<open>Operations\<close>

definition overflow_int64 :: "uint64 \<Rightarrow> uint64 \<Rightarrow> bool" where
  "overflow_int64 a b \<longleftrightarrow> uint a + uint b \<ge> 2 ^ 63 - 1"

definition cfmm_load_config :: "('t, 'r) exec_env \<Rightarrow> (nat \<Rightarrow> byte list) \<Rightarrow> ('r, cfmm_config) exec" where
  "cfmm_load_config env junk = sbind (sdk_get_raw_memory env junk cfmm_config_addr 128) (\<lambda>bs. sret (cfmm_config_of bs))"

definition cfmm_write_config :: "('t, 'r) exec_env \<Rightarrow> cfmm_config \<Rightarrow> ('r, unit) exec" where
  "cfmm_write_config env c = sdk_set_raw_memory env cfmm_config_addr (cfmm_config_bytes c)"

definition load_state :: "('t, 'r) exec_env \<Rightarrow> (nat \<Rightarrow> byte list) \<Rightarrow> ('r, CFMMState) exec" where
  "load_state env junk = sbind (sdk_get_raw_memory env junk cfmm_state_key 24) (\<lambda>bs. sret (cfmm_state_of bs))"

definition write_state :: "('t, 'r) exec_env \<Rightarrow> CFMMState \<Rightarrow> ('r, unit) exec" where
  "write_state env s = sdk_set_raw_memory env cfmm_state_key (cfmm_state_bytes s)"

definition get_hs_key_for_round :: "('t, 'r) exec_env \<Rightarrow> uint64 \<Rightarrow> ('r, InvariantKey) exec" where
  "get_hs_key_for_round env round_number = sdk_hash env (le_bytes 8 round_number)"

text \<open>The part that the three kinds of events share: the event is stored under its hash and the fee is paid.\<close>

definition add_event :: "('t, 'r) exec_env \<Rightarrow> (nat \<Rightarrow> byte list) \<Rightarrow> (MethodInvocation \<Rightarrow> ('r, unit) exec) \<Rightarrow> cfmm_config \<Rightarrow> byte \<Rightarrow> byte list \<Rightarrow> int64 \<Rightarrow> ('r, unit) exec" where
  "add_event env junk invoke c ty obj_bs fee_bid =
     sbind sdk_get_block_number (\<lambda>n1.
     sbind (get_hs_key_for_round env n1) (\<lambda>key.
     sbind sdk_get_block_number (\<lambda>n2.
     let e = event_bytes (junk 80) ty fee_bid n2 obj_bs in
     sbind (sdk_hash env e) (\<lambda>h.
     sbind (sdk_hashset_insert env key h fee_bid) (\<lambda>_.
     sbind (sdk_set_raw_memory env h e) (\<lambda>_.
     sbind sdk_get_msg_sender (\<lambda>sender.
     sbind sdk_get_self (\<lambda>self.
       Ierc20_transferFrom invoke (feeToken c) sender self fee_bid))))))))"

definition add_swap :: "('t, 'r) exec_env \<Rightarrow> (nat \<Rightarrow> byte list) \<Rightarrow> (MethodInvocation \<Rightarrow> ('r, unit) exec) \<Rightarrow> cfmm_swap \<Rightarrow> int64 \<Rightarrow> ('r, unit) exec" where
  "add_swap env junk invoke s fee_bid =
     sbind (cfmm_load_config env junk) (\<lambda>c.
     sbind (add_event env junk invoke c 0 (swap_bytes (junk 7) s) fee_bid) (\<lambda>_.
     sbind sdk_get_self (\<lambda>self.
       Ierc20_transferFrom invoke (if direction s then tokenA c else tokenB c) (seller s) self (swap_sellAmount s))))"

definition add_deposit :: "('t, 'r) exec_env \<Rightarrow> (nat \<Rightarrow> byte list) \<Rightarrow> (MethodInvocation \<Rightarrow> ('r, unit) exec) \<Rightarrow> cfmm_deposit \<Rightarrow> int64 \<Rightarrow> ('r, unit) exec" where
  "add_deposit env junk invoke d fee_bid =
     sbind (cfmm_load_config env junk) (\<lambda>c.
     sbind (add_event env junk invoke c 1 (deposit_bytes d) fee_bid) (\<lambda>_.
     sbind sdk_get_self (\<lambda>self1.
     sbind (Ierc20_transferFrom invoke (tokenA c) (depositor d) self1 (depositA d)) (\<lambda>_.
     sbind sdk_get_self (\<lambda>self2.
       Ierc20_transferFrom invoke (tokenA c) (depositor d) self2 (depositB d))))))"

definition add_withdraw :: "('t, 'r) exec_env \<Rightarrow> (nat \<Rightarrow> byte list) \<Rightarrow> (MethodInvocation \<Rightarrow> ('r, unit) exec) \<Rightarrow> cfmm_withdraw \<Rightarrow> int64 \<Rightarrow> ('r, unit) exec" where
  "add_withdraw env junk invoke w fee_bid =
     sbind (cfmm_load_config env junk) (\<lambda>c.
     sbind (add_event env junk invoke c 2 (withdraw_bytes w) fee_bid) (\<lambda>_.
     sbind sdk_get_self (\<lambda>self.
       Ierc20_transferFrom invoke (lpshares c) (withdrawer w) self (lp_shares w))))"

definition refund_swap :: "(MethodInvocation \<Rightarrow> ('r, unit) exec) \<Rightarrow> cfmm_config \<Rightarrow> cfmm_swap \<Rightarrow> ('r, unit) exec" where
  "refund_swap invoke config s =
     sbind sdk_get_self (\<lambda>self.
       Ierc20_transferFrom invoke (if direction s then tokenA config else tokenB config) self (seller s) (swap_sellAmount s))"

definition refund_deposit :: "(MethodInvocation \<Rightarrow> ('r, unit) exec) \<Rightarrow> cfmm_config \<Rightarrow> cfmm_deposit \<Rightarrow> ('r, unit) exec" where
  "refund_deposit invoke config d =
     sbind sdk_get_self (\<lambda>self1.
     sbind (Ierc20_transferFrom invoke (tokenA config) self1 (depositor d) (depositA d)) (\<lambda>_.
     sbind sdk_get_self (\<lambda>self2.
       Ierc20_transferFrom invoke (tokenA config) self2 (depositor d) (depositB d))))"

definition refund_withdraw :: "(MethodInvocation \<Rightarrow> ('r, unit) exec) \<Rightarrow> cfmm_config \<Rightarrow> cfmm_withdraw \<Rightarrow> ('r, unit) exec" where
  "refund_withdraw invoke config w =
     sbind sdk_get_self (\<lambda>self. Ierc20_transferFrom invoke (lpshares config) self (withdrawer w) (lp_shares w))"

text \<open>The state is passed by reference: the new one is returned.\<close>

definition exec_one_swap :: "(MethodInvocation \<Rightarrow> ('r, unit) exec) \<Rightarrow> cfmm_config \<Rightarrow> CFMMState \<Rightarrow> cfmm_swap \<Rightarrow> ('r, CFMMState) exec" where
  "exec_one_swap invoke config s sw =
     (let product = scast (tokenA_amount s * tokenB_amount s) :: uint128;
          buy_token_addr = (if direction sw then tokenB config else tokenA config);
          initial_selltoken = (if direction sw then tokenA_amount s else tokenB_amount s);
          initial_buytoken = (if direction sw then tokenB_amount s else tokenA_amount s)
      in if overflow_int64 initial_selltoken (swap_sellAmount sw) then sbind (refund_swap invoke config sw) (\<lambda>_. sret s)
         else let new_sell = initial_selltoken + swap_sellAmount sw
         in if new_sell = 0 then sabort
            else let new_buy0 = ucast (product div scast new_sell) :: int64;
                     new_buy = (if scast new_buy0 * scast new_sell < product then new_buy0 + 1 else new_buy0);
                     payout = initial_buytoken - new_buy
            in if sint (minReceive sw) \<le> sint payout
               then sbind sdk_get_self (\<lambda>self.
                    sbind (Ierc20_transferFrom invoke buy_token_addr self (seller sw) payout) (\<lambda>_.
                      sret (s\<lparr>tokenA_amount := (if direction sw then new_sell else new_buy),
                              tokenB_amount := (if direction sw then new_buy else new_sell)\<rparr>)))
               else sbind (refund_swap invoke config sw) (\<lambda>_. sret s))"

text \<open>
  The loop of the square root. It stops when the two bounds differ by at most one; \<open>fuel\<close> bounds its rounds, and the second bound
  must not become zero, where the division traps.
\<close>

fun babylonian_loop :: "nat \<Rightarrow> uint128 \<Rightarrow> uint64 \<Rightarrow> uint64 \<Rightarrow> (uint64 \<times> uint64) outcome" where
  "babylonian_loop 0 product r1 r2 = Diverge"
| "babylonian_loop (Suc fuel) product r1 r2 =
     (if max r1 r2 - min r1 r2 > 1
      then let r2' = (r1 + r2) div 2
           in if r2' = 0 then Throw (HostError ''unreachable'') else babylonian_loop fuel product (ucast (product div ucast r2')) r2'
      else Ret (r1, r2))"

definition babylonian_sqrt :: "nat \<Rightarrow> uint128 \<Rightarrow> (uint64 \<times> uint64) outcome" where
  "babylonian_sqrt fuel product = babylonian_loop fuel product 2 (ucast (product div 2))"

definition ub :: "uint64 \<times> uint64 \<Rightarrow> uint64" where
  "ub val = max (fst val) (snd val)"

definition lb :: "uint64 \<times> uint64 \<Rightarrow> uint64" where
  "lb val = min (fst val) (snd val)"

definition exec_one_deposit :: "nat \<Rightarrow> (MethodInvocation \<Rightarrow> ('r, unit) exec) \<Rightarrow> cfmm_config \<Rightarrow> CFMMState \<Rightarrow> cfmm_deposit \<Rightarrow> ('r, CFMMState) exec" where
  "exec_one_deposit fuel invoke config s d =
     (let product = scast (tokenA_amount s * tokenB_amount s) :: uint128
      in sbind (slift (babylonian_sqrt fuel product)) (\<lambda>r.
         let old_liquidity_ub = ub r
         in if overflow_int64 (tokenA_amount s) (depositA d) \<or> overflow_int64 (tokenB_amount s) (depositB d)
            then sbind (refund_deposit invoke config d) (\<lambda>_. sret s)
            else let product2 = scast ((tokenA_amount s + depositA d) * (tokenB_amount s + depositB d)) :: uint128
                 in sbind (slift (babylonian_sqrt fuel product2)) (\<lambda>r'.
                    let new_liquidity_lb = lb r';
                        difference = new_liquidity_lb - old_liquidity_ub
                    in if new_liquidity_lb \<le> old_liquidity_ub \<or> uint difference > 2 ^ 63 - 1
                       then sbind (refund_deposit invoke config d) (\<lambda>_. sret s)
                       else sbind (Ierc20_mint invoke (lpshares config) (depositor d) difference) (\<lambda>_.
                            sret (s\<lparr>tokenA_amount := tokenA_amount s + depositA d, tokenB_amount := tokenB_amount s + depositB d\<rparr>)))))"

text \<open>The comparison of the shares with the liquidity is unsigned; the division by a liquidity of zero traps.\<close>

definition exec_one_withdraw :: "nat \<Rightarrow> (MethodInvocation \<Rightarrow> ('r, unit) exec) \<Rightarrow> cfmm_config \<Rightarrow> CFMMState \<Rightarrow> cfmm_withdraw \<Rightarrow> ('r, CFMMState) exec" where
  "exec_one_withdraw fuel invoke config s w =
     (let product = scast (tokenA_amount s * tokenB_amount s) :: uint128
      in sbind (slift (babylonian_sqrt fuel product)) (\<lambda>r.
         let old_liquidity_ub = ub r
         in if lp_shares w > old_liquidity_ub then sbind (refund_withdraw invoke config w) (\<lambda>_. sret s)
            else if old_liquidity_ub = 0 then sabort
            else let withdrawA = ucast ((scast (tokenA_amount s) * scast (lp_shares w) :: uint128) div ucast old_liquidity_ub) :: int64;
                     withdrawB = ucast ((scast (tokenB_amount s) * scast (lp_shares w) :: uint128) div ucast old_liquidity_ub) :: int64
                 in sbind sdk_get_self (\<lambda>self1.
                    sbind (Ierc20_transferFrom invoke (tokenA config) self1 (withdrawer w) withdrawA) (\<lambda>_.
                    sbind sdk_get_self (\<lambda>self2.
                    sbind (Ierc20_transferFrom invoke (tokenB config) self2 (withdrawer w) withdrawB) (\<lambda>_.
                      sret s))))))"

definition exec_one_event :: "nat \<Rightarrow> (MethodInvocation \<Rightarrow> ('r, unit) exec) \<Rightarrow> cfmm_config \<Rightarrow> CFMMState \<Rightarrow> byte list \<Rightarrow> ('r, CFMMState) exec" where
  "exec_one_event fuel invoke config s e =
     (if bytes_at 0 1 e = [0] then exec_one_swap invoke config s (swap_of (drop 24 e))
      else if bytes_at 0 1 e = [1] then exec_one_deposit fuel invoke config s (deposit_of (drop 24 e))
      else if bytes_at 0 1 e = [2] then exec_one_withdraw fuel invoke config s (withdraw_of (drop 24 e))
      else sabort)"

text \<open>The loop over the events of a round, from the index \<open>i\<close> on.\<close>

fun exec_events :: "nat \<Rightarrow> ('t, 'r) exec_env \<Rightarrow> (nat \<Rightarrow> byte list) \<Rightarrow> (MethodInvocation \<Rightarrow> ('r, unit) exec) \<Rightarrow> cfmm_config \<Rightarrow> InvariantKey \<Rightarrow>
    nat list \<Rightarrow> CFMMState \<Rightarrow> int64 \<Rightarrow> ('r, CFMMState \<times> int64) exec" where
  "exec_events fuel env junk invoke config hs_key [] s fee_acc = sret (s, fee_acc)"
| "exec_events fuel env junk invoke config hs_key (i # is) s fee_acc =
     sbind (sdk_hashset_get_index env hs_key (of_nat i)) (\<lambda>(fee, event_hash).
     sbind (sdk_get_raw_memory env junk event_hash 80) (\<lambda>e.
     sbind (sdk_delete_last env event_hash) (\<lambda>_.
     sbind (exec_one_event fuel invoke config s e) (\<lambda>s'.
       exec_events fuel env junk invoke config hs_key is s' (fee_acc + fee)))))"

definition exec_round :: "nat \<Rightarrow> ('t, 'r) exec_env \<Rightarrow> (nat \<Rightarrow> byte list) \<Rightarrow> (MethodInvocation \<Rightarrow> ('r, unit) exec) \<Rightarrow> cfmm_config \<Rightarrow> uint64 \<Rightarrow> ('r, unit) exec" where
  "exec_round fuel env junk invoke config rnd =
     sbind (load_state env junk) (\<lambda>s0.
     sbind (semaphore_acquire env 1 cfmm_semaphore_key) (\<lambda>_.
       if next_round s0 \<noteq> rnd then sabort
       else sbind (get_hs_key_for_round env rnd) (\<lambda>hs_key.
            sbind (sdk_hashset_get_size env hs_key) (\<lambda>sz.
            let offer_cnt = ucast sz :: uint16 in
            sbind (exec_events fuel env junk invoke config hs_key [0..<unat offer_cnt] (s0\<lparr>next_round := next_round s0 + 1\<rparr>) 0) (\<lambda>(s1, fee_acc).
            sbind sdk_get_self (\<lambda>self.
            sbind sdk_get_msg_sender (\<lambda>sender.
            sbind (Ierc20_transferFrom invoke (feeToken config) self sender fee_acc) (\<lambda>_.
            sbind (write_state env s1) (\<lambda>_.
              sdk_delete_last env hs_key)))))))))"

fun exec_rounds :: "nat \<Rightarrow> ('t, 'r) exec_env \<Rightarrow> (nat \<Rightarrow> byte list) \<Rightarrow> (MethodInvocation \<Rightarrow> ('r, unit) exec) \<Rightarrow> cfmm_config \<Rightarrow> nat list \<Rightarrow> ('r, unit) exec" where
  "exec_rounds fuel env junk invoke config [] = sret ()"
| "exec_rounds fuel env junk invoke config (i # is) =
     sbind (exec_round fuel env junk invoke config (of_nat i)) (\<lambda>_. exec_rounds fuel env junk invoke config is)"

text \<open>The state written by the constructor is never initialised.\<close>

definition cfmm_initialize :: "('t, 'r) exec_env \<Rightarrow> (nat \<Rightarrow> byte list) \<Rightarrow> ('r, unit) exec" where
  "cfmm_initialize env junk =
     sbind (semaphore_acquire env 1 cfmm_semaphore_key) (\<lambda>_.
     sbind (sdk_get_calldata junk 128) (\<lambda>c.
     sbind (cfmm_write_config env (cfmm_config_of c)) (\<lambda>_.
       write_state env (cfmm_state_of (junk 24)))))"

definition pub_swap :: "('t, 'r) exec_env \<Rightarrow> (nat \<Rightarrow> byte list) \<Rightarrow> (MethodInvocation \<Rightarrow> ('r, unit) exec) \<Rightarrow> ('r, unit) exec" where
  "pub_swap env junk invoke =
     sbind (sdk_get_calldata junk 32) (\<lambda>c.
     sbind sdk_get_msg_sender (\<lambda>sender.
       add_swap env junk invoke \<lparr>seller = sender, direction = (bytes_at 0 1 c \<noteq> [0]), swap_sellAmount = i64_at 8 c, minReceive = i64_at 16 c\<rparr> (i64_at 24 c)))"

definition pub_deposit :: "('t, 'r) exec_env \<Rightarrow> (nat \<Rightarrow> byte list) \<Rightarrow> (MethodInvocation \<Rightarrow> ('r, unit) exec) \<Rightarrow> ('r, unit) exec" where
  "pub_deposit env junk invoke =
     sbind (sdk_get_calldata junk 24) (\<lambda>c.
     sbind sdk_get_msg_sender (\<lambda>sender.
       add_deposit env junk invoke \<lparr>depositor = sender, depositA = i64_at 0 c, depositB = i64_at 8 c\<rparr> (i64_at 16 c)))"

definition pub_withdraw :: "('t, 'r) exec_env \<Rightarrow> (nat \<Rightarrow> byte list) \<Rightarrow> (MethodInvocation \<Rightarrow> ('r, unit) exec) \<Rightarrow> ('r, unit) exec" where
  "pub_withdraw env junk invoke =
     sbind (sdk_get_calldata junk 16) (\<lambda>c.
     sbind sdk_get_msg_sender (\<lambda>sender.
       add_withdraw env junk invoke \<lparr>withdrawer = sender, lp_shares = i64_at 0 c\<rparr> (i64_at 8 c)))"

definition cfmm_execute :: "nat \<Rightarrow> ('t, 'r) exec_env \<Rightarrow> (nat \<Rightarrow> byte list) \<Rightarrow> (MethodInvocation \<Rightarrow> ('r, unit) exec) \<Rightarrow> ('r, unit) exec" where
  "cfmm_execute fuel env junk invoke =
     sbind (sdk_get_calldata junk 16) (\<lambda>c.
     sbind sdk_get_block_number (\<lambda>n.
       if u64_at 8 c \<ge> n then sabort
       else sbind (cfmm_load_config env junk) (\<lambda>config.
            exec_rounds fuel env junk invoke config [unat (u64_at 0 c)..<Suc (unat (u64_at 8 c))])))"

definition cfmm_code :: "nat \<Rightarrow> ('t, 'r) exec_env \<Rightarrow> (nat \<Rightarrow> byte list) \<Rightarrow> 'r code" where
  "cfmm_code fuel env junk invoke m =
     (if m = 0 then cfmm_initialize env junk
      else if m = 1 then pub_swap env junk invoke
      else if m = 2 then pub_deposit env junk invoke
      else if m = 3 then pub_withdraw env junk invoke
      else if m = 4 then cfmm_execute fuel env junk invoke
      else no_method)"

section \<open>The product of a swap\<close>

lemma uint_scast_nonneg: "0 \<le> sint w \<Longrightarrow> uint (scast (w :: int64) :: uint128) = sint w"
proof -
  assume "0 \<le> sint w"
  moreover have "sint w < 2 ^ 128" using sint64_bounds(2)[of w] by simp
  ultimately have "take_bit LENGTH(128) (sint w) = sint w" by (intro take_bit_int_eq_self) simp_all
  then show ?thesis by (simp only: scast_eq uint_word_of_int_eq)
qed

lemma sint_of_uint_small: "uint (w :: int64) < 2 ^ 63 \<Longrightarrow> sint w = uint w"
  by (rule sint_eq_uint_small)

text \<open>The new amount of the bought token is the quotient rounded up.\<close>

definition rounded_up :: "uint128 \<Rightarrow> int64 \<Rightarrow> int64" where
  "rounded_up p n =
     (let q = ucast (p div scast n) :: int64 in if scast q * scast n < p then q + 1 else q)"

lemma rounded_up_covers:
  assumes n: "0 < sint n" and p: "uint p < 2 ^ 63"
  shows "0 \<le> sint (rounded_up p n) \<and> uint p \<le> sint (rounded_up p n) * sint n"
proof -
  let ?P = "uint p" and ?N = "sint n" and ?q = "ucast (p div scast n) :: int64"
  have un: "uint (scast n :: uint128) = ?N" using uint_scast_nonneg[of n] n by simp
  have d: "uint (p div scast n) = ?P div ?N" by (simp add: uint_div un)
  have le: "?P div ?N \<le> ?P" "0 \<le> ?P div ?N" using n zdiv_mono2[of ?P 1 ?N] by (simp_all add: pos_imp_zdiv_nonneg_iff)
  then have uq: "uint ?q = ?P div ?N" using p d by (simp add: unsigned_ucast_eq take_bit_int_eq_self)
  then have sq: "sint ?q = ?P div ?N" using sint_of_uint_small[of ?q] le p by simp
  have uq128: "uint (scast ?q :: uint128) = ?P div ?N" using uint_scast_nonneg[of ?q] sq le by simp
  have m: "(?P div ?N) * ?N \<le> ?P" using n by (simp add: div_mult_mod_eq[symmetric] minus_mod_eq_div_mult[symmetric])
  have "(?P div ?N) * ?N < 2 ^ 128" using m p by simp
  then have um: "uint (scast ?q * scast n :: uint128) = (?P div ?N) * ?N"
    using le n by (simp add: uint_word_ariths uq128 un)
  show ?thesis
  proof (cases "(?P div ?N) * ?N < ?P")
    case True
    then have r: "rounded_up p n = ?q + 1" by (simp add: rounded_up_def word_less_def um Let_def)
    have "?P div ?N + 1 \<le> ?P"
    proof (cases "?N = 1")
      case False
      moreover have "0 < ?P" using True le n by (meson le_less_trans mult_nonneg_nonneg less_imp_le)
      ultimately have "?P div ?N < ?P" using n by (intro int_div_less_self) auto
      then show ?thesis by simp
    qed (use True in simp)
    then have "uint (?q + 1) = ?P div ?N + 1" using p le uq by (simp add: uint_word_ariths)
    then have "sint (?q + 1) = ?P div ?N + 1" using sint_of_uint_small[of "?q + 1"] \<open>?P div ?N + 1 \<le> ?P\<close> p by simp
    moreover have "?P \<le> (?P div ?N + 1) * ?N"
    proof -
      have "?P = (?P div ?N) * ?N + ?P mod ?N" by simp
      moreover have "?P mod ?N < ?N" using n by (rule pos_mod_bound)
      ultimately show ?thesis unfolding distrib_right by linarith
    qed
    ultimately show ?thesis using le by (simp add: r)
  next
    case False
    then have "rounded_up p n = ?q" by (simp add: rounded_up_def word_less_def um Let_def)
    then show ?thesis using False m le sq by simp
  qed
qed

lemma exec_one_swap_Ret:
  assumes "exec_one_swap invoke config s sw st = Ret (s', st')"
  shows "s' = s \<or> (let x = (if direction sw then tokenA_amount s else tokenB_amount s);
       y = (if direction sw then tokenB_amount s else tokenA_amount s);
       n = x + swap_sellAmount sw; nb = rounded_up (scast (tokenA_amount s * tokenB_amount s)) n
     in \<not> overflow_int64 x (swap_sellAmount sw) \<and> n \<noteq> 0 \<and> sint (minReceive sw) \<le> sint (y - nb) \<and>
        s' = s\<lparr>tokenA_amount := (if direction sw then n else nb), tokenB_amount := (if direction sw then nb else n)\<rparr>)"
  using assms unfolding exec_one_swap_def rounded_up_def[symmetric] Let_def
  by (auto simp: returns rounded_up_def Let_def split: if_splits)

lemma sint_nonneg_uint: "0 \<le> sint (w :: int64) \<Longrightarrow> uint w = sint w"
  by (rule sint_eq_uint_nonneg)

lemma sint_product:
  fixes a b :: int64
  assumes "0 \<le> sint a" "0 \<le> sint b" "sint a * sint b < 2 ^ 63"
  shows "sint (a * b) = sint a * sint b" "uint (scast (a * b) :: uint128) = sint a * sint b"
proof -
  have "uint (a * b) = sint a * sint b" using assms by (simp add: uint_word_ariths sint_nonneg_uint)
  then show s: "sint (a * b) = sint a * sint b" using sint_of_uint_small[of "a * b"] assms by simp
  show "uint (scast (a * b) :: uint128) = sint a * sint b" using uint_scast_nonneg[of "a * b"] s assms by simp
qed

lemma sint_sum_guarded:
  fixes x d :: int64
  assumes "0 \<le> sint x" "0 \<le> sint d" "\<not> overflow_int64 x d"
  shows "sint (x + d) = sint x + sint d"
proof -
  have "sint x + sint d < 2 ^ 63" using assms by (simp add: overflow_int64_def sint_nonneg_uint)
  then have "uint (x + d) = sint x + sint d" using assms by (simp add: uint_word_ariths sint_nonneg_uint)
  then show ?thesis using sint_of_uint_small[of "x + d"] \<open>sint x + sint d < 2 ^ 63\<close> by simp
qed


text \<open>A sample: with 100 of both tokens, ten of token A buy nine of token B.\<close>

definition pool_sample :: CFMMState where
  "pool_sample = \<lparr>next_round = 0, tokenA_amount = 100, tokenB_amount = 100\<rparr>"

definition trade_sample :: cfmm_swap where
  "trade_sample = \<lparr>seller = 2, direction = True, swap_sellAmount = 10, minReceive = 9\<rparr>"

definition cfmm_config_sample :: cfmm_config where
  "cfmm_config_sample = \<lparr>feeToken = 6, tokenA = 7, tokenB = 8, lpshares = 9\<rparr>"

lemma trade_sample_run:
  "\<exists>st'. exec_one_swap (\<lambda>_. sret ()) cfmm_config_sample pool_sample trade_sample (frame_state [5] 3) =
     Ret (\<lparr>next_round = 0, tokenA_amount = 110, tokenB_amount = 91\<rparr>, st')"
proof -
  let ?s = "spend 50 (frame_state [5] 3)" and ?g = "10000 + of_nat (length (calldata_transferFrom 5 2 9) + 1) * 2 :: uint64"
  have l: "length (calldata_transferFrom 5 2 9) = 72" by (simp add: calldata_transferFrom_def)
  have "ret_of (spend ?g ?s) = []" by (simp add: ret_of_def frame_state_def spend_def transaction_context_new_def)
  then have "sdk_invoke (\<lambda>_. sret ()) 8 1 (calldata_transferFrom 5 2 9) ?s = Ret ((), set_ret [] (spend ?g ?s))"
    by (intro sdk_invoke_run) (simp_all add: l sret_def)
  then show ?thesis
    by (simp add: exec_one_swap_def pool_sample_def trade_sample_def cfmm_config_sample_def overflow_int64_def Ierc20_transferFrom_def contract_run)
qed


end
