(* ===== verification/CompoundContract.thy ===== *)
theory CompoundContract
  imports CfmmContract "HOL-Library.Signed_Division"
begin

text \<open>
  The lending contract (\<open>cpp_contracts/compound.cc\<close>, \<open>compound.h\<close>). Amounts are kept in principal units and turned into present ones by
  two indices that grow with the interest. Integers keep their width: signed 128-bit values are words read with \<open>sint\<close>, their shifts
  are arithmetic, their division rounds towards zero and traps at zero.
\<close>

type_synonym int128 = "128 word"

section \<open>Data\<close>

definition MAX_ASSETS :: byte where "MAX_ASSETS = 15"
definition INDEX_OFFSET :: nat where "INDEX_OFFSET = 48"

definition u8_at :: "nat \<Rightarrow> byte list \<Rightarrow> byte" where
  "u8_at off bs = le_word (take 1 (drop off bs))"

record interest_rate_params =
  supplyRateBase :: uint64
  supplyRateLow :: uint64
  supplyRateHigh :: uint64
  supplyKink :: uint64
  borrowRateBase :: uint64
  borrowRateLow :: uint64
  borrowRateHigh :: uint64
  borrowKink :: uint64

record asset_config =
  asset_addr :: Address
  asset_price :: uint32
  borrowing_frac :: byte
  liquidity_sell_frac :: byte
  liquidity_collateral_frac :: byte
  asset_padding :: "byte list"

record compound_config =
  base_token_addr :: Address
  administrator :: Address
  reserve_target :: uint64
  assets :: "asset_config list"
  active_asset_count :: byte
  storefront_discount :: byte
  cc_padding :: "byte list"
  config_updated_block :: uint64
  interest :: interest_rate_params

record compound_indices =
  base_supply_index :: uint64
  base_borrow_index :: uint64
  last_updated_block :: uint64

definition interest_bytes :: "interest_rate_params \<Rightarrow> byte list" where
  "interest_bytes p = le_bytes 8 (supplyRateBase p) @ le_bytes 8 (supplyRateLow p) @ le_bytes 8 (supplyRateHigh p) @ le_bytes 8 (supplyKink p) @
     le_bytes 8 (borrowRateBase p) @ le_bytes 8 (borrowRateLow p) @ le_bytes 8 (borrowRateHigh p) @ le_bytes 8 (borrowKink p)"

definition interest_of :: "byte list \<Rightarrow> interest_rate_params" where
  "interest_of bs = \<lparr>supplyRateBase = u64_at 0 bs, supplyRateLow = u64_at 8 bs, supplyRateHigh = u64_at 16 bs, supplyKink = u64_at 24 bs,
     borrowRateBase = u64_at 32 bs, borrowRateLow = u64_at 40 bs, borrowRateHigh = u64_at 48 bs, borrowKink = u64_at 56 bs\<rparr>"

definition asset_bytes :: "asset_config \<Rightarrow> byte list" where
  "asset_bytes a = be_bytes 32 (asset_addr a) @ le_bytes 4 (asset_price a) @
     [borrowing_frac a, liquidity_sell_frac a, liquidity_collateral_frac a] @ asset_padding a"

definition asset_of :: "byte list \<Rightarrow> asset_config" where
  "asset_of bs = \<lparr>asset_addr = addr_at 0 bs, asset_price = u32_at 32 bs, borrowing_frac = u8_at 36 bs, liquidity_sell_frac = u8_at 37 bs,
     liquidity_collateral_frac = u8_at 38 bs, asset_padding = bytes_at 39 1 bs\<rparr>"

text \<open>752 bytes: the assets start at 72 and take 40 bytes each.\<close>

definition compound_config_bytes :: "compound_config \<Rightarrow> byte list" where
  "compound_config_bytes c = be_bytes 32 (base_token_addr c) @ be_bytes 32 (administrator c) @ le_bytes 8 (reserve_target c) @
     concat (map asset_bytes (assets c)) @ [active_asset_count c, storefront_discount c] @ cc_padding c @
     le_bytes 8 (config_updated_block c) @ interest_bytes (interest c)"

definition compound_config_of :: "byte list \<Rightarrow> compound_config" where
  "compound_config_of bs = \<lparr>base_token_addr = addr_at 0 bs, administrator = addr_at 32 bs, reserve_target = u64_at 64 bs,
     assets = map (\<lambda>i. asset_of (bytes_at (72 + 40 * i) 40 bs)) [0..<15], active_asset_count = u8_at 672 bs, storefront_discount = u8_at 673 bs,
     cc_padding = bytes_at 674 6 bs, config_updated_block = u64_at 680 bs, interest = interest_of (drop 688 bs)\<rparr>"

definition indices_bytes :: "compound_indices \<Rightarrow> byte list" where
  "indices_bytes ix = le_bytes 8 (base_supply_index ix) @ le_bytes 8 (base_borrow_index ix) @ le_bytes 8 (last_updated_block ix)"

definition indices_of :: "byte list \<Rightarrow> compound_indices" where
  "indices_of bs = \<lparr>base_supply_index = u64_at 0 bs, base_borrow_index = u64_at 8 bs, last_updated_block = u64_at 16 bs\<rparr>"

text \<open>
  An asset is indexed by a byte of the calldata that is not compared with the length of the array: an index past its end reaches the fields
  after it and the memory behind the structure. A write past the structure does not change it.
\<close>

definition config_memory :: "(nat \<Rightarrow> byte list) \<Rightarrow> compound_config \<Rightarrow> byte list" where
  "config_memory junk c = compound_config_bytes c @ junk 10000"

definition asset_at :: "(nat \<Rightarrow> byte list) \<Rightarrow> compound_config \<Rightarrow> byte \<Rightarrow> asset_config" where
  "asset_at junk c i = asset_of (bytes_at (72 + 40 * unat i) 40 (config_memory junk c))"

definition poke_config :: "(nat \<Rightarrow> byte list) \<Rightarrow> nat \<Rightarrow> byte list \<Rightarrow> compound_config \<Rightarrow> compound_config" where
  "poke_config junk off bs c = compound_config_of (take 752 (poke off bs (config_memory junk c)))"

section \<open>Keys\<close>

definition compound_config_addr :: InvariantKey where "compound_config_addr = make_static_key 0 2 0 0"
definition index_addr :: InvariantKey where "index_addr = make_static_key 1 2 0 0"
definition base_supply_addr :: InvariantKey where "base_supply_addr = make_static_key 2 2 0 0"
definition base_borrow_addr :: InvariantKey where "base_borrow_addr = make_static_key 3 2 0 0"
definition base_supply_cap_addr :: InvariantKey where "base_supply_cap_addr = make_static_key 4 2 0 0"
definition base_borrow_cap_addr :: InvariantKey where "base_borrow_cap_addr = make_static_key 5 2 0 0"
definition reserve_target_addr :: InvariantKey where "reserve_target_addr = make_static_key 6 2 0 0"
definition compound_semaphore_key :: InvariantKey where "compound_semaphore_key = make_static_key 7 2 0 0"

definition user_config_addr :: "('t, 'r) exec_env \<Rightarrow> Address \<Rightarrow> ('r, InvariantKey) exec" where
  "user_config_addr env a = sdk_hash env (be_bytes 32 a)"

definition user_asset_addr :: "('t, 'r) exec_env \<Rightarrow> Address \<Rightarrow> byte \<Rightarrow> ('r, InvariantKey) exec" where
  "user_asset_addr env a i = sdk_hash env (be_bytes 32 a @ [i])"

definition user_base_asset_borrow_addr :: "('t, 'r) exec_env \<Rightarrow> Address \<Rightarrow> ('r, InvariantKey) exec" where
  "user_base_asset_borrow_addr env a = sdk_hash env (be_bytes 32 a @ [252])"

definition user_base_asset_borrow_cap_addr :: "('t, 'r) exec_env \<Rightarrow> Address \<Rightarrow> ('r, InvariantKey) exec" where
  "user_base_asset_borrow_cap_addr env a = sdk_hash env (be_bytes 32 a @ [253])"

definition user_base_asset_supply_addr :: "('t, 'r) exec_env \<Rightarrow> Address \<Rightarrow> ('r, InvariantKey) exec" where
  "user_base_asset_supply_addr env a = sdk_hash env (be_bytes 32 a @ [254])"

definition user_borrow_constraint_addr :: "('t, 'r) exec_env \<Rightarrow> Address \<Rightarrow> ('r, InvariantKey) exec" where
  "user_borrow_constraint_addr env a = sdk_hash env (be_bytes 32 a @ [255])"

text \<open>The second sum is an \<open>int\<close> of four bytes.\<close>

definition asset_supply_cap_addr :: "('t, 'r) exec_env \<Rightarrow> byte \<Rightarrow> ('r, InvariantKey) exec" where
  "asset_supply_cap_addr env i = sdk_hash env [i]"

definition asset_for_sale_supply_addr :: "('t, 'r) exec_env \<Rightarrow> byte \<Rightarrow> ('r, InvariantKey) exec" where
  "asset_for_sale_supply_addr env i = sdk_hash env (le_bytes 4 (ucast i + ucast MAX_ASSETS :: uint32))"

section \<open>Values and rates\<close>

definition present_value_supply :: "int64 \<Rightarrow> compound_indices \<Rightarrow> int128" where
  "present_value_supply prin ix = signed_drop_bit INDEX_OFFSET (scast prin * ucast (base_supply_index ix))"

definition present_value_borrow :: "int64 \<Rightarrow> compound_indices \<Rightarrow> int128" where
  "present_value_borrow prin ix = signed_drop_bit INDEX_OFFSET (scast prin * ucast (base_borrow_index ix))"

text \<open>Division of signed 128-bit integers; \<open>None\<close> is the trap.\<close>

definition divide_int128 :: "int128 \<Rightarrow> int128 \<Rightarrow> int128 option" where
  "divide_int128 x y = (if y = 0 then None else Some (word_of_int (sint x sdiv sint y)))"

definition principal_value_supply :: "int64 \<Rightarrow> compound_indices \<Rightarrow> int64 option" where
  "principal_value_supply present ix = map_option ucast (divide_int128 (push_bit INDEX_OFFSET (scast present)) (ucast (base_supply_index ix)))"

definition principal_value_borrow :: "int64 \<Rightarrow> compound_indices \<Rightarrow> int64 option" where
  "principal_value_borrow present ix = map_option ucast (divide_int128 (push_bit INDEX_OFFSET (scast present)) (ucast (base_borrow_index ix)))"

definition get_utilization :: "('t, 'r) exec_env \<Rightarrow> compound_indices \<Rightarrow> ('r, uint64) exec" where
  "get_utilization env ix =
     sbind (sdk_int64_get env base_borrow_addr) (\<lambda>b.
     sbind (sdk_int64_get env base_supply_addr) (\<lambda>s.
     let borrow = present_value_borrow b ix; supply = present_value_supply s ix
     in if supply = 0 then sret 0 else case divide_int128 (push_bit 32 borrow) supply of None \<Rightarrow> sabort | Some q \<Rightarrow> sret (ucast q)))"

definition get_supply_rate :: "uint64 \<Rightarrow> interest_rate_params \<Rightarrow> uint64" where
  "get_supply_rate utilization p =
     (if utilization < supplyKink p
      then ucast (drop_bit 32 (push_bit 32 (ucast (supplyRateBase p)) + ucast utilization * ucast (supplyRateLow p) :: uint128))
      else ucast (drop_bit 32 (push_bit 32 (ucast (supplyRateBase p)) + ucast (supplyKink p) * ucast (supplyRateLow p) +
             ucast (utilization - supplyKink p) * ucast (supplyRateHigh p) :: uint128)))"

text \<open>The borrow rate compares with the kink of the supply rate.\<close>

definition get_borrow_rate :: "uint64 \<Rightarrow> interest_rate_params \<Rightarrow> uint64" where
  "get_borrow_rate utilization p =
     (if utilization < supplyKink p
      then ucast (drop_bit 32 (push_bit 32 (ucast (borrowRateBase p)) + ucast utilization * ucast (borrowRateLow p) :: uint128))
      else ucast (drop_bit 32 (push_bit 32 (ucast (borrowRateBase p)) + ucast (borrowKink p) * ucast (borrowRateLow p) +
             ucast (utilization - borrowKink p) * ucast (borrowRateHigh p) :: uint128)))"

definition grow_index :: "uint64 \<Rightarrow> uint64 \<Rightarrow> uint64 \<Rightarrow> uint64" where
  "grow_index i rate elapsed = ucast (ucast i + drop_bit INDEX_OFFSET (ucast i * ucast rate * ucast elapsed) :: uint128)"

text \<open>The two comparisons that bound the reserve, as written.\<close>

definition reserve_bounds :: "int128 \<Rightarrow> int128" where
  "reserve_bounds b =
     (let b1 = (if sint b < 2 ^ 63 - 1 then 2 ^ 63 - 1 else b)
      in if sint b1 > - (2 ^ 63) then - (2 ^ 63) else b1)"

definition refresh_compound_indices :: "('t, 'r) exec_env \<Rightarrow> (nat \<Rightarrow> byte list) \<Rightarrow> (MethodInvocation \<Rightarrow> ('r, unit) exec) \<Rightarrow> compound_config \<Rightarrow> ('r, compound_indices) exec" where
  "refresh_compound_indices env junk invoke config =
     sbind (sdk_get_raw_memory env junk index_addr 24) (\<lambda>bs.
     let ix = indices_of bs in
     sbind sdk_get_block_number (\<lambda>n1.
       if last_updated_block ix = n1 then sret ix
       else sbind sdk_get_block_number (\<lambda>n2.
            if config_updated_block config = n2 then sabort
            else sbind sdk_get_block_number (\<lambda>n3.
                 let elapsed = n3 - last_updated_block ix in
                 sbind sdk_get_block_number (\<lambda>n4.
                 let ix1 = ix\<lparr>last_updated_block := n4\<rparr> in
                 sbind (get_utilization env ix1) (\<lambda>u.
                 let utilization = ucast (ucast u :: uint32) :: uint64;
                     ix2 = ix1\<lparr>base_supply_index := grow_index (base_supply_index ix1) (get_supply_rate utilization (interest config)) elapsed\<rparr>;
                     ix3 = ix2\<lparr>base_borrow_index := grow_index (base_borrow_index ix2) (get_borrow_rate utilization (interest config)) elapsed\<rparr> in
                 sbind sdk_get_self (\<lambda>self.
                 sbind (Ierc20_balanceOf invoke (base_token_addr config) self) (\<lambda>bal.
                 sbind (sdk_int64_get env base_borrow_addr) (\<lambda>b.
                 sbind (sdk_int64_get env base_supply_addr) (\<lambda>s.
                 let balance1 = scast bal + (present_value_borrow b ix3 - present_value_supply s ix3);
                     balance2 = ucast (reserve_target config) - balance1 in
                 sbind (sdk_int64_set_add env reserve_target_addr (ucast (reserve_bounds balance2)) 0) (\<lambda>_.
                 sbind (sdk_set_raw_memory env index_addr (indices_bytes ix3)) (\<lambda>_.
                   sret ix3))))))))))))"

definition compound_write_config :: "('t, 'r) exec_env \<Rightarrow> compound_config \<Rightarrow> ('r, unit) exec" where
  "compound_write_config env config =
     sbind sdk_get_block_number (\<lambda>n. sdk_set_raw_memory env compound_config_addr (compound_config_bytes (config\<lparr>config_updated_block := n\<rparr>)))"

definition compound_get_config :: "('t, 'r) exec_env \<Rightarrow> (nat \<Rightarrow> byte list) \<Rightarrow> ('r, compound_config) exec" where
  "compound_get_config env junk = sbind (sdk_get_raw_memory env junk compound_config_addr 752) (\<lambda>bs. sret (compound_config_of bs))"

section \<open>Constraints of users\<close>

definition clamp_int64 :: "int128 \<Rightarrow> int64" where
  "clamp_int64 x = (if sint x > 2 ^ 63 - 1 then 2 ^ 63 - 1 else if sint x < - (2 ^ 63) then - (2 ^ 63) else ucast x)"

text \<open>The loop over the assets of a user; \<open>frac\<close> is the fraction of an asset that counts.\<close>

fun add_assets :: "('t, 'r) exec_env \<Rightarrow> compound_config \<Rightarrow> Address \<Rightarrow> (asset_config \<Rightarrow> byte) \<Rightarrow> nat list \<Rightarrow> int128 \<Rightarrow> ('r, int128) exec" where
  "add_assets env config user frac [] base = sret base"
| "add_assets env config user frac (i # is) base =
     sbind (user_asset_addr env user (of_nat i)) (\<lambda>k.
     sbind (sdk_int64_get env k) (\<lambda>v.
     let balance = scast (v * ucast (frac (assets config ! i)) :: int64) :: int128 in
       add_assets env config user frac is (base + signed_drop_bit 8 (balance * ucast (asset_price (assets config ! i))))))"

definition user_base_value :: "('t, 'r) exec_env \<Rightarrow> Address \<Rightarrow> compound_indices \<Rightarrow> ('r, int128) exec" where
  "user_base_value env user ix =
     sbind (user_base_asset_borrow_addr env user) (\<lambda>k1.
     sbind (sdk_int64_get env k1) (\<lambda>b.
     sbind (user_base_asset_supply_addr env user) (\<lambda>k2.
     sbind (sdk_int64_get env k2) (\<lambda>s. sret (- present_value_borrow b ix + present_value_supply s ix)))))"

definition compute_user_borrow_constraint_base :: "('t, 'r) exec_env \<Rightarrow> Address \<Rightarrow> compound_config \<Rightarrow> compound_indices \<Rightarrow> ('r, int64) exec" where
  "compute_user_borrow_constraint_base env user config ix =
     sbind (user_base_value env user ix) (\<lambda>base.
     sbind (add_assets env config user borrowing_frac [0..<unat MAX_ASSETS] base) (\<lambda>base'. sret (clamp_int64 base')))"

definition compute_user_borrow_constraint_delta :: "(nat \<Rightarrow> byte list) \<Rightarrow> byte \<Rightarrow> int64 \<Rightarrow> compound_config \<Rightarrow> int64" where
  "compute_user_borrow_constraint_delta junk i amount config =
     clamp_int64 (signed_drop_bit 8 (ucast (borrowing_frac (asset_at junk config i)) * scast amount * ucast (asset_price (asset_at junk config i))))"

definition compute_user_borrow_base_constraint_delta :: "int64 \<Rightarrow> int64" where
  "compute_user_borrow_base_constraint_delta amount = amount"

definition set_base_user_borrow_constraint :: "('t, 'r) exec_env \<Rightarrow> (nat \<Rightarrow> byte list) \<Rightarrow> Address \<Rightarrow> compound_config \<Rightarrow> compound_indices \<Rightarrow> ('r, unit) exec" where
  "set_base_user_borrow_constraint env junk user config ix =
     sbind (user_config_addr env user) (\<lambda>key.
     sbind (sdk_get_raw_memory env junk key 8) (\<lambda>u_conf.
     sbind sdk_get_block_number (\<lambda>n1.
       if u64_at 0 u_conf = n1 then sret ()
       else sbind sdk_get_block_number (\<lambda>n2.
            sbind (sdk_set_raw_memory env key (le_bytes 8 n2)) (\<lambda>_.
            sbind (compute_user_borrow_constraint_base env user config ix) (\<lambda>base_constraint.
            sbind (user_borrow_constraint_addr env user) (\<lambda>k. sdk_int64_set_add env k base_constraint 0)))))))"

definition adjust_user_borrow_constraint :: "('t, 'r) exec_env \<Rightarrow> (nat \<Rightarrow> byte list) \<Rightarrow> Address \<Rightarrow> byte \<Rightarrow> int64 \<Rightarrow> compound_config \<Rightarrow> ('r, unit) exec" where
  "adjust_user_borrow_constraint env junk user i amount config =
     sbind (user_borrow_constraint_addr env user) (\<lambda>k. sdk_int64_add env k (compute_user_borrow_constraint_delta junk i amount config))"

definition adjust_user_borrow_base_constraint :: "('t, 'r) exec_env \<Rightarrow> Address \<Rightarrow> int64 \<Rightarrow> ('r, unit) exec" where
  "adjust_user_borrow_base_constraint env user amount =
     sbind (user_borrow_constraint_addr env user) (\<lambda>k. sdk_int64_add env k (compute_user_borrow_base_constraint_delta amount))"

definition user_adjust_borrow :: "('t, 'r) exec_env \<Rightarrow> Address \<Rightarrow> int64 \<Rightarrow> compound_indices \<Rightarrow> ('r, unit) exec" where
  "user_adjust_borrow env a amount ix =
     (case principal_value_borrow amount ix of None \<Rightarrow> sabort
      | Some prin \<Rightarrow>
          sbind (user_base_asset_borrow_addr env a) (\<lambda>k1.
          sbind (sdk_int64_add env k1 prin) (\<lambda>_.
          sbind (user_base_asset_borrow_cap_addr env a) (\<lambda>cap_key.
          sbind (sdk_has_key env cap_key) (\<lambda>b.
          sbind (if \<not> b then sdk_int64_set env cap_key (2 ^ 63 - 1) else sret ()) (\<lambda>_.
          sbind (sdk_int64_add env cap_key (- prin)) (\<lambda>_.
          sbind (adjust_user_borrow_base_constraint env a (- amount)) (\<lambda>_.
          sbind (sdk_int64_add env base_borrow_addr prin) (\<lambda>_.
            sdk_int64_add env base_borrow_cap_addr (- prin))))))))))"

definition user_adjust_supply :: "('t, 'r) exec_env \<Rightarrow> Address \<Rightarrow> int64 \<Rightarrow> compound_indices \<Rightarrow> bool \<Rightarrow> ('r, unit) exec" where
  "user_adjust_supply env a amount ix adjust_borrow_constraint =
     (case principal_value_supply amount ix of None \<Rightarrow> sabort
      | Some prin \<Rightarrow>
          sbind (user_base_asset_supply_addr env a) (\<lambda>k1.
          sbind (sdk_int64_add env k1 prin) (\<lambda>_.
          sbind (if adjust_borrow_constraint then adjust_user_borrow_base_constraint env a amount else sret ()) (\<lambda>_.
          sbind (sdk_int64_add env base_supply_addr prin) (\<lambda>_.
            sdk_int64_add env base_supply_cap_addr (- prin))))))"

section \<open>Operations\<close>

definition adjust_supply_cap :: "('t, 'r) exec_env \<Rightarrow> byte \<Rightarrow> int64 \<Rightarrow> ('r, unit) exec" where
  "adjust_supply_cap env i amount = sbind (asset_supply_cap_addr env i) (\<lambda>k. sdk_int64_add env k amount)"

definition set_prices :: "uint32 list \<Rightarrow> compound_config \<Rightarrow> compound_config" where
  "set_prices prices config = config\<lparr>assets := map2 (\<lambda>a p. a\<lparr>asset_price := p\<rparr>) (assets config) prices\<rparr>"

definition update_prices :: "('t, 'r) exec_env \<Rightarrow> (nat \<Rightarrow> byte list) \<Rightarrow> uint32 list \<Rightarrow> ('r, unit) exec" where
  "update_prices env junk prices = sbind (compound_get_config env junk) (\<lambda>config. compound_write_config env (set_prices prices config))"

definition is_liquidatable :: "('t, 'r) exec_env \<Rightarrow> Address \<Rightarrow> compound_config \<Rightarrow> compound_indices \<Rightarrow> ('r, bool) exec" where
  "is_liquidatable env user config ix =
     sbind (user_base_value env user ix) (\<lambda>base.
     sbind (add_assets env config user liquidity_collateral_frac [0..<unat MAX_ASSETS] base) (\<lambda>base'. sret (sint base' < 0)))"

text \<open>The loop that seizes the assets of an account.\<close>

fun seize_assets :: "('t, 'r) exec_env \<Rightarrow> compound_config \<Rightarrow> Address \<Rightarrow> nat list \<Rightarrow> int64 \<Rightarrow> ('r, int64) exec" where
  "seize_assets env config account [] balance_add = sret balance_add"
| "seize_assets env config account (i # is) balance_add =
     sbind (user_asset_addr env account (of_nat i)) (\<lambda>k1.
     sbind (sdk_int64_get env k1) (\<lambda>seized.
     sbind (sdk_int64_add env k1 (- seized)) (\<lambda>_.
     sbind (asset_for_sale_supply_addr env (of_nat i)) (\<lambda>k2.
     sbind (sdk_int64_add env k2 seized) (\<lambda>_.
     let payment = ucast (signed_drop_bit 16 (scast seized * ucast (asset_price (assets config ! i)) * ucast (liquidity_sell_frac (assets config ! i)) :: int128)) :: int64 in
     sbind (asset_supply_cap_addr env (of_nat i)) (\<lambda>k3.
     sbind (sdk_int64_add env k3 (- seized)) (\<lambda>_.
       seize_assets env config account is (balance_add + payment))))))))"

definition absorb_account :: "('t, 'r) exec_env \<Rightarrow> (nat \<Rightarrow> byte list) \<Rightarrow> Address \<Rightarrow> compound_config \<Rightarrow> compound_indices \<Rightarrow> ('r, unit) exec" where
  "absorb_account env junk account config ix =
     sbind (is_liquidatable env account config ix) (\<lambda>b.
       if \<not> b then sabort
       else sbind (set_base_user_borrow_constraint env junk account config ix) (\<lambda>_.
            sbind (seize_assets env config account [0..<unat MAX_ASSETS] 0) (\<lambda>balance_add.
            sbind (user_adjust_supply env account balance_add ix False) (\<lambda>_.
              sdk_int64_add env reserve_target_addr (- balance_add)))))"

text \<open>\<open>None\<close> is the division by a price of zero.\<close>

definition quote_collateral :: "(nat \<Rightarrow> byte list) \<Rightarrow> uint64 \<Rightarrow> byte \<Rightarrow> compound_config \<Rightarrow> uint64 option" where
  "quote_collateral junk base_amount i config =
     (let a = asset_at junk config i;
          discount = 2 ^ 16 - ucast (storefront_discount config) * (2 ^ 8 - ucast (liquidity_sell_frac a)) :: uint64;
          sell_price = drop_bit 16 (ucast (asset_price a) * ucast discount) :: uint128
      in if sell_price = 0 then None else Some (ucast (drop_bit 48 (push_bit 64 (ucast base_amount) div sell_price))))"

definition buy_collateral :: "('t, 'r) exec_env \<Rightarrow> (nat \<Rightarrow> byte list) \<Rightarrow> (MethodInvocation \<Rightarrow> ('r, unit) exec) \<Rightarrow>
    Address \<Rightarrow> byte \<Rightarrow> uint64 \<Rightarrow> uint64 \<Rightarrow> compound_config \<Rightarrow> ('r, unit) exec" where
  "buy_collateral env junk invoke account i base_amount min_recv config =
     (case quote_collateral junk base_amount i config of None \<Rightarrow> sabort
      | Some recv_amt \<Rightarrow>
          if recv_amt < min_recv then sabort
          else sbind (asset_for_sale_supply_addr env i) (\<lambda>k.
               sbind (sdk_int64_add env k (- recv_amt)) (\<lambda>_.
               sbind sdk_get_self (\<lambda>self1.
               sbind (Ierc20_transferFrom invoke (asset_addr (asset_at junk config i)) self1 account recv_amt) (\<lambda>_.
               sbind sdk_get_self (\<lambda>self2.
               sbind (Ierc20_transferFrom invoke (base_token_addr config) account self2 base_amount) (\<lambda>_.
                 sdk_int64_add env reserve_target_addr base_amount)))))))"

definition transfer_asset :: "('t, 'r) exec_env \<Rightarrow> (nat \<Rightarrow> byte list) \<Rightarrow> Address \<Rightarrow> Address \<Rightarrow> byte \<Rightarrow> int64 \<Rightarrow> compound_config \<Rightarrow> compound_indices \<Rightarrow> ('r, unit) exec" where
  "transfer_asset env junk payer payee i amount config ix =
     (if sint amount < 0 then sabort
      else sbind (set_base_user_borrow_constraint env junk payer config ix) (\<lambda>_.
           sbind (set_base_user_borrow_constraint env junk payee config ix) (\<lambda>_.
           sbind (adjust_user_borrow_constraint env junk payer i (- amount) config) (\<lambda>_.
           sbind (adjust_user_borrow_constraint env junk payee i amount config) (\<lambda>_.
           sbind (user_asset_addr env payer i) (\<lambda>k1.
           sbind (sdk_int64_add env k1 (- amount)) (\<lambda>_.
           sbind (user_asset_addr env payee i) (\<lambda>k2. sdk_int64_add env k2 amount))))))))"

text \<open>With both amounts nonnegative, the difference does not wrap.\<close>

definition pos_quantity_add_overflow :: "int64 \<Rightarrow> int64 \<Rightarrow> ('r, unit) exec" where
  "pos_quantity_add_overflow a b =
     (if sint a < 0 \<or> sint b < 0 then sabort else if sint (2 ^ 63 - 1 - a - b) < 0 then sabort else sret ())"

definition transfer_base :: "('t, 'r) exec_env \<Rightarrow> (nat \<Rightarrow> byte list) \<Rightarrow> Address \<Rightarrow> Address \<Rightarrow> int64 \<Rightarrow> int64 \<Rightarrow> compound_config \<Rightarrow> compound_indices \<Rightarrow> ('r, unit) exec" where
  "transfer_base env junk payer payee from_borrow from_supply config ix =
     sbind (pos_quantity_add_overflow from_borrow from_supply) (\<lambda>_.
     sbind (set_base_user_borrow_constraint env junk payer config ix) (\<lambda>_.
     sbind (set_base_user_borrow_constraint env junk payee config ix) (\<lambda>_.
     sbind (user_adjust_borrow env payer from_borrow ix) (\<lambda>_.
     sbind (user_adjust_supply env payer (- from_supply) ix True) (\<lambda>_.
       user_adjust_supply env payee (from_borrow + from_supply) ix True)))))"

definition normalize_account :: "('t, 'r) exec_env \<Rightarrow> Address \<Rightarrow> int64 \<Rightarrow> compound_indices \<Rightarrow> ('r, unit) exec" where
  "normalize_account env a amount ix =
     sbind (user_adjust_borrow env a (- amount) ix) (\<lambda>_. user_adjust_supply env a (- amount) ix True)"

definition withdraw_base :: "('t, 'r) exec_env \<Rightarrow> (nat \<Rightarrow> byte list) \<Rightarrow> (MethodInvocation \<Rightarrow> ('r, unit) exec) \<Rightarrow>
    Address \<Rightarrow> Address \<Rightarrow> int64 \<Rightarrow> int64 \<Rightarrow> compound_config \<Rightarrow> compound_indices \<Rightarrow> ('r, unit) exec" where
  "withdraw_base env junk invoke payer payee borrow_amount supply_amount config ix =
     sbind (pos_quantity_add_overflow borrow_amount supply_amount) (\<lambda>_.
     sbind (set_base_user_borrow_constraint env junk payer config ix) (\<lambda>_.
     sbind (user_adjust_borrow env payer borrow_amount ix) (\<lambda>_.
     sbind (user_adjust_supply env payer (- supply_amount) ix True) (\<lambda>_.
     sbind sdk_get_self (\<lambda>self.
       Ierc20_transferFrom invoke (base_token_addr config) self payee (borrow_amount + supply_amount))))))"

definition withdraw_asset :: "('t, 'r) exec_env \<Rightarrow> (nat \<Rightarrow> byte list) \<Rightarrow> (MethodInvocation \<Rightarrow> ('r, unit) exec) \<Rightarrow>
    Address \<Rightarrow> Address \<Rightarrow> byte \<Rightarrow> int64 \<Rightarrow> compound_config \<Rightarrow> compound_indices \<Rightarrow> ('r, unit) exec" where
  "withdraw_asset env junk invoke payer payee i amount config ix =
     (if sint amount < 0 then sabort
      else sbind (set_base_user_borrow_constraint env junk payer config ix) (\<lambda>_.
           sbind (adjust_user_borrow_constraint env junk payer i (- amount) config) (\<lambda>_.
           sbind (user_asset_addr env payer i) (\<lambda>asset_key.
           sbind (sdk_int64_add env asset_key (- amount)) (\<lambda>_.
           sbind (adjust_supply_cap env i amount) (\<lambda>_.
           sbind sdk_get_self (\<lambda>self.
             Ierc20_transferFrom invoke (asset_addr (asset_at junk config i)) self payee amount)))))))"

definition supply_base :: "('t, 'r) exec_env \<Rightarrow> (nat \<Rightarrow> byte list) \<Rightarrow> (MethodInvocation \<Rightarrow> ('r, unit) exec) \<Rightarrow>
    Address \<Rightarrow> Address \<Rightarrow> int64 \<Rightarrow> int64 \<Rightarrow> compound_config \<Rightarrow> compound_indices \<Rightarrow> ('r, unit) exec" where
  "supply_base env junk invoke payer payee borrow_amount supply_amount config ix =
     sbind (pos_quantity_add_overflow borrow_amount supply_amount) (\<lambda>_.
     sbind (set_base_user_borrow_constraint env junk payee config ix) (\<lambda>_.
     sbind (user_adjust_borrow env payer (- borrow_amount) ix) (\<lambda>_.
     sbind (user_adjust_supply env payer supply_amount ix True) (\<lambda>_.
     sbind sdk_get_self (\<lambda>self.
       Ierc20_transferFrom invoke (base_token_addr config) payer self (borrow_amount + supply_amount))))))"

definition supply_asset :: "('t, 'r) exec_env \<Rightarrow> (nat \<Rightarrow> byte list) \<Rightarrow> (MethodInvocation \<Rightarrow> ('r, unit) exec) \<Rightarrow>
    Address \<Rightarrow> Address \<Rightarrow> byte \<Rightarrow> int64 \<Rightarrow> compound_config \<Rightarrow> compound_indices \<Rightarrow> ('r, unit) exec" where
  "supply_asset env junk invoke payer payee i amount config ix =
     (if sint amount < 0 then sabort
      else sbind (set_base_user_borrow_constraint env junk payee config ix) (\<lambda>_.
           sbind (adjust_user_borrow_constraint env junk payee i amount config) (\<lambda>_.
           sbind (user_asset_addr env payee i) (\<lambda>asset_key.
           sbind (sdk_int64_add env asset_key amount) (\<lambda>_.
           sbind (adjust_supply_cap env i (- amount)) (\<lambda>_.
           sbind sdk_get_self (\<lambda>self.
             Ierc20_transferFrom invoke (asset_addr (asset_at junk config i)) payer self amount)))))))"

definition require_administrator :: "compound_config \<Rightarrow> ('r, unit) exec" where
  "require_administrator config = sbind sdk_get_msg_sender (\<lambda>sender. if sender \<noteq> administrator config then sabort else sret ())"

section \<open>Exported methods\<close>

text \<open>The configuration the constructor writes is initialised in three fields only.\<close>

definition compound_initialize :: "('t, 'r) exec_env \<Rightarrow> (nat \<Rightarrow> byte list) \<Rightarrow> ('r, unit) exec" where
  "compound_initialize env junk =
     sbind (semaphore_acquire env 1 compound_semaphore_key) (\<lambda>_.
     sbind (sdk_has_key env compound_config_addr) (\<lambda>b.
       if b then sabort
       else sbind (sdk_get_calldata junk 64) (\<lambda>c.
            let config = (compound_config_of (junk 752))\<lparr>base_token_addr := addr_at 0 c, administrator := addr_at 32 c, storefront_discount := 255\<rparr> in
            sbind (sdk_int64_set env base_supply_cap_addr (2 ^ 63 - 1)) (\<lambda>_.
            sbind (sdk_int64_set env base_borrow_cap_addr (2 ^ 63 - 1)) (\<lambda>_.
              compound_write_config env config)))))"

definition compound_admin :: "('t, 'r) exec_env \<Rightarrow> (nat \<Rightarrow> byte list) \<Rightarrow> ('r, unit) exec" where
  "compound_admin env junk =
     sbind (sdk_get_calldata junk 80) (\<lambda>c.
     sbind (compound_get_config env junk) (\<lambda>config.
     sbind (require_administrator config) (\<lambda>_.
       compound_write_config env (config\<lparr>reserve_target := u64_at 0 c, storefront_discount := u8_at 8 c, interest := interest_of (drop 16 c)\<rparr>))))"

definition list_asset :: "('t, 'r) exec_env \<Rightarrow> (nat \<Rightarrow> byte list) \<Rightarrow> ('r, unit) exec" where
  "list_asset env junk =
     sbind (sdk_get_calldata junk 32) (\<lambda>c.
     sbind (compound_get_config env junk) (\<lambda>config.
     sbind (require_administrator config) (\<lambda>_.
     let n = active_asset_count config in
       if n = MAX_ASSETS then sabort
       else compound_write_config env
              (poke_config junk (72 + 40 * unat n) (be_bytes 32 (addr_at 0 c) @ le_bytes 4 (0 :: uint32) @ [0, 0, 0]) (config\<lparr>active_asset_count := n + 1\<rparr>)))))"

text \<open>The guard admits an index that is not yet listed and rejects the listed ones.\<close>

definition update_asset_params :: "('t, 'r) exec_env \<Rightarrow> (nat \<Rightarrow> byte list) \<Rightarrow> ('r, unit) exec" where
  "update_asset_params env junk =
     sbind (sdk_get_calldata junk 4) (\<lambda>c.
     sbind (compound_get_config env junk) (\<lambda>config.
     sbind (require_administrator config) (\<lambda>_.
       if active_asset_count config \<ge> u8_at 0 c then sabort
       else compound_write_config env (poke_config junk (72 + 40 * unat (u8_at 0 c) + 36) [u8_at 1 c, u8_at 2 c, u8_at 3 c] config))))"

definition pub_update_prices :: "('t, 'r) exec_env \<Rightarrow> (nat \<Rightarrow> byte list) \<Rightarrow> ('r, unit) exec" where
  "pub_update_prices env junk =
     sbind (sdk_get_calldata junk 60) (\<lambda>c.
     sbind (compound_get_config env junk) (\<lambda>config.
     sbind (require_administrator config) (\<lambda>_.
       compound_write_config env (set_prices (map (\<lambda>i. u32_at (4 * i) c) [0..<15]) config))))"

definition pub_adjust_supply_cap :: "('t, 'r) exec_env \<Rightarrow> (nat \<Rightarrow> byte list) \<Rightarrow> ('r, unit) exec" where
  "pub_adjust_supply_cap env junk =
     sbind (sdk_get_calldata junk 16) (\<lambda>c.
     sbind (compound_get_config env junk) (\<lambda>config.
     sbind (require_administrator config) (\<lambda>_. adjust_supply_cap env (u8_at 0 c) (i64_at 8 c))))"

text \<open>The methods of users start alike: calldata, configuration, indices. \<open>f\<close> is the rest.\<close>

definition user_method :: "('t, 'r) exec_env \<Rightarrow> (nat \<Rightarrow> byte list) \<Rightarrow> (MethodInvocation \<Rightarrow> ('r, unit) exec) \<Rightarrow> nat \<Rightarrow>
    (byte list \<Rightarrow> compound_config \<Rightarrow> compound_indices \<Rightarrow> ('r, unit) exec) \<Rightarrow> ('r, unit) exec" where
  "user_method env junk invoke sz f =
     sbind (sdk_get_calldata junk sz) (\<lambda>c.
     sbind (compound_get_config env junk) (\<lambda>config.
     sbind (refresh_compound_indices env junk invoke config) (\<lambda>ix. f c config ix)))"

definition as_sender :: "(Address \<Rightarrow> ('r, unit) exec) \<Rightarrow> ('r, unit) exec" where
  "as_sender f = sbind sdk_get_msg_sender f"

definition compound_code :: "('t, 'r) exec_env \<Rightarrow> (nat \<Rightarrow> byte list) \<Rightarrow> 'r code" where
  "compound_code env junk invoke m =
     (if m = 0 then compound_initialize env junk
      else if m = 1 then compound_admin env junk
      else if m = 2 then list_asset env junk
      else if m = 3 then update_asset_params env junk
      else if m = 4 then pub_update_prices env junk
      else if m = 5 then pub_adjust_supply_cap env junk
      else if m = 6 then user_method env junk invoke 48 (\<lambda>c config ix. as_sender (\<lambda>s. transfer_asset env junk s (addr_at 16 c) (u8_at 0 c) (i64_at 8 c) config ix))
      else if m = 7 then user_method env junk invoke 48 (\<lambda>c config ix. as_sender (\<lambda>s. transfer_base env junk s (addr_at 16 c) (i64_at 0 c) (i64_at 8 c) config ix))
      else if m = 8 then user_method env junk invoke 48 (\<lambda>c config ix. as_sender (\<lambda>s. supply_asset env junk invoke s (addr_at 16 c) (u8_at 0 c) (i64_at 8 c) config ix))
      else if m = 9 then user_method env junk invoke 48 (\<lambda>c config ix. as_sender (\<lambda>s. supply_base env junk invoke s (addr_at 16 c) (i64_at 0 c) (i64_at 8 c) config ix))
      else if m = 10 then user_method env junk invoke 48 (\<lambda>c config ix. as_sender (\<lambda>s. withdraw_asset env junk invoke s (addr_at 16 c) (u8_at 0 c) (i64_at 8 c) config ix))
      else if m = 11 then user_method env junk invoke 48 (\<lambda>c config ix. as_sender (\<lambda>s. withdraw_base env junk invoke s (addr_at 16 c) (i64_at 0 c) (i64_at 8 c) config ix))
      else if m = 12 then user_method env junk invoke 8 (\<lambda>c config ix. as_sender (\<lambda>s. normalize_account env s (i64_at 0 c) ix))
      else if m = 13 then user_method env junk invoke 32 (\<lambda>c config ix. absorb_account env junk (addr_at 0 c) config ix)
      else if m = 14 then user_method env junk invoke 24 (\<lambda>c config ix. as_sender (\<lambda>s. buy_collateral env junk invoke s (u8_at 0 c) (u64_at 8 c) (u64_at 16 c) config))
      else no_method)"

section \<open>The configuration survives storage\<close>

definition compound_wf :: "compound_config \<Rightarrow> bool" where
  "compound_wf c \<longleftrightarrow> length (assets c) = 15 \<and> (\<forall>a \<in> set (assets c). length (asset_padding a) = 1) \<and> length (cc_padding c) = 6"

lemma le_word_byte [simp]: "le_word [b] = (b :: byte)"
  by (simp add: le_word_def be_word_def be_step_def)

lemma asset_roundtrip [simp]:
  "length (asset_padding a) = 1 \<Longrightarrow> asset_of (asset_bytes a) = a" "length (asset_padding a) = 1 \<Longrightarrow> length (asset_bytes a) = 40"
  by (simp_all add: asset_of_def asset_bytes_def addr_at_def u32_at_def u8_at_def bytes_at_def drop_append)

lemma interest_roundtrip [simp]: "interest_of (interest_bytes p) = p" "length (interest_bytes p) = 64"
  by (simp_all add: interest_of_def interest_bytes_def u64_at_def drop_append)

lemma concat_chunk:
  assumes "\<forall>x \<in> set xs. length (f x) = n" "i < length xs"
  shows "take n (drop (n * i) (concat (map f xs) @ ys)) = f (xs ! i)"
  using assms
proof (induction xs arbitrary: i)
  case (Cons x xs)
  then show ?case by (cases i) (simp_all add: drop_append)
qed simp

lemma concat_length: "\<forall>x \<in> set xs. length (f x) = n \<Longrightarrow> length (concat (map f xs)) = n * length xs"
  by (induction xs) simp_all

lemma compound_config_roundtrip [simp]:
  assumes "compound_wf c"
  shows "compound_config_of (compound_config_bytes c) = c" "length (compound_config_bytes c) = 752"
proof -
  let ?a = "concat (map asset_bytes (assets c))"
  have chunks: "\<forall>x \<in> set (assets c). length (asset_bytes x) = 40" and n: "length (assets c) = 15" and pad: "length (cc_padding c) = 6"
    using assms by (auto simp: compound_wf_def)
  have la: "length ?a = 600" using concat_length[OF chunks] n by simp
  show "length (compound_config_bytes c) = 752" by (simp add: compound_config_bytes_def la pad)
  have one: "asset_of (bytes_at (72 + 40 * i) 40 (compound_config_bytes c)) = assets c ! i" if "i < 15" for i
  proof -
    have "drop (72 + 40 * i) (compound_config_bytes c) = drop (40 * i) (drop 72 (compound_config_bytes c))" by (simp add: add.commute)
    also have "drop 72 (compound_config_bytes c) = ?a @ [active_asset_count c, storefront_discount c] @ cc_padding c @
        le_bytes 8 (config_updated_block c) @ interest_bytes (interest c)"
      by (simp add: compound_config_bytes_def drop_append)
    finally have "bytes_at (72 + 40 * i) 40 (compound_config_bytes c) = asset_bytes (assets c ! i)"
      using concat_chunk[OF chunks, of i] that n by (simp add: bytes_at_def)
    moreover have "length (asset_padding (assets c ! i)) = 1" using assms that by (simp add: compound_wf_def)
    ultimately show ?thesis by simp
  qed
  have as: "map (\<lambda>i. asset_of (bytes_at (72 + 40 * i) 40 (compound_config_bytes c))) [0..<15] = assets c"
    using one n by (intro nth_equalityI) simp_all
  have "drop 688 (compound_config_bytes c) = interest_bytes (interest c)" by (simp add: compound_config_bytes_def drop_append la pad)
  then show "compound_config_of (compound_config_bytes c) = c" unfolding compound_config_of_def as
    by (simp add: compound_config_bytes_def addr_at_def u64_at_def u8_at_def bytes_at_def drop_append la pad)
qed

section \<open>The indices are never created\<close>

text \<open>A program that does not change what the transaction sees behind a key of its contract.\<close>

definition leaves :: "('t, 'r) exec_env \<Rightarrow> InvariantKey \<Rightarrow> ('r, 'a) exec \<Rightarrow> bool" where
  "leaves env key m \<longleftrightarrow> (\<forall>st x st'. m st = Ret (x, st') \<longrightarrow> okey st' = okey st \<and> view env st' (okey st key) = view env st (okey st key))"

lemma leavesI: "(\<And>st x st'. m st = Ret (x, st') \<Longrightarrow> okey st' = okey st \<and> view env st' (okey st key) = view env st (okey st key)) \<Longrightarrow> leaves env key m"
  by (auto simp: leaves_def)

lemma leavesD: "leaves env key m \<Longrightarrow> m st = Ret (x, st') \<Longrightarrow> okey st' = okey st \<and> view env st' (okey st key) = view env st (okey st key)"
  by (auto simp: leaves_def)

lemma leaves_sbind: "leaves env key m \<Longrightarrow> (\<And>x. leaves env key (f x)) \<Longrightarrow> leaves env key (sbind m f)"
  by (auto simp: leaves_def returns) metis+

lemma leaves_basic: "leaves env key (sret x)" "leaves env key sabort" "leaves env key no_method"
  by (auto intro!: leavesI simp: returns no_method_def)

lemma leaves_choice: "(b \<Longrightarrow> leaves env key m) \<Longrightarrow> (\<not> b \<Longrightarrow> leaves env key m') \<Longrightarrow> leaves env key (if b then m else m')"
  by simp

lemma leaves_reads:
  "leaves env key (sdk_get_raw_memory env junk k n)" "leaves env key (sdk_has_key env k)" "leaves env key sdk_get_block_number"
  "leaves env key sdk_get_msg_sender" "leaves env key (sdk_hash env bs)"
  by (auto intro!: leavesI simp: sdk_get_raw_memory_def raw_memory_read_def sdk_has_key_def returns
      dest: sdk_get_msg_sender_Ret split: option.splits ObjectBody.splits)

lemma leaves_calldata: "leaves env key (sdk_get_calldata junk sz)"
  unfolding sdk_get_calldata_def calldata_slice_def
  by (rule leaves_sbind[OF leavesI leaves_basic(1)])
    (auto simp: sctx_def slift_def returns outcome_simps Let_def split: if_splits)

lemma leaves_writes:
  assumes "k \<noteq> key"
  shows "leaves env key (sdk_int64_set_add env k v d)" "leaves env key (sdk_set_raw_memory env k bs)" "leaves env key (sdk_int64_add env k d)"
proof -
  show "leaves env key (sdk_int64_set_add env k v d)"
    using assms by (intro leavesI) (auto dest!: sdk_int64_set_add_Ret)
  show "leaves env key (sdk_set_raw_memory env k bs)"
    using assms set_raw_memory_stored[of env k bs] by (intro leavesI) (auto simp: okey_def fun_eq_iff)
  show "leaves env key (sdk_int64_add env k d)"
  proof (rule leavesI)
    fix st x st' assume "sdk_int64_add env k d st = Ret (x, st')"
    then have r: "sbind (charge gas_nonnegative_int64_add) (\<lambda>_. sbind (own_key k) (\<lambda>k. proxy_write (nonnegative_int64_add (env_ledger env) k d))) st = Ret (x, st')"
      by (simp add: sdk_int64_add_def)
    let ?s = "spend gas_nonnegative_int64_add st"
    from r obtain sp where sp: "nonnegative_int64_add (env_ledger env) (okey st k) d (storage_proxy (ctx ?s)) = Ret sp"
      "st' = ?s\<lparr>ctx := (ctx ?s)\<lparr>storage_proxy := sp\<rparr>\<rparr>"
      by (auto simp: returns proxy_write_def outcome_simps)
    from int64_add_Ret[OF sp(1)] obtain b e where
      "apply_to_key (env_ledger env) (okey st k) (NONNEGATIVE_INT64_SET_ADD b d) e (storage_proxy (ctx ?s)) = Ret sp" by blast
    then have "proxy_write (apply_to_key (env_ledger env) (okey st k) (NONNEGATIVE_INT64_SET_ADD b d) e) ?s = Ret ((), st')"
      by (simp add: proxy_write_def sp(2))
    then show "okey st' = okey st \<and> view env st' (okey st key) = view env st (okey st key)" using assms by (auto simp: returns)
  qed
qed

lemma leaves_adjust_cap: "hash_opaque env [i] \<noteq> key \<Longrightarrow> leaves env key (adjust_supply_cap env i a)"
  by (rule leavesI) (auto simp: adjust_supply_cap_def asset_supply_cap_addr_def returns dest!: leavesD[OF leaves_writes(3)])

lemmas leaves_rules = leaves_sbind leaves_basic leaves_choice leaves_reads leaves_calldata leaves_writes

lemma config_calls_leave:
  "leaves env index_addr (compound_get_config env junk)" "leaves env index_addr (compound_write_config env c)"
  "leaves env index_addr (require_administrator c)" "leaves env index_addr (semaphore_acquire env n compound_semaphore_key)"
  by (auto simp: compound_get_config_def compound_write_config_def require_administrator_def semaphore_acquire_def
      compound_config_addr_def index_addr_def compound_semaphore_key_def make_static_key_inject intro!: leaves_rules)

lemma refresh_needs_indices:
  "proxy_get (view env st (okey st index_addr)) = None \<Longrightarrow> refresh_compound_indices env junk invoke c st \<noteq> Ret (x, st')"
  by (auto simp: refresh_compound_indices_def sdk_get_raw_memory_def raw_memory_read_def returns)

lemma user_method_blocked:
  assumes "proxy_get (view env st (okey st index_addr)) = None"
  shows "user_method env junk invoke sz f st \<noteq> Ret (x, st')"
proof
  assume "user_method env junk invoke sz f st = Ret (x, st')"
  then obtain c s1 cfg s2 ix s3 where r: "sdk_get_calldata junk sz st = Ret (c, s1)" "compound_get_config env junk s1 = Ret (cfg, s2)"
    "refresh_compound_indices env junk invoke cfg s2 = Ret (ix, s3)" by (auto simp: user_method_def returns)
  from leavesD[OF leaves_calldata[where env = env and key = index_addr] r(1)] leavesD[OF config_calls_leave(1) r(2)] have
    "okey s2 = okey st" "view env s2 (okey st index_addr) = view env st (okey st index_addr)" by auto
  with refresh_needs_indices[of env s2] r(3) assms show False by auto
qed

lemma admin_methods_leave:
  assumes "\<forall>i. hash_opaque env [i] \<noteq> index_addr"
  shows "leaves env index_addr (compound_initialize env junk)" "leaves env index_addr (compound_admin env junk)"
    "leaves env index_addr (list_asset env junk)" "leaves env index_addr (update_asset_params env junk)"
    "leaves env index_addr (pub_update_prices env junk)" "leaves env index_addr (pub_adjust_supply_cap env junk)"
  using assms
  by (auto simp: compound_initialize_def compound_admin_def list_asset_def update_asset_params_def pub_update_prices_def pub_adjust_supply_cap_def
      Let_def sdk_int64_set_def base_supply_cap_addr_def base_borrow_cap_addr_def index_addr_def compound_config_addr_def make_static_key_inject
      intro!: leaves_rules config_calls_leave[unfolded index_addr_def] leaves_adjust_cap)

text \<open>
  C40: the lending contract can never be used. No method creates the interest indices: while they are absent, only the methods of the
  administrator return, and the indices are absent afterwards.
\<close>

theorem compound_unusable:
  assumes r: "compound_code env junk invoke m st = Ret (x, st')"
    and absent: "proxy_get (view env st (okey st index_addr)) = None"
    and keys: "\<forall>i. hash_opaque env [i] \<noteq> index_addr"
  shows "m < 6 \<and> proxy_get (view env st' (okey st' index_addr)) = None"
proof -
  have m: "m \<in> {0, 1, 2, 3, 4, 5}" and l: "leaves env index_addr (compound_code env junk invoke m)"
    using r user_method_blocked[OF absent] admin_methods_leave[OF keys, of junk] by (auto simp: compound_code_def no_method_def returns split: if_splits)
  from leavesD[OF l r] absent m show ?thesis by auto
qed

text \<open>Were the indices there, the target of the reserve would always be the least integer: the two bounds are exchanged.\<close>

lemma reserve_bounds_least: "reserve_bounds b = - (2 ^ 63)"
proof -
  have "sint (2 ^ 63 - 1 :: int128) = 2 ^ 63 - 1" by simp
  then show ?thesis by (auto simp: reserve_bounds_def Let_def)
qed

section \<open>A sample\<close>

text \<open>Account 5 administers the contract at address 6 and raises a supply cap.\<close>

definition compound_sample :: compound_config where
  "compound_sample = \<lparr>base_token_addr = 7, administrator = 5, reserve_target = 0,
     assets = replicate 15 \<lparr>asset_addr = 8, asset_price = 0, borrowing_frac = 0, liquidity_sell_frac = 0, liquidity_collateral_frac = 0, asset_padding = [0]\<rparr>,
     active_asset_count = 0, storefront_discount = 255, cc_padding = replicate 6 0, config_updated_block = 1,
     interest = \<lparr>supplyRateBase = 0, supplyRateLow = 0, supplyRateHigh = 0, supplyKink = 0, borrowRateBase = 0, borrowRateLow = 0,
       borrowRateHigh = 0, borrowKink = 0\<rparr>\<rparr>"

definition compound_env :: "((Address \<times> metered) list, nat) exec_env" where
  "compound_env = sample_env\<lparr>hash_opaque := (\<lambda>_. make_static_key 9 9 9 9), env_ledger := (\<lambda>k. if k = address_and_key 6 compound_config_addr
     then Some \<lparr>body = raw_memory_storage (compound_config_bytes compound_sample), escrowed_fee = 0\<rparr> else None)\<rparr>"

lemma compound_env_simps [simp]: "hash_opaque compound_env bs = make_static_key 9 9 9 9"
  "env_ledger compound_env k = (if k = address_and_key 6 compound_config_addr
     then Some \<lparr>body = raw_memory_storage (compound_config_bytes compound_sample), escrowed_fee = 0\<rparr> else None)"
  by (simp_all add: compound_env_def)

definition cap_call :: MethodInvocation where
  "cap_call = \<lparr>mi_addr = 6, method_name = 5, calldata = replicate 8 2 @ le_bytes 8 (10 :: int64)\<rparr>"

lemma compound_sample_run:
  "\<exists>st'. compound_code compound_env (\<lambda>n. replicate n 0) (\<lambda>_. sret ()) 5 (enter cap_call (frame_state [5] 3)) = Ret ((), st')"
proof -
  have wf: "compound_wf compound_sample" "administrator compound_sample = 5" by (simp_all add: compound_wf_def compound_sample_def)
  have c: "mi_addr cap_call = 6" "length (calldata cap_call) = 16" by (simp_all add: cap_call_def)
  have k: "make_static_key 9 9 9 9 \<noteq> compound_config_addr" by (simp add: compound_config_addr_def make_static_key_inject)
  show ?thesis
    by (simp add: compound_code_def pub_adjust_supply_cap_def compound_get_config_def require_administrator_def adjust_supply_cap_def
        asset_supply_cap_addr_def contract_run wf c k okey_def i64_at_def cap_call_def)
qed

theorem compound_unusable_witness:
  "\<exists>st'. compound_code compound_env (\<lambda>n. replicate n 0) (\<lambda>_. sret ()) 5 (enter cap_call (frame_state [5] 3)) = Ret ((), st') \<and>
     proxy_get (view compound_env st' (okey st' index_addr)) = None"
proof -
  obtain st' where r: "compound_code compound_env (\<lambda>n. replicate n 0) (\<lambda>_. sret ()) 5 (enter cap_call (frame_state [5] 3)) = Ret ((), st')"
    using compound_sample_run by blast
  have "index_addr \<noteq> compound_config_addr" "make_static_key 9 9 9 9 \<noteq> index_addr"
    by (simp_all add: index_addr_def compound_config_addr_def make_static_key_inject)
  with compound_unusable[OF r] r show ?thesis by (auto simp: okey_def)
qed

end
